(* ===== verification/Prelude.thy ===== *)
theory Prelude
  imports Main "HOL-Library.Word" "HOL-Library.Sublist"
begin

text \<open>
  What every component theory shares: the machine integers of the Go code, errors and panics
  as values of a sum type, checked slice access, and the lemmas on lists and sums that the
  component proofs use through the simplifier.
\<close>

named_theorems go_defs \<open>definitions of the small operations that proofs unfold together\<close>

section \<open>Machine integers\<close>

type_synonym u16 = "16 word"
type_synonym u32 = "32 word"
type_synonym u64 = "64 word"

lemma unat_u32: "unat (w :: u32) < 2 ^ 32"
  using unsigned_less [of w, where 'a = nat] by simp

section \<open>Errors, panics and the fatal exit\<close>

text \<open>
  A Go function that returns an \<open>error\<close>, that panics, or that ends the process through
  \<open>logger.Fatal\<close> is a function into \<open>go_error + 'a\<close>; the three ways of failing
  are kept apart.
\<close>

datatype go_error = Error string | Panic string | Fatal string

type_synonym 'a go_result = "go_error + 'a"

fun bind_result :: "'a go_result \<Rightarrow> ('a \<Rightarrow> 'b go_result) \<Rightarrow> 'b go_result" where
  "bind_result (Inl e) f = Inl e"
| "bind_result (Inr a) f = f a"

lemma bind_result_Inr_iff [simp]:
  "bind_result m f = Inr b \<longleftrightarrow> (\<exists>a. m = Inr a \<and> f a = Inr b)"
  by (cases m) auto

lemma bind_result_Inl_iff:
  "bind_result m f = Inl e \<longleftrightarrow> m = Inl e \<or> (\<exists>a. m = Inr a \<and> f a = Inl e)"
  by (cases m) auto

lemma bind_result_Inr_id [simp]: "bind_result m Inr = m"
  by (cases m) auto

lemma bind_result_assoc: "bind_result (bind_result m f) g = bind_result m (\<lambda>a. bind_result (f a) g)"
  by (cases m) auto

text \<open>\<open>fmt.Errorf("...: %w", err)\<close>: text in front of an error; a panic passes.\<close>

fun wrap_err :: "string \<Rightarrow> go_error \<Rightarrow> go_error" where
  "wrap_err msg (Error m) = Error (msg @ m)"
| "wrap_err msg e = e"

definition with_text :: "string \<Rightarrow> 'a go_result \<Rightarrow> 'a go_result" where
  "with_text t r = (case r of Inl e \<Rightarrow> Inl (wrap_err t e) | Inr x \<Rightarrow> Inr x)"

lemma with_text_Inr [simp]: "with_text t r = Inr x \<longleftrightarrow> r = Inr x" "with_text t (Inr x) = Inr x" "with_text t (Inl e) = Inl (wrap_err t e)"
  by (simp_all add: with_text_def split: sum.split)

text \<open>A call or a read through a nil pointer.\<close>

definition nil_panic :: go_error where
  "nil_panic = Panic ''runtime error: invalid memory address or nil pointer dereference''"

text \<open>Reading and writing a slice: out of range is the run-time panic of Go.\<close>

definition index_panic :: go_error where
  "index_panic = Panic ''runtime error: index out of range''"

definition slice_get :: "'a list \<Rightarrow> nat \<Rightarrow> 'a go_result" where
  "slice_get xs i = (if i < length xs then Inr (xs ! i) else Inl index_panic)"

definition slice_set :: "'a list \<Rightarrow> nat \<Rightarrow> 'a \<Rightarrow> 'a list go_result" where
  "slice_set xs i v = (if i < length xs then Inr (xs[i := v]) else Inl index_panic)"

lemma slice_get_in_range [simp]: "i < length xs \<Longrightarrow> slice_get xs i = Inr (xs ! i)"
  by (simp add: slice_get_def)

lemma slice_set_in_range [simp]: "i < length xs \<Longrightarrow> slice_set xs i v = Inr (xs[i := v])"
  by (simp add: slice_set_def)

section \<open>Decimal numbers\<close>

text \<open>\<open>strconv.FormatUint(n, 10)\<close>.\<close>

fun format_uint :: "nat \<Rightarrow> string" where
  "format_uint n = (if n < 10 then [char_of (48 + n)] else format_uint (n div 10) @ [char_of (48 + n mod 10)])"

declare format_uint.simps [simp del]

lemma format_uint_nonempty [simp]: "format_uint n \<noteq> []"
  by (subst format_uint.simps) simp

lemma format_uint_digits: "c \<in> set (format_uint n) \<Longrightarrow> (\<exists>d < 10. c = char_of (48 + d :: nat))"
proof (induction n rule: format_uint.induct)
  case (1 n)
  show ?case
  proof (cases "n < 10")
    case True
    with 1 show ?thesis by (auto simp: format_uint.simps [of n])
  next
    case False
    with 1 have "c \<in> set (format_uint (n div 10)) \<or> c = char_of (48 + n mod 10)"
      by (auto simp: format_uint.simps [of n])
    with 1(1) False show ?thesis by (metis mod_less_divisor zero_less_numeral)
  qed
qed

definition decimal_value :: "string \<Rightarrow> nat" where
  "decimal_value s = foldl (\<lambda>n c. 10 * n + (of_char c - 48)) 0 s"

lemma decimal_value_format [simp]: "decimal_value (format_uint n) = n"
proof (induction n rule: format_uint.induct)
  case (1 n)
  have digit: "d < 10 \<Longrightarrow> of_char (char_of (48 + d :: nat)) - 48 = (d :: nat)" for d by simp
  show ?case
  proof (cases "n < 10")
    case True
    then show ?thesis by (simp add: format_uint.simps [of n] decimal_value_def)
  next
    case False
    then have "decimal_value (format_uint n) = 10 * decimal_value (format_uint (n div 10)) + n mod 10"
      by (simp add: format_uint.simps [of n] decimal_value_def)
    then show ?thesis using 1 False by simp
  qed
qed

lemma format_uint_inj [simp]: "format_uint m = format_uint n \<longleftrightarrow> m = n"
  by (metis decimal_value_format)

lemma format_uint_range: "c \<in> set (format_uint n) \<Longrightarrow> 48 \<le> (of_char c :: nat) \<and> (of_char c :: nat) < 58"
  by (auto dest!: format_uint_digits)

lemma format_uint_no_char: "(of_char c :: nat) < 48 \<or> 58 \<le> (of_char c :: nat) \<Longrightarrow> c \<notin> set (format_uint n)"
  using format_uint_range by fastforce

section \<open>Lists\<close>

text \<open>The last separator of a text is determined when the field behind it does not contain it.\<close>

lemma last_field_unique: "c \<notin> set d \<Longrightarrow> c \<notin> set d' \<Longrightarrow> a @ c # d = a' @ c # d' \<longleftrightarrow> a = a' \<and> d = d'"
  by (auto simp: append_eq_append_conv2 Cons_eq_append_conv append_eq_Cons_conv)

text \<open>Appending a value that may be absent.\<close>

fun opt_list :: "'a option \<Rightarrow> 'a list" where
  "opt_list None = []"
| "opt_list (Some x) = [x]"

lemma set_opt_list [simp]: "set (opt_list x) = {y. x = Some y}"
  by (cases x) auto

text \<open>A list sorted by a key falls into the entries up to a bound and those above it.\<close>

lemma sorted_boundary:
  fixes key :: "'a \<Rightarrow> 'k::linorder"
  assumes "sorted (map key zs)"
  shows "\<exists>xs ys. zs = xs @ ys \<and> (\<forall>y \<in> set xs. key y \<le> key x) \<and> (\<forall>y \<in> set ys. key x < key y)"
  using assms
proof (induction zs)
  case (Cons z zs)
  show ?case
  proof (cases "key x < key z")
    case True
    then have "\<forall>y \<in> set (z # zs). key x < key y" using Cons.prems by force
    then show ?thesis by (metis append_Nil empty_iff list.set(1))
  next
    case False
    obtain xs ys where "zs = xs @ ys" "\<forall>y \<in> set xs. key y \<le> key x" "\<forall>y \<in> set ys. key x < key y"
      using Cons by auto
    then have "z # zs = (z # xs) @ ys" "\<forall>y \<in> set (z # xs). key y \<le> key x" using False by auto
    then show ?thesis using \<open>\<forall>y \<in> set ys. key x < key y\<close> by blast
  qed
qed simp

end
