(* ===== verification/Keymap.thy ===== *)
theory Keymap
  imports Prelude
begin

text \<open>
  \<open>keymap/key_map.go\<close> and \<open>keymap/key_map_arena.go\<close>: the map from column names
  to column indexes that every tuple of one relation version shares, and the arena that holds
  one such map per table name and version.
\<close>

section \<open>KeyMap\<close>

record KeyMap =
  keysMap :: "string \<rightharpoonup> nat"
  keysArr :: "string list"
  km_len :: nat

text \<open>The loop of \<open>New\<close> from position \<open>i\<close>: a later duplicate overwrites an earlier one.\<close>

fun km_fill :: "nat \<Rightarrow> string list \<Rightarrow> (string \<rightharpoonup> nat) \<Rightarrow> string list \<Rightarrow> (string \<rightharpoonup> nat) \<times> string list" where
  "km_fill i [] m arr = (m, arr)"
| "km_fill i (key # keys) m arr = km_fill (Suc i) keys (m(key \<mapsto> i)) (arr[i := key])"

definition km_New :: "string list \<Rightarrow> KeyMap" where
  "km_New keys =
     (let (m, arr) = km_fill 0 keys Map.empty (replicate (length keys) [])
      in \<lparr>keysMap = m, keysArr = arr, km_len = length keys\<rparr>)"

definition GetIndex :: "KeyMap \<Rightarrow> string \<Rightarrow> int" where
  "GetIndex km key = (case keysMap km key of None \<Rightarrow> -1 | Some index \<Rightarrow> int index)"

definition Len :: "KeyMap \<Rightarrow> nat" where
  "Len km = km_len km"

definition Keys :: "KeyMap \<Rightarrow> string list" where
  "Keys km = keysArr km"

subsection \<open>Well-formed key maps\<close>

text \<open>What \<open>New\<close> establishes: every stored index is in range and points at its key.\<close>

definition km_wf :: "KeyMap \<Rightarrow> bool" where
  "km_wf km \<longleftrightarrow> km_len km = length (keysArr km) \<and> dom (keysMap km) = set (keysArr km) \<and>
     (\<forall>key i. keysMap km key = Some i \<longrightarrow>
        i < length (keysArr km) \<and> keysArr km ! i = key \<and>
        (\<forall>j < length (keysArr km). keysArr km ! j = key \<longrightarrow> j \<le> i))"

lemma km_fill_arr:
  "i + length keys = length arr \<Longrightarrow> snd (km_fill i keys m arr) = take i arr @ keys"
  by (induction keys arbitrary: i m arr) (auto simp: take_Suc_conv_app_nth list_update_beyond)

lemma km_fill_dom: "dom (fst (km_fill i keys m arr)) = dom m \<union> set keys"
  by (induction keys arbitrary: i m arr) auto

lemma km_fill_other: "key \<notin> set keys \<Longrightarrow> fst (km_fill i keys m arr) key = m key"
  by (induction keys arbitrary: i m arr) auto

lemma km_fill_last:
  "fst (km_fill i keys m arr) key = Some n \<Longrightarrow> key \<in> set keys \<Longrightarrow>
     i \<le> n \<and> n < i + length keys \<and> keys ! (n - i) = key \<and>
     (\<forall>j < length keys. keys ! j = key \<longrightarrow> i + j \<le> n)"
proof (induction keys arbitrary: i m arr)
  case (Cons k keys)
  show ?case
  proof (cases "key \<in> set keys")
    case True
    have *: "Suc i \<le> n" "n < Suc i + length keys" "keys ! (n - Suc i) = key"
      "\<And>j. j < length keys \<Longrightarrow> keys ! j = key \<Longrightarrow> Suc i + j \<le> n"
      using Cons.IH [OF Cons.prems(1) [unfolded km_fill.simps] True] by auto
    moreover have "i + j \<le> n" if "j < Suc (length keys)" "(k # keys) ! j = key" for j
      using that *(1,4) by (cases j) auto
    ultimately show ?thesis by (auto simp: nth_Cons')
  next
    case False
    with Cons.prems have "n = i" "k = key" by (auto simp: km_fill_other)
    moreover have "j = 0" if "j < Suc (length keys)" "(k # keys) ! j = key" for j
      using that False by (cases j) auto
    ultimately show ?thesis by auto
  qed
qed simp

lemma Keys_New [simp]: "Keys (km_New keys) = keys"
  using km_fill_arr [of 0 keys "replicate (length keys) []" Map.empty]
  by (simp add: km_New_def Keys_def case_prod_unfold)

lemma Len_New [simp]: "Len (km_New keys) = length keys"
  by (simp add: km_New_def Len_def case_prod_unfold Let_def)

lemma km_wf_New [simp]: "km_wf (km_New keys)"
proof -
  obtain m arr where eq: "km_fill 0 keys Map.empty (replicate (length keys) []) = (m, arr)"
    by fastforce
  have "arr = keys"
    using km_fill_arr [of 0 keys "replicate (length keys) []" Map.empty] eq by simp
  moreover have "dom m = set keys"
    using km_fill_dom [of 0 keys Map.empty "replicate (length keys) []"] eq by simp
  moreover have "i < length keys \<and> keys ! i = key \<and> (\<forall>j < length keys. keys ! j = key \<longrightarrow> j \<le> i)"
    if "m key = Some i" for key i
  proof -
    have "key \<in> set keys" using that \<open>dom m = set keys\<close> by auto
    then show ?thesis
      using km_fill_last [of 0 keys Map.empty "replicate (length keys) []" key i] eq that by simp
  qed
  ultimately show ?thesis by (simp add: km_wf_def km_New_def eq)
qed

lemma GetIndex_neg_iff: "km_wf km \<Longrightarrow> GetIndex km k < 0 \<longleftrightarrow> k \<notin> set (Keys km)"
  by (auto simp: GetIndex_def km_wf_def Keys_def split: option.splits)

lemma GetIndex_nonneg:
  "km_wf km \<Longrightarrow> 0 \<le> GetIndex km k \<Longrightarrow>
     nat (GetIndex km k) < Len km \<and> Keys km ! nat (GetIndex km k) = k \<and> keysMap km k = Some (nat (GetIndex km k))"
  by (auto simp: GetIndex_def km_wf_def Keys_def Len_def split: option.splits)

lemma keysMap_inj: "km_wf km \<Longrightarrow> keysMap km k = Some i \<Longrightarrow> keysMap km k' = Some i \<Longrightarrow> k = k'"
  by (metis km_wf_def)

lemma GetIndex_inj:
  "km_wf km \<Longrightarrow> 0 \<le> GetIndex km k \<Longrightarrow> GetIndex km k = GetIndex km k' \<Longrightarrow> k = k'"
  by (metis GetIndex_nonneg)

lemma GetIndex_distinct:
  assumes "km_wf km" "distinct (Keys km)" "i < Len km"
  shows "GetIndex km (Keys km ! i) = int i"
proof -
  have "i < length (Keys km)" using assms by (simp add: km_wf_def Len_def Keys_def)
  then have "Keys km ! i \<in> set (Keys km)" by simp
  then have "0 \<le> GetIndex km (Keys km ! i)" using GetIndex_neg_iff [OF assms(1)] by force
  then have "nat (GetIndex km (Keys km ! i)) < Len km"
    "Keys km ! nat (GetIndex km (Keys km ! i)) = Keys km ! i"
    using GetIndex_nonneg [OF assms(1)] by auto
  moreover have "Len km = length (Keys km)" using assms by (simp add: km_wf_def Len_def Keys_def)
  ultimately have "nat (GetIndex km (Keys km ! i)) = i"
    using assms(2) \<open>i < length (Keys km)\<close> by (simp add: nth_eq_iff_index_eq)
  then show ?thesis using \<open>0 \<le> GetIndex km (Keys km ! i)\<close> by simp
qed

section \<open>Arena\<close>

record Arena =
  allMaps :: "string \<times> string \<rightharpoonup> KeyMap"

definition NewArena :: Arena where
  "NewArena = \<lparr>allMaps = Map.empty\<rparr>"

definition arena_Add :: "Arena \<Rightarrow> string \<Rightarrow> string \<Rightarrow> KeyMap \<Rightarrow> Arena" where
  "arena_Add a name version km = a\<lparr>allMaps := (allMaps a)((name, version) \<mapsto> km)\<rparr>"

text \<open>A missing entry is Go's nil pointer.\<close>

definition arena_Get :: "Arena \<Rightarrow> string \<Rightarrow> string \<Rightarrow> KeyMap option" where
  "arena_Get a name version = allMaps a (name, version)"

lemma arena_Get_New [simp]: "arena_Get NewArena name version = None"
  by (simp add: arena_Get_def NewArena_def)

lemma arena_Get_Add:
  "arena_Get (arena_Add a n v km) n' v' = (if n = n' \<and> v = v' then Some km else arena_Get a n' v')"
  by (simp add: arena_Get_def arena_Add_def)

end
