(* ===== verification/Orderedmap.thy ===== *)
theory Orderedmap
  imports Keymap
begin

text \<open>
  \<open>orderedmap/ordered_map.go\<close>: the tuple type of the program, a map over the columns of
  one \<open>KeyMap\<close> that iterates and prints in column order. A Go value of type \<open>any\<close>
  is \<open>'v option\<close>, with \<open>None\<close> for nil. The JSON encoder is third-party code and is
  the parameter \<open>enc\<close>: what \<open>encoder.EncodeInto\<close> appends for a value, or its error.
\<close>

section \<open>State and operations\<close>

record 'v OrderedMap =
  om_values :: "'v option list"
  om_set :: "bool list"
  om_size :: u32
  om_keyMap :: KeyMap

definition om_New :: "KeyMap \<Rightarrow> 'v OrderedMap" where
  "om_New km = \<lparr>om_values = replicate (Len km) None, om_set = replicate (Len km) False,
     om_size = 0, om_keyMap = km\<rparr>"

definition om_Set :: "'v OrderedMap \<Rightarrow> string \<Rightarrow> 'v option \<Rightarrow> 'v OrderedMap go_result" where
  "om_Set om k v =
     (let index = GetIndex (om_keyMap om) k in
      if index < 0 then Inl (Panic ''(Set) key not found in keymap'')
      else if int (Len (om_keyMap om)) \<le> index then Inl (Panic ''(Set) key index out of range'')
      else bind_result (slice_get (om_set om) (nat index)) (\<lambda>isset.
        bind_result
          (if isset then Inr om
           else bind_result (slice_set (om_set om) (nat index) True) (\<lambda>st.
             Inr (om\<lparr>om_set := st, om_size := om_size om + 1\<rparr>)))
          (\<lambda>om'. bind_result (slice_set (om_values om') (nat index) v) (\<lambda>vals.
             Inr (om'\<lparr>om_values := vals\<rparr>)))))"

definition om_Get :: "'v OrderedMap \<Rightarrow> string \<Rightarrow> ('v option \<times> bool) go_result" where
  "om_Get om k =
     (let index = GetIndex (om_keyMap om) k in
      if index < 0 then Inr (None, False)
      else bind_result (slice_get (om_set om) (nat index)) (\<lambda>isset.
        if \<not> isset then Inr (None, False)
        else bind_result (slice_get (om_values om) (nat index)) (\<lambda>v. Inr (v, True))))"

definition om_GetValue :: "'v OrderedMap \<Rightarrow> string \<Rightarrow> 'v option go_result" where
  "om_GetValue om k =
     (let index = GetIndex (om_keyMap om) k in
      if index < 0 then Inl (Panic ''(Get) key not found in keymap'')
      else bind_result (slice_get (om_set om) (nat index)) (\<lambda>isset.
        if \<not> isset then Inr None
        else slice_get (om_values om) (nat index)))"

definition om_Size :: "'v OrderedMap \<Rightarrow> u32" where
  "om_Size om = om_size om"

text \<open>
  \<open>Iter\<close> yields the set columns in key order; the loop from index \<open>i\<close>. The flag and
  value arrays have one cell per key (\<open>om_wf\<close> below), so the reads of the loops are in range.
\<close>

fun om_iter_from :: "'v OrderedMap \<Rightarrow> nat \<Rightarrow> string list \<Rightarrow> (string \<times> 'v option) list" where
  "om_iter_from om i [] = []"
| "om_iter_from om i (key # keys) =
     (if \<not> om_set om ! i then om_iter_from om (Suc i) keys
      else (key, om_values om ! i) # om_iter_from om (Suc i) keys)"

definition om_Iter :: "'v OrderedMap \<Rightarrow> (string \<times> 'v option) list" where
  "om_Iter om = om_iter_from om 0 (Keys (om_keyMap om))"

text \<open>\<open>Clear\<close>: the loop over the set flags, then the size.\<close>

fun om_clear_from :: "nat \<Rightarrow> bool list \<Rightarrow> 'v OrderedMap \<Rightarrow> 'v OrderedMap" where
  "om_clear_from i [] om = om"
| "om_clear_from i (b # bs) om =
     om_clear_from (Suc i) bs
       (if b then om\<lparr>om_set := (om_set om)[i := False], om_values := (om_values om)[i := None]\<rparr> else om)"

definition om_Clear :: "'v OrderedMap \<Rightarrow> 'v OrderedMap" where
  "om_Clear om = (om_clear_from 0 (om_set om) om)\<lparr>om_size := 0\<rparr>"

section \<open>Printing as JSON\<close>

text \<open>One \<open>"key":value\<close> pair appended to the buffer, with the comma of the loop before it.\<close>

definition append_pair ::
  "('v option \<Rightarrow> string go_result) \<Rightarrow> (string \<Rightarrow> string go_result) \<Rightarrow> string \<times> bool \<Rightarrow>
   string \<times> 'v option \<Rightarrow> (string \<times> bool) go_result" where
  "append_pair enc enck st kv =
     (let buf = (if snd st then fst st @ '','' else fst st) in
      bind_result (enck (fst kv)) (\<lambda>k.
        bind_result (enc (snd kv)) (\<lambda>v. Inr (buf @ k @ '':'' @ v, True))))"

fun marshal_from ::
  "('v option \<Rightarrow> string go_result) \<Rightarrow> (string \<Rightarrow> string go_result) \<Rightarrow> 'v OrderedMap \<Rightarrow> nat \<Rightarrow>
   string list \<Rightarrow> string \<times> bool \<Rightarrow> (string \<times> bool) go_result" where
  "marshal_from enc enck om i [] st = Inr st"
| "marshal_from enc enck om i (key # keys) st =
     (if \<not> om_set om ! i then marshal_from enc enck om (Suc i) keys st
      else bind_result (append_pair enc enck st (key, om_values om ! i))
             (marshal_from enc enck om (Suc i) keys))"

definition MarshalJSON ::
  "('v option \<Rightarrow> string go_result) \<Rightarrow> (string \<Rightarrow> string go_result) \<Rightarrow> 'v OrderedMap \<Rightarrow> string go_result" where
  "MarshalJSON enc enck om =
     bind_result (marshal_from enc enck om 0 (Keys (om_keyMap om)) (''{'', False))
       (\<lambda>st. Inr (fst st @ ''}''))"

fun marshal_keys ::
  "('v option \<Rightarrow> string go_result) \<Rightarrow> (string \<Rightarrow> string go_result) \<Rightarrow> 'v OrderedMap \<Rightarrow>
   string list \<Rightarrow> string \<times> bool \<Rightarrow> (string \<times> bool) go_result" where
  "marshal_keys enc enck om [] st = Inr st"
| "marshal_keys enc enck om (key # keys) st =
     (let keyIndex = GetIndex (om_keyMap om) key in
      if keyIndex < 0 then marshal_keys enc enck om keys st
      else if \<not> om_set om ! nat keyIndex then marshal_keys enc enck om keys st
      else bind_result (append_pair enc enck st (key, om_values om ! nat keyIndex))
             (marshal_keys enc enck om keys))"

fun marshal_custom ::
  "('v option \<Rightarrow> string go_result) \<Rightarrow> (string \<Rightarrow> string go_result) \<Rightarrow>
   (string \<times> 'v option) list \<Rightarrow> string \<times> bool \<Rightarrow> (string \<times> bool) go_result" where
  "marshal_custom enc enck [] st = Inr st"
| "marshal_custom enc enck (vp # vps) st =
     bind_result (append_pair enc enck st vp) (marshal_custom enc enck vps)"

text \<open>The argument \<open>keys\<close> is \<open>None\<close> for the nil slice, which selects all keys.\<close>

definition CustomMarshalJSON ::
  "('v option \<Rightarrow> string go_result) \<Rightarrow> (string \<Rightarrow> string go_result) \<Rightarrow> 'v OrderedMap \<Rightarrow>
   string list option \<Rightarrow> (string \<times> 'v option) list \<Rightarrow> string go_result" where
  "CustomMarshalJSON enc enck om keys custom =
     (let ks = (case keys of None \<Rightarrow> Keys (om_keyMap om) | Some ks \<Rightarrow> ks) in
      bind_result (marshal_keys enc enck om ks (''{'', False)) (\<lambda>st.
        bind_result (marshal_custom enc enck custom st) (\<lambda>st'. Inr (fst st' @ ''}''))))"


section \<open>The invariant\<close>

definition om_wf :: "'v OrderedMap \<Rightarrow> bool" where
  "om_wf om \<longleftrightarrow> km_wf (om_keyMap om) \<and> Len (om_keyMap om) < 2 ^ 32 \<and>
     length (om_values om) = Len (om_keyMap om) \<and> length (om_set om) = Len (om_keyMap om) \<and>
     unat (om_size om) = length (filter id (om_set om)) \<and>
     (\<forall>i < length (om_set om). \<not> om_set om ! i \<longrightarrow> om_values om ! i = None)"

text \<open>What a tuple holds for a column: nothing, or a value that may be nil.\<close>

definition om_lookup :: "'v OrderedMap \<Rightarrow> string \<rightharpoonup> 'v option" where
  "om_lookup om k = (case keysMap (om_keyMap om) k of None \<Rightarrow> None
     | Some i \<Rightarrow> if om_set om ! i then Some (om_values om ! i) else None)"

lemma om_wfD:
  assumes "om_wf om"
  shows "km_wf (om_keyMap om)" "length (om_values om) = Len (om_keyMap om)"
    "length (om_set om) = Len (om_keyMap om)" "Len (om_keyMap om) = length (Keys (om_keyMap om))"
  using assms by (auto simp: om_wf_def km_wf_def Len_def Keys_def)

lemma om_index_cases:
  assumes "om_wf om"
  obtains (absent) "keysMap (om_keyMap om) k = None" "GetIndex (om_keyMap om) k = -1"
    | (present) i where "keysMap (om_keyMap om) k = Some i" "GetIndex (om_keyMap om) k = int i"
        "i < Len (om_keyMap om)" "i < length (om_set om)" "i < length (om_values om)"
proof (cases "keysMap (om_keyMap om) k")
  case None
  then show ?thesis by (simp add: absent GetIndex_def)
next
  case (Some i)
  then have "i < Len (om_keyMap om)" using om_wfD(1) [OF assms] by (auto simp: km_wf_def Len_def)
  then show ?thesis using Some om_wfD [OF assms] by (simp add: present GetIndex_def)
qed

lemma om_wf_New [simp]: "km_wf km \<Longrightarrow> Len km < 2 ^ 32 \<Longrightarrow> om_wf (om_New km)"
  by (simp add: om_wf_def om_New_def)

lemma om_keyMap_New [simp]: "om_keyMap (om_New km) = km"
  by (simp add: om_New_def)

lemma om_lookup_New [simp]: "km_wf km \<Longrightarrow> om_lookup (om_New km) k = None"
  by (auto simp: om_lookup_def om_New_def km_wf_def Len_def split: option.splits)

lemma om_lookup_dom: "om_wf om \<Longrightarrow> om_lookup om k = Some v \<Longrightarrow> k \<in> set (Keys (om_keyMap om))"
  by (auto simp: om_lookup_def om_wf_def km_wf_def Keys_def split: option.splits if_splits)

subsection \<open>Lookup\<close>

lemma om_Get_lookup:
  assumes "om_wf om"
  shows "om_Get om k = Inr (case om_lookup om k of None \<Rightarrow> (None, False) | Some v \<Rightarrow> (v, True))"
  using assms by (cases rule: om_index_cases [where k = k]) (auto simp: om_Get_def om_lookup_def)

lemma om_GetValue_lookup:
  assumes "om_wf om" "k \<in> set (Keys (om_keyMap om))"
  shows "om_GetValue om k = Inr (case om_lookup om k of None \<Rightarrow> None | Some v \<Rightarrow> v)"
  using assms(1)
proof (cases rule: om_index_cases [where k = k])
  case absent
  then show ?thesis using assms om_wfD(1) [OF assms(1)] by (auto simp: km_wf_def Keys_def)
next
  case present
  then show ?thesis by (auto simp: om_GetValue_def om_lookup_def)
qed

subsection \<open>Update\<close>

lemma count_set_True:
  "i < length bs \<Longrightarrow> \<not> bs ! i \<Longrightarrow> length (filter id (bs[i := True])) = Suc (length (filter id bs))"
proof (induction bs arbitrary: i)
  case (Cons b bs)
  then show ?case by (cases i) auto
qed simp

lemma om_wf_size_bound:
  assumes "om_wf om" "i < length (om_set om)" "\<not> om_set om ! i"
  shows "Suc (unat (om_size om)) < 2 ^ 32"
proof -
  have "Suc (unat (om_size om)) = length (filter id ((om_set om)[i := True]))"
    using assms by (simp add: count_set_True om_wf_def)
  also have "\<dots> \<le> length (om_set om)" by (metis length_filter_le length_list_update)
  finally show ?thesis using assms(1) by (simp add: om_wf_def)
qed

lemma unat_Suc_u32: "Suc (unat (w :: u32)) < 2 ^ 32 \<Longrightarrow> unat (w + 1) = Suc (unat w)"
  by (simp add: unat_word_ariths)

lemma om_Set_wf:
  assumes "om_wf om" "om_Set om k v = Inr om'"
  shows "om_wf om' \<and> om_keyMap om' = om_keyMap om"
  using assms(1)
proof (cases rule: om_index_cases [where k = k])
  case absent
  then show ?thesis using assms by (simp add: om_Set_def)
next
  case (present i)
  show ?thesis
  proof (cases "om_set om ! i")
    case True
    then have "om' = om\<lparr>om_values := (om_values om)[i := v]\<rparr>"
      using assms present by (simp add: om_Set_def)
    moreover have "(om_values om)[i := v] ! j = None" if "j < length (om_set om)" "\<not> om_set om ! j" for j
      using assms(1) True that by (cases "j = i") (auto simp: om_wf_def)
    ultimately show ?thesis using assms(1) by (auto simp: om_wf_def)
  next
    case False
    then have "om' = om\<lparr>om_set := (om_set om)[i := True], om_size := om_size om + 1,
        om_values := (om_values om)[i := v]\<rparr>"
      using assms present by (simp add: om_Set_def)
    then show ?thesis
      using assms(1) present False om_wf_size_bound [OF assms(1) present(4) False]
      by (auto simp: om_wf_def nth_list_update count_set_True unat_Suc_u32)
  qed
qed

lemma om_Set_lookup:
  assumes "om_wf om" "om_Set om k v = Inr om'"
  shows "om_lookup om' = (om_lookup om)(k \<mapsto> v)"
  using assms(1)
proof (cases rule: om_index_cases [where k = k])
  case absent
  then show ?thesis using assms by (simp add: om_Set_def)
next
  case (present i)
  have inj: "k' = k" if "keysMap (om_keyMap om) k' = Some i" for k'
    using keysMap_inj [OF om_wfD(1) [OF assms(1)] that present(1)] .
  show ?thesis
    using assms present
    by (auto simp: om_Set_def om_lookup_def fun_eq_iff nth_list_update dest: inj split: option.splits if_splits)
qed

lemma om_Set_ok_iff:
  assumes "om_wf om"
  shows "(\<exists>om'. om_Set om k v = Inr om') \<longleftrightarrow> k \<in> set (Keys (om_keyMap om))"
  using assms(1)
proof (cases rule: om_index_cases [where k = k])
  case absent
  then show ?thesis using om_wfD(1) [OF assms] by (auto simp: om_Set_def km_wf_def Keys_def)
next
  case (present i)
  then have "k \<in> set (Keys (om_keyMap om))" using om_wfD(1) [OF assms] by (auto simp: km_wf_def Keys_def)
  then show ?thesis using present by (cases "om_set om ! i") (auto simp: om_Set_def)
qed

lemma om_Set_panics:
  "om_wf om \<Longrightarrow> k \<notin> set (Keys (om_keyMap om)) \<Longrightarrow>
     om_Set om k v = Inl (Panic ''(Set) key not found in keymap'')"
  using GetIndex_neg_iff [OF om_wfD(1), of om k] by (simp add: om_Set_def)

subsection \<open>Clear\<close>

lemma om_clear_from_spec:
  assumes "length bs + i = length (om_set om)" "length (om_values om) = length (om_set om)"
    "bs = drop i (om_set om)"
    "\<forall>j < i. om_set om ! j = False \<and> om_values om ! j = None"
    "\<forall>j < length (om_set om). \<not> om_set om ! j \<longrightarrow> om_values om ! j = None"
  shows "om_clear_from i bs om =
    om\<lparr>om_set := replicate (length (om_set om)) False, om_values := replicate (length (om_set om)) None\<rparr>"
  using assms
proof (induction bs arbitrary: i om)
  case Nil
  then have "om_set om = replicate (length (om_set om)) False"
    "om_values om = replicate (length (om_set om)) None"
    by (auto intro: nth_equalityI)
  then show ?case by (metis om_clear_from.simps(1) OrderedMap.surjective OrderedMap.update_convs(1,2))
next
  case (Cons b bs)
  let ?om = "if b then om\<lparr>om_set := (om_set om)[i := False], om_values := (om_values om)[i := None]\<rparr> else om"
  have "i < length (om_set om)" using Cons.prems(1) by simp
  then have i: "i < length (om_set om)" "om_set om ! i = b" "bs = drop (Suc i) (om_set om)"
    using Cons.prems(3) Cons_nth_drop_Suc [of i "om_set om"] by (metis list.inject)+
  then have "bs = drop (Suc i) (om_set ?om)" by simp
  then have "om_clear_from (Suc i) bs ?om = ?om\<lparr>om_set := replicate (length (om_set ?om)) False,
      om_values := replicate (length (om_set ?om)) None\<rparr>"
    using Cons.prems i by (intro Cons.IH) (auto simp: nth_list_update less_Suc_eq)
  then show ?case by (cases b) simp_all
qed

lemma om_Clear_New: "om_wf om \<Longrightarrow> om_Clear om = om_New (om_keyMap om)"
  using om_clear_from_spec [of "om_set om" 0 om]
  by (auto simp: om_Clear_def om_New_def om_wf_def)


subsection \<open>Iteration and printing\<close>

lemma om_iter_from_length:
  "i + length keys = length (om_set om) \<Longrightarrow>
     length (om_iter_from om i keys) = length (filter id (drop i (om_set om)))"
proof (induction keys arbitrary: i)
  case (Cons key keys)
  then have "drop i (om_set om) = om_set om ! i # drop (Suc i) (om_set om)"
    by (simp add: Cons_nth_drop_Suc)
  with Cons show ?case by simp
qed simp

lemma om_Iter_length: "om_wf om \<Longrightarrow> length (om_Iter om) = unat (om_Size om)"
  using om_iter_from_length [of 0 "Keys (om_keyMap om)" om]
  by (simp add: om_Iter_def om_Size_def om_wf_def km_wf_def Keys_def Len_def)

lemma om_Iter_lookup:
  assumes "om_wf om" "distinct (Keys (om_keyMap om))"
  shows "om_Iter om = map (\<lambda>k. (k, the (om_lookup om k)))
     (filter (\<lambda>k. om_lookup om k \<noteq> None) (Keys (om_keyMap om)))"
proof -
  let ?km = "om_keyMap om"
  have idx: "keysMap ?km (Keys ?km ! j) = Some j" if "j < length (Keys ?km)" for j
    using GetIndex_distinct [OF om_wfD(1) [OF assms(1)] assms(2), of j] that om_wfD(4) [OF assms(1)]
    by (auto simp: GetIndex_def split: option.splits)
  then have lk: "om_lookup om (Keys ?km ! j) = (if om_set om ! j then Some (om_values om ! j) else None)"
    if "j < length (Keys ?km)" for j
    using that by (simp add: om_lookup_def)
  have "om_iter_from om i keys = map (\<lambda>k. (k, the (om_lookup om k))) (filter (\<lambda>k. om_lookup om k \<noteq> None) keys)"
    if "keys = drop i (Keys ?km)" for i keys
    using that
  proof (induction keys arbitrary: i)
    case (Cons key keys)
    then have i: "i < length (Keys ?km)" by (metis drop_all list.distinct(1) not_le_imp_less)
    then have "key = Keys ?km ! i" "keys = drop (Suc i) (Keys ?km)"
      using Cons.prems Cons_nth_drop_Suc [OF i] by (metis list.inject)+
    then show ?case using Cons.IH [of "Suc i"] lk [OF i] by simp
  qed simp
  from this [of "Keys ?km" 0] show ?thesis by (simp add: om_Iter_def)
qed

text \<open>The reference form of a JSON object: its pairs, encoded and separated by commas.\<close>

fun enc_pairs ::
  "('v option \<Rightarrow> string go_result) \<Rightarrow> (string \<Rightarrow> string go_result) \<Rightarrow> (string \<times> 'v option) list \<Rightarrow>
   string list go_result" where
  "enc_pairs enc enck [] = Inr []"
| "enc_pairs enc enck (kv # kvs) =
     bind_result (enck (fst kv)) (\<lambda>k. bind_result (enc (snd kv)) (\<lambda>v.
       bind_result (enc_pairs enc enck kvs) (\<lambda>ps. Inr ((k @ '':'' @ v) # ps))))"

fun comma_join :: "string list \<Rightarrow> string" where
  "comma_join [] = []"
| "comma_join [p] = p"
| "comma_join (p # ps) = p @ '','' @ comma_join ps"

definition json_object ::
  "('v option \<Rightarrow> string go_result) \<Rightarrow> (string \<Rightarrow> string go_result) \<Rightarrow> (string \<times> 'v option) list \<Rightarrow>
   string go_result" where
  "json_object enc enck kvs =
     bind_result (enc_pairs enc enck kvs) (\<lambda>ps. Inr (''{'' @ comma_join ps @ ''}''))"

lemma marshal_from_iter:
  "marshal_from enc enck om i keys st = marshal_custom enc enck (om_iter_from om i keys) st"
proof (induction keys arbitrary: i st)
  case (Cons key keys)
  then show ?case by (cases "append_pair enc enck st (key, om_values om ! i)") simp_all
qed simp

definition json_sep :: "bool \<Rightarrow> string list \<Rightarrow> string" where
  "json_sep wrote ps = (if wrote \<and> ps \<noteq> [] then '','' @ comma_join ps else comma_join ps)"

lemma json_sep_Nil [simp]: "json_sep wrote [] = []"
  by (simp add: json_sep_def)

lemma json_sep_Cons [simp]:
  "json_sep wrote (p # ps) = (if wrote then '','' else []) @ p @ json_sep True ps"
  by (cases ps) (auto simp: json_sep_def)

lemma marshal_custom_ref:
  "marshal_custom enc enck kvs st =
     bind_result (enc_pairs enc enck kvs) (\<lambda>ps. Inr (fst st @ json_sep (snd st) ps, snd st \<or> ps \<noteq> []))"
proof (induction kvs arbitrary: st)
  case (Cons kv kvs)
  show ?case
    by (cases "enck (fst kv)"; cases "enc (snd kv)"; cases "enc_pairs enc enck kvs")
       (auto simp: append_pair_def Cons.IH Let_def)
qed simp

lemma marshal_custom_json:
  "bind_result (marshal_custom enc enck kvs (''{'', False)) (\<lambda>st. Inr (fst st @ ''}''))
     = json_object enc enck kvs"
  by (cases "enc_pairs enc enck kvs") (simp_all add: marshal_custom_ref json_object_def json_sep_def)

lemma MarshalJSON_json_object: "MarshalJSON enc enck om = json_object enc enck (om_Iter om)"
  by (simp only: MarshalJSON_def marshal_from_iter om_Iter_def marshal_custom_json)

lemma marshal_custom_append:
  "marshal_custom enc enck (xs @ ys) st =
     bind_result (marshal_custom enc enck xs st) (marshal_custom enc enck ys)"
proof (induction xs arbitrary: st)
  case (Cons x xs)
  then show ?case by (cases "append_pair enc enck st x") simp_all
qed simp

text \<open>The pairs \<open>CustomMarshalJSON\<close> selects for a list of keys.\<close>

definition om_select :: "'v OrderedMap \<Rightarrow> string list \<Rightarrow> (string \<times> 'v option) list" where
  "om_select om ks = concat (map (\<lambda>k. case om_lookup om k of None \<Rightarrow> [] | Some v \<Rightarrow> [(k, v)]) ks)"

lemma om_select_Cons:
  "om_select om (k # ks) = (case om_lookup om k of None \<Rightarrow> [] | Some v \<Rightarrow> [(k, v)]) @ om_select om ks"
  by (simp add: om_select_def)

lemma marshal_keys_select:
  assumes "om_wf om"
  shows "marshal_keys enc enck om ks st = marshal_custom enc enck (om_select om ks) st"
proof (induction ks arbitrary: st)
  case (Cons k ks)
  have fn: "marshal_keys enc enck om ks = marshal_custom enc enck (om_select om ks)"
    using Cons.IH by blast
  show ?case
    using assms
    by (cases rule: om_index_cases [where k = k])
       (auto simp: fn om_select_Cons om_lookup_def Let_def)
qed (simp add: om_select_def)

lemma CustomMarshalJSON_json_object:
  assumes "om_wf om"
  shows "CustomMarshalJSON enc enck om keys custom =
    json_object enc enck (om_select om (case keys of None \<Rightarrow> Keys (om_keyMap om) | Some ks \<Rightarrow> ks) @ custom)"
proof -
  let ?sel = "om_select om (case keys of None \<Rightarrow> Keys (om_keyMap om) | Some ks \<Rightarrow> ks)"
  have "CustomMarshalJSON enc enck om keys custom =
      bind_result (marshal_custom enc enck (?sel @ custom) (''{'', False)) (\<lambda>st. Inr (fst st @ ''}''))"
    unfolding CustomMarshalJSON_def Let_def marshal_keys_select [OF assms] marshal_custom_append
    by (cases "marshal_custom enc enck ?sel (''{'', False)") simp_all
  then show ?thesis by (simp only: marshal_custom_json)
qed

section \<open>The tuple interface\<close>

text \<open>
  \<open>pgwal.EntryTuple\<close> is the interface the readers and writers of tuples use; it is
  implemented by \<open>OrderedMap\<close> and by the pooled map of \<open>entrypool\<close>. The contract is
  that of a finite map over a fixed set of columns, in which \<open>Set\<close> outside the columns panics.
\<close>

text \<open>A loop of \<open>Set\<close> calls, as the snapshot worker runs over the fields of a row.\<close>

fun set_all :: "('t \<Rightarrow> string \<Rightarrow> 'v option \<Rightarrow> 't go_result) \<Rightarrow> 't \<Rightarrow> (string \<times> 'v option) list \<Rightarrow> 't go_result" where
  "set_all setter t [] = Inr t"
| "set_all setter t (kv # kvs) = bind_result (setter t (fst kv) (snd kv)) (\<lambda>t'. set_all setter t' kvs)"

locale entry_tuple =
  fixes get :: "'t \<Rightarrow> string \<Rightarrow> ('v option \<times> bool) go_result"
    and setter :: "'t \<Rightarrow> string \<Rightarrow> 'v option \<Rightarrow> 't go_result"
    and columns :: "'t \<Rightarrow> string list"
    and lookup :: "'t \<Rightarrow> string \<rightharpoonup> 'v option"
    and inv :: "'t \<Rightarrow> bool"
  assumes get_lookup: "inv t \<Longrightarrow> get t k = Inr (case lookup t k of None \<Rightarrow> (None, False) | Some v \<Rightarrow> (v, True))"
    and set_inv: "inv t \<Longrightarrow> setter t k v = Inr t' \<Longrightarrow> inv t' \<and> columns t' = columns t"
    and set_lookup: "inv t \<Longrightarrow> setter t k v = Inr t' \<Longrightarrow> lookup t' = (lookup t)(k \<mapsto> v)"
    and set_ok: "inv t \<Longrightarrow> k \<in> set (columns t) \<Longrightarrow> \<exists>t'. setter t k v = Inr t'"
begin

lemma get_set:
  "inv t \<Longrightarrow> setter t k v = Inr t' \<Longrightarrow> get t' k' = (if k' = k then Inr (v, True) else get t k')"
  by (simp add: get_lookup set_lookup set_inv [THEN conjunct1])

lemma set_all_ok:
  "inv t \<Longrightarrow> fst ` set kvs \<subseteq> set (columns t) \<Longrightarrow>
     \<exists>t'. set_all setter t kvs = Inr t' \<and> inv t' \<and> columns t' = columns t \<and>
       lookup t' = lookup t ++ map_of (rev kvs)"
proof (induction kvs arbitrary: t)
  case (Cons kv kvs)
  then obtain t1 where t1: "setter t (fst kv) (snd kv) = Inr t1" using set_ok by fastforce
  then have "inv t1" "columns t1 = columns t" "lookup t1 = (lookup t)(fst kv \<mapsto> snd kv)"
    using set_inv set_lookup Cons.prems(1) by blast+
  moreover have "(lookup t)(fst kv \<mapsto> snd kv) ++ map_of (rev kvs) = lookup t ++ map_of (rev (kv # kvs))"
    by (auto simp: map_add_def map_of_append split: option.splits)
  ultimately have lk: "lookup t1 ++ map_of (rev kvs) = lookup t ++ map_of (rev (kv # kvs))" by simp
  obtain t' where "set_all setter t1 kvs = Inr t'" "inv t'" "columns t' = columns t1"
    "lookup t' = lookup t1 ++ map_of (rev kvs)"
    using Cons.IH [of t1] Cons.prems(2) \<open>inv t1\<close> \<open>columns t1 = columns t\<close> by auto
  then show ?case using t1 lk \<open>columns t1 = columns t\<close> by auto
qed simp

lemma set_all_get:
  assumes "inv t" "fst ` set kvs \<subseteq> set (columns t)" "distinct (map fst kvs)" "(k, v) \<in> set kvs"
  shows "\<exists>t'. set_all setter t kvs = Inr t' \<and> get t' k = Inr (v, True)"
proof -
  obtain t' where t': "set_all setter t kvs = Inr t'" "inv t'" "lookup t' = lookup t ++ map_of (rev kvs)"
    using set_all_ok [OF assms(1,2)] by blast
  have "map_of (rev kvs) k = Some v"
    using assms(3,4) by (simp add: map_of_is_SomeI rev_map [symmetric])
  then show ?thesis using t' by (simp add: get_lookup)
qed

end

interpretation om: entry_tuple om_Get om_Set "\<lambda>om. Keys (om_keyMap om)" om_lookup om_wf
  by unfold_locales (auto simp: om_Get_lookup om_Set_wf om_Set_lookup om_Set_ok_iff dest: om_Set_wf)

end
