(* ===== verification/Entrypool.thy ===== *)
theory Entrypool
  imports Orderedmap
begin

text \<open>
  \<open>entrypool/entry_pool.go\<close>: the pool of tuples the snapshot workers draw from. The
  \<open>sync.Map\<close> of pools is a map from pool keys; a \<open>sync.Pool\<close> holds the free tuples
  and the key map captured by its \<open>New\<close> closure. \<open>sync.Pool.Get\<close> may hand out any free
  tuple or a new one, so \<open>Get\<close> takes that choice as an argument.
\<close>

record 'v pool =
  newKeyMap :: KeyMap
  free :: "'v OrderedMap list"

type_synonym 'v EntryTuplePool = "string \<rightharpoonup> 'v pool"

record 'v pooledOrderedMap =
  owner :: "string option"
  pom :: "'v OrderedMap"

definition NewPool :: "'v EntryTuplePool" where
  "NewPool = Map.empty"

definition pool_key :: "string \<Rightarrow> string \<Rightarrow> string" where
  "pool_key name version = name @ ''_'' @ version"

text \<open>\<open>sync.Pool.Get\<close>: the free tuple chosen, or a new one when there is none at that position.\<close>

definition sync_pool_Get :: "'v pool \<Rightarrow> nat \<Rightarrow> 'v OrderedMap \<times> 'v pool" where
  "sync_pool_Get p choice =
     (if choice < length (free p)
      then (free p ! choice, p\<lparr>free := take choice (free p) @ drop (Suc choice) (free p)\<rparr>)
      else (om_New (newKeyMap p), p))"

definition pool_Get ::
  "'v EntryTuplePool \<Rightarrow> nat \<Rightarrow> string \<Rightarrow> string \<Rightarrow> KeyMap \<Rightarrow> 'v pooledOrderedMap \<times> 'v EntryTuplePool" where
  "pool_Get pools choice name version km =
     (let key = pool_key name version;
          targetPool = (case pools key of Some p \<Rightarrow> p | None \<Rightarrow> \<lparr>newKeyMap = km, free = []\<rparr>);
          (om, p') = sync_pool_Get targetPool choice
      in (\<lparr>owner = Some key, pom = om\<rparr>, pools(key \<mapsto> p')))"

text \<open>
  \<open>Release\<close> clears the tuple and puts it back in its owner; a second release finds the
  owner nil and the call through it panics.
\<close>

definition pool_Release ::
  "'v EntryTuplePool \<Rightarrow> 'v pooledOrderedMap \<Rightarrow> ('v pooledOrderedMap \<times> 'v EntryTuplePool) go_result" where
  "pool_Release pools t =
     (case owner t of
        None \<Rightarrow> Inl (Panic ''runtime error: invalid memory address or nil pointer dereference'')
      | Some key \<Rightarrow>
         let om = om_Clear (pom t) in
         Inr (\<lparr>owner = None, pom = om\<rparr>,
              (case pools key of
                 None \<Rightarrow> pools
               | Some p \<Rightarrow> pools(key \<mapsto> p\<lparr>free := om # free p\<rparr>))))"

definition pom_Get :: "'v pooledOrderedMap \<Rightarrow> string \<Rightarrow> ('v option \<times> bool) go_result" where
  "pom_Get t k = om_Get (pom t) k"

definition pom_GetValue :: "'v pooledOrderedMap \<Rightarrow> string \<Rightarrow> 'v option go_result" where
  "pom_GetValue t k = om_GetValue (pom t) k"

definition pom_Set :: "'v pooledOrderedMap \<Rightarrow> string \<Rightarrow> 'v option \<Rightarrow> 'v pooledOrderedMap go_result" where
  "pom_Set t k v = bind_result (om_Set (pom t) k v) (\<lambda>om. Inr (t\<lparr>pom := om\<rparr>))"

interpretation pom: entry_tuple pom_Get pom_Set "\<lambda>t. Keys (om_keyMap (pom t))"
    "\<lambda>t. om_lookup (pom t)" "\<lambda>t. om_wf (pom t)"
  by unfold_locales
    (auto simp: pom_Get_def pom_Set_def om.get_lookup dest: om.set_inv om.set_lookup om.set_ok)

section \<open>The pool invariant\<close>

text \<open>Every free tuple of a pool is a cleared tuple over the key map of the pool.\<close>

definition pools_wf :: "'v EntryTuplePool \<Rightarrow> bool" where
  "pools_wf pools \<longleftrightarrow> (\<forall>key p. pools key = Some p \<longrightarrow>
     km_wf (newKeyMap p) \<and> Len (newKeyMap p) < 2 ^ 32 \<and>
     (\<forall>om \<in> set (free p). om = om_New (newKeyMap p)))"

lemma pools_wf_New [simp]: "pools_wf NewPool"
  by (simp add: pools_wf_def NewPool_def)

lemma sync_pool_Get_fresh:
  assumes "\<forall>om \<in> set (free p). om = om_New (newKeyMap p)" "sync_pool_Get p choice = (om, p')"
  shows "om = om_New (newKeyMap p) \<and> newKeyMap p' = newKeyMap p \<and> set (free p') \<subseteq> set (free p)"
  using assms
  by (auto simp: sync_pool_Get_def split: if_splits dest: in_set_takeD in_set_dropD)

text \<open>The key map a pool hands tuples out with: the one of the first \<open>Get\<close> under its key.\<close>

definition pool_keyMap :: "'v EntryTuplePool \<Rightarrow> string \<Rightarrow> KeyMap \<Rightarrow> KeyMap" where
  "pool_keyMap pools key km = (case pools key of Some p \<Rightarrow> newKeyMap p | None \<Rightarrow> km)"

lemma pool_Get_fresh:
  assumes "pools_wf pools" "km_wf km" "Len km < 2 ^ 32"
    and "pool_Get pools choice name version km = (t, pools')"
  shows "pom t = om_New (pool_keyMap pools (pool_key name version) km)"
    and "pools_wf pools'"
    and "pool_keyMap pools' (pool_key name version) km' = pool_keyMap pools (pool_key name version) km"
proof -
  let ?key = "pool_key name version"
  let ?p = "case pools ?key of Some p \<Rightarrow> p | None \<Rightarrow> \<lparr>newKeyMap = km, free = []\<rparr>"
  have wf: "km_wf (newKeyMap ?p) \<and> Len (newKeyMap ?p) < 2 ^ 32 \<and> (\<forall>om \<in> set (free ?p). om = om_New (newKeyMap ?p))"
    using assms(1-3) by (auto simp: pools_wf_def split: option.splits)
  obtain om p' where g: "sync_pool_Get ?p choice = (om, p')" by fastforce
  then have t: "t = \<lparr>owner = Some ?key, pom = om\<rparr>" "pools' = pools(?key \<mapsto> p')"
    using assms(4) by (auto simp: pool_Get_def Let_def)
  have f: "om = om_New (newKeyMap ?p)" "newKeyMap p' = newKeyMap ?p" "set (free p') \<subseteq> set (free ?p)"
    using sync_pool_Get_fresh [OF _ g] wf by blast+
  show "pom t = om_New (pool_keyMap pools ?key km)"
    using t(1) f(1) by (simp add: pool_keyMap_def split: option.splits)
  show "pool_keyMap pools' ?key km' = pool_keyMap pools ?key km"
    using t(2) f(2) by (simp add: pool_keyMap_def split: option.splits)
  show "pools_wf pools'"
    using assms(1) wf f t(2) unfolding pools_wf_def by auto
qed

lemma pool_Release_wf:
  assumes "pools_wf pools" "om_wf (pom t)"
    and "owner t = Some key" "pools key = Some p" "om_keyMap (pom t) = newKeyMap p"
  shows "\<exists>t' pools'. pool_Release pools t = Inr (t', pools') \<and> pools_wf pools' \<and>
           owner t' = None \<and> (\<exists>p'. pools' key = Some p' \<and> newKeyMap p' = newKeyMap p \<and>
             free p' = om_New (newKeyMap p) # free p)"
proof -
  have "om_Clear (pom t) = om_New (newKeyMap p)" using om_Clear_New assms by metis
  then show ?thesis using assms by (auto simp: pool_Release_def pools_wf_def Let_def)
qed

end
