(* ===== verification/Circuitbreaker.thy ===== *)
theory Circuitbreaker
  imports Prelude
begin

text \<open>
  \<open>circuitbreaker/circuit_breaker.go\<close>. The wrapped function, the clock and the cancellation of
  the context are the arguments of \<open>cb_Run\<close>: \<open>t0\<close> is the clock reading before the wait,
  \<open>cancelled\<close> whether the context ends before the timer, \<open>res\<close> the error the wrapped function
  returns (\<open>None\<close> for nil) and \<open>took\<close> the time it takes; the clock reading after it, \<open>t1\<close> in the methods, is
  \<open>t0\<close> with the wait and \<open>took\<close> added. The zero \<open>time.Time\<close> is \<open>None\<close>. The method value stored in \<open>exec\<close> is one of three constructors.
\<close>

section \<open>State\<close>

datatype CircuitState = StateClosed | StateOpened | StateHalfOpened

datatype ExecFunc = ExecuteInClosed | ExecuteInOpened | ExecuteInHalfOpen

record cb_Config =
  ClosedMaxErrors :: int
  HalfOpenedMaxErrors :: int
  MaxErrorsInterval :: int
  MaxWaitInterval :: int

definition NewDefaultConfig :: cb_Config where
  "NewDefaultConfig = \<lparr>ClosedMaxErrors = 5, HalfOpenedMaxErrors = 10, MaxErrorsInterval = 500000000, MaxWaitInterval = 5000000000\<rparr>"

definition NewProdConfig :: cb_Config where
  "NewProdConfig = \<lparr>ClosedMaxErrors = 5, HalfOpenedMaxErrors = 10, MaxErrorsInterval = 1000000000, MaxWaitInterval = 20000000000\<rparr>"

record CircuitBreaker =
  cb_state :: CircuitState
  cb_exec :: ExecFunc
  errorsCount :: int
  firstErr :: "int option"
  nextAttempt :: "int option"
  cb_cfg :: cb_Config

definition NewWithLogger :: "cb_Config \<Rightarrow> CircuitBreaker" where
  "NewWithLogger cfg =
     \<lparr>cb_state = StateClosed, cb_exec = ExecuteInClosed, errorsCount = 0, firstErr = None, nextAttempt = None, cb_cfg = cfg\<rparr>"

section \<open>Transitions\<close>

definition incErrCount :: "CircuitBreaker \<Rightarrow> CircuitBreaker" where
  "incErrCount cb = cb\<lparr>errorsCount := errorsCount cb + 1\<rparr>"

definition cb_reset :: "CircuitBreaker \<Rightarrow> CircuitBreaker" where
  "cb_reset cb = cb\<lparr>errorsCount := 0, firstErr := None, nextAttempt := None\<rparr>"

definition incNextAttempt :: "int \<Rightarrow> CircuitBreaker \<Rightarrow> CircuitBreaker" where
  "incNextAttempt now cb = cb\<lparr>nextAttempt := Some (now + MaxErrorsInterval (cb_cfg cb) * 2)\<rparr>"

definition setMaxNextAttempt :: "int \<Rightarrow> CircuitBreaker \<Rightarrow> CircuitBreaker" where
  "setMaxNextAttempt now cb = cb\<lparr>nextAttempt := Some (now + MaxWaitInterval (cb_cfg cb))\<rparr>"

definition transitToHalfOpened :: "int \<Rightarrow> CircuitBreaker \<Rightarrow> CircuitBreaker" where
  "transitToHalfOpened now cb = (incNextAttempt now (cb\<lparr>cb_state := StateHalfOpened\<rparr>))\<lparr>cb_exec := ExecuteInHalfOpen\<rparr>"

definition transitToClosed :: "CircuitBreaker \<Rightarrow> CircuitBreaker" where
  "transitToClosed cb = (cb_reset (cb\<lparr>cb_state := StateClosed\<rparr>))\<lparr>cb_exec := ExecuteInClosed\<rparr>"

definition transitToOpened :: "int \<Rightarrow> CircuitBreaker \<Rightarrow> CircuitBreaker" where
  "transitToOpened now cb = (setMaxNextAttempt now (cb\<lparr>cb_state := StateOpened\<rparr>))\<lparr>cb_exec := ExecuteInOpened\<rparr>"

definition errorInClosed :: "int \<Rightarrow> CircuitBreaker \<Rightarrow> CircuitBreaker" where
  "errorInClosed now cb0 =
     (let cb = incErrCount cb0 in
      case firstErr cb of
        None \<Rightarrow> cb\<lparr>firstErr := Some now\<rparr>
      | Some fe \<Rightarrow>
          if MaxWaitInterval (cb_cfg cb) < now - fe then cb_reset cb
          else if ClosedMaxErrors (cb_cfg cb) \<le> errorsCount cb then transitToHalfOpened now cb
          else cb)"

definition errorInHalfOpen :: "int \<Rightarrow> CircuitBreaker \<Rightarrow> CircuitBreaker" where
  "errorInHalfOpen now cb0 =
     (let cb = incErrCount cb0 in
      if HalfOpenedMaxErrors (cb_cfg cb) \<le> errorsCount cb then transitToOpened now cb
      else incNextAttempt now cb)"

text \<open>How long \<open>waitUntilNextAttempt\<close> sleeps, and its outcome.\<close>

definition wait_time :: "int \<Rightarrow> CircuitBreaker \<Rightarrow> int" where
  "wait_time now cb = (case nextAttempt cb of None \<Rightarrow> 0 | Some na \<Rightarrow> if now < na then na - now else 0)"

definition waitUntilNextAttempt :: "int \<Rightarrow> bool \<Rightarrow> CircuitBreaker \<Rightarrow> unit go_result" where
  "waitUntilNextAttempt now cancelled cb =
     (if 0 < wait_time now cb \<and> cancelled then Inl (Error ''context canceled'') else Inr ())"

definition executeInClosed :: "go_error option \<Rightarrow> int \<Rightarrow> CircuitBreaker \<Rightarrow> unit go_result \<times> CircuitBreaker" where
  "executeInClosed res t1 cb = (case res of Some e \<Rightarrow> (Inl e, errorInClosed t1 cb) | None \<Rightarrow> (Inr (), cb))"

definition executeInHalfOpen ::
  "int \<Rightarrow> bool \<Rightarrow> go_error option \<Rightarrow> int \<Rightarrow> CircuitBreaker \<Rightarrow> unit go_result \<times> CircuitBreaker" where
  "executeInHalfOpen t0 cancelled res t1 cb =
     (case waitUntilNextAttempt t0 cancelled cb of Inl e \<Rightarrow> (Inl e, cb)
      | Inr _ \<Rightarrow> (case res of Some e \<Rightarrow> (Inl e, errorInHalfOpen t1 cb) | None \<Rightarrow> (Inr (), transitToClosed cb)))"

text \<open>\<open>errors.Join(ErrOpened, err)\<close>: the two messages on two lines.\<close>

fun join_opened :: "go_error \<Rightarrow> go_error" where
  "join_opened (Error m) = Error (''circuit open'' @ char_of (10 :: nat) # m)"
| "join_opened e = e"

definition executeInOpened ::
  "int \<Rightarrow> bool \<Rightarrow> go_error option \<Rightarrow> int \<Rightarrow> CircuitBreaker \<Rightarrow> unit go_result \<times> CircuitBreaker" where
  "executeInOpened t0 cancelled res t1 cb =
     (case waitUntilNextAttempt t0 cancelled cb of Inl e \<Rightarrow> (Inl e, cb)
      | Inr _ \<Rightarrow> (case res of Some e \<Rightarrow> (Inl (join_opened e), setMaxNextAttempt t1 (incErrCount cb))
                 | None \<Rightarrow> (Inr (), transitToHalfOpened t1 cb)))"

text \<open>The clock when the wrapped function has returned: only a breaker that is not closed waits.\<close>

definition returned_at :: "int \<Rightarrow> int \<Rightarrow> CircuitBreaker \<Rightarrow> int" where
  "returned_at t0 took cb = t0 + (if cb_exec cb = ExecuteInClosed then 0 else wait_time t0 cb) + took"

definition cb_Run ::
  "int \<Rightarrow> bool \<Rightarrow> go_error option \<Rightarrow> int \<Rightarrow> CircuitBreaker \<Rightarrow> unit go_result \<times> CircuitBreaker" where
  "cb_Run t0 cancelled res took cb =
     (let t1 = returned_at t0 took cb in
      case cb_exec cb of ExecuteInClosed \<Rightarrow> executeInClosed res t1 cb
      | ExecuteInHalfOpen \<Rightarrow> executeInHalfOpen t0 cancelled res t1 cb
      | ExecuteInOpened \<Rightarrow> executeInOpened t0 cancelled res t1 cb)"

lemmas cb_defs = cb_Run_def executeInClosed_def executeInHalfOpen_def executeInOpened_def waitUntilNextAttempt_def
  errorInClosed_def errorInHalfOpen_def transitToHalfOpened_def transitToClosed_def transitToOpened_def
  setMaxNextAttempt_def incNextAttempt_def cb_reset_def incErrCount_def Let_def

section \<open>Invariant\<close>

text \<open>The states a breaker can be in.\<close>

inductive cb_reachable :: "cb_Config \<Rightarrow> CircuitBreaker \<Rightarrow> bool" for cfg where
  cb_new: "cb_reachable cfg (NewWithLogger cfg)"
| cb_run: "cb_reachable cfg cb \<Longrightarrow> cb_reachable cfg (snd (cb_Run t0 cancelled res took cb))"

definition exec_of :: "CircuitState \<Rightarrow> ExecFunc" where
  "exec_of s = (case s of StateClosed \<Rightarrow> ExecuteInClosed | StateOpened \<Rightarrow> ExecuteInOpened | StateHalfOpened \<Rightarrow> ExecuteInHalfOpen)"

definition cb_inv :: "cb_Config \<Rightarrow> CircuitBreaker \<Rightarrow> bool" where
  "cb_inv cfg cb \<longleftrightarrow> cb_cfg cb = cfg \<and> cb_exec cb = exec_of (cb_state cb) \<and> 0 \<le> errorsCount cb \<and>
     (firstErr cb = None \<longleftrightarrow> errorsCount cb = 0) \<and>
     (cb_state cb = StateClosed \<longrightarrow> nextAttempt cb = None \<and> errorsCount cb < max 2 (ClosedMaxErrors cfg)) \<and>
     (cb_state cb \<noteq> StateClosed \<longrightarrow> nextAttempt cb \<noteq> None \<and> max 2 (ClosedMaxErrors cfg) \<le> errorsCount cb) \<and>
     (cb_state cb = StateOpened \<longrightarrow> HalfOpenedMaxErrors cfg \<le> errorsCount cb)"

lemma cb_inv_Run: "cb_inv cfg cb \<Longrightarrow> cb_inv cfg (snd (cb_Run t0 cancelled res took cb))"
  by (cases "cb_state cb"; cases res; cases "firstErr cb")
     (auto simp: cb_inv_def exec_of_def cb_defs split: if_splits)

lemma cb_reachable_inv: "cb_reachable cfg cb \<Longrightarrow> cb_inv cfg cb"
proof (induction rule: cb_reachable.induct)
  case cb_new
  show ?case by (simp add: cb_inv_def NewWithLogger_def exec_of_def)
next
  case (cb_run cb t0 cancelled res took)
  then show ?case by (simp add: cb_inv_Run)
qed

section \<open>Properties\<close>

text \<open>
  In every state the breaker can reach, the method stored in \<open>exec\<close> is the one of the
  state, the first error is remembered exactly while errors are counted, a closed breaker has
  counted fewer than \<open>max 2 ClosedMaxErrors\<close> errors and never waits, and an opened one has
  counted at least \<open>HalfOpenedMaxErrors\<close>.
\<close>

theorem breaker_invariant:
  assumes "cb_reachable cfg cb"
  shows "cb_exec cb = exec_of (cb_state cb) \<and> (firstErr cb = None \<longleftrightarrow> errorsCount cb = 0) \<and>
    (cb_state cb = StateClosed \<longrightarrow> nextAttempt cb = None \<and> errorsCount cb < max 2 (ClosedMaxErrors cfg)) \<and>
    (cb_state cb = StateOpened \<longrightarrow> HalfOpenedMaxErrors cfg \<le> errorsCount cb)"
  using cb_reachable_inv [OF assms] by (simp add: cb_inv_def)

theorem breaker_invariant_witness:
  "cb_reachable NewDefaultConfig (snd (cb_Run 0 False (Some (Error ''e'')) 5 (NewWithLogger NewDefaultConfig))) \<and>
   errorsCount (snd (cb_Run 0 False (Some (Error ''e'')) 5 (NewWithLogger NewDefaultConfig))) < 5"
proof -
  let ?cb = "snd (cb_Run 0 False (Some (Error ''e'')) 5 (NewWithLogger NewDefaultConfig))"
  have r: "cb_reachable NewDefaultConfig ?cb" by (intro cb_reachable.intros)
  have "cb_state ?cb = StateClosed" by (simp add: cb_defs NewWithLogger_def)
  then show ?thesis using breaker_invariant [OF r] r by (simp add: NewDefaultConfig_def)
qed

text \<open>
  Failing calls in a row: each starts some time (\<open>gap\<close>) after the one before has returned, waits if the breaker asks for it,
  and takes its own time.
\<close>

fun fail_runs :: "int \<Rightarrow> (nat \<times> nat) list \<Rightarrow> CircuitBreaker \<Rightarrow> CircuitBreaker" where
  "fail_runs now [] cb = cb"
| "fail_runs now ((gap, took) # calls) cb =
     fail_runs (returned_at (now + int gap) (int took) cb) calls (snd (cb_Run (now + int gap) False (Some (Error ''failed'')) (int took) cb))"

text \<open>The number of failures at which a closed breaker becomes half-opened.\<close>

definition closed_limit :: "cb_Config \<Rightarrow> nat" where
  "closed_limit cfg = nat (max 2 (ClosedMaxErrors cfg))"

definition expected_state :: "cb_Config \<Rightarrow> nat \<Rightarrow> CircuitState" where
  "expected_state cfg n =
     (if n < closed_limit cfg then StateClosed
      else if int n < max (int (closed_limit cfg) + 1) (HalfOpenedMaxErrors cfg) then StateHalfOpened
      else StateOpened)"

definition tripping :: "cb_Config \<Rightarrow> int \<Rightarrow> nat \<Rightarrow> CircuitBreaker \<Rightarrow> bool" where
  "tripping cfg first n cb \<longleftrightarrow> cb_cfg cb = cfg \<and> errorsCount cb = int n \<and> cb_state cb = expected_state cfg n \<and>
     cb_exec cb = exec_of (cb_state cb) \<and> firstErr cb = (if n = 0 then None else Some first)"

lemma tripping_Run:
  assumes "tripping cfg first n cb" "n = 0 \<longrightarrow> returned_at t0 took cb = first"
    and "0 < n \<and> n < closed_limit cfg \<longrightarrow> returned_at t0 took cb \<le> first + MaxWaitInterval cfg"
  shows "tripping cfg first (Suc n) (snd (cb_Run t0 False (Some (Error ''failed'')) took cb))"
proof -
  have limit: "int (closed_limit cfg) = max 2 (ClosedMaxErrors cfg)" "2 \<le> closed_limit cfg" by (simp_all add: closed_limit_def nat_le_iff)
  consider "cb_state cb = StateClosed" | "cb_state cb = StateHalfOpened" | "cb_state cb = StateOpened" by (cases "cb_state cb")
  then show ?thesis
  proof cases
    case 1
    then have "n < closed_limit cfg" using assms(1) by (auto simp: tripping_def expected_state_def split: if_splits)
    then show ?thesis using assms 1 limit
      by (auto simp: tripping_def expected_state_def exec_of_def cb_defs split: if_splits)
  next
    case 2
    then show ?thesis using assms(1) limit by (auto simp: tripping_def expected_state_def exec_of_def cb_defs split: if_splits)
  next
    case 3
    then show ?thesis using assms(1) limit by (auto simp: tripping_def expected_state_def exec_of_def cb_defs split: if_splits)
  qed
qed

lemma closed_returns: "tripping cfg first n cb \<Longrightarrow> n < closed_limit cfg \<Longrightarrow> returned_at t0 took cb = t0 + took"
  by (simp add: tripping_def expected_state_def exec_of_def returned_at_def)

text \<open>The time that passes over the calls, without waits.\<close>

definition elapsed :: "(nat \<times> nat) list \<Rightarrow> int" where
  "elapsed calls = (\<Sum>(gap, took)\<leftarrow>calls. int gap + int took)"

lemma elapsed_simps [simp]: "elapsed [] = 0" "elapsed ((gap, took) # calls) = int gap + int took + elapsed calls"
  by (simp_all add: elapsed_def)

lemma elapsed_nonneg: "0 \<le> elapsed calls"
  by (induction calls) (auto simp: elapsed_def)

lemma tripping_fail_runs:
  assumes "tripping cfg first n cb" "0 < n" "now + elapsed (take (closed_limit cfg - n) calls) \<le> first + MaxWaitInterval cfg \<or> closed_limit cfg \<le> n"
  shows "tripping cfg first (n + length calls) (fail_runs now calls cb)"
  using assms
proof (induction calls arbitrary: n now cb)
  case (Cons c calls)
  obtain gap took where c: "c = (gap, took)" by (cases c)
  let ?t = "returned_at (now + int gap) (int took) cb"
  have time: "?t + elapsed (take (closed_limit cfg - Suc n) calls) \<le> first + MaxWaitInterval cfg" if n: "n < closed_limit cfg"
  proof -
    have "closed_limit cfg - n = Suc (closed_limit cfg - Suc n)" using n by simp
    then show ?thesis using Cons.prems(3) n closed_returns [OF Cons.prems(1) n, of "now + int gap" "int took"] by (simp add: c)
  qed
  then have "n < closed_limit cfg \<longrightarrow> ?t \<le> first + MaxWaitInterval cfg" using elapsed_nonneg [of "take (closed_limit cfg - Suc n) calls"] by linarith
  then have "tripping cfg first (Suc n) (snd (cb_Run (now + int gap) False (Some (Error ''failed'')) (int took) cb))"
    using Cons.prems(1,2) by (intro tripping_Run) auto
  moreover have "?t + elapsed (take (closed_limit cfg - Suc n) calls) \<le> first + MaxWaitInterval cfg \<or> closed_limit cfg \<le> Suc n"
    using time by (cases "n < closed_limit cfg") simp_all
  ultimately have "tripping cfg first (Suc n + length calls) (fail_runs ?t calls (snd (cb_Run (now + int gap) False (Some (Error ''failed'')) (int took) cb)))"
    by (intro Cons.IH) simp_all
  then show ?case by (simp add: c)
qed simp

text \<open>
  (C22) The breaker trips. Take failing calls in a row on a new breaker, each starting after the one before and waiting as the breaker
  asks for; let the second up to the \<open>max 2 ClosedMaxErrors\<close>-th of them return within \<open>MaxWaitInterval\<close> of the first.
  Then every failure is counted, and the breaker is closed below \<open>max 2 ClosedMaxErrors\<close> failures, half-opened from there
  on, and opened from \<open>max (max 2 ClosedMaxErrors + 1) HalfOpenedMaxErrors\<close> failures on. So a limit of one
  error acts as two, and \<open>HalfOpenedMaxErrors\<close> counts from the first error, not from the change to half-opened.
\<close>

theorem breaker_trips:
  assumes "calls \<noteq> []" "elapsed (tl (take (closed_limit cfg) calls)) \<le> MaxWaitInterval cfg"
  shows "cb_state (fail_runs now calls (NewWithLogger cfg)) = expected_state cfg (length calls) \<and>
    errorsCount (fail_runs now calls (NewWithLogger cfg)) = int (length calls)"
proof -
  obtain gap took us where cs: "calls = (gap, took) # us" using assms(1) by (metis list.exhaust prod.exhaust)
  let ?t = "returned_at (now + int gap) (int took) (NewWithLogger cfg)"
  have "2 \<le> closed_limit cfg" by (simp add: closed_limit_def nat_le_iff)
  then have limit: "closed_limit cfg = Suc (closed_limit cfg - 1)" "0 < closed_limit cfg" by linarith+
  have "tripping cfg ?t 0 (NewWithLogger cfg)"
    using limit(2) by (simp add: tripping_def NewWithLogger_def expected_state_def exec_of_def)
  then have "tripping cfg ?t (Suc 0) (snd (cb_Run (now + int gap) False (Some (Error ''failed'')) (int took) (NewWithLogger cfg)))"
    by (intro tripping_Run) auto
  moreover have "tl (take (closed_limit cfg) calls) = take (closed_limit cfg - 1) us" by (subst limit(1)) (simp add: cs)
  ultimately have "tripping cfg ?t (Suc 0 + length us) (fail_runs ?t us (snd (cb_Run (now + int gap) False (Some (Error ''failed'')) (int took) (NewWithLogger cfg))))"
    using assms(2) by (intro tripping_fail_runs) auto
  then show ?thesis by (simp add: cs tripping_def)
qed

text \<open>Ten calls, each a millisecond after the one before and failing after two.\<close>

theorem breaker_trips_witness:
  "cb_state (fail_runs 0 (replicate 10 (1000000, 2000000)) (NewWithLogger NewDefaultConfig)) = StateOpened \<and>
   cb_state (fail_runs 0 (replicate 9 (1000000, 2000000)) (NewWithLogger NewDefaultConfig)) = StateHalfOpened"
proof -
  have l: "closed_limit NewDefaultConfig = 5" by (simp add: closed_limit_def NewDefaultConfig_def)
  have e: "expected_state NewDefaultConfig 10 = StateOpened" "expected_state NewDefaultConfig 9 = StateHalfOpened"
    by (simp_all add: expected_state_def l) (simp_all add: NewDefaultConfig_def)
  have t: "elapsed (tl (take (closed_limit NewDefaultConfig) (replicate 10 (1000000, 2000000)))) \<le> MaxWaitInterval NewDefaultConfig"
    "elapsed (tl (take (closed_limit NewDefaultConfig) (replicate 9 (1000000, 2000000)))) \<le> MaxWaitInterval NewDefaultConfig"
    unfolding l by (simp_all add: min_def elapsed_def sum_list_replicate NewDefaultConfig_def)
  have n: "replicate 10 (1000000, 2000000) \<noteq> ([] :: (nat \<times> nat) list)" "replicate 9 (1000000, 2000000) \<noteq> ([] :: (nat \<times> nat) list)" by simp_all
  show ?thesis using breaker_trips [OF n(1) t(1), of 0] breaker_trips [OF n(2) t(2), of 0] unfolding length_replicate e by blast
qed

text \<open>
  (C23) Recovery: one success takes an opened breaker to half-opened and a half-opened one to
  closed with its counters cleared, one failure takes a half-opened breaker that came from the
  opened state back to opened, and a cancelled wait changes nothing.
\<close>

theorem breaker_recovers:
  assumes "cb_reachable cfg cb"
  shows "(cb_state cb = StateOpened \<and> \<not> (0 < wait_time t0 cb \<and> cancelled) \<longrightarrow>
      cb_state (snd (cb_Run t0 cancelled None took cb)) = StateHalfOpened \<and>
      cb_state (snd (cb_Run t2 False (Some e) took' (snd (cb_Run t0 cancelled None took cb)))) = StateOpened \<and>
      snd (cb_Run t2 False None took' (snd (cb_Run t0 cancelled None took cb))) = NewWithLogger cfg) \<and>
    (cb_state cb = StateHalfOpened \<and> \<not> (0 < wait_time t0 cb \<and> cancelled) \<longrightarrow>
      snd (cb_Run t0 cancelled None took cb) = NewWithLogger cfg) \<and>
    (cb_state cb \<noteq> StateClosed \<and> 0 < wait_time t0 cb \<and> cancelled \<longrightarrow> snd (cb_Run t0 cancelled res took cb) = cb)"
  using cb_reachable_inv [OF assms]
  by (cases "cb_state cb") (auto simp: cb_inv_def exec_of_def cb_defs NewWithLogger_def)

theorem breaker_recovers_witness:
  "cb_reachable NewDefaultConfig (NewWithLogger NewDefaultConfig) \<and>
   snd (cb_Run 3 False None 4 (fail_runs 0 (replicate 8 (1, 1)) (NewWithLogger NewDefaultConfig))) = NewWithLogger NewDefaultConfig"
proof -
  have r: "cb_reachable cfg cb \<Longrightarrow> cb_reachable cfg (fail_runs now calls cb)" for cfg cb now calls
    by (induction now calls cb rule: fail_runs.induct) (auto intro: cb_reachable.cb_run)
  let ?cb = "fail_runs 0 (replicate 8 (1, 1)) (NewWithLogger NewDefaultConfig)"
  have "cb_state ?cb = StateHalfOpened" by code_simp
  then show ?thesis using breaker_recovers [where cancelled = False and ?t0.0 = 3 and took = 4, OF r [OF cb_new]] cb_new by blast
qed

end
