(* ===== verification/Jsonparsing.thy ===== *)
theory Jsonparsing
  imports Orderedmap
begin

text \<open>
  The package \<open>jsonparsing\<close>: \<open>decode\<close> turns the text of a column into a Go value by its type
  OID, and \<open>ReadTuple\<close> fills the ordered map of one row. The codecs of pgx are the parameter
  \<open>codec\<close>: for an OID it knows, what \<open>DecodeValue\<close> gives for a text, or its error. Finite
  floats, the digits of a numeric and the instants of a timestamp are opaque (\<open>'x\<close>).
\<close>

section \<open>Values\<close>

datatype 'x gofloat = NaN | PosInf | NegInf | Fin 'x

record 'x Numeric =
  num_Valid :: bool
  num_NaN :: bool
  num_digits :: "'x option"

datatype 'x pgval =
  PgString string | PgBool bool | PgFloat32 "'x gofloat" | PgFloat64 "'x gofloat" | PgNumeric "'x Numeric"
  | PgTime int | PgTimestamp 'x | PgBytes string | PgOther 'x

datatype 'x goval =
  GStr string | GBool bool | SmartFloat32 "'x gofloat" | SmartFloat64 "'x gofloat" | GNumeric "'x Numeric" | GOther "'x pgval"

datatype BinaryEncoding = BinaryEncodingBase64 | BinaryEncodingHex
datatype NumericEncoding = NumericEncodingFloat | NumericEncodingString

record EncodingFormat =
  enc_Binary :: BinaryEncoding
  enc_Numeric :: NumericEncoding

section \<open>Binary data\<close>

definition hex_digit :: "nat \<Rightarrow> char" where
  "hex_digit n = ''0123456789abcdef'' ! n"

definition hex_EncodeToString :: "string \<Rightarrow> string" where
  "hex_EncodeToString d = concat (map (\<lambda>c. let n = of_char c :: nat in [hex_digit (n div 16), hex_digit (n mod 16)]) d)"

definition base64_char :: "nat \<Rightarrow> char" where
  "base64_char n = ''ABCDEFGHIJKLMNOPQRSTUVWXYZabcdefghijklmnopqrstuvwxyz0123456789+/'' ! n"

fun base64_EncodeToString :: "string \<Rightarrow> string" where
  "base64_EncodeToString (a # b # c # ds) =
     (let v = of_char a * 65536 + of_char b * 256 + of_char c :: nat
      in [base64_char (v div 262144), base64_char (v div 4096 mod 64), base64_char (v div 64 mod 64), base64_char (v mod 64)]
         @ base64_EncodeToString ds)"
| "base64_EncodeToString [a, b] =
     (let v = of_char a * 65536 + of_char b * 256 :: nat
      in [base64_char (v div 262144), base64_char (v div 4096 mod 64), base64_char (v div 64 mod 64), CHR ''=''])"
| "base64_EncodeToString [a] =
     (let v = of_char a * 65536 :: nat
      in [base64_char (v div 262144), base64_char (v div 4096 mod 64), CHR ''='', CHR ''=''])"
| "base64_EncodeToString [] = []"

definition EncodeBinary :: "string \<Rightarrow> BinaryEncoding \<Rightarrow> string" where
  "EncodeBinary d format = (case format of BinaryEncodingHex \<Rightarrow> hex_EncodeToString d | _ \<Rightarrow> base64_EncodeToString d)"

section \<open>Decoders\<close>

type_synonym 'x codec = "u32 \<Rightarrow> (string \<Rightarrow> 'x pgval go_result) option"

definition tryDecodeValue :: "(string \<Rightarrow> 'x pgval go_result) \<Rightarrow> string \<Rightarrow> 'x pgval go_result" where
  "tryDecodeValue dt d =
     (case dt d of Inl err \<Rightarrow> if d = ''NaN'' then Inr (PgFloat64 NaN) else Inl err | Inr v \<Rightarrow> Inr v)"

definition decodeFromTypeMap :: "'x codec \<Rightarrow> string \<Rightarrow> u32 \<Rightarrow> 'x pgval go_result" where
  "decodeFromTypeMap codec d dataType =
     (case codec dataType of
        Some dt \<Rightarrow> (case tryDecodeValue dt d of Inl err \<Rightarrow> Inl (wrap_err ''failed to decode data type: '' err) | Inr v \<Rightarrow> Inr v)
      | None \<Rightarrow> Inr (PgString d))"

definition unexpectedTypeErr :: "string \<Rightarrow> go_error" where
  "unexpectedTypeErr decoderName = Error (decoderName @ '': unexpected type for OID'')"

text \<open>A value of the type map kept as it is: strings and booleans have their own constructors.\<close>

fun to_goval :: "'x pgval \<Rightarrow> 'x goval" where
  "to_goval (PgString s) = GStr s"
| "to_goval (PgBool b) = GBool b"
| "to_goval (PgNumeric n) = GNumeric n"
| "to_goval v = GOther v"

definition coerceFloat32 :: "'x gofloat \<Rightarrow> 'x goval option" where
  "coerceFloat32 f = (if f = NaN then None else Some (SmartFloat32 f))"

definition coerceFloat64 :: "'x gofloat \<Rightarrow> 'x goval option" where
  "coerceFloat64 f = (if f = NaN then None else Some (SmartFloat64 f))"

definition coercePgTypeNumeric :: "'x Numeric \<Rightarrow> 'x Numeric" where
  "coercePgTypeNumeric f =
     (if num_NaN f \<or> \<not> num_Valid f then \<lparr>num_Valid = False, num_NaN = False, num_digits = None\<rparr> else f)"

definition stringDecoder :: "string \<Rightarrow> 'x goval option go_result" where
  "stringDecoder d = Inr (Some (GStr d))"

definition float4Decoder :: "'x codec \<Rightarrow> string \<Rightarrow> u32 \<Rightarrow> EncodingFormat \<Rightarrow> 'x goval option go_result" where
  "float4Decoder codec d dataType encoding =
     (if enc_Numeric encoding = NumericEncodingString then Inr (Some (GStr d))
      else bind_result (decodeFromTypeMap codec d dataType)
        (\<lambda>v. case v of PgFloat32 f \<Rightarrow> Inr (coerceFloat32 f) | _ \<Rightarrow> Inl (unexpectedTypeErr ''f32/f64 decoder'')))"

definition float8Decoder :: "'x codec \<Rightarrow> string \<Rightarrow> u32 \<Rightarrow> EncodingFormat \<Rightarrow> 'x goval option go_result" where
  "float8Decoder codec d dataType encoding =
     (if enc_Numeric encoding = NumericEncodingString then Inr (Some (GStr d))
      else bind_result (decodeFromTypeMap codec d dataType)
        (\<lambda>v. case v of PgFloat64 f \<Rightarrow> Inr (coerceFloat64 f) | _ \<Rightarrow> Inl (unexpectedTypeErr ''f32/f64 decoder'')))"

definition numericDecoder :: "'x codec \<Rightarrow> string \<Rightarrow> u32 \<Rightarrow> EncodingFormat \<Rightarrow> 'x goval option go_result" where
  "numericDecoder codec d dataType encoding =
     (if enc_Numeric encoding = NumericEncodingString then Inr (Some (GStr d))
      else bind_result (decodeFromTypeMap codec d dataType)
        (\<lambda>v. case v of PgNumeric f \<Rightarrow> Inr (Some (GNumeric (coercePgTypeNumeric f))) | _ \<Rightarrow> Inl (unexpectedTypeErr ''numeric decoder'')))"

definition byteDecoder :: "'x codec \<Rightarrow> string \<Rightarrow> u32 \<Rightarrow> EncodingFormat \<Rightarrow> 'x goval option go_result" where
  "byteDecoder codec d dataType encoding =
     (case decodeFromTypeMap codec d dataType of Inl e \<Rightarrow> Inl (wrap_err ''failed to decode bytea: '' e)
      | Inr (PgBytes bs) \<Rightarrow> if bs \<noteq> [] then Inr (Some (GStr (EncodeBinary bs (enc_Binary encoding)))) else Inr None
      | Inr _ \<Rightarrow> Inl (unexpectedTypeErr ''byte decoder''))"

definition boolDecoder :: "'x codec \<Rightarrow> string \<Rightarrow> u32 \<Rightarrow> 'x goval option go_result" where
  "boolDecoder codec d dataType =
     (case decodeFromTypeMap codec d dataType of Inl e \<Rightarrow> Inl (wrap_err ''failed to decode bool: '' e)
      | Inr (PgBool b) \<Rightarrow> Inr (Some (GBool b))
      | Inr _ \<Rightarrow> Inl (unexpectedTypeErr ''bool decoder''))"

text \<open>\<open>fmt\<close> is \<open>time.Time.Format\<close> with the layout of the decoder.\<close>

definition timestampDecodeWithFormat :: "('x \<Rightarrow> string) \<Rightarrow> 'x codec \<Rightarrow> string \<Rightarrow> u32 \<Rightarrow> 'x goval option go_result" where
  "timestampDecodeWithFormat fmt codec d dataType =
     (case decodeFromTypeMap codec d dataType of Inl e \<Rightarrow> Inl (wrap_err ''failed to decode timestamp/date: '' e)
      | Inr (PgTimestamp t) \<Rightarrow> Inr (Some (GStr (fmt t)))
      | Inr _ \<Rightarrow> Inl (unexpectedTypeErr ''date/timestamp decoder''))"

text \<open>\<open>%0nd\<close> of a number that is not negative; the quotients of Go round towards zero.\<close>

definition pad :: "nat \<Rightarrow> nat \<Rightarrow> string" where
  "pad width n = (let s = format_uint n in replicate (width - length s) CHR ''0'' @ s)"

definition timeToString :: "nat \<Rightarrow> string" where
  "timeToString usec0 =
     (let hours = usec0 div 3600000000; usec1 = usec0 - hours * 3600000000;
          minutes = usec1 div 60000000; usec2 = usec1 - minutes * 60000000;
          seconds = usec2 div 1000000; usec3 = usec2 - seconds * 1000000
      in pad 2 hours @ '':'' @ pad 2 minutes @ '':'' @ pad 2 seconds @ ''.'' @ pad 6 usec3)"

text \<open>The microseconds of a \<open>time\<close> value are never negative: Postgres stores the time since midnight.\<close>

definition timeDecoder :: "'x codec \<Rightarrow> string \<Rightarrow> u32 \<Rightarrow> 'x goval option go_result" where
  "timeDecoder codec d dataType =
     (case decodeFromTypeMap codec d dataType of Inl e \<Rightarrow> Inl (wrap_err ''failed to decode time: '' e)
      | Inr (PgTime t) \<Rightarrow> Inr (Some (GStr (timeToString (nat t))))
      | Inr _ \<Rightarrow> Inl (unexpectedTypeErr ''time decoder''))"

text \<open>
  The table \<open>dataTypeDecoders\<close> by the OIDs of the types: interval, the geometric types, network
  addresses, bits, JSON, XML, UUID, ranges, arrays of them, and \<open>timetz\<close> are kept as text.
\<close>

definition string_oids :: "u32 list" where
  "string_oids =
     [1186, 1187, 600, 1017, 601, 1018, 718, 719, 602, 1019, 603, 1020, 628, 629, 604, 1027, 774, 829, 1040, 869, 1041,
      650, 651, 1560, 1561, 114, 199, 142, 143, 3802, 3807, 4072, 4073, 2950, 2951, 1005, 1007, 1016, 1009,
      3904, 3905, 3926, 3927, 3906, 3907, 3908, 3909, 3910, 3911, 3912, 3913, 1266]"

text \<open>\<open>fmtDate\<close> and \<open>fmtDateTime\<close> format with \<open>time.DateOnly\<close> and \<open>time.RFC3339Nano\<close>.\<close>

definition Decode ::
  "('x \<Rightarrow> string) \<Rightarrow> ('x \<Rightarrow> string) \<Rightarrow> 'x codec \<Rightarrow> string \<Rightarrow> u32 \<Rightarrow> EncodingFormat \<Rightarrow> 'x goval option go_result" where
  "Decode fmtDate fmtDateTime codec d dataType encoding =
     (if dataType \<in> set string_oids then stringDecoder d
      else if dataType = 700 then float4Decoder codec d dataType encoding
      else if dataType = 701 then float8Decoder codec d dataType encoding
      else if dataType = 1700 then numericDecoder codec d dataType encoding
      else if dataType = 17 then byteDecoder codec d dataType encoding
      else if dataType = 1082 then timestampDecodeWithFormat fmtDate codec d dataType
      else if dataType = 1184 \<or> dataType = 1114 then timestampDecodeWithFormat fmtDateTime codec d dataType
      else if dataType = 1083 then timeDecoder codec d dataType
      else if dataType = 16 then boolDecoder codec d dataType
      else bind_result (decodeFromTypeMap codec d dataType) (\<lambda>v. Inr (Some (to_goval v))))"

text \<open>What \<open>SmartFloat32/64.MarshalJSON\<close> prints: null, a constant of the package \<open>math\<close>, or the digits.\<close>

datatype 'x json_float = JNull | JMaxFloat | JSmallestNonzeroFloat | JDigits 'x

definition SmartFloat_MarshalJSON :: "'x gofloat \<Rightarrow> 'x json_float" where
  "SmartFloat_MarshalJSON f = (case f of NaN \<Rightarrow> JNull | PosInf \<Rightarrow> JMaxFloat | NegInf \<Rightarrow> JSmallestNonzeroFloat | Fin x \<Rightarrow> JDigits x)"

section \<open>Reading a row\<close>

record RelCol =
  rc_Name :: string
  rc_DataType :: u32

record TupleCol =
  tc_DataType :: char
  tc_Data :: string

record ReadTupleConfig =
  ReadIndexes :: "nat list option"
  ReadAll :: bool
  cfg_Encoding :: EncodingFormat

type_synonym 'x decoder = "string \<Rightarrow> u32 \<Rightarrow> EncodingFormat \<Rightarrow> 'x goval option go_result"

definition writeValue ::
  "'x decoder \<Rightarrow> EncodingFormat \<Rightarrow> TupleCol \<Rightarrow> RelCol \<Rightarrow> 'x goval OrderedMap \<Rightarrow> 'x goval OrderedMap go_result" where
  "writeValue dec encoding col relCol res =
     (if tc_DataType col = CHR ''n'' then om_Set res (rc_Name relCol) None
      else if tc_DataType col = CHR ''u'' then Inr res
      else if tc_DataType col = CHR ''t'' then
        (case dec (tc_Data col) (rc_DataType relCol) encoding of
           Inl e \<Rightarrow> Inl (wrap_err ''writeValue: failed to decode value for column '' e)
         | Inr v \<Rightarrow> om_Set res (rc_Name relCol) v)
      else Inr res)"

fun read_columns ::
  "'x decoder \<Rightarrow> EncodingFormat \<Rightarrow> TupleCol list \<Rightarrow> RelCol list \<Rightarrow> nat list \<Rightarrow> 'x goval OrderedMap \<Rightarrow> 'x goval OrderedMap go_result" where
  "read_columns dec encoding cols columns [] res = Inr res"
| "read_columns dec encoding cols columns (i # is) res =
     bind_result (slice_get columns i) (\<lambda>relCol.
       if GetIndex (om_keyMap res) (rc_Name relCol) < 0 then read_columns dec encoding cols columns is res
       else bind_result (slice_get cols i) (\<lambda>col.
         bind_result (writeValue dec encoding col relCol res) (read_columns dec encoding cols columns is)))"

definition ReadTuple ::
  "'x decoder \<Rightarrow> TupleCol list option \<Rightarrow> RelCol list \<Rightarrow> ReadTupleConfig \<Rightarrow> KeyMap option \<Rightarrow> 'x goval OrderedMap option go_result" where
  "ReadTuple dec t columns cfg keyMap =
     (case t of None \<Rightarrow> Inr None
      | Some cols \<Rightarrow>
        (case keyMap of None \<Rightarrow> Inl (Error ''read tuple: keymap is nil'')
         | Some km \<Rightarrow>
            bind_result (read_columns dec (cfg_Encoding cfg) cols columns
                (case ReadIndexes cfg of None \<Rightarrow> [0..<length cols] | Some idx \<Rightarrow> if ReadAll cfg then [0..<length cols] else idx)
                (om_New km))
              (\<lambda>res. Inr (Some res))))"


section \<open>What a row contains\<close>

text \<open>The cell a column leaves in the row: nothing for an unchanged TOAST value.\<close>

definition col_value :: "'x decoder \<Rightarrow> EncodingFormat \<Rightarrow> TupleCol \<Rightarrow> RelCol \<Rightarrow> 'x goval option option" where
  "col_value dec encoding col relCol =
     (if tc_DataType col = CHR ''n'' then Some None
      else if tc_DataType col = CHR ''t'' then
        (case dec (tc_Data col) (rc_DataType relCol) encoding of Inl _ \<Rightarrow> None | Inr v \<Rightarrow> Some v)
      else None)"

definition col_decodes :: "'x decoder \<Rightarrow> EncodingFormat \<Rightarrow> TupleCol \<Rightarrow> RelCol \<Rightarrow> bool" where
  "col_decodes dec encoding col relCol \<longleftrightarrow>
     tc_DataType col \<noteq> CHR ''t'' \<or> (\<exists>v. dec (tc_Data col) (rc_DataType relCol) encoding = Inr v)"

lemma writeValue_lookup:
  assumes "om_wf res" "writeValue dec encoding col relCol res = Inr res'"
  shows "om_wf res' \<and> om_keyMap res' = om_keyMap res \<and>
    om_lookup res' = (case col_value dec encoding col relCol of None \<Rightarrow> om_lookup res | Some v \<Rightarrow> (om_lookup res)(rc_Name relCol \<mapsto> v))"
  using assms om_Set_wf [OF assms(1)] om_Set_lookup [OF assms(1)]
  by (auto simp: writeValue_def col_value_def split: if_splits sum.splits)

lemma writeValue_ok:
  assumes "om_wf res" "rc_Name relCol \<in> set (Keys (om_keyMap res))" "col_decodes dec encoding col relCol"
  shows "\<exists>res'. writeValue dec encoding col relCol res = Inr res'"
  using assms om_Set_ok_iff [OF assms(1), of "rc_Name relCol"] by (auto simp: writeValue_def col_decodes_def)

text \<open>The loop on lookups.\<close>

definition cell_step :: "'x decoder \<Rightarrow> EncodingFormat \<Rightarrow> TupleCol list \<Rightarrow> RelCol list \<Rightarrow> string set \<Rightarrow> nat \<Rightarrow>
    (string \<rightharpoonup> 'x goval option) \<Rightarrow> (string \<rightharpoonup> 'x goval option)" where
  "cell_step dec encoding cols columns ks i m =
     (if rc_Name (columns ! i) \<notin> ks then m
      else (case col_value dec encoding (cols ! i) (columns ! i) of None \<Rightarrow> m | Some v \<Rightarrow> m(rc_Name (columns ! i) \<mapsto> v)))"

lemma read_columns_lookup:
  assumes "om_wf res" "read_columns dec encoding cols columns is res = Inr res'"
  shows "om_wf res' \<and> om_keyMap res' = om_keyMap res \<and>
    om_lookup res' = fold (cell_step dec encoding cols columns (set (Keys (om_keyMap res)))) is (om_lookup res)"
  using assms
proof (induction "is" arbitrary: res)
  case (Cons i "is")
  have i: "i < length columns" using Cons.prems(2) by (auto simp: slice_get_def split: if_splits)
  let ?c = "columns ! i"
  have neg: "GetIndex (om_keyMap res) (rc_Name ?c) < 0 \<longleftrightarrow> rc_Name ?c \<notin> set (Keys (om_keyMap res))"
    using GetIndex_neg_iff [OF om_wfD(1) [OF Cons.prems(1)]] .
  show ?case
  proof (cases "rc_Name ?c \<in> set (Keys (om_keyMap res))")
    case False
    then show ?thesis using Cons.IH [OF Cons.prems(1)] Cons.prems(2) i neg by (simp add: cell_step_def)
  next
    case True
    obtain res1 where r1: "slice_get cols i = Inr (cols ! i)" "writeValue dec encoding (cols ! i) ?c res = Inr res1"
      "read_columns dec encoding cols columns is res1 = Inr res'"
      using Cons.prems(2) True i neg by (auto simp: slice_get_def split: if_splits)
    note w = writeValue_lookup [OF Cons.prems(1) r1(2)]
    then have "om_wf res1" by simp
    from Cons.IH [OF this r1(3)] w True show ?thesis by (simp add: cell_step_def split: option.splits)
  qed
qed simp

lemma read_columns_ok:
  assumes "om_wf res" "\<forall>i \<in> set is. i < length columns \<and> i < length cols"
    and "\<forall>i \<in> set is. col_decodes dec encoding (cols ! i) (columns ! i)"
  shows "\<exists>res'. read_columns dec encoding cols columns is res = Inr res'"
  using assms
proof (induction "is" arbitrary: res)
  case (Cons i "is")
  have neg: "GetIndex (om_keyMap res) (rc_Name (columns ! i)) < 0 \<longleftrightarrow> rc_Name (columns ! i) \<notin> set (Keys (om_keyMap res))"
    using GetIndex_neg_iff [OF om_wfD(1) [OF Cons.prems(1)]] .
  show ?case
  proof (cases "rc_Name (columns ! i) \<in> set (Keys (om_keyMap res))")
    case False
    then show ?thesis using Cons neg by simp
  next
    case True
    obtain res1 where r: "writeValue dec encoding (cols ! i) (columns ! i) res = Inr res1"
      using writeValue_ok [OF Cons.prems(1) True, of dec encoding "cols ! i"] Cons.prems(3) by auto
    have "om_wf res1" using writeValue_lookup [OF Cons.prems(1) r] by simp
    then show ?thesis using Cons.IH [of res1] Cons.prems(2,3) True neg r by simp
  qed
qed simp

lemma cell_step_other:
  "rc_Name (columns ! i) \<noteq> k \<Longrightarrow> cell_step dec encoding cols columns ks i m k = m k"
  by (simp add: cell_step_def split: option.splits)

lemma fold_cell_step:
  assumes "distinct (map rc_Name columns)" "\<forall>i \<in> set is. i < length columns" "j < length columns"
  shows "fold (cell_step dec encoding cols columns ks) is m (rc_Name (columns ! j)) =
    (if j \<in> set is \<and> rc_Name (columns ! j) \<in> ks
     then (case col_value dec encoding (cols ! j) (columns ! j) of None \<Rightarrow> m (rc_Name (columns ! j)) | Some v \<Rightarrow> Some v)
     else m (rc_Name (columns ! j)))"
  using assms(2)
proof (induction "is" arbitrary: m)
  case (Cons i "is")
  show ?case
  proof (cases "i = j")
    case True
    then show ?thesis using Cons by (auto simp: cell_step_def split: option.splits)
  next
    case False
    then have "rc_Name (columns ! i) \<noteq> rc_Name (columns ! j)"
      using assms(1,3) Cons.prems nth_eq_iff_index_eq [OF assms(1), of i j] by simp
    then show ?thesis using Cons False by (simp add: cell_step_other split: option.split)
  qed
qed simp

section \<open>Properties\<close>

text \<open>The positions \<open>ReadTuple\<close> visits.\<close>

definition read_positions :: "ReadTupleConfig \<Rightarrow> TupleCol list \<Rightarrow> nat list" where
  "read_positions cfg cols =
     (case ReadIndexes cfg of None \<Rightarrow> [0..<length cols] | Some idx \<Rightarrow> if ReadAll cfg then [0..<length cols] else idx)"

text \<open>
  (C24) Reading a row is total and exact: if the positions to read are in range and their values
  decode, \<open>ReadTuple\<close> returns a well-formed row over the key map of the relation version in which
  each column read holds its decoded value or nil, a column that is not read, not in the key map,
  or an unchanged TOAST value is absent, and nothing else is set.
\<close>

theorem ReadTuple_cells:
  assumes "km_wf km" "Len km < 2 ^ 32" "distinct (map rc_Name columns)"
    and "\<forall>i \<in> set (read_positions cfg cols). i < length columns \<and> i < length cols"
    and "\<forall>i \<in> set (read_positions cfg cols). col_decodes dec (cfg_Encoding cfg) (cols ! i) (columns ! i)"
  shows "\<exists>res. ReadTuple dec (Some cols) columns cfg (Some km) = Inr (Some res) \<and> om_wf res \<and> om_keyMap res = km \<and>
    (\<forall>j < length columns. om_lookup res (rc_Name (columns ! j)) =
       (if j \<in> set (read_positions cfg cols) \<and> rc_Name (columns ! j) \<in> set (Keys km)
        then col_value dec (cfg_Encoding cfg) (cols ! j) (columns ! j) else None))"
proof -
  have w: "om_wf (om_New km)" using assms(1,2) by simp
  obtain res where r: "read_columns dec (cfg_Encoding cfg) cols columns (read_positions cfg cols) (om_New km) = Inr res"
    using read_columns_ok [OF w assms(4,5)] by blast
  have rt: "ReadTuple dec (Some cols) columns cfg (Some km) = Inr (Some res)"
    using r by (simp add: ReadTuple_def read_positions_def)
  note l = read_columns_lookup [OF w r]
  have "om_lookup res (rc_Name (columns ! j)) =
       (if j \<in> set (read_positions cfg cols) \<and> rc_Name (columns ! j) \<in> set (Keys km)
        then col_value dec (cfg_Encoding cfg) (cols ! j) (columns ! j) else None)" if "j < length columns" for j
  proof -
    have "\<forall>i \<in> set (read_positions cfg cols). i < length columns" using assms(4) by blast
    from fold_cell_step [OF assms(3) this that, of dec "cfg_Encoding cfg" cols "set (Keys km)" "om_lookup (om_New km)"]
    show ?thesis using l assms(1) by (simp split: option.split)
  qed
  then show ?thesis using rt l by auto
qed

definition sample_columns :: "RelCol list" where
  "sample_columns = [\<lparr>rc_Name = ''id'', rc_DataType = 2950\<rparr>, \<lparr>rc_Name = ''doc'', rc_DataType = 3802\<rparr>]"

definition sample_cells :: "TupleCol list" where
  "sample_cells = [\<lparr>tc_DataType = CHR ''t'', tc_Data = ''7''\<rparr>, \<lparr>tc_DataType = CHR ''u'', tc_Data = []\<rparr>]"

definition sample_read :: ReadTupleConfig where
  "sample_read = \<lparr>ReadIndexes = None, ReadAll = True, cfg_Encoding = \<lparr>enc_Binary = BinaryEncodingBase64, enc_Numeric = NumericEncodingFloat\<rparr>\<rparr>"

definition sample_dec :: "nat decoder" where
  "sample_dec = Decode (\<lambda>_. ''date'') (\<lambda>_. ''datetime'') (\<lambda>_. None)"

theorem ReadTuple_cells_witness:
  "\<exists>res. ReadTuple sample_dec (Some sample_cells) sample_columns sample_read (Some (km_New [''id'', ''doc''])) = Inr (Some res) \<and>
     om_lookup res ''id'' = Some (Some (GStr ''7'')) \<and> om_lookup res ''doc'' = None"
proof -
  have p: "read_positions sample_read sample_cells = [0, 1]" by (simp add: read_positions_def sample_read_def sample_cells_def upt_rec)
  have k: "km_wf (km_New [''id'', ''doc''])" by (rule km_wf_New)
  have l: "Len (km_New [''id'', ''doc'']) < 2 ^ 32" "set (Keys (km_New [''id'', ''doc''])) = {''id'', ''doc''}"
    by (simp_all add: km_New_def Len_def Keys_def)
  have v: "col_value sample_dec (cfg_Encoding sample_read) (sample_cells ! 0) (sample_columns ! 0) = Some (Some (GStr ''7''))"
    "col_value sample_dec (cfg_Encoding sample_read) (sample_cells ! 1) (sample_columns ! 1) = None"
    by (simp_all add: col_value_def sample_dec_def Decode_def stringDecoder_def string_oids_def sample_cells_def sample_columns_def)
  have d: "\<forall>i \<in> set (read_positions sample_read sample_cells). i < length sample_columns \<and> i < length sample_cells"
    "distinct (map rc_Name sample_columns)"
    unfolding p by (simp_all add: sample_columns_def sample_cells_def)
  have c: "\<forall>i \<in> set (read_positions sample_read sample_cells). col_decodes sample_dec (cfg_Encoding sample_read) (sample_cells ! i) (sample_columns ! i)"
    unfolding p by (simp add: col_decodes_def sample_dec_def Decode_def stringDecoder_def string_oids_def sample_cells_def sample_columns_def)
  have n: "length sample_columns = 2" "rc_Name (sample_columns ! 0) = ''id''" "rc_Name (sample_columns ! 1) = ''doc''"
    by (simp_all add: sample_columns_def)
  obtain res where r: "ReadTuple sample_dec (Some sample_cells) sample_columns sample_read (Some (km_New [''id'', ''doc''])) = Inr (Some res)"
    and cells: "\<forall>j < length sample_columns. om_lookup res (rc_Name (sample_columns ! j)) =
       (if j \<in> set (read_positions sample_read sample_cells) \<and> rc_Name (sample_columns ! j) \<in> set (Keys (km_New [''id'', ''doc'']))
        then col_value sample_dec (cfg_Encoding sample_read) (sample_cells ! j) (sample_columns ! j) else None)"
    using ReadTuple_cells [OF k l(1) d(2,1) c] by blast
  have "om_lookup res ''id'' = Some (Some (GStr ''7''))" "om_lookup res ''doc'' = None"
    using cells [rule_format, of 0] cells [rule_format, of 1] by (simp_all add: n p l(2) v del: One_nat_def)
  then show ?thesis using r by blast
qed

text \<open>
  A time of day prints as \<open>HH:MM:SS.ffffff\<close> with minutes and seconds below 60 and six digits
  of microseconds, and the printed fields add up to the value.
\<close>

theorem timeToString_fields:
  "\<exists>h m sec us. timeToString u = pad 2 h @ '':'' @ pad 2 m @ '':'' @ pad 2 sec @ ''.'' @ pad 6 us \<and>
     u = h * 3600000000 + m * 60000000 + sec * 1000000 + us \<and> m < 60 \<and> sec < 60 \<and> us < 1000000"
proof -
  let ?h = "u div 3600000000" let ?r = "u - ?h * 3600000000" let ?m = "?r div 60000000" let ?q = "?r - ?m * 60000000"
  let ?s = "?q div 1000000" let ?us = "?q - ?s * 1000000"
  have "timeToString u = pad 2 ?h @ '':'' @ pad 2 ?m @ '':'' @ pad 2 ?s @ ''.'' @ pad 6 ?us"
    by (simp only: timeToString_def Let_def)
  moreover have "?r = u mod 3600000000" "?q = ?r mod 60000000" "?us = ?q mod 1000000"
    by (simp_all add: minus_div_mult_eq_mod)
  moreover have "?m < 60" "?s < 60" "?us < 1000000" "u = ?h * 3600000000 + ?m * 60000000 + ?s * 1000000 + ?us"
    using calculation(2-4) by (simp_all add: less_mult_imp_div_less div_mult_mod_eq)
  ultimately show ?thesis by blast
qed

end
