(* ===== verification/Pgwal.thy ===== *)
theory Pgwal
  imports Prelude
begin

text \<open>
  The types that travel through the pipeline: \<open>listener.go\<close> (commit points) and the package
  \<open>pgwal\<close> (write requests and the responses of the writers).
\<close>

type_synonym LSN = u64

record CommitPoint =
  cp_LSN :: LSN
  cp_XID :: u32

datatype OpKind = Insert | Update | Delete | SnapshotRead

record TableName =
  tn_Schema :: string
  tn_Name :: string
  tn_FullName :: string

text \<open>
  A Go interface value of type \<open>EntryTuple\<close>: nil, a non-nil interface around a nil
  \<open>*OrderedMap\<close>, or a tuple. The code compares interfaces with nil, so the first two differ.
\<close>

datatype 't EntryTuple = NoTuple | NilTuple | Tup 't

fun is_nil :: "'t EntryTuple \<Rightarrow> bool" where
  "is_nil NoTuple = True"
| "is_nil _ = False"

lemma is_nil_iff [simp]: "is_nil t \<longleftrightarrow> t = NoTuple"
  by (cases t) auto

record 't WriteEntry =
  we_Tuple :: "'t EntryTuple"
  we_PrevTuple :: "'t EntryTuple"
  we_PK :: string
  we_Kind :: OpKind
  we_Table :: TableName
  we_Offset :: u32

record 't WriteRequest =
  wr_Entries :: "'t WriteEntry list"
  wr_LSN :: LSN
  wr_XID :: u32
  wr_CommitTime :: int
  wr_isSnapshot :: bool

definition NewSnapshotRequest :: "LSN \<Rightarrow> 't WriteEntry list \<Rightarrow> 't WriteRequest" where
  "NewSnapshotRequest lsn entries =
     \<lparr>wr_Entries = entries, wr_LSN = lsn, wr_XID = 0, wr_CommitTime = 0, wr_isSnapshot = True\<rparr>"

definition IsSnapshot :: "'t WriteRequest \<Rightarrow> bool" where
  "IsSnapshot r = wr_isSnapshot r"

text \<open>\<open>Size\<close> is \<open>uint32(len(r.Entries))\<close>: the length modulo \<open>2 ^ 32\<close>.\<close>

definition wr_Size :: "'t WriteRequest \<Rightarrow> u32" where
  "wr_Size r = of_nat (length (wr_Entries r))"

definition GetEntryByOffset :: "'t WriteRequest \<Rightarrow> u32 \<Rightarrow> 't WriteEntry option" where
  "GetEntryByOffset r offset = find (\<lambda>entry. we_Offset entry = offset) (wr_Entries r)"

definition wr_offsets :: "'t WriteRequest \<Rightarrow> u32 set" where
  "wr_offsets r = we_Offset ` set (wr_Entries r)"

lemma GetEntryByOffset_Some:
  "GetEntryByOffset r off = Some e \<Longrightarrow> e \<in> set (wr_Entries r) \<and> we_Offset e = off"
  by (auto simp: GetEntryByOffset_def find_Some_iff)

lemma GetEntryByOffset_None: "GetEntryByOffset r off = None \<longleftrightarrow> off \<notin> wr_offsets r"
  by (auto simp: GetEntryByOffset_def find_None_iff wr_offsets_def)

text \<open>What a writer reports: acknowledged entries, or failed entries with the reason.\<close>

record ResponseEntry =
  re_PK :: string
  re_Table :: TableName
  re_LSN :: LSN
  re_XID :: u32
  re_Offset :: u32

record WriterError =
  err_Error :: string
  IsRetryable :: bool
  IsDownStreamDown :: bool

record ErrorResponseEntry =
  ee_Entry :: ResponseEntry
  ee_Reason :: WriterError

end
