(* ===== verification/Pgschema.thy ===== *)
theory Pgschema
  imports Gostrings Pgwal "HOL-Library.AList" "HOL-Library.List_Lexorder" "HOL-Library.Char_ord" "HOL-Library.Product_Lexorder" "HOL-Library.Multiset"
begin

text \<open>
  \<open>pgschema/pgschema.go\<close>: table names, tables with their published and primary-key columns,
  row keys, and the tables built from the rows of the catalogue queries. Go maps are association
  lists; what does not depend on the order of iteration is proved not to. The rows are the
  arguments of the readers: the queries themselves run in Postgres.
\<close>

section \<open>Tables and keys\<close>

record Column =
  col_Name :: string
  TypeID :: u32
  IsPK :: bool
  Position :: int

record Table =
  tbl_Name :: TableName
  Columns :: "(string \<times> Column) list"
  PK :: "(string \<times> Column) list"
  PhysicalColumnsCount :: int

definition MakeTableName :: "string \<Rightarrow> string \<Rightarrow> TableName" where
  "MakeTableName schema table = \<lparr>tn_Schema = schema, tn_Name = table, tn_FullName = schema @ ''.'' @ table\<rparr>"

definition ParseTableName :: "string \<Rightarrow> TableName" where
  "ParseTableName fullName =
     (case split_on CHR ''.'' fullName of [a, b] \<Rightarrow> MakeTableName a b | _ \<Rightarrow> MakeTableName ''public'' fullName)"

definition NewTable :: "string \<Rightarrow> string \<Rightarrow> Table" where
  "NewTable schema name = \<lparr>tbl_Name = MakeTableName schema name, Columns = [], PK = [], PhysicalColumnsCount = 0\<rparr>"

definition FullName :: "Table \<Rightarrow> string" where
  "FullName t = tn_FullName (tbl_Name t)"

definition HasColumn :: "Table \<Rightarrow> string \<Rightarrow> bool" where
  "HasColumn t col \<longleftrightarrow> map_of (Columns t) col \<noteq> None"

definition AddColumn :: "Column \<Rightarrow> Table \<Rightarrow> Table" where
  "AddColumn col t =
     (let t1 = t\<lparr>Columns := AList.update (col_Name col) col (Columns t)\<rparr>
      in if IsPK col then t1\<lparr>PK := AList.update (col_Name col) col (PK t1)\<rparr> else t1)"

definition WithColumns :: "(string \<times> Column) list \<Rightarrow> Table \<Rightarrow> Table" where
  "WithColumns cols t = t\<lparr>Columns := cols\<rparr>"

definition HasAllPhysicalColumns :: "Table option \<Rightarrow> bool" where
  "HasAllPhysicalColumns tbl \<longleftrightarrow>
     (case tbl of None \<Rightarrow> False | Some t \<Rightarrow> 0 < PhysicalColumnsCount t \<and> int (length (Columns t)) = PhysicalColumnsCount t)"

definition MakeRowKey :: "string \<Rightarrow> string \<Rightarrow> string" where
  "MakeRowKey tableKey pk = tableKey @ '':'' @ pk"

definition MakeKey :: "Table \<Rightarrow> string \<Rightarrow> string" where
  "MakeKey t pk = MakeRowKey (FullName t) pk"

text \<open>
  \<open>CreatePK\<close>: the columns in the order of the comparison function (position, then name), the
  formatted values joined with colons. \<open>fmt\<close> is \<open>Sprintf("%v")\<close> of a value, nil included, and
  \<open>get\<close> the value part of the tuple's \<open>Get\<close>.
\<close>

definition pk_sorted :: "Table \<Rightarrow> Column list" where
  "pk_sorted t = sort_key (\<lambda>c. (Position c, col_Name c)) (map snd (PK t))"

fun join_key :: "string \<Rightarrow> string \<Rightarrow> string list \<Rightarrow> string" where
  "join_key key colon [] = key"
| "join_key key colon (v # vs) = join_key (key @ colon @ v) '':'' vs"

definition CreatePK :: "('v option \<Rightarrow> string) \<Rightarrow> Table \<Rightarrow> (string \<Rightarrow> 'v option) \<Rightarrow> string" where
  "CreatePK fmt t get = join_key [] [] (map (\<lambda>c. fmt (get (col_Name c))) (pk_sorted t))"

section \<open>Versions and publication tables\<close>

type_synonym PGVersion = "8 word"

definition parsePGVersionNum :: "int \<Rightarrow> PGVersion go_result" where
  "parsePGVersionNum versionNum =
     (let ver = (if versionNum < 0 then - (- versionNum div 10000) else versionNum div 10000)
      in if ver < 12 then Inl (Error ''PG version not supported'') else Inr (word_of_int ver))"

record pubTableColumn =
  ptc_colNames :: "string list option"
  ptc_Schema :: string
  ptc_Table :: string
  ptc_Column :: string
  ptc_TypeID :: u32
  ptc_IsPK :: bool
  ptc_Position :: int

type_synonym tables = "(string \<times> Table) list"

definition column_of :: "pubTableColumn \<Rightarrow> Column" where
  "column_of r = \<lparr>col_Name = ptc_Column r, TypeID = ptc_TypeID r, IsPK = ptc_IsPK r, Position = ptc_Position r\<rparr>"

text \<open>Find or create the table of a row, and add the row's column to it.\<close>

definition table_of :: "tables \<Rightarrow> pubTableColumn \<Rightarrow> Table" where
  "table_of res r =
     (case map_of res (tn_FullName (MakeTableName (ptc_Schema r) (ptc_Table r))) of
        None \<Rightarrow> NewTable (ptc_Schema r) (ptc_Table r) | Some t \<Rightarrow> t)"

definition put_table :: "pubTableColumn \<Rightarrow> Table \<Rightarrow> tables \<Rightarrow> tables" where
  "put_table r t res = AList.update (tn_FullName (MakeTableName (ptc_Schema r) (ptc_Table r))) t res"

definition add_row :: "pubTableColumn \<Rightarrow> tables \<Rightarrow> tables" where
  "add_row r res = put_table r (AddColumn (column_of r) (table_of res r)) res"

definition count_columns :: "Table \<Rightarrow> Table" where
  "count_columns t = t\<lparr>PhysicalColumnsCount := int (length (Columns t))\<rparr>"

definition read_tables_v12 :: "pubTableColumn list \<Rightarrow> tables" where
  "read_tables_v12 rows = map (\<lambda>(k, t). (k, count_columns t)) (fold add_row rows [])"

definition colExistsInPub :: "pubTableColumn \<Rightarrow> bool" where
  "colExistsInPub r =
     (case ptc_colNames r of None \<Rightarrow> True | Some names \<Rightarrow> list_ex (\<lambda>s. EqualFold s (ptc_Column r)) names)"

definition add_row_v15 :: "pubTableColumn \<Rightarrow> tables \<times> tables \<Rightarrow> tables \<times> tables" where
  "add_row_v15 r ts =
     (let (pub, all) = ts;
          t1 = table_of pub r;
          t2 = AddColumn (column_of r) (table_of all r)
      in (put_table r (if colExistsInPub r then AddColumn (column_of r) t1 else t1) pub, put_table r t2 all))"

definition read_tables_v15 :: "pubTableColumn list \<Rightarrow> tables \<times> tables" where
  "read_tables_v15 rows =
     (let (pub, all) = fold add_row_v15 rows ([], []);
          all' = map (\<lambda>(k, t). (k, count_columns t)) all
      in (map (\<lambda>(k, t). (k, case map_of all' k of None \<Rightarrow> t | Some u \<Rightarrow> t\<lparr>PhysicalColumnsCount := PhysicalColumnsCount u\<rparr>)) pub, all'))"

text \<open>
  The row of the PG 15 query as it is scanned: every column but the names may be NULL. A NULL
  among the first three is the permission error; a NULL type, key flag or position is
  dereferenced.
\<close>

record scanned_row =
  sc_names :: "string list option"
  sc_schema :: "string option"
  sc_table :: "string option"
  sc_column :: "string option"
  sc_typeID :: "u32 option"
  sc_isPK :: "bool option"
  sc_position :: "int option"

definition deref :: "'a option \<Rightarrow> 'a go_result" where
  "deref p = (case p of None \<Rightarrow> Inl nil_panic | Some x \<Rightarrow> Inr x)"

definition scan_row_v15 :: "scanned_row \<Rightarrow> pubTableColumn go_result" where
  "scan_row_v15 r =
     (case (sc_schema r, sc_table r, sc_column r) of
        (Some s, Some t, Some c) \<Rightarrow>
          bind_result (deref (sc_typeID r)) (\<lambda>ty. bind_result (deref (sc_isPK r)) (\<lambda>pk. bind_result (deref (sc_position r)) (\<lambda>pos.
            Inr \<lparr>ptc_colNames = sc_names r, ptc_Schema = s, ptc_Table = t, ptc_Column = c, ptc_TypeID = ty, ptc_IsPK = pk, ptc_Position = pos\<rparr>)))
      | _ \<Rightarrow> Inl (Error ''unable to read table data. make sure user has SELECT permissions on all tables from configuration''))"

fun collect_rows :: "scanned_row list \<Rightarrow> pubTableColumn list go_result" where
  "collect_rows [] = Inr []"
| "collect_rows (r # rs) = bind_result (scan_row_v15 r) (\<lambda>c. bind_result (collect_rows rs) (\<lambda>cs. Inr (c # cs)))"

definition ReadPubTablesV15 :: "unit go_result \<Rightarrow> scanned_row list go_result \<Rightarrow> (tables \<times> tables) go_result" where
  "ReadPubTablesV15 pubExists rows =
     bind_result pubExists (\<lambda>_. bind_result (bind_result rows collect_rows) (\<lambda>cs. Inr (read_tables_v15 cs)))"

definition ReadPubTablesV12 :: "unit go_result \<Rightarrow> pubTableColumn list go_result \<Rightarrow> tables go_result" where
  "ReadPubTablesV12 pubExists rows = bind_result pubExists (\<lambda>_. bind_result rows (\<lambda>cs. Inr (read_tables_v12 cs)))"

record PubTableRes =
  res_Tables :: tables
  TablesWithAllColumns :: tables

definition ReadPubTables ::
  "unit go_result \<Rightarrow> pubTableColumn list go_result \<Rightarrow> scanned_row list go_result \<Rightarrow> PGVersion \<Rightarrow> PubTableRes go_result" where
  "ReadPubTables pubExists rows12 rows15 ver =
     (if 12 \<le> ver \<and> ver < 15
      then bind_result (ReadPubTablesV12 pubExists rows12) (\<lambda>ts. Inr \<lparr>res_Tables = ts, TablesWithAllColumns = ts\<rparr>)
      else if 15 \<le> ver
      then bind_result (ReadPubTablesV15 pubExists rows15) (\<lambda>(ts, all). Inr \<lparr>res_Tables = ts, TablesWithAllColumns = all\<rparr>)
      else Inl (Error ''unsupported PG version''))"

declare map_of_eq_Some_iff [simp del]

section \<open>Keys\<close>

lemma join_key_concat: "join_key key colon vs = key @ (case vs of [] \<Rightarrow> [] | v # vs' \<Rightarrow> colon @ v @ concat (map (\<lambda>u. '':'' @ u) vs'))"
  by (induction key colon vs rule: join_key.induct) (auto split: list.splits)

lemma join_key_split:
  "vs \<noteq> [] \<Longrightarrow> (\<And>v. v \<in> set vs \<Longrightarrow> CHR '':'' \<notin> set v) \<Longrightarrow> split_on CHR '':'' (join_key [] [] vs) = vs"
proof (induction vs)
  case (Cons v vs)
  have v: "CHR '':'' \<notin> set v" using Cons.prems by simp
  show ?case
  proof (cases vs)
    case Nil
    then show ?thesis using v by (simp add: split_on_no_sep)
  next
    case (Cons u us)
    then have "split_on CHR '':'' (join_key [] [] vs) = vs" using Cons.IH Cons.prems by simp
    then show ?thesis using v by (simp add: join_key_concat Cons split_on_append)
  qed
qed simp

lemma sort_key_mset:
  assumes "mset xs = mset ys" "inj_on f (set xs)" "distinct xs"
  shows "sort_key f xs = sort_key f ys"
proof -
  have "sorted (map f (sort_key f xs))" by simp
  moreover have "distinct (map f (sort_key f xs))" using assms(2,3) by (simp add: distinct_map)
  moreover have "mset (sort_key f xs) = mset ys" using assms(1) by simp
  moreover have "sorted (map f (sort_key f ys))" by simp
  moreover have "distinct ys" using assms(1,3) by (metis mset_eq_imp_distinct_iff)
  moreover have "inj_on f (set (sort_key f xs) \<union> set (sort_key f ys))" using assms by (metis mset_eq_setD set_sort sup.idem)
  moreover have "set (sort_key f xs) = set (sort_key f ys)" using assms(1) by (metis mset_eq_setD set_sort)
  ultimately show ?thesis
    by (metis map_inj_on distinct_map inj_on_Un set_sort sorted_distinct_set_unique list.set_map sup.idem distinct_sort)
qed


text \<open>A table as the readers build it: columns are filed under their names.\<close>

definition table_wf :: "Table \<Rightarrow> bool" where
  "table_wf t \<longleftrightarrow> distinct (map fst (Columns t)) \<and> distinct (map fst (PK t)) \<and>
     (\<forall>(k, c) \<in> set (Columns t) \<union> set (PK t). col_Name c = k)"

lemma update_set_cases: "(k, c) \<in> set (AList.update n v al) \<Longrightarrow> (k, c) = (n, v) \<or> (k, c) \<in> set al"
  by (induction al) (auto split: if_splits)

lemma table_wf_New [simp]: "table_wf (NewTable s n)"
  by (simp add: table_wf_def NewTable_def)

lemma table_wf_AddColumn: "table_wf t \<Longrightarrow> table_wf (AddColumn c t)"
  by (auto simp: table_wf_def AddColumn_def Let_def distinct_update dest!: update_set_cases)

lemma pk_sorted_order:
  assumes "table_wf t" "table_wf t'" "mset (PK t) = mset (PK t')"
  shows "pk_sorted t = pk_sorted t'"
proof -
  have nm: "col_Name c = k" if "(k, c) \<in> set (PK t)" for k c using assms(1) that unfolding table_wf_def by blast
  have dk: "distinct (map fst (PK t))" using assms(1) by (simp add: table_wf_def)
  have inj: "inj_on snd (set (PK t))"
  proof (rule inj_onI)
    fix x y assume "x \<in> set (PK t)" "y \<in> set (PK t)" "snd x = snd y"
    then have "col_Name (snd x) = fst x" "col_Name (snd y) = fst y" by (metis nm prod.collapse)+
    then show "x = y" using \<open>snd x = snd y\<close> by (simp add: prod_eq_iff)
  qed
  have "distinct (PK t)" using dk by (simp add: distinct_map)
  then have "distinct (map snd (PK t))" using inj by (simp add: distinct_map)
  moreover have "inj_on (\<lambda>c. (Position c, col_Name c)) (set (map snd (PK t)))"
  proof (rule inj_onI)
    fix c d assume cd: "c \<in> set (map snd (PK t))" "d \<in> set (map snd (PK t))" "(Position c, col_Name c) = (Position d, col_Name d)"
    then obtain j k where jk: "(j, c) \<in> set (PK t)" "(k, d) \<in> set (PK t)" by auto
    then have "j = k" using nm [OF jk(1)] nm [OF jk(2)] cd(3) by simp
    then show "c = d" using eq_key_imp_eq_value [OF dk, of k c d] jk by simp
  qed
  moreover have "mset (map snd (PK t)) = mset (map snd (PK t'))" using assms(3) by simp
  ultimately show ?thesis unfolding pk_sorted_def by (intro sort_key_mset)
qed

section \<open>Published and physical columns\<close>

definition keys_of :: "Table \<Rightarrow> string set" where
  "keys_of t = fst ` set (Columns t)"

lemma keys_of_AddColumn [simp]: "keys_of (AddColumn c t) = insert (col_Name c) (keys_of t)"
  by (auto simp: keys_of_def AddColumn_def Let_def dom_update)

definition v15_inv :: "tables \<times> tables \<Rightarrow> bool" where
  "v15_inv ts \<longleftrightarrow> distinct (map fst (fst ts)) \<and> distinct (map fst (snd ts)) \<and>
     (\<forall>k t. map_of (fst ts) k = Some t \<longrightarrow> table_wf t \<and> (\<exists>u. map_of (snd ts) k = Some u \<and> table_wf u \<and> keys_of t \<subseteq> keys_of u)) \<and>
     (\<forall>k. map_of (fst ts) k = None \<longleftrightarrow> map_of (snd ts) k = None)"

lemma v15_inv_add: "v15_inv ts \<Longrightarrow> v15_inv (add_row_v15 r ts)"
proof -
  assume inv: "v15_inv ts"
  obtain pub all where ts: "ts = (pub, all)" by fastforce
  let ?k = "tn_FullName (MakeTableName (ptc_Schema r) (ptc_Table r))"
  let ?t = "table_of pub r" and ?u = "table_of all r" and ?c = "column_of r"
  have "table_wf ?t \<and> table_wf ?u \<and> keys_of ?t \<subseteq> keys_of ?u"
  proof (cases "map_of pub ?k")
    case None
    then have "map_of all ?k = None" using inv ts by (simp add: v15_inv_def)
    then show ?thesis using None by (simp add: table_of_def)
  next
    case (Some t)
    then obtain u where "map_of all ?k = Some u" "table_wf t" "table_wf u" "keys_of t \<subseteq> keys_of u"
      using inv unfolding ts v15_inv_def fst_conv snd_conv by blast
    then show ?thesis using Some by (simp add: table_of_def)
  qed
  then have new: "table_wf (if colExistsInPub r then AddColumn ?c ?t else ?t)" "table_wf (AddColumn ?c ?u)"
    "keys_of (if colExistsInPub r then AddColumn ?c ?t else ?t) \<subseteq> keys_of (AddColumn ?c ?u)"
    by (auto simp: table_wf_AddColumn)
  show ?thesis using inv new unfolding ts v15_inv_def add_row_v15_def put_table_def
    by (cases "colExistsInPub r") (simp_all add: Let_def distinct_update update_conv' subset_insertI2)
qed

lemma v15_inv_fold: "v15_inv ts \<Longrightarrow> v15_inv (fold add_row_v15 rows ts)"
  by (induction rows arbitrary: ts) (simp_all add: v15_inv_add)

lemma map_of_map_vals: "map_of (map (\<lambda>(k, t). (k, f k t)) al) k = map_option (f k) (map_of al k)"
  by (induction al) auto

lemma length_columns: "table_wf t \<Longrightarrow> length (Columns t) = card (keys_of t)"
  by (metis table_wf_def keys_of_def distinct_card length_map set_map)

section \<open>Properties\<close>

text \<open>
  The primary key of a row does not depend on the order in which Go iterates over the map of
  key columns: tables with the same key columns give the same key.
\<close>

theorem CreatePK_order_free:
  assumes "table_wf t" "table_wf t'" "mset (PK t) = mset (PK t')"
  shows "CreatePK fmt t get = CreatePK fmt t' get"
  using pk_sorted_order [OF assms] by (simp add: CreatePK_def)

definition pk_table :: "string list \<Rightarrow> Table" where
  "pk_table names = fold (\<lambda>n. AddColumn \<lparr>col_Name = n, TypeID = 25, IsPK = True, Position = 1\<rparr>) names (NewTable ''public'' ''t'')"

lemma pk_table_wf: "table_wf (pk_table names)"
proof -
  have "table_wf t \<Longrightarrow> table_wf (fold (\<lambda>n. AddColumn \<lparr>col_Name = n, TypeID = 25, IsPK = True, Position = 1\<rparr>) names t)" for t
    by (induction names arbitrary: t) (simp_all add: table_wf_AddColumn)
  then show ?thesis by (simp add: pk_table_def)
qed

theorem CreatePK_order_free_witness:
  "mset (PK (pk_table [''a'', ''b''])) = mset (PK (pk_table [''b'', ''a''])) \<and>
   CreatePK (\<lambda>v. the v) (pk_table [''a'', ''b'']) (\<lambda>n. Some n) = CreatePK (\<lambda>v. the v) (pk_table [''b'', ''a'']) (\<lambda>n. Some n)"
proof -
  have m: "mset (PK (pk_table [''a'', ''b''])) = mset (PK (pk_table [''b'', ''a'']))"
    by (simp add: pk_table_def NewTable_def AddColumn_def Let_def)
  show ?thesis using CreatePK_order_free [OF pk_table_wf pk_table_wf m] m by blast
qed

text \<open>
  As long as no formatted value contains a colon, the primary key identifies the row: equal
  keys mean equal formatted values in every key column.
\<close>

theorem CreatePK_injective:
  assumes "CreatePK fmt t get1 = CreatePK fmt t get2" "PK t \<noteq> []"
    and "\<And>k c. (k, c) \<in> set (PK t) \<Longrightarrow> CHR '':'' \<notin> set (fmt (get1 (col_Name c))) \<and> CHR '':'' \<notin> set (fmt (get2 (col_Name c)))"
  shows "\<forall>(k, c) \<in> set (PK t). fmt (get1 (col_Name c)) = fmt (get2 (col_Name c))"
proof -
  let ?vs = "\<lambda>get. map (\<lambda>c. fmt (get (col_Name c))) (pk_sorted t)"
  have mem: "c \<in> set (pk_sorted t) \<longleftrightarrow> c \<in> snd ` set (PK t)" for c by (simp add: pk_sorted_def)
  have "length (pk_sorted t) = length (PK t)" by (simp add: pk_sorted_def)
  then have "pk_sorted t \<noteq> []" using assms(2) by (cases "pk_sorted t") auto
  then have ne: "?vs get1 \<noteq> []" "?vs get2 \<noteq> []" by simp_all
  have nc: "v \<in> set (?vs get1) \<Longrightarrow> CHR '':'' \<notin> set v" "v \<in> set (?vs get2) \<Longrightarrow> CHR '':'' \<notin> set v" for v
    using assms(3) by (auto simp: mem)
  have "split_on CHR '':'' (CreatePK fmt t get1) = ?vs get1" "split_on CHR '':'' (CreatePK fmt t get2) = ?vs get2"
    unfolding CreatePK_def by (rule join_key_split [OF ne(1)], rule nc(1), assumption, rule join_key_split [OF ne(2)], rule nc(2))
  then have "?vs get1 = ?vs get2" using assms(1) by simp
  then have "\<forall>c \<in> set (pk_sorted t). fmt (get1 (col_Name c)) = fmt (get2 (col_Name c))" by simp
  moreover have "c \<in> set (pk_sorted t)" if "(k, c) \<in> set (PK t)" for k c using mem that by force
  ultimately show ?thesis by blast
qed

theorem CreatePK_injective_witness:
  "CreatePK the (pk_table [''a'', ''b'']) (\<lambda>n. Some ''x'') \<noteq> CreatePK the (pk_table [''a'', ''b'']) (\<lambda>n. Some (if n = ''a'' then ''y'' else ''x''))"
proof
  assume eq: "CreatePK the (pk_table [''a'', ''b'']) (\<lambda>n. Some ''x'') = CreatePK the (pk_table [''a'', ''b'']) (\<lambda>n. Some (if n = ''a'' then ''y'' else ''x''))"
  have pk: "PK (pk_table [''a'', ''b'']) = [(''a'', \<lparr>col_Name = ''a'', TypeID = 25, IsPK = True, Position = 1\<rparr>), (''b'', \<lparr>col_Name = ''b'', TypeID = 25, IsPK = True, Position = 1\<rparr>)]"
    by (simp add: pk_table_def NewTable_def AddColumn_def Let_def)
  have "PK (pk_table [''a'', ''b'']) \<noteq> []" by (simp add: pk)
  from CreatePK_injective [OF eq this]
  have "\<forall>(k, c) \<in> set (PK (pk_table [''a'', ''b''])). the (Some ''x'') = the (Some (if col_Name c = ''a'' then ''y'' else ''x''))" by simp
  then show False by (simp add: pk)
qed

text \<open>
  With a colon in a value two different rows of a table with a composite key get the same
  primary key: the joined key is ambiguous.
\<close>

theorem CreatePK_ambiguous:
  "\<exists>t get1 get2. table_wf t \<and> get1 ''a'' \<noteq> get2 ''a'' \<and> get1 ''b'' \<noteq> get2 ''b'' \<and>
     CreatePK (\<lambda>v. case v of None \<Rightarrow> ''<nil>'' | Some s \<Rightarrow> s) t get1 = CreatePK (\<lambda>v. case v of None \<Rightarrow> ''<nil>'' | Some s \<Rightarrow> s) t get2"
proof -
  let ?g1 = "\<lambda>n. Some (if n = ''a'' then ''x:y'' else ''z'')" and ?g2 = "\<lambda>n. Some (if n = ''a'' then ''x'' else ''y:z'')"
  have "CreatePK (\<lambda>v. case v of None \<Rightarrow> ''<nil>'' | Some s \<Rightarrow> s) (pk_table [''a'', ''b'']) ?g1 = ''x:y:z''"
    "CreatePK (\<lambda>v. case v of None \<Rightarrow> ''<nil>'' | Some s \<Rightarrow> s) (pk_table [''a'', ''b'']) ?g2 = ''x:y:z''" by code_simp+
  then show ?thesis by (intro exI [of _ "pk_table [''a'', ''b'']"] exI [of _ ?g1] exI [of _ ?g2]) (simp add: pk_table_wf)
qed

text \<open>
  \<open>ParseTableName\<close> undoes \<open>MakeTableName\<close> for names without a dot, and a bare name is a
  table of the schema \<open>public\<close>.
\<close>

theorem ParseTableName_roundtrip:
  assumes "CHR ''.'' \<notin> set schema" "CHR ''.'' \<notin> set name"
  shows "ParseTableName (tn_FullName (MakeTableName schema name)) = MakeTableName schema name \<and>
    ParseTableName name = MakeTableName ''public'' name"
  using assms by (simp add: ParseTableName_def MakeTableName_def split_on_append split_on_no_sep)

theorem ParseTableName_roundtrip_witness:
  "ParseTableName ''app.users'' = MakeTableName ''app'' ''users'' \<and> ParseTableName ''users'' = MakeTableName ''public'' ''users''"
  using ParseTableName_roundtrip [of "''app''" "''users''"] by (simp add: MakeTableName_def)

text \<open>
  The tables of a PG 15 publication: both maps have the same tables, the published columns
  are among the physical ones, and \<open>HasAllPhysicalColumns\<close> holds exactly when the publication
  has every column of the table.
\<close>

theorem read_tables_v15_columns:
  assumes "map_of (fst (read_tables_v15 rows)) k = Some t"
  shows "\<exists>u. map_of (snd (read_tables_v15 rows)) k = Some u \<and> keys_of t \<subseteq> keys_of u \<and>
    PhysicalColumnsCount t = int (length (Columns u)) \<and>
    (HasAllPhysicalColumns (Some t) \<longleftrightarrow> keys_of u \<noteq> {} \<and> keys_of t = keys_of u)"
proof -
  obtain pub all where f: "fold add_row_v15 rows ([], []) = (pub, all)" by fastforce
  have "v15_inv ([], [])" by (simp add: v15_inv_def)
  then have inv: "v15_inv (pub, all)" using v15_inv_fold [of "([], [])" rows] by (simp only: f)
  obtain t0 where t0: "map_of pub k = Some t0"
    and t: "t = (case map_option count_columns (map_of all k) of None \<Rightarrow> t0 | Some u \<Rightarrow> t0\<lparr>PhysicalColumnsCount := PhysicalColumnsCount u\<rparr>)"
    using assms by (auto simp: read_tables_v15_def f Let_def map_of_map_vals)
  obtain u where u: "map_of all k = Some u" "table_wf t0" "table_wf u" "keys_of t0 \<subseteq> keys_of u"
    using inv t0 unfolding v15_inv_def fst_conv snd_conv by blast
  have kt: "keys_of t = keys_of t0" "keys_of (count_columns u) = keys_of u" "Columns t = Columns t0"
    "PhysicalColumnsCount t = int (length (Columns u))"
    by (simp_all add: t u keys_of_def count_columns_def)
  have fin: "finite (keys_of u)" by (simp add: keys_of_def)
  have "HasAllPhysicalColumns (Some t) \<longleftrightarrow> keys_of u \<noteq> {} \<and> card (keys_of t0) = card (keys_of u)"
    using u(2,3) fin by (auto simp: HasAllPhysicalColumns_def kt length_columns card_gt_0_iff)
  also have "\<dots> \<longleftrightarrow> keys_of u \<noteq> {} \<and> keys_of t0 = keys_of u" using card_subset_eq [OF fin u(4)] by auto
  finally have "HasAllPhysicalColumns (Some t) \<longleftrightarrow> keys_of u \<noteq> {} \<and> keys_of t = keys_of u" using kt by simp
  moreover have "map_of (snd (read_tables_v15 rows)) k = Some (count_columns u)"
    by (simp add: read_tables_v15_def f Let_def map_of_map_vals u)
  ultimately show ?thesis using u(4) kt by (auto simp: count_columns_def)
qed

definition sample_rows :: "pubTableColumn list" where
  "sample_rows =
     [\<lparr>ptc_colNames = Some [''ID''], ptc_Schema = ''s'', ptc_Table = ''t'', ptc_Column = ''id'', ptc_TypeID = 23, ptc_IsPK = True, ptc_Position = 1\<rparr>,
      \<lparr>ptc_colNames = Some [''ID''], ptc_Schema = ''s'', ptc_Table = ''t'', ptc_Column = ''name'', ptc_TypeID = 25, ptc_IsPK = False, ptc_Position = 2\<rparr>]"

theorem read_tables_v15_columns_witness:
  "\<exists>t u. map_of (fst (read_tables_v15 sample_rows)) ''s.t'' = Some t \<and> map_of (snd (read_tables_v15 sample_rows)) ''s.t'' = Some u \<and>
     PhysicalColumnsCount t = int (length (Columns u)) \<and> \<not> HasAllPhysicalColumns (Some t)"
proof -
  have e: "EqualFold ''ID'' ''id''" "\<not> EqualFold ''ID'' ''name''" by code_simp+
  obtain t where t: "map_of (fst (read_tables_v15 sample_rows)) ''s.t'' = Some t" "\<not> HasAllPhysicalColumns (Some t)"
    by (simp add: e read_tables_v15_def sample_rows_def add_row_v15_def put_table_def table_of_def colExistsInPub_def column_of_def
        MakeTableName_def NewTable_def AddColumn_def count_columns_def HasAllPhysicalColumns_def Let_def)
  show ?thesis using read_tables_v15_columns [OF t(1)] t by blast
qed

end
