(* ===== verification/Writequeue.thy ===== *)
theory Writequeue
  imports Prelude
begin

text \<open>
  \<open>writequeue/write_queue.go\<close>: the queue of write requests, a doubly linked list with a
  running size. The nodes live in an explicit store (a map from addresses), so that the pointer
  surgery of the code is the pointer surgery of the model; \<open>tail\<close> is the end that is popped
  and \<open>head\<close> the end that is pushed, as in the code. A nil pointer is \<open>None\<close>, and so
  is a nil callback. The mutex makes every operation atomic; an operation that would wait on the
  condition variable returns \<open>Blocked\<close> and leaves the queue as it is.
\<close>

section \<open>State\<close>

record 'a writeQueueNode =
  data :: 'a
  nxt :: "nat option"
  prv :: "nat option"

record 'a WriteQueue =
  nodes :: "nat \<rightharpoonup> 'a writeQueueNode"
  alloc :: nat
  tail :: "nat option"
  head :: "nat option"
  count :: u64
  stopped :: bool

definition wq_New :: "'a WriteQueue" where
  "wq_New = \<lparr>nodes = Map.empty, alloc = 0, tail = None, head = None, count = 0, stopped = False\<rparr>"

text \<open>Assignments through a pointer to a node.\<close>

definition set_nxt :: "nat \<Rightarrow> nat option \<Rightarrow> 'a WriteQueue \<Rightarrow> 'a WriteQueue" where
  "set_nxt a p q = (case nodes q a of None \<Rightarrow> q | Some nd \<Rightarrow> q\<lparr>nodes := (nodes q)(a \<mapsto> nd\<lparr>nxt := p\<rparr>)\<rparr>)"

definition set_prv :: "nat \<Rightarrow> nat option \<Rightarrow> 'a WriteQueue \<Rightarrow> 'a WriteQueue" where
  "set_prv a p q = (case nodes q a of None \<Rightarrow> q | Some nd \<Rightarrow> q\<lparr>nodes := (nodes q)(a \<mapsto> nd\<lparr>prv := p\<rparr>)\<rparr>)"

definition nxt_of :: "'a WriteQueue \<Rightarrow> nat \<Rightarrow> nat option" where
  "nxt_of q a = (case nodes q a of None \<Rightarrow> None | Some nd \<Rightarrow> nxt nd)"

definition prv_of :: "'a WriteQueue \<Rightarrow> nat \<Rightarrow> nat option" where
  "prv_of q a = (case nodes q a of None \<Rightarrow> None | Some nd \<Rightarrow> prv nd)"

definition data_of :: "'a WriteQueue \<Rightarrow> nat \<Rightarrow> 'a" where
  "data_of q a = data (the (nodes q a))"

text \<open>\<open>newNode\<close> allocates a node with nil links.\<close>

definition newNode :: "'a \<Rightarrow> 'a WriteQueue \<Rightarrow> nat \<times> 'a WriteQueue" where
  "newNode item q =
     (alloc q, q\<lparr>nodes := (nodes q)(alloc q \<mapsto> \<lparr>data = item, nxt = None, prv = None\<rparr>), alloc := Suc (alloc q)\<rparr>)"

section \<open>Operations\<close>

text \<open>
  \<open>tail\<close> and \<open>head\<close> are nil together (\<open>wq_inv\<close> below), so the branch of the
  code on \<open>q.tail == nil\<close> is a branch on both.
\<close>

definition wq_Stop :: "'a WriteQueue \<Rightarrow> 'a WriteQueue" where
  "wq_Stop q = q\<lparr>stopped := True\<rparr>"

definition wq_Count :: "'a WriteQueue \<Rightarrow> u64" where
  "wq_Count q = count q"

definition PutAtTail :: "('a \<Rightarrow> u32) \<Rightarrow> 'a \<Rightarrow> 'a WriteQueue \<Rightarrow> u64 \<times> 'a WriteQueue" where
  "PutAtTail sz item q =
     (let (node, q1) = newNode item q;
          q2 = (case tail q1 of
                  None \<Rightarrow> q1\<lparr>tail := Some node, head := Some node\<rparr>
                | Some t \<Rightarrow> (set_prv t (Some node) (set_nxt node (Some t) q1))\<lparr>tail := Some node\<rparr>);
          q3 = q2\<lparr>count := count q2 + ucast (sz item)\<rparr>
      in (count q3, q3))"

definition Push :: "('a \<Rightarrow> u32) \<Rightarrow> 'a \<Rightarrow> 'a WriteQueue \<Rightarrow> u64 \<times> 'a WriteQueue" where
  "Push sz item q =
     (let (node, q1) = newNode item q;
          q2 = (case (tail q1, head q1) of
                  (Some t, Some h) \<Rightarrow> (set_prv node (Some h) (set_nxt h (Some node) q1))\<lparr>head := Some node\<rparr>
                | _ \<Rightarrow> q1\<lparr>tail := Some node, head := Some node\<rparr>);
          q3 = q2\<lparr>count := count q2 + ucast (sz item)\<rparr>
      in (count q3, q3))"

definition insertBeforeNode :: "nat \<Rightarrow> nat \<Rightarrow> 'a WriteQueue \<Rightarrow> 'a WriteQueue" where
  "insertBeforeNode node target q =
     (let q1 = set_prv node (prv_of q target) (set_nxt node (Some target) q);
          q2 = (case prv_of q target of
                  None \<Rightarrow> q1\<lparr>tail := Some node\<rparr>
                | Some p \<Rightarrow> set_nxt p (Some node) q1)
      in set_prv target (Some node) q2)"

definition insertAfterNode :: "nat \<Rightarrow> nat \<Rightarrow> 'a WriteQueue \<Rightarrow> 'a WriteQueue" where
  "insertAfterNode node target q =
     (let q1 = set_prv node (Some target) (set_nxt node (nxt_of q target) q);
          q2 = (case nxt_of q target of
                  None \<Rightarrow> q1\<lparr>head := Some node\<rparr>
                | Some n \<Rightarrow> set_prv n (Some node) q1)
      in set_nxt target (Some node) q2)"

text \<open>
  The loop of \<open>PushBefore\<close> walks from both ends. Its two cursors move one node per round, so
  as many rounds as there are nodes are enough; running out is \<open>None\<close>, and
  \<open>search_place_boundary\<close> below proves it does not happen.
\<close>

datatype place = Before nat | After nat

fun search_place :: "nat \<Rightarrow> ('a \<Rightarrow> bool) \<Rightarrow> 'a WriteQueue \<Rightarrow> nat \<Rightarrow> nat \<Rightarrow> place option" where
  "search_place 0 before q fromTail fromHead = None"
| "search_place (Suc fuel) before q fromTail fromHead =
     (case nxt_of q fromTail of
        None \<Rightarrow> Some (After fromTail)
      | Some nextFromTail \<Rightarrow>
         if before (data_of q nextFromTail) then Some (After fromTail)
         else (case prv_of q fromHead of
             None \<Rightarrow> Some (Before fromHead)
           | Some prevFromHead \<Rightarrow>
              if \<not> before (data_of q prevFromHead) then Some (After prevFromHead)
              else search_place fuel before q nextFromTail prevFromHead))"

definition insert_place :: "nat \<Rightarrow> place option \<Rightarrow> 'a WriteQueue \<Rightarrow> 'a WriteQueue" where
  "insert_place node pl q =
     (case pl of None \<Rightarrow> q | Some (Before a) \<Rightarrow> insertBeforeNode node a q | Some (After a) \<Rightarrow> insertAfterNode node a q)"

definition PushBefore ::
  "('a \<Rightarrow> u32) \<Rightarrow> 'a \<Rightarrow> ('a \<Rightarrow> bool) option \<Rightarrow> 'a WriteQueue \<Rightarrow> u64 \<times> 'a WriteQueue" where
  "PushBefore sz item beforeFn q =
     (case beforeFn of None \<Rightarrow> Push sz item q
      | Some before \<Rightarrow>
         let (node, q1) = newNode item q;
             q2 = (case (tail q1, head q1) of
                     (Some t, Some h) \<Rightarrow>
                       if before (data_of q1 t) then insertBeforeNode node t q1
                       else if \<not> before (data_of q1 h) then insertAfterNode node h q1
                       else insert_place node (search_place (alloc q1) before q1 t h) q1
                   | _ \<Rightarrow> q1\<lparr>tail := Some node, head := Some node\<rparr>);
             q3 = q2\<lparr>count := count q2 + ucast (sz item)\<rparr>
         in (count q3, q3))"

text \<open>The loops \<open>for node := q.tail; node != nil; node = node.next\<close>: the addresses they visit.\<close>

fun chain :: "nat \<Rightarrow> 'a WriteQueue \<Rightarrow> nat option \<Rightarrow> nat list" where
  "chain 0 q p = []"
| "chain (Suc fuel) q None = []"
| "chain (Suc fuel) q (Some a) = a # chain fuel q (nxt_of q a)"

definition wq_ids :: "'a WriteQueue \<Rightarrow> nat list" where
  "wq_ids q = chain (alloc q) q (tail q)"

definition wq_list :: "'a WriteQueue \<Rightarrow> 'a list" where
  "wq_list q = map (data_of q) (wq_ids q)"

definition wq_Find :: "('a \<Rightarrow> bool) option \<Rightarrow> 'a WriteQueue \<Rightarrow> 'a option" where
  "wq_Find f q = (case f of None \<Rightarrow> None | Some g \<Rightarrow> if stopped q then None else find g (wq_list q))"

definition wq_Sum :: "('a \<Rightarrow> u64) option \<Rightarrow> 'a WriteQueue \<Rightarrow> u64" where
  "wq_Sum f q = (case f of None \<Rightarrow> 0 | Some g \<Rightarrow> if stopped q then 0 else foldl (\<lambda>total x. total + g x) 0 (wq_list q))"

datatype 'a waited = Got 'a | Halted | Blocked

definition WaitUntil :: "('a \<Rightarrow> bool) option \<Rightarrow> 'a WriteQueue \<Rightarrow> 'a waited" where
  "WaitUntil f q =
     (if stopped q then Halted
      else (case f of None \<Rightarrow> Blocked
            | Some g \<Rightarrow> (case find g (wq_list q) of None \<Rightarrow> Blocked | Some x \<Rightarrow> Got x)))"

text \<open>
  \<open>PopUntil\<close> pops from the tail while the callback holds. The callback has effects, so it
  threads the caller's state \<open>'s\<close>; the size of an entry is read after the callback ran.
  Every round moves the tail to the next node; \<open>PopUntil_list\<close> shows the fuel is enough.
\<close>

fun pop_while ::
  "nat \<Rightarrow> ('s \<Rightarrow> 'a \<Rightarrow> u32) \<Rightarrow> ('s \<Rightarrow> 'a \<Rightarrow> bool \<times> 's) \<Rightarrow> 's \<Rightarrow> 'a WriteQueue \<Rightarrow> 's \<times> 'a WriteQueue" where
  "pop_while 0 sz f s q = (s, q)"
| "pop_while (Suc fuel) sz f s q =
     (case tail q of None \<Rightarrow> (s, q)
      | Some t \<Rightarrow>
         let (ok, s1) = f s (data_of q t) in
         if \<not> ok then (s1, q)
         else let q1 = q\<lparr>count := count q - ucast (sz s1 (data_of q t)), tail := nxt_of q t\<rparr>;
                  q2 = (case tail q1 of None \<Rightarrow> q1 | Some t' \<Rightarrow> set_prv t' None q1)
              in pop_while fuel sz f s1 q2)"

definition PopUntil ::
  "('s \<Rightarrow> 'a \<Rightarrow> u32) \<Rightarrow> ('s \<Rightarrow> 'a \<Rightarrow> bool \<times> 's) option \<Rightarrow> 's \<Rightarrow> 'a WriteQueue \<Rightarrow> 's \<times> 'a WriteQueue" where
  "PopUntil sz fn s q =
     (case fn of None \<Rightarrow> (s, q)
      | Some f \<Rightarrow>
         if stopped q \<or> tail q = None then (s, q)
         else let (s1, q1) = pop_while (alloc q) sz f s q in
              (s1, if tail q1 = None then q1\<lparr>count := 0, head := None\<rparr> else q1))"

definition Pop :: "('a \<Rightarrow> u32) \<Rightarrow> 'a WriteQueue \<Rightarrow> 'a waited \<times> 'a WriteQueue" where
  "Pop sz q =
     (if stopped q then (Halted, q)
      else (case tail q of
          None \<Rightarrow> (Blocked, q)
        | Some t \<Rightarrow>
           let q1 = q\<lparr>tail := nxt_of q t, count := count q - ucast (sz (data_of q t))\<rparr>;
               q2 = (case tail q1 of None \<Rightarrow> q1\<lparr>count := 0, head := None\<rparr> | Some t' \<Rightarrow> set_prv t' None q1)
           in (Got (data_of q t), q2)))"


section \<open>Well-linked queues\<close>

text \<open>
  A segment of linked nodes: the addresses \<open>as\<close> in order, entered from \<open>p\<close> and left
  to \<open>n\<close>.
\<close>

fun first_or :: "nat option \<Rightarrow> nat list \<Rightarrow> nat option" where
  "first_or n [] = n"
| "first_or n (a # as) = Some a"

fun last_or :: "nat option \<Rightarrow> nat list \<Rightarrow> nat option" where
  "last_or p [] = p"
| "last_or p (a # as) = last_or (Some a) as"

fun seg :: "(nat \<rightharpoonup> 'a writeQueueNode) \<Rightarrow> nat option \<Rightarrow> nat list \<Rightarrow> nat option \<Rightarrow> bool" where
  "seg ns p [] n = True"
| "seg ns p (a # as) n =
     ((\<exists>nd. ns a = Some nd \<and> prv nd = p \<and> nxt nd = first_or n as) \<and> seg ns (Some a) as n)"

lemma first_or_append [simp]: "first_or n (xs @ ys) = first_or (first_or n ys) xs"
  by (cases xs) auto

lemma last_or_append [simp]: "last_or p (xs @ ys) = last_or (last_or p xs) ys"
  by (induction xs arbitrary: p) auto

lemma first_or_nonempty: "xs \<noteq> [] \<Longrightarrow> first_or n xs = Some (hd xs)"
  by (cases xs) auto

lemma last_or_nonempty: "xs \<noteq> [] \<Longrightarrow> last_or p xs = Some (last xs)"
  by (cases xs rule: rev_cases) auto

lemma first_or_None [simp]: "first_or None xs = None \<longleftrightarrow> xs = []"
  by (cases xs) auto

lemma last_or_None [simp]: "last_or None xs = None \<longleftrightarrow> xs = []"
  by (cases xs rule: rev_cases) auto

lemma seg_append [simp]:
  "seg ns p (xs @ ys) n \<longleftrightarrow> seg ns p xs (first_or n ys) \<and> seg ns (last_or p xs) ys n"
  by (induction xs arbitrary: p) auto

lemma seg_dom: "seg ns p xs n \<Longrightarrow> set xs \<subseteq> dom ns"
  by (induction xs arbitrary: p) auto

lemma seg_frame [simp]: "a \<notin> set xs \<Longrightarrow> seg (ns(a \<mapsto> nd)) p xs n \<longleftrightarrow> seg ns p xs n"
  by (induction xs arbitrary: p) auto

lemma seg_relink_last:
  "seg ns p (xs @ [l]) n \<Longrightarrow> l \<notin> set xs \<Longrightarrow> ns l = Some nd \<Longrightarrow>
     seg (ns(l \<mapsto> nd\<lparr>nxt := n'\<rparr>)) p (xs @ [l]) n'"
  by auto

lemma seg_relink_first:
  "seg ns p (h # xs) n \<Longrightarrow> h \<notin> set xs \<Longrightarrow> ns h = Some nd \<Longrightarrow>
     seg (ns(h \<mapsto> nd\<lparr>prv := p'\<rparr>)) p' (h # xs) n"
  by auto

text \<open>The queue \<open>q\<close> holds the nodes \<open>ids\<close>, in order from the tail to the head.\<close>

definition wq_rep :: "'a WriteQueue \<Rightarrow> nat list \<Rightarrow> bool" where
  "wq_rep q ids \<longleftrightarrow> distinct ids \<and> (\<forall>a \<in> dom (nodes q). a < alloc q) \<and> seg (nodes q) None ids None \<and>
     tail q = first_or None ids \<and> head q = last_or None ids"

definition wq_inv :: "'a WriteQueue \<Rightarrow> bool" where
  "wq_inv q \<longleftrightarrow> wq_rep q (wq_ids q)"

lemma wq_rep_below: "wq_rep q ids \<Longrightarrow> a \<in> set ids \<Longrightarrow> a < alloc q"
  unfolding wq_rep_def using seg_dom [of "nodes q" None ids None] by blast

lemma wq_rep_length: "wq_rep q ids \<Longrightarrow> length ids \<le> alloc q"
proof -
  assume rep: "wq_rep q ids"
  then have "set ids \<subseteq> {..<alloc q}" using wq_rep_below by auto
  then have "card (set ids) \<le> alloc q" by (metis card_lessThan card_mono finite_lessThan)
  then show ?thesis using rep by (simp add: wq_rep_def distinct_card)
qed

lemma chain_seg:
  "seg (nodes q) p ids None \<Longrightarrow> length ids \<le> fuel \<Longrightarrow> chain fuel q (first_or None ids) = ids"
proof (induction ids arbitrary: p fuel)
  case Nil
  then show ?case by (cases fuel) auto
next
  case (Cons a ids)
  then show ?case by (cases fuel) (auto simp: nxt_of_def)
qed

lemma wq_rep_ids: "wq_rep q ids \<Longrightarrow> wq_ids q = ids"
  using chain_seg [of q None ids "alloc q"] wq_rep_length [of q ids] by (simp add: wq_ids_def wq_rep_def)

lemma wq_inv_ex: "wq_inv q \<longleftrightarrow> (\<exists>ids. wq_rep q ids)"
  using wq_rep_ids by (auto simp: wq_inv_def)

lemma wq_rep_list: "wq_rep q ids \<Longrightarrow> wq_list q = map (data_of q) ids"
  by (simp add: wq_list_def wq_rep_ids)

lemma wq_rep_New [simp]: "wq_rep wq_New []"
  by (simp add: wq_rep_def wq_New_def)

text \<open>
  All insertions meet in one lemma: a node linked between two adjacent segments, with the end
  pointers that follow.
\<close>

lemma wq_rep_insert:
  assumes rep: "wq_rep q (xs @ ys)" and new: "newNode item q = (a, q1)"
    and ns: "nodes q' =
      (let m0 = (nodes q1)(a \<mapsto> \<lparr>data = item, nxt = first_or None ys, prv = last_or None xs\<rparr>);
           m1 = (case last_or None xs of None \<Rightarrow> m0 | Some l \<Rightarrow> m0(l \<mapsto> (the (nodes q l))\<lparr>nxt := Some a\<rparr>));
           m2 = (case first_or None ys of None \<Rightarrow> m1 | Some h \<Rightarrow> m1(h \<mapsto> (the (nodes q h))\<lparr>prv := Some a\<rparr>))
       in m2)"
    and al: "alloc q' = alloc q1"
    and tl: "tail q' = first_or None (xs @ a # ys)" and hd: "head q' = last_or None (xs @ a # ys)"
  shows "wq_rep q' (xs @ a # ys)" and "map (data_of q') (xs @ a # ys) = map (data_of q) xs @ item # map (data_of q) ys"
proof -
  have a: "a = alloc q" "nodes q1 = (nodes q)(a \<mapsto> \<lparr>data = item, nxt = None, prv = None\<rparr>)" "alloc q1 = Suc (alloc q)"
    using new by (auto simp: newNode_def)
  have d: "distinct (xs @ ys)" "seg (nodes q) None xs (first_or None ys)" "seg (nodes q) (last_or None xs) ys None"
    "\<forall>b \<in> dom (nodes q). b < alloc q" using rep by (auto simp: wq_rep_def)
  have fresh: "a \<notin> set xs" "a \<notin> set ys" using wq_rep_below [OF rep] a(1) by auto
  have left: "seg (nodes q') None xs (Some a)" and right: "seg (nodes q') (Some a) ys None"
    and mid: "nodes q' a = Some \<lparr>data = item, nxt = first_or None ys, prv = last_or None xs\<rparr>"
    and dom: "dom (nodes q') = insert a (dom (nodes q))"
    and dat: "\<And>b. b \<in> set xs \<union> set ys \<Longrightarrow> data_of q' b = data_of q b"
    using ns a d fresh
    by (cases xs rule: rev_cases; cases ys; auto simp: Let_def data_of_def)+
  have "\<forall>b \<in> dom (nodes q'). b < alloc q'" using dom d(4) al a by (simp add: less_SucI)
  then show "wq_rep q' (xs @ a # ys)"
    using d fresh left right mid tl hd by (auto simp: wq_rep_def)
  show "map (data_of q') (xs @ a # ys) = map (data_of q) xs @ item # map (data_of q) ys"
    using mid dat by (simp add: data_of_def)
qed

lemma wq_rep_fields [simp]:
  "wq_rep (q\<lparr>count := c\<rparr>) ids \<longleftrightarrow> wq_rep q ids"
  "wq_rep (q\<lparr>stopped := b\<rparr>) ids \<longleftrightarrow> wq_rep q ids"
  "data_of (q\<lparr>count := c\<rparr>) a = data_of q a"
  "data_of (q\<lparr>stopped := b\<rparr>) a = data_of q a"
  by (simp_all add: wq_rep_def data_of_def)

lemma link_frame [simp]:
  "alloc (set_nxt a p q) = alloc q" "alloc (set_prv a p q) = alloc q"
  "count (set_nxt a p q) = count q" "count (set_prv a p q) = count q"
  "stopped (set_nxt a p q) = stopped q" "stopped (set_prv a p q) = stopped q"
  "tail (set_nxt a p q) = tail q" "tail (set_prv a p q) = tail q"
  "head (set_nxt a p q) = head q" "head (set_prv a p q) = head q"
  by (simp_all add: set_nxt_def set_prv_def split: option.splits)

lemma link_nodes [simp]:
  "nodes q a = Some nd \<Longrightarrow> nodes (set_nxt a p q) = (nodes q)(a \<mapsto> nd\<lparr>nxt := p\<rparr>)"
  "nodes q a = Some nd \<Longrightarrow> nodes (set_prv a p q) = (nodes q)(a \<mapsto> nd\<lparr>prv := p\<rparr>)"
  by (simp_all add: set_nxt_def set_prv_def)

text \<open>The two insertions of the code are the insertion of the lemma above.\<close>

lemma insertBeforeNode_rep:
  assumes rep: "wq_rep q (xs @ t # ys)" and new: "newNode item q = (a, q1)"
  shows "wq_rep (insertBeforeNode a t q1) (xs @ a # t # ys)"
    and "map (data_of (insertBeforeNode a t q1)) (xs @ a # t # ys) = map (data_of q) xs @ item # map (data_of q) (t # ys)"
    and "count (insertBeforeNode a t q1) = count q" and "stopped (insertBeforeNode a t q1) = stopped q"
proof -
  have a: "a = alloc q" "q1 = q\<lparr>nodes := (nodes q)(a \<mapsto> \<lparr>data = item, nxt = None, prv = None\<rparr>), alloc := Suc (alloc q)\<rparr>"
    using new by (auto simp: newNode_def)
  obtain nd where t: "nodes q t = Some nd" "prv nd = last_or None xs" "t \<noteq> a" "t \<notin> set xs"
    using rep a(1) wq_rep_below [OF rep, of t] by (auto simp: wq_rep_def)
  have fresh: "a \<notin> set xs" using wq_rep_below [OF rep] a(1) by auto
  have l: "\<exists>ndl. nodes q l = Some ndl \<and> l \<noteq> a \<and> l \<noteq> t" if "last_or None xs = Some l" for l
    using that rep fresh t(4) by (cases xs rule: rev_cases) (auto simp: wq_rep_def)
  have ends: "tail q = first_or None (xs @ t # ys)" "head q = last_or None (xs @ t # ys)"
    using rep by (auto simp: wq_rep_def)
  let ?q' = "insertBeforeNode a t q1"
  have pt: "prv_of q1 t = last_or None xs" using a(2) t by (simp add: prv_of_def)
  have ns: "nodes ?q' =
      (let m0 = (nodes q1)(a \<mapsto> \<lparr>data = item, nxt = first_or None (t # ys), prv = last_or None xs\<rparr>);
           m1 = (case last_or None xs of None \<Rightarrow> m0 | Some l \<Rightarrow> m0(l \<mapsto> (the (nodes q l))\<lparr>nxt := Some a\<rparr>));
           m2 = (case first_or None (t # ys) of None \<Rightarrow> m1 | Some h \<Rightarrow> m1(h \<mapsto> (the (nodes q h))\<lparr>prv := Some a\<rparr>))
       in m2)"
    using a(2) t l pt by (cases "last_or None xs") (auto simp: insertBeforeNode_def Let_def fun_upd_twist)
  have al: "alloc ?q' = alloc q1"
    by (simp add: insertBeforeNode_def Let_def split: option.splits)
  have tl: "tail ?q' = first_or None (xs @ a # t # ys)" and hd: "head ?q' = last_or None (xs @ a # t # ys)"
    using pt a(2) ends by (cases xs rule: rev_cases; auto simp: insertBeforeNode_def Let_def first_or_nonempty hd_append)+
  show "wq_rep ?q' (xs @ a # t # ys)"
    and "map (data_of ?q') (xs @ a # t # ys) = map (data_of q) xs @ item # map (data_of q) (t # ys)"
    using wq_rep_insert [OF rep new ns al] tl hd by auto
  show "count ?q' = count q" "stopped ?q' = stopped q"
    using a(2) by (simp_all add: insertBeforeNode_def Let_def split: option.splits)
qed

lemma insertAfterNode_rep:
  assumes rep: "wq_rep q (xs @ t # ys)" and new: "newNode item q = (a, q1)"
  shows "wq_rep (insertAfterNode a t q1) (xs @ t # a # ys)"
    and "map (data_of (insertAfterNode a t q1)) (xs @ t # a # ys) = map (data_of q) (xs @ [t]) @ item # map (data_of q) ys"
    and "count (insertAfterNode a t q1) = count q" and "stopped (insertAfterNode a t q1) = stopped q"
proof -
  have a: "a = alloc q" "q1 = q\<lparr>nodes := (nodes q)(a \<mapsto> \<lparr>data = item, nxt = None, prv = None\<rparr>), alloc := Suc (alloc q)\<rparr>"
    using new by (auto simp: newNode_def)
  obtain nd where t: "nodes q t = Some nd" "nxt nd = first_or None ys" "t \<noteq> a" "t \<notin> set ys"
    using rep a(1) wq_rep_below [OF rep, of t] by (auto simp: wq_rep_def)
  have fresh: "a \<notin> set ys" using wq_rep_below [OF rep] a(1) by auto
  have l: "\<exists>ndl. nodes q l = Some ndl \<and> l \<noteq> a \<and> l \<noteq> t" if "first_or None ys = Some l" for l
    using that rep fresh t(4) by (cases ys) (auto simp: wq_rep_def)
  have ends: "tail q = first_or None (xs @ t # ys)" "head q = last_or None (xs @ t # ys)"
    using rep by (auto simp: wq_rep_def)
  let ?q' = "insertAfterNode a t q1"
  have nt: "nxt_of q1 t = first_or None ys" using a(2) t by (simp add: nxt_of_def)
  have ns: "nodes ?q' =
      (let m0 = (nodes q1)(a \<mapsto> \<lparr>data = item, nxt = first_or None ys, prv = last_or None (xs @ [t])\<rparr>);
           m1 = (case last_or None (xs @ [t]) of None \<Rightarrow> m0 | Some l \<Rightarrow> m0(l \<mapsto> (the (nodes q l))\<lparr>nxt := Some a\<rparr>));
           m2 = (case first_or None ys of None \<Rightarrow> m1 | Some h \<Rightarrow> m1(h \<mapsto> (the (nodes q h))\<lparr>prv := Some a\<rparr>))
       in m2)"
    using a(2) t l nt by (cases "first_or None ys") (auto simp: insertAfterNode_def Let_def fun_upd_twist)
  have al: "alloc ?q' = alloc q1"
    by (simp add: insertAfterNode_def Let_def split: option.splits)
  have tl: "tail ?q' = first_or None ((xs @ [t]) @ a # ys)" and hd: "head ?q' = last_or None ((xs @ [t]) @ a # ys)"
    using nt a(2) ends by (cases ys; auto simp: insertAfterNode_def Let_def)+
  have rep': "wq_rep q ((xs @ [t]) @ ys)" using rep by simp
  show "wq_rep ?q' (xs @ t # a # ys)"
    and "map (data_of ?q') (xs @ t # a # ys) = map (data_of q) (xs @ [t]) @ item # map (data_of q) ys"
    using wq_rep_insert [OF rep' new ns al tl hd] by auto
  show "count ?q' = count q" "stopped ?q' = stopped q"
    using a(2) by (simp_all add: insertAfterNode_def Let_def split: option.splits)
qed

lemma newNode_rep:
  assumes rep: "wq_rep q ids" and new: "newNode item q = (a, q1)"
  shows "wq_rep q1 ids" "a \<notin> set ids" "tail q1 = tail q" "head q1 = head q" "count q1 = count q"
    "stopped q1 = stopped q" "\<And>b. b \<in> set ids \<Longrightarrow> data_of q1 b = data_of q b"
    "nodes q1 a = Some \<lparr>data = item, nxt = None, prv = None\<rparr>" "alloc q1 = Suc (alloc q)"
proof -
  have a: "a = alloc q" "q1 = q\<lparr>nodes := (nodes q)(a \<mapsto> \<lparr>data = item, nxt = None, prv = None\<rparr>), alloc := Suc (alloc q)\<rparr>"
    using new by (auto simp: newNode_def)
  show fresh: "a \<notin> set ids" using wq_rep_below [OF rep] a(1) by auto
  then show "wq_rep q1 ids" using rep a by (auto simp: wq_rep_def less_SucI)
  show "data_of q1 b = data_of q b" if "b \<in> set ids" for b
    using that fresh a(2) by (auto simp: data_of_def)
qed (use assms in \<open>auto simp: newNode_def\<close>)

lemma wq_rep_links:
  assumes "wq_rep q (xs @ a # ys)"
  shows "nxt_of q a = first_or None ys" "prv_of q a = last_or None xs" "\<exists>nd. nodes q a = Some nd"
  using assms by (auto simp: wq_rep_def nxt_of_def prv_of_def)

lemma Push_link:
  assumes rep: "wq_rep q (xs @ [h])" and new: "newNode item q = (a, q1)"
  shows "(set_prv a (Some h) (set_nxt h (Some a) q1))\<lparr>head := Some a\<rparr> = insertAfterNode a h q1"
proof -
  obtain nd where "nodes q1 h = Some nd" "h \<noteq> a" "nxt_of q1 h = None"
    using wq_rep_links [of q1 xs h "[]"] newNode_rep [OF rep new] by auto
  then show ?thesis
    using newNode_rep(8) [OF rep new]
    by (auto simp: insertAfterNode_def Let_def set_nxt_def set_prv_def fun_upd_twist)
qed

lemma PutAtTail_link:
  assumes rep: "wq_rep q (t # ys)" and new: "newNode item q = (a, q1)"
  shows "(set_prv t (Some a) (set_nxt a (Some t) q1))\<lparr>tail := Some a\<rparr> = insertBeforeNode a t q1"
proof -
  obtain nd where "nodes q1 t = Some nd" "t \<noteq> a" "prv_of q1 t = None"
    using wq_rep_links [of q1 "[]" t ys] newNode_rep [OF rep new] by auto
  then show ?thesis
    using newNode_rep(8) [OF rep new]
    by (auto simp: insertBeforeNode_def Let_def set_nxt_def set_prv_def fun_upd_twist)
qed

lemma first_node_rep:
  assumes rep: "wq_rep q []" and new: "newNode item q = (a, q1)"
  shows "wq_rep (q1\<lparr>tail := Some a, head := Some a\<rparr>) [a]" "data_of (q1\<lparr>tail := Some a, head := Some a\<rparr>) a = item"
  using newNode_rep [OF rep new] by (auto simp: wq_rep_def data_of_def)

text \<open>What an insertion promises: the new list, the new size, and the rest unchanged.\<close>

definition inserted :: "('a \<Rightarrow> u32) \<Rightarrow> 'a \<Rightarrow> 'a WriteQueue \<Rightarrow> 'a list \<Rightarrow> u64 \<times> 'a WriteQueue \<Rightarrow> bool" where
  "inserted sz item q xs r \<longleftrightarrow> wq_inv (snd r) \<and> wq_list (snd r) = xs \<and> stopped (snd r) = stopped q \<and>
     count (snd r) = count q + ucast (sz item) \<and> fst r = count (snd r)"

lemma insertedI:
  assumes "wq_rep q2 ids" "map (data_of q2) ids = xs" "count q2 = count q" "stopped q2 = stopped q"
  shows "inserted sz item q xs
    (let q3 = q2\<lparr>count := count q2 + ucast (sz item)\<rparr> in (count q3, q3))"
  using assms wq_rep_list [of "q2\<lparr>count := count q + ucast (sz item)\<rparr>" ids]
  by (auto simp: inserted_def wq_inv_ex Let_def)

lemma first_node_inserted:
  assumes rep: "wq_rep q []" and new: "newNode item q = (a, q1)"
  shows "inserted sz item q [item]
    (let q2 = q1\<lparr>tail := Some a, head := Some a\<rparr>; q3 = q2\<lparr>count := count q2 + ucast (sz item)\<rparr> in (count q3, q3))"
  unfolding Let_def [of "q1\<lparr>tail := Some a, head := Some a\<rparr>"]
  using newNode_rep [OF rep new] first_node_rep [OF rep new] by (intro insertedI) auto

lemma empty_queue_ends: "wq_rep q ids \<Longrightarrow> (tail q = None \<longleftrightarrow> ids = []) \<and> (head q = None \<longleftrightarrow> ids = [])"
  by (auto simp: wq_rep_def)

lemma Push_list: "wq_inv q \<Longrightarrow> inserted sz item q (wq_list q @ [item]) (Push sz item q)"
proof -
  assume "wq_inv q"
  then obtain ids where rep: "wq_rep q ids" by (auto simp: wq_inv_ex)
  obtain a q1 where new: "newNode item q = (a, q1)" by fastforce
  note n = newNode_rep [OF rep new]
  show ?thesis
  proof (cases ids rule: rev_cases)
    case Nil
    then have "tail q1 = None" "wq_list q = []" using n(1) wq_rep_list [OF rep] by (auto simp: wq_rep_def)
    then show ?thesis
      using first_node_inserted [OF rep [unfolded Nil] new, of sz] by (simp add: Push_def new Let_def)
  next
    case (snoc xs h)
    then obtain t where "tail q1 = Some t" "head q1 = Some h"
      using n(1) by (cases xs) (auto simp: wq_rep_def)
    then have eq: "Push sz item q = (let q3 = (insertAfterNode a h q1)\<lparr>count := count (insertAfterNode a h q1) + ucast (sz item)\<rparr> in (count q3, q3))"
      using Push_link [OF rep [unfolded snoc] new] by (simp add: Push_def new Let_def)
    note i = insertAfterNode_rep [OF rep [unfolded snoc] new]
    show ?thesis unfolding eq
      using i(2) wq_rep_list [OF rep] snoc by (intro insertedI [OF i(1) _ i(3,4)]) simp
  qed
qed

lemma PutAtTail_list: "wq_inv q \<Longrightarrow> inserted sz item q (item # wq_list q) (PutAtTail sz item q)"
proof -
  assume "wq_inv q"
  then obtain ids where rep: "wq_rep q ids" by (auto simp: wq_inv_ex)
  obtain a q1 where new: "newNode item q = (a, q1)" by fastforce
  note n = newNode_rep [OF rep new]
  show ?thesis
  proof (cases ids)
    case Nil
    then have "tail q1 = None" "wq_list q = []" using n(1) wq_rep_list [OF rep] by (auto simp: wq_rep_def)
    then show ?thesis
      using first_node_inserted [OF rep [unfolded Nil] new, of sz] by (simp add: PutAtTail_def new Let_def)
  next
    case (Cons t ys)
    then have "tail q1 = Some t" using n(1) by (auto simp: wq_rep_def)
    then have eq: "PutAtTail sz item q = (let q3 = (insertBeforeNode a t q1)\<lparr>count := count (insertBeforeNode a t q1) + ucast (sz item)\<rparr> in (count q3, q3))"
      using PutAtTail_link [OF rep [unfolded Cons] new] by (simp add: PutAtTail_def new Let_def)
    have rep': "wq_rep q ([] @ t # ys)" using rep Cons by simp
    note i = insertBeforeNode_rep [OF rep' new]
    show ?thesis unfolding eq
      using i(2) wq_rep_list [OF rep] Cons by (intro insertedI [OF i(1) _ i(3,4)]) simp
  qed
qed

text \<open>
  The search of \<open>PushBefore\<close>: when the entries that are before the new one come first, the
  two cursors stop at the last of them, whichever reaches it.
\<close>

lemma nth_split: "i < length xs \<Longrightarrow> xs = take i xs @ xs ! i # drop (Suc i) xs"
  by (simp add: id_take_nth_drop)

lemma search_place_boundary:
  assumes rep: "wq_rep q (A @ B)" and AB: "A \<noteq> []" "B \<noteq> []"
    and lo: "\<And>a. a \<in> set A \<Longrightarrow> \<not> before (data_of q a)" and hi: "\<And>b. b \<in> set B \<Longrightarrow> before (data_of q b)"
    and i: "i < length A" "i < length B" and fuel: "length A - i \<le> fuel"
  shows "search_place fuel before q (A ! i) (B ! (length B - Suc i)) = Some (After (last A))"
  using i fuel
proof (induction fuel arbitrary: i)
  case 0
  then show ?case by simp
next
  case (Suc fuel)
  have "A @ B = take i A @ A ! i # (drop (Suc i) A @ B)"
    using nth_split [OF Suc.prems(1)] by (metis append.assoc append_Cons)
  then have next_i: "nxt_of q (A ! i) = first_or None (drop (Suc i) A @ B)"
    using wq_rep_links(1) rep by metis
  show ?case
  proof (cases "Suc i < length A")
    case False
    then have "Suc i = length A" using Suc.prems(1) by simp
    then have last: "A ! i = last A" "drop (Suc i) A = []" using AB by (auto simp: last_conv_nth simp flip: \<open>Suc i = length A\<close>)
    then have "nxt_of q (A ! i) = Some (hd B)" using next_i AB by (simp add: first_or_nonempty)
    then show ?thesis using hi [of "hd B"] AB last by simp
  next
    case True
    then have nx: "nxt_of q (A ! i) = Some (A ! Suc i)" "\<not> before (data_of q (A ! Suc i))"
      using next_i lo by (auto simp: first_or_nonempty hd_drop_conv_nth)
    let ?j = "length B - Suc i"
    have "A @ B = (A @ take ?j B) @ B ! ?j # drop (Suc ?j) B"
      using nth_split [of ?j B] Suc.prems(2) by simp
    then have prev_j: "prv_of q (B ! ?j) = last_or None (A @ take ?j B)"
      using wq_rep_links(2) rep by metis
    show ?thesis
    proof (cases "Suc i < length B")
      case False
      then have "prv_of q (B ! ?j) = Some (last A)" using prev_j AB by (simp add: last_or_nonempty)
      then show ?thesis using nx lo AB by simp
    next
      case True
      then have ne: "take ?j B \<noteq> []" by auto
      then have "last (take ?j B) = B ! (length B - Suc (Suc i))" using True by (simp add: last_conv_nth)
      then have "prv_of q (B ! ?j) = Some (B ! (length B - Suc (Suc i)))"
        using prev_j ne by (simp add: last_or_nonempty)
      then show ?thesis
        using nx hi [of "B ! (length B - Suc (Suc i))"] Suc.IH [of "Suc i"] Suc.prems True \<open>Suc i < length A\<close> by simp
    qed
  qed
qed

text \<open>\<open>PushBefore\<close> inserts at the boundary between the entries not after and those after.\<close>

lemma PushBefore_list:
  assumes inv: "wq_inv q" and split: "wq_list q = xs @ ys"
    and lo: "\<And>x. x \<in> set xs \<Longrightarrow> \<not> before x" and hi: "\<And>y. y \<in> set ys \<Longrightarrow> before y"
  shows "inserted sz item q (xs @ item # ys) (PushBefore sz item (Some before) q)"
proof -
  obtain ids where rep: "wq_rep q ids" using inv by (auto simp: wq_inv_ex)
  obtain a q1 where new: "newNode item q = (a, q1)" by fastforce
  note n = newNode_rep [OF rep new]
  obtain A B where ids: "ids = A @ B" and xs: "xs = map (data_of q) A" and ys: "ys = map (data_of q) B"
    using split wq_rep_list [OF rep] by (metis append_eq_map_conv)
  have lo': "\<not> before (data_of q1 b)" if "b \<in> set A" for b using that lo n(7) ids xs by auto
  have hi': "before (data_of q1 b)" if "b \<in> set B" for b using that hi n(7) ids ys by auto
  let ?fin = "\<lambda>q2. (let q3 = q2\<lparr>count := count q2 + ucast (sz item)\<rparr> in (count q3, q3))"
  consider "A = []" "B = []" | "A = []" "B \<noteq> []" | "A \<noteq> []" "B = []" | "A \<noteq> []" "B \<noteq> []" by blast
  then show ?thesis
  proof cases
    case 1
    then have "tail q1 = None" using n(1) ids by (auto simp: wq_rep_def)
    then show ?thesis using first_node_inserted [of q item a q1 sz] rep new 1 ids xs ys
      by (simp add: PushBefore_def Let_def)
  next
    case 2
    then obtain t B' where B: "B = t # B'" by (cases B) auto
    then obtain h where "tail q1 = Some t" "head q1 = Some h"
      using n(1) ids 2 empty_queue_ends [OF n(1)] by (auto simp: wq_rep_def)
    then have eq: "PushBefore sz item (Some before) q = ?fin (insertBeforeNode a t q1)"
      using hi' B by (simp add: PushBefore_def new Let_def)
    have rep': "wq_rep q ([] @ t # B')" using rep ids 2 B by simp
    note i = insertBeforeNode_rep [OF rep' new]
    show ?thesis unfolding eq
      using i(2) xs ys 2 B by (intro insertedI [OF i(1) _ i(3,4)]) simp
  next
    case 3
    then obtain h A' where A: "A = A' @ [h]" by (cases A rule: rev_cases) auto
    then obtain t where ends: "tail q1 = Some t" "head q1 = Some h" "t \<in> set A"
      using n(1) ids 3 by (cases A') (auto simp: wq_rep_def)
    then have eq: "PushBefore sz item (Some before) q = ?fin (insertAfterNode a h q1)"
      using lo' A by (simp add: PushBefore_def new Let_def)
    have rep': "wq_rep q (A' @ h # [])" using rep ids 3 A by simp
    note i = insertAfterNode_rep [OF rep' new]
    show ?thesis unfolding eq
      using i(2) xs ys 3 A by (intro insertedI [OF i(1) _ i(3,4)]) simp
  next
    case 4
    then obtain t h where ends: "tail q1 = Some t" "head q1 = Some h" "t = A ! 0" "h = B ! (length B - Suc 0)"
      using n(1) ids by (auto simp: wq_rep_def first_or_nonempty last_or_nonempty hd_conv_nth last_conv_nth)
    have "length A \<le> alloc q1" using wq_rep_length [OF n(1)] ids by simp
    then have pl: "search_place (alloc q1) before q1 t h = Some (After (last A))"
      using search_place_boundary [of q1 A B before 0 "alloc q1"] n(1) ids 4 lo' hi' ends by simp
    have "\<not> before (data_of q1 t)" "before (data_of q1 h)" using lo' hi' ends 4 by auto
    then have eq: "PushBefore sz item (Some before) q = ?fin (insertAfterNode a (last A) q1)"
      using ends pl by (simp add: PushBefore_def new Let_def insert_place_def)
    obtain A' where A: "A = A' @ [last A]" using 4 by (metis append_butlast_last_id)
    have rep': "wq_rep q (A' @ last A # B)" using rep ids A by (metis append.assoc append_Cons append_Nil)
    note i = insertAfterNode_rep [OF rep' new]
    have "map (data_of (insertAfterNode a (last A) q1)) (A' @ last A # a # B) = xs @ item # ys"
      using i(2) xs ys A by simp
    then show ?thesis unfolding eq by (rule insertedI [OF i(1) _ i(3,4)])
  qed
qed

section \<open>Removal\<close>

text \<open>Moving the tail to the next node, as \<open>Pop\<close> and the loop of \<open>PopUntil\<close> do.\<close>

lemma advance_tail_rep:
  assumes rep: "wq_rep q (t # ids)" and ids: "ids \<noteq> []"
    and q': "nodes q' = (nodes q)(hd ids \<mapsto> (the (nodes q (hd ids)))\<lparr>prv := None\<rparr>)" "alloc q' = alloc q"
      "tail q' = Some (hd ids)" "head q' = head q"
  shows "wq_rep q' ids" "map (data_of q') ids = map (data_of q) ids"
proof -
  obtain b bs where b: "ids = b # bs" using ids by (cases ids) auto
  then obtain nd where nd: "nodes q b = Some nd" "b \<notin> set bs" using rep by (auto simp: wq_rep_def)
  show "wq_rep q' ids" using rep q' b nd by (auto simp: wq_rep_def)
  show "map (data_of q') ids = map (data_of q) ids" using q'(1) b nd by (auto simp: data_of_def)
qed

definition tail_sum :: "('a \<Rightarrow> u32) \<Rightarrow> 'a list \<Rightarrow> u64" where
  "tail_sum sz xs = sum_list (map (\<lambda>x. ucast (sz x)) xs)"

lemma Pop_cons:
  assumes "wq_inv q" "wq_list q = x # xs" "\<not> stopped q"
  shows "\<exists>q'. Pop sz q = (Got x, q') \<and> wq_inv q' \<and> wq_list q' = xs \<and> \<not> stopped q' \<and>
    count q' = (if xs = [] then 0 else count q - ucast (sz x))"
proof -
  obtain ids0 where rep0: "wq_rep q ids0" using assms by (auto simp: wq_inv_ex)
  then obtain t ids where rep: "wq_rep q (t # ids)" and x: "x = data_of q t" "xs = map (data_of q) ids"
    using assms(2) wq_rep_list [OF rep0] by (cases ids0) auto
  have t: "tail q = Some t" "nxt_of q t = first_or None ids"
    using rep wq_rep_links(1) [of q "[]" t ids] by (auto simp: wq_rep_def)
  show ?thesis
  proof (cases "ids = []")
    case True
    then have "wq_rep (snd (Pop sz q)) []" "fst (Pop sz q) = Got x" "\<not> stopped (snd (Pop sz q))" "count (snd (Pop sz q)) = 0"
      using rep t assms(3) x by (auto simp: Pop_def Let_def wq_rep_def)
    then show ?thesis using x True wq_rep_list by (metis (no_types, lifting) list.simps(8) prod.collapse wq_inv_ex)
  next
    case False
    then obtain b bs where b: "ids = b # bs" by (cases ids) auto
    then have nd: "nodes q b \<noteq> None" using rep by (auto simp: wq_rep_def)
    let ?q1 = "q\<lparr>tail := nxt_of q t, count := count q - ucast (sz (data_of q t))\<rparr>"
    let ?q' = "set_prv b None ?q1"
    have p: "Pop sz q = (Got x, ?q')" using t b assms(3) x by (simp add: Pop_def Let_def)
    have "wq_rep ?q' ids" "map (data_of ?q') ids = map (data_of q) ids"
      by (rule advance_tail_rep [OF rep False]; use t b nd in \<open>auto simp: set_prv_def\<close>)+
    then show ?thesis using p x b assms(3) wq_rep_list by (fastforce simp: wq_inv_ex)
  qed
qed

lemma Pop_empty: "wq_inv q \<Longrightarrow> wq_list q = [] \<Longrightarrow> \<not> stopped q \<Longrightarrow> Pop sz q = (Blocked, q)"
  using wq_rep_list by (fastforce simp: Pop_def wq_inv_ex wq_rep_def)

lemma Pop_stopped: "stopped q \<Longrightarrow> Pop sz q = (Halted, q)"
  by (simp add: Pop_def)

text \<open>
  \<open>PopUntil\<close> on the list: the callback runs over the entries from the tail until it fails.
\<close>

fun scan :: "('s \<Rightarrow> 'a \<Rightarrow> bool \<times> 's) \<Rightarrow> 's \<Rightarrow> 'a list \<Rightarrow> 's \<times> 'a list" where
  "scan f s [] = (s, [])"
| "scan f s (x # xs) = (let (ok, s') = f s x in if ok then scan f s' xs else (s', x # xs))"

lemma scan_suffix: "scan f s xs = (s', ys) \<Longrightarrow> \<exists>zs. xs = zs @ ys"
proof (induction xs arbitrary: s)
  case (Cons x xs)
  obtain ok s1 where f: "f s x = (ok, s1)" by fastforce
  show ?case
  proof (cases ok)
    case True
    then obtain zs where "xs = zs @ ys" using Cons f by auto
    then show ?thesis by (metis append_Cons)
  next
    case False
    then show ?thesis using Cons.prems f by auto
  qed
qed simp


text \<open>The loop itself; when it empties the queue the stale \<open>head\<close> is left to the caller.\<close>

definition popped_to :: "'a WriteQueue \<Rightarrow> 'a WriteQueue \<Rightarrow> 'a list \<Rightarrow> bool" where
  "popped_to q q' ys \<longleftrightarrow> alloc q' = alloc q \<and> stopped q' = stopped q \<and> dom (nodes q') = dom (nodes q) \<and>
     (if ys = [] then tail q' = None else \<exists>ids. wq_rep q' ids \<and> map (data_of q') ids = ys)"

lemma popped_to_trans:
  "popped_to q q1 zs \<Longrightarrow> popped_to q1 q2 ys \<Longrightarrow> popped_to q q2 ys"
  by (auto simp: popped_to_def split: if_splits)

lemma pop_while_spec:
  assumes "wq_rep q ids" "length ids \<le> fuel" "scan f s (map (data_of q) ids) = (s', ys)"
  shows "\<exists>q'. pop_while fuel sz f s q = (s', q') \<and> popped_to q q' ys"
  using assms
proof (induction fuel arbitrary: q ids s)
  case 0
  then show ?case by (auto simp: popped_to_def wq_rep_def)
next
  case (Suc fuel)
  show ?case
  proof (cases ids)
    case Nil
    then show ?thesis using Suc.prems by (auto simp: popped_to_def wq_rep_def)
  next
    case (Cons t rest)
    have t: "tail q = Some t" "nxt_of q t = first_or None rest"
      using Suc.prems(1) Cons wq_rep_links(1) [of q "[]" t rest] by (auto simp: wq_rep_def)
    obtain ok s1 where f: "f s (data_of q t) = (ok, s1)" by fastforce
    let ?q1 = "q\<lparr>count := count q - ucast (sz s1 (data_of q t)), tail := nxt_of q t\<rparr>"
    show ?thesis
    proof (cases ok)
      case False
      then show ?thesis using Suc.prems Cons t f by (auto simp: popped_to_def)
    next
      case ok: True
      show ?thesis
      proof (cases "rest = []")
        case True
        then have "pop_while (Suc fuel) sz f s q = (s1, ?q1)" "ys = []" "s' = s1"
          using t f ok Suc.prems Cons by (cases fuel; auto)+
        then show ?thesis using t True by (auto simp: popped_to_def)
      next
        case False
        let ?q2 = "set_prv (hd rest) None ?q1"
        obtain nd where nd: "nodes q (hd rest) = Some nd"
          using Suc.prems(1) Cons False by (cases rest) (auto simp: wq_rep_def)
        have eq: "pop_while (Suc fuel) sz f s q = pop_while fuel sz f s1 ?q2"
          using t f ok False by (simp add: first_or_nonempty Let_def)
        have r: "wq_rep ?q2 rest" "map (data_of ?q2) rest = map (data_of q) rest"
          by (rule advance_tail_rep [OF Suc.prems(1) [unfolded Cons] False];
              use t False nd in \<open>auto simp: first_or_nonempty\<close>)+
        have "scan f s1 (map (data_of q) rest) = (s', ys)" "length rest \<le> fuel" using Suc.prems Cons f ok by auto
        then obtain q' where q': "pop_while fuel sz f s1 ?q2 = (s', q')" "popped_to ?q2 q' ys"
          using Suc.IH [OF r(1)] r(2) by metis
        have "dom (nodes ?q2) = dom (nodes q)" using nd by auto
        then show ?thesis using eq q' nd by (auto simp: popped_to_def)
      qed
    qed
  qed
qed

lemma pop_while_count:
  assumes "\<And>s x y. sz (snd (f s x)) y = sz s y"
    and "wq_rep q ids" "length ids \<le> fuel" "map (data_of q) ids = zs @ ys" "scan f s (zs @ ys) = (s', ys)"
  shows "count (snd (pop_while fuel sz f s q)) = count q - tail_sum (sz s) zs"
  using assms(2-)
proof (induction zs arbitrary: fuel q ids s)
  case Nil
  show ?case
  proof (cases ys)
    case Nil
    then show ?thesis using Nil.prems by (cases fuel) (auto simp: wq_rep_def tail_sum_def)
  next
    case (Cons y ys')
    then obtain t rest where ids: "ids = t # rest" "data_of q t = y" using Nil.prems by (cases ids) auto
    have "\<not> fst (f s y)"
    proof
      assume "fst (f s y)"
      then have "scan f (snd (f s y)) ys' = (s', y # ys')" using Nil.prems Cons by (auto simp: case_prod_unfold Let_def)
      then show False using scan_suffix [of f "snd (f s y)" ys'] by (metis Cons_eq_appendI append_self_conv2 impossible_Cons le_refl length_append list.size(4) not_add_less2 not_less_eq_eq trans_le_add2)
    qed
    then show ?thesis using Nil.prems ids by (cases fuel) (auto simp: wq_rep_def tail_sum_def case_prod_unfold Let_def)
  qed
next
  case (Cons z zs)
  then obtain t rest where ids: "ids = t # rest" "data_of q t = z" "map (data_of q) rest = zs @ ys" by (cases ids) auto
  obtain fuel' where fuel: "fuel = Suc fuel'" using Cons.prems ids by (cases fuel) auto
  have t: "tail q = Some t" "nxt_of q t = first_or None rest"
    using Cons.prems(1) ids wq_rep_links(1) [of q "[]" t rest] by (auto simp: wq_rep_def)
  have ok: "fst (f s z)"
  proof (rule ccontr)
    assume "\<not> fst (f s z)"
    then have "z # zs @ ys = ys" using Cons.prems(4) by (auto simp: case_prod_unfold Let_def)
    then show False by (metis append_Cons append_self_conv2 list.distinct(1))
  qed
  let ?s1 = "snd (f s z)"
  let ?q1 = "q\<lparr>count := count q - ucast (sz ?s1 z), tail := nxt_of q t\<rparr>"
  have sc: "scan f ?s1 (zs @ ys) = (s', ys)" using Cons.prems(4) ok by (auto simp: case_prod_unfold Let_def)
  have szs: "sz ?s1 = sz s" using assms(1) by blast
  show ?case
  proof (cases "rest = []")
    case True
    then have "pop_while fuel sz f s q = (?s1, ?q1)" "zs = []"
      using t ids ok fuel by (cases fuel'; auto simp: case_prod_unfold Let_def)+
    then show ?thesis using szs by (simp add: tail_sum_def)
  next
    case False
    let ?q2 = "set_prv (hd rest) None ?q1"
    obtain nd where nd: "nodes q (hd rest) = Some nd"
      using Cons.prems(1) ids False by (cases rest) (auto simp: wq_rep_def)
    have eq: "pop_while fuel sz f s q = pop_while fuel' sz f ?s1 ?q2"
      using t ids ok False fuel by (simp add: first_or_nonempty Let_def case_prod_unfold)
    have r: "wq_rep ?q2 rest" "map (data_of ?q2) rest = map (data_of q) rest"
      by (rule advance_tail_rep [OF Cons.prems(1) [unfolded ids] False];
          use t False nd in \<open>auto simp: first_or_nonempty\<close>)+
    have "count (snd (pop_while fuel' sz f ?s1 ?q2)) = count ?q2 - tail_sum (sz ?s1) zs"
      using Cons.IH [OF r(1) _ _ sc] r(2) ids fuel Cons.prems(2) by simp
    then show ?thesis using eq szs by (simp add: tail_sum_def algebra_simps)
  qed
qed

lemma PopUntil_list:
  assumes inv: "wq_inv q" and "\<not> stopped q" and sc: "scan f s (wq_list q) = (s', ys)"
  shows "\<exists>q'. PopUntil sz (Some f) s q = (s', q') \<and> wq_inv q' \<and> wq_list q' = ys \<and> \<not> stopped q'"
proof -
  obtain ids where rep: "wq_rep q ids" using inv by (auto simp: wq_inv_ex)
  show ?thesis
  proof (cases "tail q = None")
    case True
    then have "wq_list q = []" using empty_queue_ends [OF rep] wq_rep_list [OF rep] by simp
    then show ?thesis using True sc inv assms(2) by (auto simp: PopUntil_def)
  next
    case False
    obtain q1 where q1: "pop_while (alloc q) sz f s q = (s', q1)" "popped_to q q1 ys"
      using pop_while_spec [OF rep wq_rep_length [OF rep]] sc wq_rep_list [OF rep] by metis
    show ?thesis
    proof (cases "ys = []")
      case True
      then have "wq_rep (q1\<lparr>count := 0, head := None\<rparr>) []"
        using q1(2) rep by (auto simp: popped_to_def wq_rep_def)
      then have "wq_inv (q1\<lparr>count := 0, head := None\<rparr>)" "wq_list (q1\<lparr>count := 0, head := None\<rparr>) = []"
        by (auto simp: wq_inv_ex dest: wq_rep_list)
      then show ?thesis using True q1 False assms(2) by (auto simp: PopUntil_def popped_to_def)
    next
      case ne: False
      then obtain ids' where r: "wq_rep q1 ids'" "map (data_of q1) ids' = ys" using q1(2) by (auto simp: popped_to_def)
      then have "tail q1 \<noteq> None" using ne empty_queue_ends [OF r(1)] by auto
      moreover have "wq_inv q1" "wq_list q1 = ys" using r wq_rep_list by (auto simp: wq_inv_ex)
      ultimately show ?thesis using q1 False assms(2) by (auto simp: PopUntil_def popped_to_def)
    qed
  qed
qed


lemma PopUntil_stopped: "stopped q \<Longrightarrow> PopUntil sz fn s q = (s, q)"
  by (simp add: PopUntil_def split: option.splits)

section \<open>The running size\<close>

text \<open>\<open>count\<close> is the total size of the queued entries, in 64-bit arithmetic.\<close>

definition wq_counted :: "('a \<Rightarrow> u32) \<Rightarrow> 'a WriteQueue \<Rightarrow> bool" where
  "wq_counted sz q \<longleftrightarrow> count q = tail_sum sz (wq_list q)"

lemma tail_sum_simps [simp]:
  "tail_sum sz [] = 0" "tail_sum sz (x # xs) = ucast (sz x) + tail_sum sz xs"
  "tail_sum sz (xs @ ys) = tail_sum sz xs + tail_sum sz ys"
  by (simp_all add: tail_sum_def)

lemma inserted_counted:
  assumes "wq_counted sz q" "inserted sz item q (xs @ item # ys) r" "wq_list q = xs @ ys"
  shows "wq_counted sz (snd r) \<and> fst r = tail_sum sz (xs @ item # ys)"
  using assms by (simp add: wq_counted_def inserted_def)

lemma Pop_counted:
  assumes "wq_inv q" "wq_counted sz q" "\<not> stopped q" "wq_list q = x # xs"
  shows "wq_counted sz (snd (Pop sz q))"
  using Pop_cons [OF assms(1,4,3), of sz] assms(2,4) by (auto simp: wq_counted_def)

lemma PopUntil_counted:
  assumes "wq_inv q" "wq_counted (sz s) q" "\<And>s x y. sz (snd (f s x)) y = sz s y"
  shows "wq_counted (sz s) (snd (PopUntil sz (Some f) s q))"
proof (cases "stopped q \<or> tail q = None")
  case True
  then show ?thesis using assms(2) by (auto simp: PopUntil_def)
next
  case False
  obtain ids where rep: "wq_rep q ids" using assms(1) by (auto simp: wq_inv_ex)
  obtain s' ys where sc: "scan f s (wq_list q) = (s', ys)" by fastforce
  obtain zs where zs: "wq_list q = zs @ ys" using scan_suffix [OF sc] by blast
  obtain q' where q': "PopUntil sz (Some f) s q = (s', q')" "wq_list q' = ys"
    using PopUntil_list [OF assms(1) _ sc] False by blast
  obtain q1 where q1: "pop_while (alloc q) sz f s q = (s', q1)" "popped_to q q1 ys"
    using pop_while_spec [OF rep wq_rep_length [OF rep]] sc wq_rep_list [OF rep] by metis
  have "count q1 = count q - tail_sum (sz s) zs"
    using pop_while_count [where sz = sz and f = f, OF assms(3) rep wq_rep_length [OF rep]] wq_rep_list [OF rep] zs sc q1(1) by (metis snd_conv)
  then have c: "count q1 = tail_sum (sz s) ys" using assms(2) zs by (simp add: wq_counted_def)
  have "q' = (if tail q1 = None then q1\<lparr>count := 0, head := None\<rparr> else q1)"
    using q'(1) q1(1) False by (auto simp: PopUntil_def)
  moreover have "tail q1 = None \<longleftrightarrow> ys = []"
    using q1(2) empty_queue_ends by (fastforce simp: popped_to_def split: if_splits)
  ultimately show ?thesis using q' c by (auto simp: wq_counted_def)
qed

section \<open>The queue contract\<close>

text \<open>
  What the clients of the queue rely on: it is the list of its entries, the ordered insertion
  respects any boundary, and popping takes the entries from the front. The lemmas that the LSN
  tracker uses are proved here once, for any queue that keeps the contract.
\<close>

locale write_queue =
  fixes contents :: "'q \<Rightarrow> 'a list"
    and inv :: "'q \<Rightarrow> bool"
    and halted :: "'q \<Rightarrow> bool"
    and push :: "'a \<Rightarrow> 'q \<Rightarrow> 'q"
    and push_before :: "'a \<Rightarrow> ('a \<Rightarrow> bool) \<Rightarrow> 'q \<Rightarrow> 'q"
    and pop :: "'q \<Rightarrow> 'a waited \<times> 'q"
  assumes push_inv: "inv q \<Longrightarrow> inv (push x q) \<and> halted (push x q) = halted q"
    and push_contents: "inv q \<Longrightarrow> contents (push x q) = contents q @ [x]"
    and push_before_spec: "inv q \<Longrightarrow> contents q = xs @ ys \<Longrightarrow> (\<And>y. y \<in> set xs \<Longrightarrow> \<not> before y) \<Longrightarrow>
          (\<And>y. y \<in> set ys \<Longrightarrow> before y) \<Longrightarrow>
          inv (push_before x before q) \<and> halted (push_before x before q) = halted q \<and>
          contents (push_before x before q) = xs @ x # ys"
    and pop_spec: "inv q \<Longrightarrow> \<not> halted q \<Longrightarrow> contents q = x # xs \<Longrightarrow>
          fst (pop q) = Got x \<and> inv (snd (pop q)) \<and> contents (snd (pop q)) = xs \<and> \<not> halted (snd (pop q))"
begin

text \<open>Ordered insertion by a key: the new entry comes after every entry of the same or a smaller key.\<close>

lemma push_before_sorted:
  fixes key :: "'a \<Rightarrow> 'k::linorder"
  assumes "inv q" "sorted (map key (contents q))"
  shows "\<exists>xs ys. contents q = xs @ ys \<and> (\<forall>y \<in> set xs. key y \<le> key x) \<and> (\<forall>y \<in> set ys. key x < key y) \<and>
    contents (push_before x (\<lambda>y. key x < key y) q) = xs @ x # ys \<and>
    inv (push_before x (\<lambda>y. key x < key y) q) \<and>
    halted (push_before x (\<lambda>y. key x < key y) q) = halted q \<and>
    sorted (map key (contents (push_before x (\<lambda>y. key x < key y) q)))"
proof -
  obtain xs ys where split: "contents q = xs @ ys"
    and lo: "\<And>y. y \<in> set xs \<Longrightarrow> key y \<le> key x" and hi: "\<And>y. y \<in> set ys \<Longrightarrow> key x < key y"
    using sorted_boundary [OF assms(2), of x] by blast
  have "\<not> key x < key y" if "y \<in> set xs" for y using lo [OF that] by simp
  then have "inv (push_before x (\<lambda>y. key x < key y) q)"
    "halted (push_before x (\<lambda>y. key x < key y) q) = halted q"
    "contents (push_before x (\<lambda>y. key x < key y) q) = xs @ x # ys"
    using push_before_spec [where before = \<open>\<lambda>y. key x < key y\<close> and x = x, OF assms(1) split] hi by auto
  moreover have "sorted (map key (xs @ x # ys))"
    using assms(2) split lo hi by (auto simp: sorted_append intro: less_imp_le)
  ultimately show ?thesis using split lo hi by auto
qed

text \<open>First in, first out: what was pushed on an empty queue is popped in the same order.\<close>

fun drain :: "nat \<Rightarrow> 'q \<Rightarrow> 'a list" where
  "drain 0 q = []"
| "drain (Suc n) q = (case pop q of (Got x, q') \<Rightarrow> x # drain n q' | _ \<Rightarrow> [])"

lemma drain_contents: "inv q \<Longrightarrow> \<not> halted q \<Longrightarrow> drain (length (contents q)) q = contents q"
proof (induction "contents q" arbitrary: q)
  case Nil
  then show ?case by simp
next
  case (Cons x xs)
  then have p: "fst (pop q) = Got x" "inv (snd (pop q))" "contents (snd (pop q)) = xs" "\<not> halted (snd (pop q))"
    using pop_spec by metis+
  have "drain (length xs) (snd (pop q)) = xs" using Cons.hyps(1) [of "snd (pop q)"] p by simp
  then show ?case using p(1) Cons.hyps(2) by (metis (no_types, lifting) drain.simps(2) length_Cons prod.case prod.collapse waited.simps(8))
qed

lemma push_all_contents:
  "inv q \<Longrightarrow> inv (fold push xs q) \<and> halted (fold push xs q) = halted q \<and> contents (fold push xs q) = contents q @ xs"
  by (induction xs arbitrary: q) (simp_all add: push_inv push_contents)

lemma fifo:
  "inv q \<Longrightarrow> \<not> halted q \<Longrightarrow> contents q = [] \<Longrightarrow> drain (length xs) (fold push xs q) = xs"
  using drain_contents [of "fold push xs q"] push_all_contents [of q xs] by simp

end

interpretation wq: write_queue wq_list wq_inv stopped "\<lambda>x q. snd (Push sz x q)"
    "\<lambda>x before q. snd (PushBefore sz x (Some before) q)" "Pop sz" for sz
proof unfold_locales
  fix q :: "'a WriteQueue" and x
  assume "wq_inv q"
  then show "wq_inv (snd (Push sz x q)) \<and> stopped (snd (Push sz x q)) = stopped q"
    and "wq_list (snd (Push sz x q)) = wq_list q @ [x]"
    using Push_list [of q sz x] by (auto simp: inserted_def)
next
  fix q :: "'a WriteQueue" and xs ys before x
  assume "wq_inv q" "wq_list q = xs @ ys" "\<And>y. y \<in> set xs \<Longrightarrow> \<not> before y" "\<And>y. y \<in> set ys \<Longrightarrow> before y"
  then show "wq_inv (snd (PushBefore sz x (Some before) q)) \<and>
      stopped (snd (PushBefore sz x (Some before) q)) = stopped q \<and>
      wq_list (snd (PushBefore sz x (Some before) q)) = xs @ x # ys"
    using PushBefore_list [of q xs ys before sz x] by (auto simp: inserted_def)
next
  fix q :: "'a WriteQueue" and x xs
  assume "wq_inv q" "\<not> stopped q" "wq_list q = x # xs"
  then show "fst (Pop sz q) = Got x \<and> wq_inv (snd (Pop sz q)) \<and> wq_list (snd (Pop sz q)) = xs \<and> \<not> stopped (snd (Pop sz q))"
    using Pop_cons [of q x xs sz] by auto
qed

section \<open>Properties\<close>

lemma chain_stopped: "chain n (q\<lparr>stopped := b\<rparr>) p = chain n q p"
  by (induction n q p rule: chain.induct) (simp_all add: nxt_of_def)

lemma wq_Stop_simps [simp]: "wq_inv (wq_Stop q) = wq_inv q" "wq_list (wq_Stop q) = wq_list q" "stopped (wq_Stop q)"
  by (simp_all add: wq_Stop_def wq_inv_ex wq_list_def wq_ids_def chain_stopped)

lemma wq_New_inv [simp]: "wq_inv wq_New" "wq_list wq_New = []" "\<not> stopped wq_New"
  using wq_rep_list [OF wq_rep_New] wq_rep_New by (auto simp: wq_inv_ex wq_New_def)

text \<open>
  (C19) \<open>PushBefore\<close> on a queue ordered by a key keeps it ordered and links the new entry
  exactly once, after every entry with the same or a smaller key and before every larger one,
  although the code searches from both ends through the pointers.
\<close>

theorem PushBefore_ordered:
  fixes key :: "'a \<Rightarrow> 'k::linorder"
  assumes "wq_inv q" "sorted (map key (wq_list q))"
  shows "\<exists>xs ys. wq_list q = xs @ ys \<and> (\<forall>y \<in> set xs. key y \<le> key x) \<and> (\<forall>y \<in> set ys. key x < key y) \<and>
    wq_list (snd (PushBefore sz x (Some (\<lambda>y. key x < key y)) q)) = xs @ x # ys \<and>
    wq_inv (snd (PushBefore sz x (Some (\<lambda>y. key x < key y)) q)) \<and>
    sorted (map key (wq_list (snd (PushBefore sz x (Some (\<lambda>y. key x < key y)) q))))"
  using wq.push_before_sorted [OF assms, of x sz] by blast

definition wq_sample :: "nat WriteQueue" where
  "wq_sample = snd (Push (\<lambda>_. 1) 30 (snd (Push (\<lambda>_. 1) 20 (snd (Push (\<lambda>_. 1) 10 wq_New)))))"

lemma wq_sample_inv: "wq_inv wq_sample" "wq_list wq_sample = [10, 20, 30]"
proof -
  show "wq_inv wq_sample" "wq_list wq_sample = [10, 20, 30]"
    by (simp_all add: wq_sample_def wq.push_inv wq.push_contents)
qed

theorem PushBefore_ordered_witness:
  "wq_inv wq_sample \<and> sorted (map id (wq_list wq_sample)) \<and>
   sorted (map id (wq_list (snd (PushBefore (\<lambda>_. 1) 25 (Some (\<lambda>y. id 25 < id y)) wq_sample))))"
proof -
  have s: "sorted (map id (wq_list wq_sample))" by (simp add: wq_sample_inv)
  show ?thesis using PushBefore_ordered [OF wq_sample_inv(1) s, of 25 "\<lambda>_. 1"] wq_sample_inv(1) s by blast
qed

text \<open>
  (C20) \<open>PopUntil\<close> always ends: on a well-linked queue that is not stopped it runs the
  callback over the entries from the tail exactly until the callback refuses one, and leaves
  exactly the rest linked.
\<close>

theorem PopUntil_refines_scan:
  assumes "wq_inv q" "\<not> stopped q"
  shows "wq_inv (snd (PopUntil sz (Some f) s q)) \<and>
    (fst (PopUntil sz (Some f) s q), wq_list (snd (PopUntil sz (Some f) s q))) = scan f s (wq_list q)"
proof -
  obtain s' ys where "scan f s (wq_list q) = (s', ys)" by fastforce
  then show ?thesis using PopUntil_list [OF assms, of f s s' ys sz] by auto
qed

lemma wq_sample_running: "\<not> stopped wq_sample"
  by (simp add: wq_sample_def Push_def newNode_def wq_New_def Let_def set_nxt_def set_prv_def)

theorem PopUntil_refines_scan_witness:
  "wq_inv wq_sample \<and> \<not> stopped wq_sample \<and>
   (fst (PopUntil (\<lambda>_ _. 1) (Some (\<lambda>s x. (x < 25, Suc s))) (0::nat) wq_sample),
    wq_list (snd (PopUntil (\<lambda>_ _. 1) (Some (\<lambda>s x. (x < 25, Suc s))) (0::nat) wq_sample))) = (3, [30])"
  using PopUntil_refines_scan [OF wq_sample_inv(1) wq_sample_running, of "\<lambda>_ _. 1" "\<lambda>s x. (x < 25, Suc s)" "0::nat"]
    wq_sample_inv wq_sample_running by simp

fun pop_n :: "nat \<Rightarrow> ('a \<Rightarrow> u32) \<Rightarrow> 'a WriteQueue \<Rightarrow> 'a list" where
  "pop_n 0 sz q = []"
| "pop_n (Suc n) sz q = (case Pop sz q of (Got x, q') \<Rightarrow> x # pop_n n sz q' | _ \<Rightarrow> [])"

lemma pop_n_drain: "pop_n n sz q = wq.drain sz n q"
  by (induction n arbitrary: q) (auto split: prod.splits waited.splits)

text \<open>
  The queue is first in, first out: entries pushed on an empty running queue are popped in
  the order they were pushed.
\<close>

theorem Push_Pop_fifo:
  assumes "wq_inv q" "\<not> stopped q" "wq_list q = []"
  shows "pop_n (length xs) sz (fold (\<lambda>x q. snd (Push sz x q)) xs q) = xs"
  unfolding pop_n_drain by (rule wq.fifo [OF assms])

theorem Push_Pop_fifo_witness:
  "wq_inv (wq_New :: nat WriteQueue) \<and>
   pop_n (length [7, 8, 9 :: nat]) (\<lambda>_. 1) (fold (\<lambda>x q. snd (Push (\<lambda>_. 1) x q)) [7, 8, 9] (wq_New :: nat WriteQueue)) = [7, 8, 9]"
proof -
  have h: "wq_inv (wq_New :: nat WriteQueue)" "\<not> stopped (wq_New :: nat WriteQueue)" "wq_list (wq_New :: nat WriteQueue) = []"
    by simp_all
  show ?thesis using Push_Pop_fifo [OF h, of "[7, 8, 9]" "\<lambda>_. 1"] h(1) by blast
qed

text \<open>
  The running size never drifts: pushing, popping and \<open>PopUntil\<close> keep \<open>Count\<close> equal
  to the total size of the queued entries in 64-bit arithmetic, and every push returns that total.
\<close>

theorem Count_is_total_size:
  assumes "wq_inv q" "wq_counted (sz s) q" "\<And>s x y. sz (snd (f s x)) y = sz s y"
  shows "wq_counted (sz s) (snd (Push (sz s) item q)) \<and>
    fst (Push (sz s) item q) = wq_Count (snd (Push (sz s) item q)) \<and>
    wq_counted (sz s) (snd (Pop (sz s) q)) \<and>
    wq_counted (sz s) (snd (PopUntil sz (Some f) s q))"
proof -
  have "wq_counted (sz s) (snd (Push (sz s) item q))" "fst (Push (sz s) item q) = wq_Count (snd (Push (sz s) item q))"
    using inserted_counted [OF assms(2), where xs = "wq_list q" and ys = "[]" and item = item] Push_list [OF assms(1), of "sz s" item]
    by (auto simp: wq_Count_def inserted_def)
  moreover have "wq_counted (sz s) (snd (Pop (sz s) q))"
    using assms Pop_counted [of q "sz s"] Pop_empty [of q "sz s"] Pop_stopped [of q "sz s"]
    by (cases "stopped q"; cases "wq_list q") auto
  ultimately show ?thesis using PopUntil_counted [of q sz s f] assms by blast
qed

theorem Count_is_total_size_witness:
  "wq_counted (\<lambda>_. 2) (wq_New :: nat WriteQueue) \<and>
   fst (Push (\<lambda>_. 2) 5 (wq_New :: nat WriteQueue)) = wq_Count (snd (Push (\<lambda>_. 2) 5 (wq_New :: nat WriteQueue)))"
proof -
  have h: "wq_counted (\<lambda>_. 2) (wq_New :: nat WriteQueue)" unfolding wq_counted_def by (simp) (simp add: wq_New_def)
  show ?thesis
    using Count_is_total_size [where sz = "\<lambda>_ _. 2" and f = "\<lambda>s x. (True, s)" and s = "()" and item = 5, OF wq_New_inv(1) h] h
    by simp
qed

end
