(* ===== verification/Lsntracker.thy ===== *)
theory Lsntracker
  imports Pgwal Writequeue "HOL-Library.AList"
begin

text \<open>
  \<open>pg2buffer/pglsntracker/buffered_lsn_tracker.go\<close>: the tracker that decides which LSN may
  be confirmed to Postgres. A tracked write is shared by the tracking queue, the ready queue and
  the retry timers, so the tracked writes live in a store and the queues hold their addresses.
  Clock readings (\<open>now\<close>), the value of \<open>RetryConfig.Backoff\<close> and the outcome of the
  third-party timing wheel are arguments; the timers handed to the wheel are recorded in
  \<open>wheel\<close>, and the firing of one is a step of the environment.
\<close>

section \<open>State\<close>

record failureEntry =
  retries :: nat
  downStreamDownRetries :: nat
  lastFailed :: int

definition totalRetries :: "failureEntry \<Rightarrow> int" where
  "totalRetries fe = int (retries fe) + int (downStreamDownRetries fe) - 1"

text \<open>
  The maps of the code: \<open>pending\<close> is a set of offsets, \<open>failures\<close> an association list.
  A nil map and an empty map behave alike in every read the code makes.
\<close>

record 't trackedWriteRequest =
  point :: CommitPoint
  tw_write :: "'t WriteRequest option"
  tw_size :: u32
  pending :: "u32 set"
  failures :: "(u32 \<times> failureEntry) list"
  queued :: "'t WriteRequest list"
  released :: bool

record RetryConfig =
  MaxRetries :: int
  MaxConnectionRetries :: int
  InitialBackoff :: int
  MaxBackoff :: int

record 't readyWriteEntry =
  rd_tracked :: nat
  rd_write :: "'t WriteRequest"

record 't retryEntry =
  rt_tracked :: nat
  rt_write :: "'t WriteRequest"
  waitUntil :: int

record 't tracker =
  store :: "nat \<rightharpoonup> 't trackedWriteRequest"
  nextAddr :: nat
  trackingQueue :: "nat WriteQueue"
  readyQueue :: "'t readyWriteEntry WriteQueue"
  maxAcknowledged :: CommitPoint
  retryConfig :: RetryConfig
  retryInterval :: int
  retrySeq :: u64
  wheel :: "(u64 \<times> 't retryEntry \<times> int) list"
  stopCtx :: bool
  shutdownCh :: "string list"
  writeQueueLen :: int
  retryQueueLen :: int
  releasedTimes :: "nat \<Rightarrow> nat"

section \<open>Operations on one tracked write\<close>

definition newTrackedWriteRequest :: "'t WriteRequest \<Rightarrow> 't trackedWriteRequest" where
  "newTrackedWriteRequest w =
     \<lparr>point = \<lparr>cp_LSN = wr_LSN w, cp_XID = wr_XID w\<rparr>, tw_write = Some w, tw_size = wr_Size w,
      pending = (if wr_Entries w = [] then {0} else set (map we_Offset (wr_Entries w))),
      failures = [], queued = [], released = False\<rparr>"

definition hasPendingEntries :: "'t trackedWriteRequest \<Rightarrow> 't WriteRequest option \<Rightarrow> bool" where
  "hasPendingEntries tw w =
     (case w of None \<Rightarrow> False
      | Some wr \<Rightarrow>
         if pending tw = {} then False
         else if wr_Entries wr = [] then 0 \<in> pending tw
         else list_ex (\<lambda>entry. we_Offset entry \<in> pending tw) (wr_Entries wr))"

definition queueWrite :: "'t trackedWriteRequest \<Rightarrow> 't WriteRequest \<Rightarrow> bool \<times> 't trackedWriteRequest" where
  "queueWrite tw w =
     (if released tw \<or> \<not> hasPendingEntries tw (Some w) then (False, tw)
      else (True, tw\<lparr>queued := queued tw @ [w]\<rparr>))"

definition clearQueued :: "'t trackedWriteRequest \<Rightarrow> 't trackedWriteRequest" where
  "clearQueued tw = tw\<lparr>queued := []\<rparr>"

definition popQueuedWrite :: "'t trackedWriteRequest \<Rightarrow> 't WriteRequest option \<times> 't trackedWriteRequest" where
  "popQueuedWrite tw =
     (case queued tw of [] \<Rightarrow> (None, tw) | w # ws \<Rightarrow> (Some w, tw\<lparr>queued := ws\<rparr>))"

definition tw_ack :: "'t trackedWriteRequest \<Rightarrow> u32 list \<Rightarrow> bool \<times> 't trackedWriteRequest" where
  "tw_ack tw offsets = (let p = pending tw - set offsets in (p = {}, tw\<lparr>pending := p\<rparr>))"

definition tw_isAcknowledged :: "'t trackedWriteRequest \<Rightarrow> bool" where
  "tw_isAcknowledged tw \<longleftrightarrow> pending tw = {}"

definition hasFailures :: "'t trackedWriteRequest \<Rightarrow> bool" where
  "hasFailures tw \<longleftrightarrow> failures tw \<noteq> []"

definition getFailedEntry ::
  "int \<Rightarrow> 't trackedWriteRequest \<Rightarrow> u32 \<Rightarrow> WriterError \<Rightarrow> failureEntry \<times> 't trackedWriteRequest" where
  "getFailedEntry now tw offset reason =
     (let fe = (case map_of (failures tw) offset of
                  None \<Rightarrow> \<lparr>retries = 1, downStreamDownRetries = (if IsDownStreamDown reason then 1 else 0), lastFailed = now\<rparr>
                | Some f \<Rightarrow>
                   (let f1 = f\<lparr>lastFailed := now\<rparr> in
                    if IsDownStreamDown reason then f1\<lparr>downStreamDownRetries := Suc (downStreamDownRetries f1)\<rparr>
                    else f1\<lparr>retries := Suc (retries f1)\<rparr>))
      in (fe, tw\<lparr>failures := AList.update offset fe (failures tw)\<rparr>))"

definition retryWrite :: "'t trackedWriteRequest \<Rightarrow> u32 \<Rightarrow> 't WriteRequest option" where
  "retryWrite tw offset =
     (case tw_write tw of None \<Rightarrow> None
      | Some w \<Rightarrow>
         if offset \<notin> pending tw then None
         else (case GetEntryByOffset w offset of None \<Rightarrow> None
               | Some e \<Rightarrow> Some \<lparr>wr_Entries = [e], wr_LSN = wr_LSN w, wr_XID = wr_XID w,
                                wr_CommitTime = wr_CommitTime w, wr_isSnapshot = False\<rparr>))"

definition fullWrite :: "'t trackedWriteRequest \<Rightarrow> 't WriteRequest option" where
  "fullWrite tw = (if tw_write tw = None \<or> released tw \<or> \<not> hasPendingEntries tw (tw_write tw) then None else tw_write tw)"

text \<open>
  \<open>release\<close> returns how many queued writes it dropped, and whether it called \<open>Release\<close>
  on the entries of the write.
\<close>

definition tw_release :: "'t trackedWriteRequest \<Rightarrow> nat \<times> bool \<times> 't trackedWriteRequest" where
  "tw_release tw =
     (if released tw then (0, False, tw)
      else (length (queued tw), tw_write tw \<noteq> None,
            tw\<lparr>queued := [], pending := {}, failures := [], tw_write := None, released := True\<rparr>))"

section \<open>Operations of the tracker\<close>

definition tw_at :: "'t tracker \<Rightarrow> nat \<Rightarrow> 't trackedWriteRequest" where
  "tw_at t a = the (store t a)"

definition put_tw :: "nat \<Rightarrow> 't trackedWriteRequest \<Rightarrow> 't tracker \<Rightarrow> 't tracker" where
  "put_tw a tw t = t\<lparr>store := (store t)(a \<mapsto> tw)\<rparr>"

definition lsn_at :: "'t tracker \<Rightarrow> nat \<Rightarrow> LSN" where
  "lsn_at t a = cp_LSN (point (tw_at t a))"

definition retryWheelInterval :: "RetryConfig \<Rightarrow> int" where
  "retryWheelInterval cfg =
     (let interval = (if 0 < InitialBackoff cfg \<and> InitialBackoff cfg < 10000000 then InitialBackoff cfg else 10000000)
      in if interval < 1000000 then 1000000 else interval)"

definition NewLSNTracker :: "RetryConfig \<Rightarrow> 't tracker" where
  "NewLSNTracker cfg =
     \<lparr>store = Map.empty, nextAddr = 0, trackingQueue = wq_New, readyQueue = wq_New,
      maxAcknowledged = \<lparr>cp_LSN = 0, cp_XID = 0\<rparr>, retryConfig = cfg, retryInterval = retryWheelInterval cfg,
      retrySeq = 0, wheel = [], stopCtx = False, shutdownCh = [], writeQueueLen = 0, retryQueueLen = 0,
      releasedTimes = (\<lambda>_. 0)\<rparr>"

text \<open>\<open>entry.release()\<close> on a tracked write followed by \<open>writeQueueDec\<close> of its result.\<close>

definition release_at :: "nat \<Rightarrow> 't tracker \<Rightarrow> 't tracker" where
  "release_at a t =
     (let (dropped, freed, tw) = tw_release (tw_at t a)
      in (put_tw a tw t)\<lparr>writeQueueLen := writeQueueLen t - int dropped,
           releasedTimes := (if freed then (releasedTimes t)(a := Suc (releasedTimes t a)) else releasedTimes t)\<rparr>)"

definition findTrackedWrite :: "'t tracker \<Rightarrow> LSN \<Rightarrow> nat option" where
  "findTrackedWrite t lsn = wq_Find (Some (\<lambda>a. lsn_at t a = lsn)) (trackingQueue t)"

definition isAcknowledged :: "'t tracker \<Rightarrow> LSN \<Rightarrow> bool" where
  "isAcknowledged t lsn \<longleftrightarrow> 0 < cp_LSN (maxAcknowledged t) \<and> lsn \<le> cp_LSN (maxAcknowledged t)"

definition advance_callback :: "'t tracker \<Rightarrow> nat \<Rightarrow> bool \<times> 't tracker" where
  "advance_callback t a =
     (if \<not> tw_isAcknowledged (tw_at t a) then (False, t)
      else (True, (release_at a t)\<lparr>maxAcknowledged := point (tw_at t a)\<rparr>))"

definition advanceMaxAcknowledged :: "'t tracker \<Rightarrow> 't tracker" where
  "advanceMaxAcknowledged t =
     (let (t1, q) = PopUntil (\<lambda>t a. tw_size (tw_at t a)) (Some advance_callback) t (trackingQueue t)
      in t1\<lparr>trackingQueue := q\<rparr>)"

text \<open>The tracker's \<open>ack\<close>: the tracked write is found by LSN alone.\<close>

definition ack :: "CommitPoint \<Rightarrow> u32 list \<Rightarrow> 't tracker \<Rightarrow> 't tracker" where
  "ack cp subOffsets t =
     (case findTrackedWrite t (cp_LSN cp) of None \<Rightarrow> t
      | Some a \<Rightarrow>
         let (fullAck, tw) = tw_ack (tw_at t a) subOffsets;
             t1 = put_tw a tw t
         in if fullAck then release_at a t1 else t1)"

definition pushTrackedWrite :: "nat \<Rightarrow> 't tracker \<Rightarrow> u64 \<times> 't tracker" where
  "pushTrackedWrite a t =
     (let (c, q) = PushBefore (\<lambda>b. tw_size (tw_at t b)) a (Some (\<lambda>b. lsn_at t a < lsn_at t b)) (trackingQueue t)
      in (c, t\<lparr>trackingQueue := q\<rparr>))"

definition enqueueReadyWrite :: "nat \<Rightarrow> 't WriteRequest \<Rightarrow> 't tracker \<Rightarrow> u64 \<times> 't tracker" where
  "enqueueReadyWrite a w t =
     (let (ok, tw) = queueWrite (tw_at t a) w in
      if \<not> ok then (wq_Count (readyQueue t), t)
      else let t1 = (put_tw a tw t)\<lparr>writeQueueLen := writeQueueLen t + 1\<rparr>;
               (c, q) = Push (\<lambda>e. wr_Size (rd_write e)) \<lparr>rd_tracked = a, rd_write = w\<rparr> (readyQueue t1)
           in (c, t1\<lparr>readyQueue := q\<rparr>))"

text \<open>A new tracked write is allocated in the store.\<close>

definition alloc_tw :: "'t trackedWriteRequest \<Rightarrow> 't tracker \<Rightarrow> nat \<times> 't tracker" where
  "alloc_tw tw t = (nextAddr t, (put_tw (nextAddr t) tw t)\<lparr>nextAddr := Suc (nextAddr t)\<rparr>)"

definition Add :: "'t WriteRequest \<Rightarrow> 't tracker \<Rightarrow> u64 \<times> 't tracker" where
  "Add w t =
     (if stopCtx t then (0, t)
      else if isAcknowledged t (wr_LSN w) then (wq_Count (readyQueue t), t)
      else (case findTrackedWrite t (wr_LSN w) of
          Some a \<Rightarrow>
            if tw_isAcknowledged (tw_at t a) then (wq_Count (readyQueue t), t)
            else if \<not> hasFailures (tw_at t a) then (wq_Count (readyQueue t), t)
            else let t1 = (case fullWrite (tw_at t a) of None \<Rightarrow> t | Some fw \<Rightarrow> snd (enqueueReadyWrite a fw t))
                 in (wq_Count (readyQueue t1), t1)
        | None \<Rightarrow>
            let (a, t1) = alloc_tw (newTrackedWriteRequest w) t;
                t2 = snd (pushTrackedWrite a t1);
                t3 = snd (enqueueReadyWrite a w t2)
            in (wq_Count (readyQueue t3), t3)))"

definition AddEmpty :: "LSN \<Rightarrow> u32 \<Rightarrow> 't tracker \<Rightarrow> 't tracker" where
  "AddEmpty lsn xid t =
     (if stopCtx t then t
      else if isAcknowledged t lsn then t
      else (case findTrackedWrite t lsn of
          Some a \<Rightarrow>
            let (full, tw) = tw_ack (tw_at t a) [0]; t1 = put_tw a tw t
            in if full then release_at a t1 else t1
        | None \<Rightarrow>
            let tw0 = newTrackedWriteRequest \<lparr>wr_Entries = [], wr_LSN = lsn, wr_XID = xid, wr_CommitTime = 0, wr_isSnapshot = False\<rparr>;
                tw1 = snd (tw_ack (clearQueued tw0) [0]);
                (a, t1) = alloc_tw tw1 t
            in snd (pushTrackedWrite a (release_at a t1))))"

text \<open>
  The acknowledgements of a response, grouped by commit point. Go visits a map in an unspecified
  order; \<open>ack_commute\<close> shows that the order does not matter, so the groups are kept in the
  order of their first entry.
\<close>

type_synonym ackMap = "(CommitPoint \<times> u32 list) list"

definition addToAckMap :: "CommitPoint \<Rightarrow> u32 \<Rightarrow> ackMap \<Rightarrow> ackMap" where
  "addToAckMap cp offset m =
     AList.update cp ((case map_of m cp of None \<Rightarrow> [] | Some offs \<Rightarrow> offs) @ [offset]) m"

definition ack_all :: "ackMap \<Rightarrow> 't tracker \<Rightarrow> 't tracker" where
  "ack_all m t = fold (\<lambda>(cp, offs). ack cp offs) m t"

definition entry_cp :: "ResponseEntry \<Rightarrow> CommitPoint" where
  "entry_cp e = \<lparr>cp_LSN = re_LSN e, cp_XID = re_XID e\<rparr>"

definition OnSuccess :: "ResponseEntry list \<Rightarrow> 't tracker \<Rightarrow> CommitPoint \<times> 't tracker" where
  "OnSuccess entries t =
     (let acks = fold (\<lambda>e m. addToAckMap (entry_cp e) (re_Offset e) m) entries [];
          t1 = ack_all acks t;
          t2 = advanceMaxAcknowledged t1
      in (maxAcknowledged t2, t2))"

definition MaxAcknowledged :: "'t tracker \<Rightarrow> CommitPoint \<times> 't tracker" where
  "MaxAcknowledged t = (let t1 = advanceMaxAcknowledged t in (maxAcknowledged t1, t1))"

subsection \<open>Errors and retries\<close>

definition errWriteIsMissing :: go_error where
  "errWriteIsMissing = Fatal ''internal error: write is missing. this may indicate a bug in the product. please contact support''"

definition buildRetryEntry ::
  "int \<Rightarrow> int \<Rightarrow> 't tracker \<Rightarrow> nat \<Rightarrow> ErrorResponseEntry \<Rightarrow> 't retryEntry option" where
  "buildRetryEntry now backoff t a entry =
     (case retryWrite (tw_at t a) (re_Offset (ee_Entry entry)) of
        None \<Rightarrow> None
      | Some w \<Rightarrow> Some \<lparr>rt_tracked = a, rt_write = w, waitUntil = now + backoff\<rparr>)"

text \<open>
  The loop of \<open>processErrorResponse\<close>. An error stops it with the failure counters it has
  already written kept; the fatal exit ends the process. \<open>backoff\<close> gives the pause drawn for
  a number of failures.
\<close>

fun process_entries ::
  "int \<Rightarrow> (nat \<Rightarrow> int) \<Rightarrow> ErrorResponseEntry list \<Rightarrow> ackMap \<Rightarrow> 't retryEntry list \<Rightarrow> 't tracker \<Rightarrow>
   (ackMap \<times> 't retryEntry list) go_result \<times> 't tracker" where
  "process_entries now backoff [] m rs t = (Inr (m, rs), t)"
| "process_entries now backoff (entry # entries) m rs t =
     (case findTrackedWrite t (re_LSN (ee_Entry entry)) of
        None \<Rightarrow>
          if \<not> isAcknowledged t (re_LSN (ee_Entry entry)) then (Inl errWriteIsMissing, t)
          else process_entries now backoff entries m rs t
      | Some a \<Rightarrow>
          if tw_isAcknowledged (tw_at t a) then process_entries now backoff entries m rs t
          else
            let (fe, tw) = getFailedEntry now (tw_at t a) (re_Offset (ee_Entry entry)) (ee_Reason entry);
                t1 = put_tw a tw t;
                cfg = retryConfig t
            in if 0 < MaxConnectionRetries cfg \<and> MaxConnectionRetries cfg \<le> int (downStreamDownRetries fe) \<and>
                  IsDownStreamDown (ee_Reason entry)
               then (Inl (Error (''downstream is down: '' @ err_Error (ee_Reason entry))), t1)
               else if MaxRetries cfg \<le> int (retries fe) \<or> \<not> IsRetryable (ee_Reason entry)
               then process_entries now backoff entries
                      (addToAckMap (entry_cp (ee_Entry entry)) (re_Offset (ee_Entry entry)) m) rs t1
               else if 0 < MaxBackoff cfg
               then process_entries now backoff entries m
                      (rs @ opt_list (buildRetryEntry now (backoff (retries fe)) t1 a entry)) t1
               else process_entries now backoff entries m rs t1)"

definition processErrorResponse ::
  "int \<Rightarrow> (nat \<Rightarrow> int) \<Rightarrow> ErrorResponseEntry list \<Rightarrow> 't tracker \<Rightarrow>
   (ackMap \<times> 't retryEntry list) go_result \<times> 't tracker" where
  "processErrorResponse now backoff entries t =
     (if stopCtx t then (Inr ([], []), t) else process_entries now backoff entries [] [] t)"

text \<open>Go's \<open>%\<close> truncates; both operands are positive where it is used here.\<close>

definition roundRetryDelay :: "int \<Rightarrow> int \<Rightarrow> int" where
  "roundRetryDelay delay interval =
     (let iv = (if interval \<le> 0 then 1000000 else interval) in
      if delay \<le> 0 then iv
      else let rm = delay mod iv in if 0 < rm then delay + (iv - rm) else delay)"

text \<open>\<open>wheelOk\<close> is whether \<open>retryWheel.SetTimer\<close> accepted the timer.\<close>

definition scheduleRetry :: "int \<Rightarrow> bool \<Rightarrow> 't retryEntry \<Rightarrow> 't tracker \<Rightarrow> 't tracker" where
  "scheduleRetry now wheelOk entry t =
     (if stopCtx t then t
      else let delay = roundRetryDelay (waitUntil entry - now) (retryInterval t);
               key = retrySeq t + 1;
               t1 = t\<lparr>retrySeq := key\<rparr>
           in if \<not> wheelOk then t1
              else t1\<lparr>wheel := wheel t1 @ [(key, entry, delay)], retryQueueLen := retryQueueLen t1 + 1\<rparr>)"

definition onRetryTimer :: "'t retryEntry \<Rightarrow> 't tracker \<Rightarrow> 't tracker" where
  "onRetryTimer entry t =
     (let t1 = t\<lparr>retryQueueLen := retryQueueLen t - 1\<rparr> in
      if stopCtx t1 then t1 else snd (enqueueReadyWrite (rt_tracked entry) (rt_write entry) t1))"

definition OnError ::
  "int \<Rightarrow> (nat \<Rightarrow> int) \<Rightarrow> bool \<Rightarrow> ErrorResponseEntry list \<Rightarrow> 't tracker \<Rightarrow> 't tracker go_result" where
  "OnError now backoff wheelOk entries t =
     (if entries = [] then Inr t
      else (case processErrorResponse now backoff entries t of
          (Inl (Error e), t1) \<Rightarrow> Inr (t1\<lparr>shutdownCh := shutdownCh t1 @ [e]\<rparr>)
        | (Inl e, t1) \<Rightarrow> Inl e
        | (Inr (acks, rs), t1) \<Rightarrow> Inr (fold (scheduleRetry now wheelOk) rs (ack_all acks t1))))"

subsection \<open>Stopping and the write pipeline\<close>

definition Stop :: "'t tracker \<Rightarrow> 't tracker" where
  "Stop t = t\<lparr>stopCtx := True, trackingQueue := wq_Stop (trackingQueue t), readyQueue := wq_Stop (readyQueue t)\<rparr>"

definition WriteQueueSize :: "'t tracker \<Rightarrow> u64" where
  "WriteQueueSize t = wq_Count (trackingQueue t)"

text \<open>
  \<open>readyWriteQueue.Pop\<close>: ready entries whose tracked write has nothing queued any more are
  skipped. Each round takes one entry off the ready queue, so its length bounds the rounds.
\<close>

fun ready_pop :: "nat \<Rightarrow> 't tracker \<Rightarrow> 't WriteRequest waited \<times> 't tracker" where
  "ready_pop 0 t = (Blocked, t)"
| "ready_pop (Suc fuel) t =
     (case Pop (\<lambda>e. wr_Size (rd_write e)) (readyQueue t) of
        (Halted, q) \<Rightarrow> (Halted, t\<lparr>readyQueue := q\<rparr>)
      | (Blocked, q) \<Rightarrow> (Blocked, t\<lparr>readyQueue := q\<rparr>)
      | (Got e, q) \<Rightarrow>
          let t1 = t\<lparr>readyQueue := q\<rparr>;
              (w, tw) = popQueuedWrite (tw_at t1 (rd_tracked e))
          in (case w of None \<Rightarrow> ready_pop fuel (put_tw (rd_tracked e) tw t1)
              | Some wr \<Rightarrow> (Got wr, put_tw (rd_tracked e) tw t1)))"

definition readyQueue_Pop :: "'t tracker \<Rightarrow> 't WriteRequest waited \<times> 't tracker" where
  "readyQueue_Pop t = ready_pop (Suc (length (wq_list (readyQueue t)))) t"

text \<open>One round of \<open>startWritePipeline\<close> up to the call of the writer.\<close>

definition pipeline_pop :: "'t tracker \<Rightarrow> 't WriteRequest waited \<times> 't tracker" where
  "pipeline_pop t =
     (case readyQueue_Pop t of
        (Got w, t1) \<Rightarrow> (Got w, t1\<lparr>writeQueueLen := writeQueueLen t1 - 1\<rparr>)
      | r \<Rightarrow> r)"


text \<open>A configuration for concrete runs.\<close>

definition sample_cfg :: RetryConfig where
  "sample_cfg = \<lparr>MaxRetries = 3, MaxConnectionRetries = 5, InitialBackoff = 1000000, MaxBackoff = 8000000\<rparr>"

end
