(* ===== verification/Appconfig.thy ===== *)
theory Appconfig
  imports Gostrings Lsntracker
begin

text \<open>
  The packages \<open>config\<close>, \<open>config/appconfig\<close> and \<open>config/pgconfig\<close>: connection options, retry
  policy, flush options, snapshot configuration. Loading the YAML file and the environment is the
  work of third-party code.
\<close>

text \<open>
  Validation code collects messages with \<open>errors.Join\<close>: a list of them, empty for nil.
  \<open>strconv.ParseFloat\<close> followed by the truncating conversion to an integer (\<open>parse_num\<close>) and
  \<open>time.ParseDuration\<close> (\<open>parse_dur\<close>, in nanoseconds) are arguments.
\<close>

section \<open>Connections: config/conn.go\<close>

record TLSOptions =
  tls_Cert :: string
  tls_Key :: string
  tls_RootCert :: string

definition tls_IsEmpty :: "TLSOptions \<Rightarrow> bool" where
  "tls_IsEmpty t \<longleftrightarrow> tls_Cert t = [] \<and> tls_Key t = [] \<and> tls_RootCert t = []"

definition tls_Validate :: "TLSOptions \<Rightarrow> string list" where
  "tls_Validate t =
     (if tls_IsEmpty t then []
      else (if tls_Cert t = [] then [''TLS cert is required''] else []) @
           (if tls_Key t = [] then [''TLS key is required''] else []) @
           (if tls_RootCert t = [] then [''TLS root cert is required''] else []))"

record ConnectionOpts =
  co_Host :: string
  co_Port :: string
  co_Database :: string
  co_User :: string
  co_Password :: string
  co_TLS :: TLSOptions

text \<open>\<open>ConnectionOptsMany\<close>: the joined options and the cache of the separate ones.\<close>

record ConnectionOptsMany =
  com_joined :: ConnectionOpts
  com_opts :: "ConnectionOpts list option"

definition AsOpt :: "ConnectionOptsMany \<Rightarrow> ConnectionOpts" where
  "AsOpt com = com_joined com"

definition JoinOpts :: "ConnectionOpts list \<Rightarrow> ConnectionOptsMany option go_result" where
  "JoinOpts opts =
     (case opts of
        [] \<Rightarrow> Inr None
      | [opt] \<Rightarrow> Inr (Some \<lparr>com_joined = opt, com_opts = None\<rparr>)
      | first # _ \<Rightarrow>
          if list_ex (\<lambda>opt. co_Database opt \<noteq> co_Database first \<or> co_User opt \<noteq> co_User first \<or>
                            co_Password opt \<noteq> co_Password first) opts
          then Inl (Error ''database, user and password must be the same'')
          else Inr (Some \<lparr>com_joined = first\<lparr>co_Host := join_with (CHR '','') (map co_Host opts),
                                              co_Port := join_with (CHR '','') (map co_Port opts)\<rparr>,
                          com_opts = Some opts\<rparr>))"

definition nonblank :: "string \<Rightarrow> bool" where
  "nonblank s \<longleftrightarrow> TrimSpace s \<noteq> []"

definition trimmed_parts :: "string \<Rightarrow> string list" where
  "trimmed_parts s = map TrimSpace (filter nonblank (split_on (CHR '','') s))"

fun zip_ports :: "ConnectionOpts \<Rightarrow> string list \<Rightarrow> nat \<Rightarrow> string list \<Rightarrow> ConnectionOpts list go_result" where
  "zip_ports com ports i [] = Inr []"
| "zip_ports com ports i (host # hosts) =
     bind_result (slice_get ports (if 1 < length ports then i else 0)) (\<lambda>port.
       bind_result (zip_ports com ports (Suc i) hosts) (\<lambda>opts.
         Inr (com\<lparr>co_Host := host, co_Port := port\<rparr> # opts)))"

definition parseOpts :: "ConnectionOpts \<Rightarrow> ConnectionOpts list go_result" where
  "parseOpts com =
     (if co_Host com = [] then Inl (Error ''no hosts provided'')
      else if co_Port com = [] then Inl (Error ''no ports provided'')
      else let hosts = trimmed_parts (co_Host com); ports = trimmed_parts (co_Port com) in
        if length hosts \<noteq> length ports \<and> 1 < length ports
        then Inl (Error ''number of ports should match number of hosts or should be exactly one'')
        else zip_ports com ports 0 hosts)"

definition AllOpts :: "ConnectionOptsMany \<Rightarrow> ConnectionOpts list go_result \<times> ConnectionOptsMany" where
  "AllOpts com =
     (case com_opts com of
        Some opts \<Rightarrow> (Inr opts, com)
      | None \<Rightarrow> (case parseOpts (com_joined com) of
                   Inl e \<Rightarrow> (Inl e, com)
                 | Inr opts \<Rightarrow> (Inr opts, com\<lparr>com_opts := Some opts\<rparr>)))"

text \<open>\<open>validateOpts\<close> of \<open>config/pgconfig\<close>: an empty database name replaces the errors so far.\<close>

definition validate_opt :: "string list \<Rightarrow> ConnectionOpts \<Rightarrow> string list" where
  "validate_opt err opt =
     (let err = (if co_Database opt = [] then [''PG DB is empty''] else err);
          err = (if co_Password opt = [] \<and> tls_IsEmpty (co_TLS opt) then err @ [''PG PWD is empty''] else err)
      in err @ tls_Validate (co_TLS opt))"

definition validateOpts :: "ConnectionOpts list \<Rightarrow> string list" where
  "validateOpts opts = foldl validate_opt [] opts"

definition PgConfig_Validate :: "ConnectionOptsMany option \<Rightarrow> string list go_result" where
  "PgConfig_Validate conn =
     (case conn of
        None \<Rightarrow> Inr [''connection configuration is empty'']
      | Some com \<Rightarrow> (case fst (AllOpts com) of
            Inl (Error e) \<Rightarrow> Inr [e]
          | Inl e \<Rightarrow> Inl e
          | Inr opts \<Rightarrow> Inr (validateOpts opts)))"

section \<open>Application settings\<close>

record TxCommitTimeOptions =
  tx_Save :: bool
  tx_Name :: string

definition NewTxCommitTimeOptions :: "string \<Rightarrow> TxCommitTimeOptions" where
  "NewTxCommitTimeOptions commitTimePropName =
     (let txCommitCol = TrimSpace commitTimePropName in \<lparr>tx_Save = (txCommitCol \<noteq> []), tx_Name = txCommitCol\<rparr>)"

definition durationOr :: "(string \<Rightarrow> int option) \<Rightarrow> (string \<Rightarrow> int option) \<Rightarrow> int \<Rightarrow> string \<Rightarrow> int option" where
  "durationOr parse_num parse_dur base str =
     (case parse_num str of Some val \<Rightarrow> Some (val * base) | None \<Rightarrow> parse_dur str)"

record FlushOptions =
  fo_Interval :: int
  fo_BufferSize :: u32
  fo_QueueDepth :: u32
  fo_Workers :: u32
  fo_Timeout :: int

definition ideal_workers :: "int \<Rightarrow> u32" where
  "ideal_workers maxProc = (if maxProc < 1 then 1 else if 32 < maxProc then 32 else word_of_int maxProc)"

definition NewFlushOptions ::
  "(string \<Rightarrow> int option) \<Rightarrow> (string \<Rightarrow> int option) \<Rightarrow> int \<Rightarrow> string \<Rightarrow> u32 \<Rightarrow> u32 \<Rightarrow> u32 \<Rightarrow> string \<Rightarrow> FlushOptions go_result" where
  "NewFlushOptions parse_num parse_dur maxProc interval bufferSize queueDepth workers timeout =
     (let depth = (if queueDepth = 0 \<or> 32 < queueDepth then 32 else queueDepth) in
      case (if interval \<noteq> [] then durationOr parse_num parse_dur 1000000 interval else Some 500000000) of
        None \<Rightarrow> Inl (Error ''invalid flushInterval'')
      | Some flushInterval \<Rightarrow>
        let ws = (if workers = 0 then ideal_workers maxProc else workers) in
        (case (if timeout \<noteq> [] then durationOr parse_num parse_dur 1000000000 timeout else Some 10000000000) of
           None \<Rightarrow> Inl (Error ''invalid writeTimeout'')
         | Some timeoutDuration \<Rightarrow>
             Inr \<lparr>fo_Interval = flushInterval, fo_BufferSize = bufferSize, fo_QueueDepth = depth,
                  fo_Workers = ws, fo_Timeout = timeoutDuration\<rparr>))"

definition WellFormTableName :: "string \<Rightarrow> string" where
  "WellFormTableName key = (if CHR ''.'' \<in> set key then key else ''public.'' @ key)"

section \<open>Retry policy\<close>

text \<open>The multiplier and the jitter are finite floats: elements of an ordered field.\<close>

record 'f RetryPolicy =
  rp_MaxRetries :: int
  rp_MaxConnectionRetries :: int
  rp_InitialBackoff :: string
  rp_Multiplier :: 'f
  rp_Jitter :: 'f
  rp_MaxBackoff :: string

definition rp_IsEmpty :: "'f::linordered_field RetryPolicy \<Rightarrow> bool" where
  "rp_IsEmpty rp \<longleftrightarrow> rp_MaxRetries rp = 0 \<and> rp_MaxConnectionRetries rp = 0 \<and> rp_InitialBackoff rp = [] \<and>
     rp_Multiplier rp = 0 \<and> rp_Jitter rp = 0 \<and> rp_MaxBackoff rp = []"

definition noRetryConfig :: RetryConfig where
  "noRetryConfig = \<lparr>MaxRetries = 1, MaxConnectionRetries = 0, InitialBackoff = 0, MaxBackoff = 0\<rparr>"

definition not_positive :: "int option \<Rightarrow> bool" where
  "not_positive d \<longleftrightarrow> (case d of None \<Rightarrow> True | Some n \<Rightarrow> n \<le> 0)"

definition AsRetryConfig ::
  "(string \<Rightarrow> int option) \<Rightarrow> (string \<Rightarrow> int option) \<Rightarrow> 'f::linordered_field RetryPolicy \<Rightarrow> string list + RetryConfig" where
  "AsRetryConfig parse_num parse_dur rp =
     (if rp_IsEmpty rp then Inr noRetryConfig
      else if rp_MaxRetries rp = 1 \<and> rp_InitialBackoff rp = [] \<and> rp_Multiplier rp = 0 \<and> rp_Jitter rp = 0 \<and> rp_MaxBackoff rp = []
      then Inr noRetryConfig
      else
        let initBackoff = durationOr parse_num parse_dur 1000000000 (rp_InitialBackoff rp);
            maxBackoff = durationOr parse_num parse_dur 1000000000 (rp_MaxBackoff rp);
            resErr = (if rp_MaxRetries rp \<le> 0 then [''retryPolicy.maxRetries should be >= 1''] else []) @
                     (if not_positive initBackoff then [''retryPolicy.initialBackoff should be > 0''] else []) @
                     (if not_positive maxBackoff then [''maxBackoff should be > 0''] else []) @
                     (if rp_Multiplier rp < 1 then [''retryPolicy.multiplier should be >= 1''] else []) @
                     (if rp_Jitter rp < 0 \<or> 1 < rp_Jitter rp then [''retryPolicy.jitter should be within [0.0, 1.0] range''] else [])
        in if resErr \<noteq> [] then Inl resErr
           else Inr \<lparr>MaxRetries = rp_MaxRetries rp, MaxConnectionRetries = rp_MaxConnectionRetries rp,
                     InitialBackoff = the initBackoff, MaxBackoff = the maxBackoff\<rparr>)"

section \<open>Snapshot configuration\<close>

datatype SnapshotMode = ModeUnset | ModeOneTime | ModeOneTimeOnly | ModeAuto | ModeNever | ModeOther string

datatype SnapshotTableType = SnapshotTableFull | SnapshotTableQuery | SnapshotTableOther string

record SnapshotTableConfig =
  st_Name :: string
  st_Type :: SnapshotTableType
  st_Query :: string

record SnapshotConfig =
  sn_Mode :: SnapshotMode
  sn_Config :: "SnapshotTableConfig option list"
  sn_BatchSize :: int
  sn_ParallelWorkers :: int
  sn_AbortOnError :: bool
  sn_QueryTimeout :: string
  sn_MaxWriteQueueSize :: u64

definition check_table :: "string set \<Rightarrow> SnapshotTableConfig option \<Rightarrow> SnapshotTableConfig go_result" where
  "check_table seenTables cfg =
     (case cfg of
        None \<Rightarrow> Inl (Error ''snapshot config is empty'')
      | Some tableCfg \<Rightarrow>
         let tableName = TrimSpace (st_Name tableCfg) in
         if tableName = [] then Inl (Error ''snapshot table name must not be empty'')
         else if tableName \<in> seenTables then Inl (Error ''snapshot table is configured more than once'')
         else (case st_Type tableCfg of
             SnapshotTableFull \<Rightarrow> Inr (tableCfg\<lparr>st_Name := tableName\<rparr>)
           | SnapshotTableQuery \<Rightarrow>
               if TrimSpace (st_Query tableCfg) = [] then Inl (Error ''snapshot query must not be empty'')
               else Inr (tableCfg\<lparr>st_Name := tableName\<rparr>)
           | SnapshotTableOther _ \<Rightarrow> Inl (Error ''unsupported snapshot type'')))"

fun check_tables :: "string set \<Rightarrow> SnapshotTableConfig option list \<Rightarrow> SnapshotTableConfig list go_result" where
  "check_tables seenTables [] = Inr []"
| "check_tables seenTables (cfg # cfgs) =
     bind_result (check_table seenTables cfg) (\<lambda>t.
       bind_result (check_tables (insert (st_Name t) seenTables) cfgs) (\<lambda>ts. Inr (t # ts)))"

text \<open>
  \<open>Validate\<close> fills in the defaults and trims the names in place: the result is the configuration
  it leaves behind when it accepts.
\<close>

definition SnapshotConfig_Validate :: "(string \<Rightarrow> int option) \<Rightarrow> SnapshotConfig \<Rightarrow> SnapshotConfig go_result" where
  "SnapshotConfig_Validate parse_dur c =
     (let c = c\<lparr>sn_Mode := (if sn_Mode c = ModeUnset then ModeOneTime else sn_Mode c),
                sn_BatchSize := (if sn_BatchSize c \<le> 0 then 1000 else sn_BatchSize c),
                sn_ParallelWorkers := (if sn_ParallelWorkers c \<le> 0 then 1 else sn_ParallelWorkers c)\<rparr>
      in if sn_Mode c \<noteq> ModeNever \<and> sn_Config c = []
         then Inl (Error ''snapshot config must define at least one table'')
         else if sn_QueryTimeout c \<noteq> [] \<and> parse_dur (sn_QueryTimeout c) = None
         then Inl (Error ''invalid snapshot query timeout'')
         else bind_result (check_tables {} (sn_Config c)) (\<lambda>ts. Inr (c\<lparr>sn_Config := map Some ts\<rparr>)))"

section \<open>Properties\<close>

text \<open>A host or port that survives joining and splitting: not blank, trimmed, without a comma.\<close>

definition plain_part :: "string \<Rightarrow> bool" where
  "plain_part s \<longleftrightarrow> s \<noteq> [] \<and> (\<forall>c \<in> set s. \<not> is_space c \<and> c \<noteq> CHR '','')"

lemma plain_part_trim [simp]: "plain_part s \<Longrightarrow> TrimSpace s = s" "plain_part s \<Longrightarrow> nonblank s"
  by (auto simp: plain_part_def nonblank_def TrimSpace_no_space)

lemma trimmed_parts_join:
  assumes "ss \<noteq> []" "\<forall>s \<in> set ss. plain_part s"
  shows "trimmed_parts (join_with (CHR '','') ss) = ss"
proof -
  have "split_on (CHR '','') (join_with (CHR '','') ss) = ss"
    using assms by (intro split_on_join_with) (auto simp: plain_part_def)
  moreover have "filter nonblank ss = ss" "map TrimSpace ss = ss" using assms by (auto simp: map_idI)
  ultimately show ?thesis by (simp add: trimmed_parts_def)
qed

lemma join_with_nonempty: "s \<noteq> [] \<Longrightarrow> join_with c (s # ss) \<noteq> []"
  by (cases ss) auto

lemma zip_ports_exact:
  "i + length hosts = length ports \<Longrightarrow> 1 < length ports \<Longrightarrow>
   zip_ports com ports i hosts =
     Inr (map2 (\<lambda>h p. com\<lparr>co_Host := h, co_Port := p\<rparr>) hosts (drop i ports))"
proof (induction hosts arbitrary: i)
  case (Cons h hosts)
  then have "drop i ports = ports ! i # drop (Suc i) ports" by (simp add: Cons_nth_drop_Suc)
  with Cons show ?case by simp
qed simp

text \<open>
  Joining and parsing connection options: several options of one database, user, password and
  TLS setting, with plain host and port names, are joined by \<open>JoinOpts\<close> into comma-separated
  lists, and parsing those lists gives back the same options in the same order.
\<close>

theorem parseOpts_JoinOpts:
  assumes "1 < length opts"
    and "\<forall>opt \<in> set opts. plain_part (co_Host opt) \<and> plain_part (co_Port opt)"
    and "\<forall>opt \<in> set opts. co_Database opt = db \<and> co_User opt = user \<and> co_Password opt = pw \<and> co_TLS opt = tls"
  shows "\<exists>com. JoinOpts opts = Inr (Some com) \<and> parseOpts (com_joined com) = Inr opts \<and> fst (AllOpts com) = Inr opts"
proof -
  obtain first second rest where opts: "opts = first # second # rest"
    using assms(1) by (cases opts; cases "tl opts") auto
  define com where "com = \<lparr>com_joined = first\<lparr>co_Host := join_with (CHR '','') (map co_Host opts),
    co_Port := join_with (CHR '','') (map co_Port opts)\<rparr>, com_opts = Some opts\<rparr>"
  have join: "JoinOpts opts = Inr (Some com)"
    using assms(3) by (auto simp: JoinOpts_def com_def opts list_ex_iff)
  have parts: "trimmed_parts (co_Host (com_joined com)) = map co_Host opts" "trimmed_parts (co_Port (com_joined com)) = map co_Port opts"
    using assms(2) by (auto simp: com_def opts intro!: trimmed_parts_join simp del: join_with.simps)
  have ne: "co_Host (com_joined com) \<noteq> []" "co_Port (com_joined com) \<noteq> []"
    using assms(2) by (auto simp: com_def opts plain_part_def)
  have same: "(com_joined com)\<lparr>co_Host := co_Host opt, co_Port := co_Port opt\<rparr> = opt" if "opt \<in> set opts" for opt
    using assms(3) that by (auto simp: com_def opts)
  have "zip_ports (com_joined com) (map co_Port opts) 0 (map co_Host opts) =
      Inr (map2 (\<lambda>h p. (com_joined com)\<lparr>co_Host := h, co_Port := p\<rparr>) (map co_Host opts) (map co_Port opts))"
    using assms(1) by (subst zip_ports_exact) auto
  also have "map2 (\<lambda>h p. (com_joined com)\<lparr>co_Host := h, co_Port := p\<rparr>) (map co_Host opts) (map co_Port opts) = opts"
    using same by (simp add: zip_map_map zip_same_conv_map map_idI)
  finally have "parseOpts (com_joined com) = Inr opts" using ne by (simp add: parseOpts_def parts)
  with join show ?thesis by (simp add: AllOpts_def com_def)
qed

theorem parseOpts_JoinOpts_witness:
  "\<exists>com. JoinOpts [\<lparr>co_Host = ''a'', co_Port = ''1'', co_Database = ''d'', co_User = ''u'', co_Password = ''p'', co_TLS = \<lparr>tls_Cert = [], tls_Key = [], tls_RootCert = []\<rparr>\<rparr>,
     \<lparr>co_Host = ''b'', co_Port = ''2'', co_Database = ''d'', co_User = ''u'', co_Password = ''p'', co_TLS = \<lparr>tls_Cert = [], tls_Key = [], tls_RootCert = []\<rparr>\<rparr>] = Inr (Some com)"
proof -
  define opts where "opts = [\<lparr>co_Host = ''a'', co_Port = ''1'', co_Database = ''d'', co_User = ''u'', co_Password = ''p'', co_TLS = \<lparr>tls_Cert = [], tls_Key = [], tls_RootCert = []\<rparr>\<rparr>,
     \<lparr>co_Host = ''b'', co_Port = ''2'', co_Database = ''d'', co_User = ''u'', co_Password = ''p'', co_TLS = \<lparr>tls_Cert = [], tls_Key = [], tls_RootCert = []\<rparr>\<rparr>]"
  have "\<exists>com. JoinOpts opts = Inr (Some com) \<and> parseOpts (com_joined com) = Inr opts \<and> fst (AllOpts com) = Inr opts"
    by (rule parseOpts_JoinOpts) (auto simp: opts_def plain_part_def is_space_def)
  then show ?thesis by (auto simp: opts_def)
qed

lemma check_table_ok:
  "check_table seen cfg = Inr t \<Longrightarrow>
     \<exists>c. cfg = Some c \<and> t = c\<lparr>st_Name := TrimSpace (st_Name c)\<rparr> \<and> st_Name t \<noteq> [] \<and> st_Name t \<notin> seen \<and>
        (st_Type t = SnapshotTableFull \<or> st_Type t = SnapshotTableQuery \<and> TrimSpace (st_Query t) \<noteq> [])"
  by (auto simp: check_table_def Let_def split: option.splits if_splits SnapshotTableType.splits)

lemma check_table_again:
  "check_table seen cfg = Inr t \<Longrightarrow> check_table seen (Some t) = Inr t"
  by (auto simp: check_table_def Let_def split: option.splits if_splits SnapshotTableType.splits)

definition snapshot_table_ok :: "SnapshotTableConfig \<Rightarrow> bool" where
  "snapshot_table_ok t \<longleftrightarrow> st_Name t \<noteq> [] \<and> TrimSpace (st_Name t) = st_Name t \<and>
     (st_Type t = SnapshotTableFull \<or> st_Type t = SnapshotTableQuery \<and> TrimSpace (st_Query t) \<noteq> [])"

lemma check_tables_ok:
  "check_tables seen cfgs = Inr ts \<Longrightarrow>
     distinct (map st_Name ts) \<and> st_Name ` set ts \<inter> seen = {} \<and> (\<forall>t \<in> set ts. snapshot_table_ok t) \<and>
     check_tables seen (map Some ts) = Inr ts \<and> length ts = length cfgs"
proof (induction cfgs arbitrary: seen ts)
  case (Cons cfg cfgs)
  then obtain t ts' where t: "check_table seen cfg = Inr t"
    and ts': "check_tables (insert (st_Name t) seen) cfgs = Inr ts'" "ts = t # ts'" by auto
  with Cons.IH [OF ts'(1)] check_table_ok [OF t] check_table_again [OF t]
  show ?case by (auto simp: snapshot_table_ok_def)
qed simp

text \<open>
  (C25) The snapshot configuration that \<open>Validate\<close> accepts: the batch size and the number of workers
  are positive, the mode is set, the tables have distinct non-empty trimmed names and a supported
  type, a table of type query has a query, and validating again changes nothing.
\<close>

theorem SnapshotConfig_Validate_ok:
  assumes "SnapshotConfig_Validate parse_dur c = Inr c'"
  shows "0 < sn_BatchSize c' \<and> 0 < sn_ParallelWorkers c' \<and> sn_Mode c' \<noteq> ModeUnset \<and>
     (\<exists>ts. sn_Config c' = map Some ts \<and> length ts = length (sn_Config c) \<and>
        distinct (map st_Name ts) \<and> (\<forall>t \<in> set ts. snapshot_table_ok t) \<and>
        (ts = [] \<longrightarrow> sn_Mode c' = ModeNever)) \<and>
     SnapshotConfig_Validate parse_dur c' = Inr c'"
proof -
  obtain ts where ts: "check_tables {} (sn_Config c) = Inr ts"
    and c': "c' = c\<lparr>sn_Mode := (if sn_Mode c = ModeUnset then ModeOneTime else sn_Mode c),
                sn_BatchSize := (if sn_BatchSize c \<le> 0 then 1000 else sn_BatchSize c),
                sn_ParallelWorkers := (if sn_ParallelWorkers c \<le> 0 then 1 else sn_ParallelWorkers c),
                sn_Config := map Some ts\<rparr>"
    and ok: "sn_Mode c' \<noteq> ModeNever \<longrightarrow> sn_Config c \<noteq> []" "sn_QueryTimeout c \<noteq> [] \<longrightarrow> parse_dur (sn_QueryTimeout c) \<noteq> None"
    using assms by (auto simp: SnapshotConfig_Validate_def Let_def split: if_splits)
  note tables = check_tables_ok [OF ts]
  have "SnapshotConfig_Validate parse_dur c' = Inr c'"
    using ok tables by (cases c) (auto simp: SnapshotConfig_Validate_def Let_def c')
  moreover have "ts = [] \<longrightarrow> sn_Mode c' = ModeNever" using ok(1) tables by auto
  ultimately show ?thesis using tables by (auto simp: c')
qed

theorem SnapshotConfig_Validate_ok_witness:
  "\<exists>c'. SnapshotConfig_Validate (\<lambda>s. None)
     \<lparr>sn_Mode = ModeUnset, sn_Config = [Some \<lparr>st_Name = '' public.t '', st_Type = SnapshotTableFull, st_Query = []\<rparr>],
      sn_BatchSize = 0, sn_ParallelWorkers = 4, sn_AbortOnError = True, sn_QueryTimeout = [], sn_MaxWriteQueueSize = 0\<rparr> = Inr c' \<and>
     0 < sn_BatchSize c'"
proof -
  let ?c = "\<lparr>sn_Mode = ModeUnset, sn_Config = [Some \<lparr>st_Name = '' public.t '', st_Type = SnapshotTableFull, st_Query = []\<rparr>],
      sn_BatchSize = 0, sn_ParallelWorkers = 4, sn_AbortOnError = True, sn_QueryTimeout = [], sn_MaxWriteQueueSize = 0\<rparr>"
  obtain c' where c': "SnapshotConfig_Validate (\<lambda>s. None) ?c = Inr c'"
    by (simp add: SnapshotConfig_Validate_def check_table_def TrimSpace_def is_space_def)
  show ?thesis using SnapshotConfig_Validate_ok [OF c'] c' by blast
qed

section \<open>Values of the environment\<close>

text \<open>
  The values a configuration provider hands over untyped: Go's \<open>any\<close> holding nil, a string, a slice
  of values or of strings, a map, or anything else with its printed form.
\<close>

datatype any = ANil | AStr string | AList "any list" | AStrs "string list" | AMap "(string \<times> any) list" | AOther string

text \<open>Reading a key of a \<open>map[string]any\<close>: a missing key is nil.\<close>

definition any_get :: "(string \<times> any) list \<Rightarrow> string \<Rightarrow> any" where
  "any_get m k = (case map_of m k of Some v \<Rightarrow> v | None \<Rightarrow> ANil)"

end
