(* ===== verification/Bufferedlistener.thy ===== *)
theory Bufferedlistener
  imports Jsonparsing Pgschema Appconfig
begin

text \<open>
  \<open>pg2buffer/buffered_listener.go\<close>: the listener collects the rows of each transaction by
  transaction id, hands a transaction to the LSN tracker when it commits, and keeps the key maps
  of the relations and the tables of the publication. What it calls outside is a parameter: the
  decoder of column values (\<open>dec\<close>), \<open>Sprintf("%v")\<close> (\<open>fmt\<close>), the rows read from the
  catalogue, and the options of the writer. The counters of \<open>stats\<close> are left out.
\<close>

section \<open>Transactions in memory\<close>

text \<open>
  \<open>container/list\<close> with the map from row keys to its elements: elements have identities, which
  \<open>MoveToBack\<close> and the map share.
\<close>

record 't txList =
  tl_entries :: "(nat \<times> 't WriteEntry) list"
  tl_keys :: "string \<rightharpoonup> nat"
  tl_next :: nat

definition newTxList :: "'t txList" where
  "newTxList = \<lparr>tl_entries = [], tl_keys = Map.empty, tl_next = 0\<rparr>"

definition tl_Get :: "'t txList \<Rightarrow> string \<Rightarrow> 't WriteEntry option" where
  "tl_Get txl key = (case tl_keys txl key of None \<Rightarrow> None | Some el \<Rightarrow> map_of (tl_entries txl) el)"

definition tl_Add :: "string \<Rightarrow> 't WriteEntry \<Rightarrow> 't txList \<Rightarrow> 't txList" where
  "tl_Add key entry txl =
     \<lparr>tl_entries = tl_entries txl @ [(tl_next txl, entry)], tl_keys = (tl_keys txl)(key \<mapsto> tl_next txl), tl_next = Suc (tl_next txl)\<rparr>"

definition MoveKeyToEnd :: "string \<Rightarrow> 't txList \<Rightarrow> 't txList" where
  "MoveKeyToEnd key txl =
     (case tl_keys txl key of None \<Rightarrow> txl
      | Some el \<Rightarrow> txl\<lparr>tl_entries := filter (\<lambda>x. fst x \<noteq> el) (tl_entries txl) @ filter (\<lambda>x. fst x = el) (tl_entries txl)\<rparr>)"

definition tl_Len :: "'t txList \<Rightarrow> nat" where
  "tl_Len txl = length (tl_entries txl)"

text \<open>\<open>existingEntry.Tuple = data\<close> through the pointer that the element holds.\<close>

definition tl_set_tuple :: "string \<Rightarrow> 't EntryTuple \<Rightarrow> 't txList \<Rightarrow> 't txList" where
  "tl_set_tuple key d txl =
     (case tl_keys txl key of None \<Rightarrow> txl
      | Some el \<Rightarrow> txl\<lparr>tl_entries := map (\<lambda>(i, e). (i, if i = el then e\<lparr>we_Tuple := d\<rparr> else e)) (tl_entries txl)\<rparr>)"

section \<open>State\<close>

record TableConfig =
  cfg_Columns :: "string list"
  cfg_Options :: "string \<rightharpoonup> string"

definition AllColumns :: "TableConfig \<Rightarrow> bool" where
  "AllColumns tc \<longleftrightarrow> (case cfg_Columns tc of [] \<Rightarrow> True | c # _ \<Rightarrow> EqualFold c ''all'')"

definition Option_of :: "TableConfig \<Rightarrow> string \<Rightarrow> string" where
  "Option_of tc opt = (case cfg_Options tc opt of None \<Rightarrow> [] | Some v \<Rightarrow> v)"

record PGTableWithConfig =
  twc_Table :: "Table option"
  twc_Cfg :: "TableConfig option"

record RelationMessage =
  rm_RelationID :: u32
  rm_Namespace :: string
  rm_RelationName :: string
  rm_Columns :: "RelCol list"

record relationVersion =
  rv_version :: u64
  rv_rel :: RelationMessage
  rv_keyMap :: KeyMap

record ListenerOptions =
  lo_Publication :: string
  lo_NumericMode :: NumericEncoding
  lo_AppName :: string

type_synonym 'x row = "'x goval OrderedMap"

record 'x listener =
  listenerConfig :: ListenerOptions
  txCache :: "u32 \<rightharpoonup> 'x row txList"
  relations :: "u32 \<rightharpoonup> relationVersion"
  lst_tables :: "(string \<times> PGTableWithConfig) list"
  lst_arena :: Arena
  lst_relationVersion :: u64
  currentXID :: u32
  lsnTracker :: "'x row tracker"

datatype PgNumericMode = PgNumericModeFloat | PgNumericModeString | PgNumericModeOther

definition convertNumericMode :: "PgNumericMode \<Rightarrow> NumericEncoding" where
  "convertNumericMode mode =
     (case mode of PgNumericModeFloat \<Rightarrow> NumericEncodingFloat | PgNumericModeString \<Rightarrow> NumericEncodingString | _ \<Rightarrow> NumericEncodingFloat)"

definition NewListenerOptions :: "string \<Rightarrow> PgNumericMode \<Rightarrow> string \<Rightarrow> ListenerOptions" where
  "NewListenerOptions publication numMode appName =
     \<lparr>lo_Publication = publication, lo_NumericMode = convertNumericMode numMode, lo_AppName = appName\<rparr>"

definition NewListener :: "ListenerOptions \<Rightarrow> (string \<times> TableConfig) list \<Rightarrow> RetryConfig \<Rightarrow> Arena \<Rightarrow> 'x listener" where
  "NewListener opts configTables failureConfig arena =
     \<lparr>listenerConfig = opts, txCache = Map.empty, relations = Map.empty,
      lst_tables = map (\<lambda>(key, tc). (key, \<lparr>twc_Table = None, twc_Cfg = Some tc\<rparr>)) configTables,
      lst_arena = arena, lst_relationVersion = 0, currentXID = 0, lsnTracker = NewLSNTracker failureConfig\<rparr>"

definition getTable :: "'x listener \<Rightarrow> TableName \<Rightarrow> PGTableWithConfig option" where
  "getTable rl tn = map_of (lst_tables rl) (tn_FullName tn)"

definition GetTable :: "'x listener \<Rightarrow> TableName \<Rightarrow> Table option" where
  "GetTable rl tn = (case getTable rl tn of None \<Rightarrow> None | Some t \<Rightarrow> twc_Table t)"

definition GetTableOption :: "'x listener \<Rightarrow> TableName \<Rightarrow> string \<Rightarrow> string \<times> bool" where
  "GetTableOption rl table option =
     (case getTable rl table of None \<Rightarrow> ([], False)
      | Some t \<Rightarrow> (case twc_Cfg t of None \<Rightarrow> ([], False) | Some cfg \<Rightarrow> (Option_of cfg option, True)))"

definition GetPubTables :: "'x listener \<Rightarrow> (string \<times> Table) list" where
  "GetPubTables rl = List.map_filter (\<lambda>(name, t). map_option (\<lambda>tbl. (name, tbl)) (twc_Table t)) (lst_tables rl)"

definition GetPubTableColumns :: "'x listener \<Rightarrow> (string \<times> string list) list go_result" where
  "GetPubTableColumns rl =
     (if list_ex (\<lambda>(k, t). twc_Table t = None) (lst_tables rl) then Inl nil_panic
      else Inr (map (\<lambda>(k, t). (FullName (the (twc_Table t)), map fst (Columns (the (twc_Table t))))) (lst_tables rl)))"

section \<open>Tables of the publication\<close>

definition mergeConfigAndPubTable :: "Table \<Rightarrow> TableConfig \<Rightarrow> Table go_result" where
  "mergeConfigAndPubTable table tableConfig =
     (if list_ex (\<lambda>column. column \<noteq> ''all'' \<and> map_of (Columns table) column = None) (cfg_Columns tableConfig)
      then Inl (Error (''config for table '' @ tn_FullName (tbl_Name table) @ '' has a column which was not found in the publication''))
      else if AllColumns tableConfig then Inr table
      else Inr (WithColumns
        (fold (\<lambda>column m. case map_of (Columns table) column of None \<Rightarrow> m | Some pc \<Rightarrow> AList.update (col_Name pc) pc m)
          (cfg_Columns tableConfig) []) table))"

text \<open>The first loop of \<open>mergeConfigAndPubTables\<close>; a failed merge ends it.\<close>

fun merge_tables :: "Table list \<Rightarrow> (string \<times> PGTableWithConfig) list \<Rightarrow> (string \<times> PGTableWithConfig) list go_result" where
  "merge_tables [] tables = Inr tables"
| "merge_tables (pubTable # rest) tables =
     (case map_of tables (FullName pubTable) of
        None \<Rightarrow> merge_tables rest (AList.update (FullName pubTable) \<lparr>twc_Table = Some pubTable, twc_Cfg = None\<rparr> tables)
      | Some twc \<Rightarrow>
         (case twc_Cfg twc of
            None \<Rightarrow> merge_tables rest tables
          | Some cfg \<Rightarrow>
             bind_result (mergeConfigAndPubTable pubTable cfg)
               (\<lambda>t. merge_tables rest (AList.update (FullName pubTable) (twc\<lparr>twc_Table := Some t\<rparr>) tables))))"

definition mergeConfigAndPubTables :: "(string \<times> Table) list \<Rightarrow> 'x listener \<Rightarrow> 'x listener go_result" where
  "mergeConfigAndPubTables pubTables rl =
     bind_result (merge_tables (map snd pubTables) (lst_tables rl)) (\<lambda>tables.
       if list_ex (\<lambda>(tn, t). twc_Table t = None) tables then Inl (Error ''table was not found in publication'')
       else Inr (rl\<lparr>lst_tables := tables\<rparr>))"

definition LoadPubTables :: "PubTableRes go_result \<Rightarrow> 'x listener \<Rightarrow> 'x listener go_result" where
  "LoadPubTables res rl =
     (case res of Inl e \<Rightarrow> Inl (wrap_err ''failed to read publication tables: '' e)
      | Inr r \<Rightarrow> mergeConfigAndPubTables (res_Tables r) rl)"

definition PluginArguments :: "PGVersion go_result \<Rightarrow> string \<Rightarrow> string list go_result" where
  "PluginArguments ver pubName =
     bind_result ver (\<lambda>v.
       let sq = [char_of (39 :: nat)] in
       if 14 \<le> v then Inr [''proto_version '' @ sq @ ''2'' @ sq, ''publication_names '' @ sq @ pubName @ sq,
                          ''messages '' @ sq @ ''true'' @ sq, ''streaming '' @ sq @ ''true'' @ sq]
       else Inr [''proto_version '' @ sq @ ''1'' @ sq, ''publication_names '' @ sq @ pubName @ sq])"

section \<open>Sending a transaction\<close>

definition sendWALRequestToLSNTracker :: "'x row WriteRequest \<Rightarrow> 'x listener \<Rightarrow> 'x listener" where
  "sendWALRequestToLSNTracker req rl = rl\<lparr>lsnTracker := snd (Add req (lsnTracker rl))\<rparr>"

text \<open>The offsets are the positions in the list, as 32-bit numbers.\<close>

fun number_from :: "nat \<Rightarrow> 't WriteEntry list \<Rightarrow> 't WriteEntry list" where
  "number_from n [] = []"
| "number_from n (e # es) = e\<lparr>we_Offset := of_nat n\<rparr> # number_from (Suc n) es"

definition sendToLSNTracker :: "'x row txList option \<Rightarrow> LSN \<Rightarrow> u32 \<Rightarrow> int \<Rightarrow> 'x listener \<Rightarrow> 'x listener go_result" where
  "sendToLSNTracker txl lsn xid commitTime rl =
     (let es = (case txl of None \<Rightarrow> [] | Some l \<Rightarrow> map snd (tl_entries l)) in
      if list_ex (\<lambda>e. we_Kind e = SnapshotRead) es
      then Inl (Fatal ''snapshot read is not supposed to be sent to LSN tracker. Report the issue to the support'')
      else Inr (sendWALRequestToLSNTracker
        \<lparr>wr_Entries = number_from 0 es, wr_LSN = lsn, wr_XID = xid, wr_CommitTime = commitTime, wr_isSnapshot = False\<rparr> rl))"

definition OnTxBegin :: "u32 \<Rightarrow> 'x listener \<Rightarrow> 'x listener" where
  "OnTxBegin xid rl = rl\<lparr>currentXID := xid\<rparr>"

definition OnTxCommit :: "LSN \<Rightarrow> int \<Rightarrow> 'x listener \<Rightarrow> 'x listener go_result" where
  "OnTxCommit transactionEndLSN commitTime rl =
     (if 0 < currentXID rl
      then bind_result (sendToLSNTracker (txCache rl (currentXID rl)) transactionEndLSN (currentXID rl) commitTime rl)
        (\<lambda>rl1. Inr (rl1\<lparr>txCache := (txCache rl1)(currentXID rl := None), currentXID := 0\<rparr>))
      else Inr rl)"

definition OnStreamStart :: "'x listener \<Rightarrow> 'x listener" where
  "OnStreamStart rl = rl"

definition OnStreamStop :: "'x listener \<Rightarrow> 'x listener" where
  "OnStreamStop rl = rl"

definition OnStreamCommit :: "u32 \<Rightarrow> LSN \<Rightarrow> int \<Rightarrow> 'x listener \<Rightarrow> 'x listener go_result" where
  "OnStreamCommit xid commitLSN commitTime rl =
     bind_result (sendToLSNTracker (txCache rl xid) commitLSN xid commitTime rl)
       (\<lambda>rl1. Inr (rl1\<lparr>txCache := (txCache rl1)(xid := None)\<rparr>))"

definition OnStreamAbort :: "u32 \<Rightarrow> 'x listener \<Rightarrow> 'x listener" where
  "OnStreamAbort xid rl = rl\<lparr>txCache := (txCache rl)(xid := None)\<rparr>"

definition xidFromMsgOrCurrent :: "u32 \<Rightarrow> 'x listener \<Rightarrow> u32" where
  "xidFromMsgOrCurrent xid rl = (if xid = 0 then currentXID rl else xid)"

definition OnLogicalDecodingMessage :: "bool \<Rightarrow> string \<Rightarrow> string \<Rightarrow> LSN \<Rightarrow> 'x listener \<Rightarrow> 'x listener" where
  "OnLogicalDecodingMessage transactional msgPrefix content lsn rl =
     (if transactional \<and> EqualFold msgPrefix (lo_AppName (listenerConfig rl)) \<and> content \<noteq> [] \<and> 0 < currentXID rl \<and>
         EqualFold content ''heartbeat''
      then sendWALRequestToLSNTracker
        \<lparr>wr_Entries = [], wr_LSN = lsn, wr_XID = currentXID rl, wr_CommitTime = 0, wr_isSnapshot = False\<rparr> rl
      else rl)"

section \<open>Rows\<close>

definition getReadIndexes :: "'x listener \<Rightarrow> TableName \<Rightarrow> RelCol list \<Rightarrow> ReadTupleConfig go_result" where
  "getReadIndexes rl table columns =
     (let all = \<lparr>ReadIndexes = None, ReadAll = True,
                 cfg_Encoding = \<lparr>enc_Binary = BinaryEncodingBase64, enc_Numeric = lo_NumericMode (listenerConfig rl)\<rparr>\<rparr>
      in case getTable rl table of None \<Rightarrow> Inr all
       | Some twc \<Rightarrow>
          if (case twc_Cfg twc of None \<Rightarrow> False | Some cfg \<Rightarrow> AllColumns cfg) then Inr all
          else if columns = [] then Inr (all\<lparr>ReadIndexes := Some [], ReadAll := False\<rparr>)
          else bind_result (deref (twc_Table twc)) (\<lambda>t.
            Inr (all\<lparr>ReadIndexes := Some (filter (\<lambda>i. map_of (Columns t) (rc_Name (columns ! i)) \<noteq> None) [0..<length columns]),
                     ReadAll := False\<rparr>)))"

text \<open>A Go \<open>*OrderedMap\<close> stored in the interface: a nil pointer is not a nil interface.\<close>

definition boxed :: "'x row option \<Rightarrow> 'x row EntryTuple" where
  "boxed p = (case p of None \<Rightarrow> NilTuple | Some om \<Rightarrow> Tup om)"

text \<open>The value part of \<open>Get\<close>, which does not panic on a row that \<open>New\<close> built.\<close>

definition row_value :: "'x row \<Rightarrow> string \<Rightarrow> 'x goval option" where
  "row_value om name = (case om_Get om name of Inl _ \<Rightarrow> None | Inr (v, _) \<Rightarrow> v)"

definition appendToTxCache ::
  "('x goval option \<Rightarrow> string) \<Rightarrow> u32 \<Rightarrow> RelationMessage \<Rightarrow> OpKind \<Rightarrow> (TableName \<Rightarrow> 'x row option go_result) \<Rightarrow>
   (TableName \<Rightarrow> 'x row option go_result) \<Rightarrow> 'x listener \<Rightarrow> 'x listener go_result" where
  "appendToTxCache fmt xid rel kind getData getPrevData rl =
     (let tn = MakeTableName (rm_Namespace rel) (rm_RelationName rel) in
      bind_result (getData tn) (\<lambda>d.
      bind_result (getPrevData tn) (\<lambda>prev.
      bind_result (deref (getTable rl tn)) (\<lambda>pgTable.
      bind_result (deref (twc_Table pgTable)) (\<lambda>tbl.
      bind_result (if PK tbl = [] then Inr [] else bind_result (deref d) (\<lambda>om. Inr (CreatePK fmt tbl (row_value om)))) (\<lambda>primaryKey.
        let txEntries = (case txCache rl xid of None \<Rightarrow> newTxList | Some txl \<Rightarrow> txl);
            txEntryKey = FullName tbl @ '':'' @ primaryKey;
            txl = (case tl_Get txEntries txEntryKey of
                    Some _ \<Rightarrow> MoveKeyToEnd txEntryKey (tl_set_tuple txEntryKey (boxed d) txEntries)
                  | None \<Rightarrow> tl_Add txEntryKey \<lparr>we_Tuple = boxed d, we_PrevTuple = boxed prev, we_PK = primaryKey, we_Kind = kind,
                               we_Table = tbl_Name tbl, we_Offset = 0\<rparr> txEntries)
        in Inr (rl\<lparr>txCache := (txCache rl)(xid \<mapsto> txl)\<rparr>)))))))"

text \<open>The closures that read the new and the old tuple of a message.\<close>

definition read_row ::
  "'x decoder \<Rightarrow> relationVersion \<Rightarrow> TupleCol list option \<Rightarrow> 'x listener \<Rightarrow> TableName \<Rightarrow> 'x row option go_result" where
  "read_row dec rel tuple rl tn =
     bind_result (getReadIndexes rl tn (rm_Columns (rv_rel rel)))
       (\<lambda>cfg. ReadTuple dec tuple (rm_Columns (rv_rel rel)) cfg (Some (rv_keyMap rel)))"

definition no_row :: "TableName \<Rightarrow> 'x row option go_result" where
  "no_row tn = Inr None"

definition relation_not_found :: go_error where
  "relation_not_found = Error ''relation not found''"

definition OnInsert ::
  "'x decoder \<Rightarrow> ('x goval option \<Rightarrow> string) \<Rightarrow> u32 \<Rightarrow> u32 \<Rightarrow> TupleCol list option \<Rightarrow> 'x listener \<Rightarrow> 'x listener go_result" where
  "OnInsert dec fmt relationID msgXid tuple rl =
     (case relations rl relationID of None \<Rightarrow> Inl relation_not_found
      | Some rel \<Rightarrow> appendToTxCache fmt (xidFromMsgOrCurrent msgXid rl) (rv_rel rel) Insert (read_row dec rel tuple rl) no_row rl)"

definition OnUpdate ::
  "'x decoder \<Rightarrow> ('x goval option \<Rightarrow> string) \<Rightarrow> u32 \<Rightarrow> u32 \<Rightarrow> TupleCol list option \<Rightarrow> TupleCol list option \<Rightarrow>
   'x listener \<Rightarrow> 'x listener go_result" where
  "OnUpdate dec fmt relationID msgXid newTuple oldTuple rl =
     (case relations rl relationID of None \<Rightarrow> Inl relation_not_found
      | Some rel \<Rightarrow> appendToTxCache fmt (xidFromMsgOrCurrent msgXid rl) (rv_rel rel) Update
          (read_row dec rel newTuple rl) (read_row dec rel oldTuple rl) rl)"

definition OnDelete ::
  "'x decoder \<Rightarrow> ('x goval option \<Rightarrow> string) \<Rightarrow> u32 \<Rightarrow> u32 \<Rightarrow> TupleCol list option \<Rightarrow> 'x listener \<Rightarrow> 'x listener go_result" where
  "OnDelete dec fmt relationID msgXid oldTuple rl =
     (case relations rl relationID of None \<Rightarrow> Inl relation_not_found
      | Some rel \<Rightarrow> appendToTxCache fmt (xidFromMsgOrCurrent msgXid rl) (rv_rel rel) Delete (read_row dec rel oldTuple rl) no_row rl)"

definition OnTruncate :: "'x listener \<Rightarrow> 'x listener" where
  "OnTruncate rl = rl"

section \<open>Relations\<close>

definition relation_columns :: "TxCommitTimeOptions \<Rightarrow> Table \<Rightarrow> RelationMessage \<Rightarrow> string list" where
  "relation_columns txOpts tbl msg =
     (let cols = map rc_Name (filter (\<lambda>c. map_of (Columns tbl) (rc_Name c) \<noteq> None) (rm_Columns msg))
      in if tx_Save txOpts \<and> tx_Name txOpts \<notin> set cols then cols @ [tx_Name txOpts] else cols)"

definition OnRelation :: "PubTableRes go_result \<Rightarrow> TxCommitTimeOptions \<Rightarrow> RelationMessage \<Rightarrow> 'x listener \<Rightarrow> 'x listener go_result" where
  "OnRelation pubTables txOpts msg rl0 =
     (let rl = rl0\<lparr>lst_relationVersion := lst_relationVersion rl0 + 1\<rparr>;
          tn = MakeTableName (rm_Namespace msg) (rm_RelationName msg)
      in case LoadPubTables pubTables rl of
           Inl _ \<Rightarrow> Inl (Fatal (''failed to update config for table '' @ rm_RelationName msg))
         | Inr rl1 \<Rightarrow>
           (case getTable rl1 tn of None \<Rightarrow> Inl (Fatal (''table '' @ rm_RelationName msg @ '' was not found in publication''))
            | Some pgTable \<Rightarrow>
               bind_result (deref (twc_Table pgTable)) (\<lambda>tbl.
                 let keyMap = km_New (relation_columns txOpts tbl msg);
                     version = lst_relationVersion rl1
                 in Inr (rl1\<lparr>relations := (relations rl1)(rm_RelationID msg \<mapsto> \<lparr>rv_version = version, rv_rel = msg, rv_keyMap = keyMap\<rparr>),
                             lst_arena := arena_Add (lst_arena rl1) (tn_FullName tn) (format_uint (unat version)) keyMap\<rparr>))))"

section \<open>Acknowledgement and shutdown\<close>

definition CommitPos :: "'x listener \<Rightarrow> CommitPoint \<times> 'x listener" where
  "CommitPos rl = (let (c, t) = MaxAcknowledged (lsnTracker rl) in (c, rl\<lparr>lsnTracker := t\<rparr>))"

definition rl_OnSuccess :: "ResponseEntry list \<Rightarrow> 'x listener \<Rightarrow> CommitPoint \<times> 'x listener" where
  "rl_OnSuccess resp rl = (let (c, t) = OnSuccess resp (lsnTracker rl) in (c, rl\<lparr>lsnTracker := t\<rparr>))"

definition rl_WriteQueueSize :: "'x listener \<Rightarrow> u64" where
  "rl_WriteQueueSize rl = WriteQueueSize (lsnTracker rl)"

definition OnSnapshotBatch :: "'x row WriteRequest \<Rightarrow> 'x listener \<Rightarrow> 'x listener" where
  "OnSnapshotBatch batch rl = sendWALRequestToLSNTracker batch rl"

definition GracefulShutdown :: "'x listener \<Rightarrow> 'x listener" where
  "GracefulShutdown rl = rl\<lparr>lsnTracker := Stop (lsnTracker rl)\<rparr>"

end
