(* ===== verification/Txbuffer.thy ===== *)
theory Txbuffer
  imports Bufferedlistener
begin

text \<open>
  What the listener's transaction buffer keeps: a view of \<open>txList\<close> as a list of row keys and
  entries, the specification of a change on that view, and the theorems on whole transactions.
\<close>

section \<open>The view of a transaction list\<close>

type_synonym 't keyed = "(string \<times> nat \<times> 't WriteEntry) list"

definition tl_rep :: "'t txList \<Rightarrow> 't keyed \<Rightarrow> bool" where
  "tl_rep txl R \<longleftrightarrow> tl_entries txl = map snd R \<and> tl_keys txl = (\<lambda>k. map_option fst (map_of R k)) \<and>
     distinct (map fst R) \<and> distinct (map (fst \<circ> snd) R) \<and> (\<forall>x \<in> set R. fst (snd x) < tl_next txl)"

definition view_of :: "'t keyed \<Rightarrow> (string \<times> 't WriteEntry) list" where
  "view_of R = map (\<lambda>x. (fst x, snd (snd x))) R"

definition tl_view :: "'t txList \<Rightarrow> (string \<times> 't WriteEntry) list \<Rightarrow> bool" where
  "tl_view txl kes \<longleftrightarrow> (\<exists>R. tl_rep txl R \<and> view_of R = kes)"

text \<open>What a change does to the view: a known row moves to the end with its new tuple.\<close>

definition tx_put :: "string \<times> 't WriteEntry \<Rightarrow> (string \<times> 't WriteEntry) list \<Rightarrow> (string \<times> 't WriteEntry) list" where
  "tx_put c kes =
     (case map_of kes (fst c) of None \<Rightarrow> kes @ [c]
      | Some e \<Rightarrow> filter (\<lambda>x. fst x \<noteq> fst c) kes @ [(fst c, e\<lparr>we_Tuple := we_Tuple (snd c)\<rparr>)])"

definition tx_store :: "string \<Rightarrow> 't WriteEntry \<Rightarrow> 't txList \<Rightarrow> 't txList" where
  "tx_store k e txl =
     (case tl_Get txl k of Some _ \<Rightarrow> MoveKeyToEnd k (tl_set_tuple k (we_Tuple e) txl) | None \<Rightarrow> tl_Add k e txl)"

lemma tl_view_new [simp]: "tl_view newTxList []"
  by (auto simp: tl_view_def tl_rep_def view_of_def newTxList_def)

lemma rep_key:
  assumes "tl_rep txl R"
  shows "tl_keys txl k = map_option fst (map_of R k)" "map_of (view_of R) k = map_option snd (map_of R k)"
proof -
  have "map_of (map (\<lambda>x. (fst x, f (snd x))) R) k = map_option f (map_of R k)" for f :: "nat \<times> 'a WriteEntry \<Rightarrow> 'z"
    by (induction R) auto
  then show "tl_keys txl k = map_option fst (map_of R k)" "map_of (view_of R) k = map_option snd (map_of R k)"
    using assms by (simp_all add: tl_rep_def view_of_def)
qed

lemma rep_get:
  assumes "tl_rep txl R"
  shows "tl_Get txl k = map_of (view_of R) k"
proof (cases "map_of R k")
  case None
  then show ?thesis using rep_key [OF assms] by (simp add: tl_Get_def)
next
  case (Some ie)
  obtain i e where ie: "ie = (i, e)" by fastforce
  have "(k, i, e) \<in> set R" using map_of_SomeD [OF Some] ie by simp
  then have "(i, e) \<in> set (tl_entries txl)" using assms by (force simp: tl_rep_def)
  moreover have "distinct (map fst (tl_entries txl))" using assms by (simp add: tl_rep_def)
  ultimately have "map_of (tl_entries txl) i = Some e" by simp
  then show ?thesis using rep_key [OF assms] Some ie by (simp add: tl_Get_def)
qed

lemma rep_add:
  assumes "tl_rep txl R" "map_of R k = None"
  shows "tl_rep (tl_Add k e txl) (R @ [(k, tl_next txl, e)])"
proof -
  have "k \<notin> fst ` set R" using assms(2) by (simp add: map_of_eq_None_iff)
  moreover have "tl_next txl \<notin> (fst \<circ> snd) ` set R" using assms(1) by (auto simp: tl_rep_def)
  ultimately show ?thesis using assms unfolding tl_rep_def tl_Add_def
    by (auto simp: map_add_def fun_eq_iff less_Suc_eq split: option.splits)
qed

lemma rep_unique:
  assumes "tl_rep txl R" "(k, i, e) \<in> set R" "x \<in> set R" "fst x = k \<or> fst (snd x) = i"
  shows "x = (k, i, e)"
proof -
  have "inj_on fst (set R)" "inj_on (fst \<circ> snd) (set R)" using assms(1) by (auto simp: tl_rep_def distinct_map)
  then show ?thesis using inj_onD [of fst "set R" x "(k, i, e)"] inj_onD [of "fst \<circ> snd" "set R" x "(k, i, e)"] assms(2-4) by auto
qed

lemma rep_set_tuple:
  assumes "tl_rep txl R" "map_of R k = Some (i, e)"
  shows "tl_rep (tl_set_tuple k d txl) (map (\<lambda>x. if fst x = k then (k, i, e\<lparr>we_Tuple := d\<rparr>) else x) R)"
proof -
  let ?f = "\<lambda>x. if fst x = k then (k, i, e\<lparr>we_Tuple := d\<rparr>) else x"
  have key: "tl_keys txl k = Some i" using assms by (simp add: tl_rep_def)
  have kie: "(k, i, e) \<in> set R" using assms(2) by (rule map_of_SomeD)
  note uniq = rep_unique [OF assms(1) kie]
  have ent: "map (\<lambda>(j, e). (j, if j = i then e\<lparr>we_Tuple := d\<rparr> else e)) (map snd R) = map snd (map ?f R)"
  proof -
    have "(case snd x of (j, e) \<Rightarrow> (j, if j = i then e\<lparr>we_Tuple := d\<rparr> else e)) = snd (?f x)" if "x \<in> set R" for x
    proof (cases "fst x = k \<or> fst (snd x) = i")
      case True
      show ?thesis unfolding uniq [OF that True] by simp
    next
      case False
      then show ?thesis by (simp add: case_prod_unfold)
    qed
    then show ?thesis by simp
  qed
  have "fst (snd (?f x)) = fst (snd x)" if "x \<in> set R" for x
  proof (cases "fst x = k")
    case True
    then show ?thesis using uniq [OF that] by simp
  qed simp
  then have ids: "map fst (map ?f R) = map fst R" "map (fst \<circ> snd) (map ?f R) = map (fst \<circ> snd) R" by simp_all
  have "map_option fst (map_of (map ?f R) k') = map_option fst (map_of R k')" for k'
  proof -
    have "map_of (map ?f R) k' = map_option (\<lambda>ie. if k' = k then (i, e\<lparr>we_Tuple := d\<rparr>) else ie) (map_of R k')"
      by (induction R) auto
    then show ?thesis using assms(2) by (cases "map_of R k'") auto
  qed
  then have keys: "(\<lambda>k'. map_option fst (map_of (map ?f R) k')) = (\<lambda>k'. map_option fst (map_of R k'))" by (rule ext)
  have bound: "\<forall>x \<in> set (map ?f R). fst (snd x) < tl_next txl" using assms(1) kie by (auto simp: tl_rep_def)
  have "tl_set_tuple k d txl = txl\<lparr>tl_entries := map snd (map ?f R)\<rparr>"
    using ent assms(1) unfolding tl_set_tuple_def key by (simp add: tl_rep_def)
  then show ?thesis using assms(1) bound unfolding tl_rep_def keys ids by simp
qed

lemma rep_move:
  assumes "tl_rep txl R" "map_of R k = Some (i, e)"
  shows "tl_rep (MoveKeyToEnd k txl) (filter (\<lambda>x. fst x \<noteq> k) R @ [(k, i, e)])"
proof -
  have key: "tl_keys txl k = Some i" using assms by (simp add: tl_rep_def)
  have kie: "(k, i, e) \<in> set R" using assms(2) by (rule map_of_SomeD)
  have dist: "distinct (map fst R)" "distinct (map (fst \<circ> snd) R)" using assms(1) by (auto simp: tl_rep_def)
  have iff: "fst (snd x) = i \<longleftrightarrow> fst x = k" if "x \<in> set R" for x
    using rep_unique [OF assms(1) kie that] by (metis fst_conv snd_conv)
  have f1: "filter (\<lambda>x. fst x \<noteq> i) (map snd R) = map snd (filter (\<lambda>x. fst x \<noteq> k) R)"
    using iff by (simp add: filter_map comp_def cong: filter_cong)
  have "filter (\<lambda>x. fst x = k) R = [(k, i, e)]" using dist(1) kie
    by (induction R) (auto simp: filter_empty_conv image_iff)
  then have f2: "filter (\<lambda>x. fst x = i) (map snd R) = [(i, e)]"
    using iff by (simp add: filter_map comp_def cong: filter_cong)
  have "map_of (filter (\<lambda>x. fst x \<noteq> k) R) k' = (if k' = k then None else map_of R k')" for k' by (induction R) auto
  then have m: "map_of (filter (\<lambda>x. fst x \<noteq> k) R @ [(k, i, e)]) k' = map_of R k'" for k'
    using assms(2) by (simp add: map_add_def split: option.split)
  show ?thesis unfolding tl_rep_def MoveKeyToEnd_def key option.case m
    using assms(1) f1 f2 kie dist iff by (auto simp: tl_rep_def distinct_map_filter)
qed


lemma view_tx_store:
  assumes "tl_view txl kes"
  shows "tl_view (tx_store k e txl) (tx_put (k, e) kes)"
proof -
  obtain R where R: "tl_rep txl R" "view_of R = kes" using assms by (auto simp: tl_view_def)
  show ?thesis
  proof (cases "map_of R k")
    case None
    then have "tl_rep (tx_store k e txl) (R @ [(k, tl_next txl, e)])"
      using rep_add [OF R(1) None] rep_get [OF R(1), of k] rep_key(2) [OF R(1), of k] by (simp add: tx_store_def)
    moreover have "view_of (R @ [(k, tl_next txl, e)]) = tx_put (k, e) kes"
      using rep_key(2) [OF R(1), of k] None R(2) by (simp add: tx_put_def view_of_def)
    ultimately show ?thesis by (auto simp: tl_view_def)
  next
    case (Some ie)
    obtain i e0 where ie: "map_of R k = Some (i, e0)" using Some by (cases ie) auto
    let ?f = "\<lambda>x. if fst x = k then (k, i, e0\<lparr>we_Tuple := we_Tuple e\<rparr>) else x"
    note r1 = rep_set_tuple [OF R(1) ie, of "we_Tuple e"]
    have "map_of (map ?f R) k = Some (i, e0\<lparr>we_Tuple := we_Tuple e\<rparr>)"
    proof -
      have "map_of (map ?f R) k = map_option (\<lambda>_. (i, e0\<lparr>we_Tuple := we_Tuple e\<rparr>)) (map_of R k)" by (induction R) auto
      then show ?thesis using ie by simp
    qed
    note r2 = rep_move [OF r1 this]
    have "tl_rep (tx_store k e txl) (filter (\<lambda>x. fst x \<noteq> k) (map ?f R) @ [(k, i, e0\<lparr>we_Tuple := we_Tuple e\<rparr>)])"
      using r2 rep_get [OF R(1), of k] rep_key(2) [OF R(1), of k] ie by (simp add: tx_store_def)
    moreover have "filter (\<lambda>x. fst x \<noteq> k) (map ?f R) = filter (\<lambda>x. fst x \<noteq> k) R" by (induction R) auto
    moreover have "view_of (filter (\<lambda>x. fst x \<noteq> k) R @ [(k, i, e0\<lparr>we_Tuple := we_Tuple e\<rparr>)]) = tx_put (k, e) kes"
      using rep_key(2) [OF R(1), of k] ie R(2) by (auto simp: tx_put_def view_of_def filter_map comp_def)
    ultimately show ?thesis by (auto simp: tl_view_def)
  qed
qed

section \<open>Whole transactions\<close>

text \<open>
  The specification of a list of changes: one entry per row, in the order of the last change of
  each row, with the tuple of the last change - and the kind and the old tuple of the first.
\<close>

definition merged :: "(string \<times> 't WriteEntry) list \<Rightarrow> string \<Rightarrow> 't WriteEntry" where
  "merged cs k = (the (map_of cs k))\<lparr>we_Tuple := we_Tuple (the (map_of (rev cs) k))\<rparr>"

definition tx_spec :: "(string \<times> 't WriteEntry) list \<Rightarrow> (string \<times> 't WriteEntry) list" where
  "tx_spec cs = map (\<lambda>k. (k, merged cs k)) (remdups (map fst cs))"

lemma remdups_snoc: "remdups (xs @ [x]) = removeAll x (remdups xs) @ [x]"
  by (induction xs) auto

lemma map_of_keys: "map_of (map (\<lambda>k. (k, f k)) ks) k = (if k \<in> set ks then Some (f k) else None)"
  by (induction ks) auto

lemma map_of_tx_spec: "map_of (tx_spec cs) k = (if k \<in> fst ` set cs then Some (merged cs k) else None)"
  by (simp add: tx_spec_def map_of_keys)

lemma merged_snoc_other: "k \<noteq> fst c \<Longrightarrow> k \<in> fst ` set cs \<Longrightarrow> merged (cs @ [c]) k = merged cs k"
  by (cases c; cases "map_of cs k") (auto simp: merged_def map_add_def map_of_eq_None_iff)

lemma merged_snoc_same:
  "merged (cs @ [c]) (fst c) =
     (case map_of cs (fst c) of None \<Rightarrow> snd c | Some e \<Rightarrow> e\<lparr>we_Tuple := we_Tuple (snd c)\<rparr>)"
  by (cases c) (auto simp: merged_def map_add_def split: option.splits)

lemma tx_spec_snoc: "tx_spec (cs @ [c]) = tx_put c (tx_spec cs)"
proof -
  have rest: "map (\<lambda>k. (k, merged (cs @ [c]) k)) (removeAll (fst c) (remdups (map fst cs))) = filter (\<lambda>x. fst x \<noteq> fst c) (tx_spec cs)"
  proof -
    have "filter (\<lambda>x. fst x \<noteq> fst c) (tx_spec cs) = map (\<lambda>k. (k, merged cs k)) (removeAll (fst c) (remdups (map fst cs)))"
      by (simp add: tx_spec_def filter_map comp_def removeAll_filter_not_eq eq_commute)
    then show ?thesis using merged_snoc_other [of _ c cs] by simp
  qed
  have spec: "tx_spec (cs @ [c]) = filter (\<lambda>x. fst x \<noteq> fst c) (tx_spec cs) @ [(fst c, merged (cs @ [c]) (fst c))]"
    by (simp add: tx_spec_def remdups_snoc) (simp add: rest [unfolded tx_spec_def])
  show ?thesis
  proof (cases "fst c \<in> fst ` set cs")
    case False
    then have "map_of cs (fst c) = None" by (simp add: map_of_eq_None_iff)
    moreover have "filter (\<lambda>x. fst x \<noteq> fst c) (tx_spec cs) = tx_spec cs"
      using False by (intro filter_True) (force simp: tx_spec_def)
    ultimately show ?thesis using False by (simp add: spec tx_put_def map_of_tx_spec merged_snoc_same)
  next
    case True
    then obtain e where "map_of cs (fst c) = Some e" by (metis map_of_eq_None_iff not_None_eq)
    then show ?thesis using True by (simp add: spec tx_put_def map_of_tx_spec merged_snoc_same) (simp add: merged_def)
  qed
qed

lemma fold_tx_put: "fold tx_put cs [] = tx_spec cs"
  by (induction cs rule: rev_induct) (simp_all add: tx_spec_snoc, simp add: tx_spec_def)


section \<open>Row messages\<close>

text \<open>The row key and the entry a change contributes.\<close>

definition change_of ::
  "('x goval option \<Rightarrow> string) \<Rightarrow> RelationMessage \<Rightarrow> OpKind \<Rightarrow> (TableName \<Rightarrow> 'x row option go_result) \<Rightarrow>
   (TableName \<Rightarrow> 'x row option go_result) \<Rightarrow> 'x listener \<Rightarrow> (string \<times> 'x row WriteEntry) go_result" where
  "change_of fmt rel kind getData getPrevData rl =
     (let tn = MakeTableName (rm_Namespace rel) (rm_RelationName rel) in
      bind_result (getData tn) (\<lambda>d.
      bind_result (getPrevData tn) (\<lambda>prev.
      bind_result (deref (getTable rl tn)) (\<lambda>pgTable.
      bind_result (deref (twc_Table pgTable)) (\<lambda>tbl.
      bind_result (if PK tbl = [] then Inr [] else bind_result (deref d) (\<lambda>om. Inr (CreatePK fmt tbl (row_value om)))) (\<lambda>primaryKey.
        Inr (FullName tbl @ '':'' @ primaryKey,
             \<lparr>we_Tuple = boxed d, we_PrevTuple = boxed prev, we_PK = primaryKey, we_Kind = kind, we_Table = tbl_Name tbl, we_Offset = 0\<rparr>)))))))"

definition cached :: "'x listener \<Rightarrow> u32 \<Rightarrow> 'x row txList" where
  "cached rl xid = (case txCache rl xid of None \<Rightarrow> newTxList | Some txl \<Rightarrow> txl)"

lemma append_change:
  "appendToTxCache fmt xid rel kind getData getPrevData rl =
     bind_result (change_of fmt rel kind getData getPrevData rl)
       (\<lambda>c. Inr (rl\<lparr>txCache := (txCache rl)(xid \<mapsto> tx_store (fst c) (snd c) (cached rl xid))\<rparr>))"
proof -
  let ?tn = "MakeTableName (rm_Namespace rel) (rm_RelationName rel)"
  show ?thesis
    unfolding appendToTxCache_def change_of_def Let_def
    by (cases "getData ?tn"; cases "getPrevData ?tn"; cases "getTable rl ?tn")
       (auto simp: deref_def tx_store_def cached_def Let_def split: option.splits)
qed

datatype row_msg =
  RInsert u32 u32 "TupleCol list option"
  | RUpdate u32 u32 "TupleCol list option" "TupleCol list option"
  | RDelete u32 u32 "TupleCol list option"

fun on_row :: "'x decoder \<Rightarrow> ('x goval option \<Rightarrow> string) \<Rightarrow> row_msg \<Rightarrow> 'x listener \<Rightarrow> 'x listener go_result" where
  "on_row dec fmt (RInsert r x t) rl = OnInsert dec fmt r x t rl"
| "on_row dec fmt (RUpdate r x n old) rl = OnUpdate dec fmt r x n old rl"
| "on_row dec fmt (RDelete r x old) rl = OnDelete dec fmt r x old rl"

fun row_change ::
  "'x decoder \<Rightarrow> ('x goval option \<Rightarrow> string) \<Rightarrow> 'x listener \<Rightarrow> row_msg \<Rightarrow> (u32 \<times> string \<times> 'x row WriteEntry) go_result" where
  "row_change dec fmt rl (RInsert r x t) =
     (case relations rl r of None \<Rightarrow> Inl relation_not_found
      | Some rel \<Rightarrow> bind_result (change_of fmt (rv_rel rel) Insert (read_row dec rel t rl) no_row rl)
          (\<lambda>c. Inr (xidFromMsgOrCurrent x rl, c)))"
| "row_change dec fmt rl (RUpdate r x n old) =
     (case relations rl r of None \<Rightarrow> Inl relation_not_found
      | Some rel \<Rightarrow> bind_result (change_of fmt (rv_rel rel) Update (read_row dec rel n rl) (read_row dec rel old rl) rl)
          (\<lambda>c. Inr (xidFromMsgOrCurrent x rl, c)))"
| "row_change dec fmt rl (RDelete r x old) =
     (case relations rl r of None \<Rightarrow> Inl relation_not_found
      | Some rel \<Rightarrow> bind_result (change_of fmt (rv_rel rel) Delete (read_row dec rel old rl) no_row rl)
          (\<lambda>c. Inr (xidFromMsgOrCurrent x rl, c)))"

lemma on_row_change:
  "on_row dec fmt m rl =
     bind_result (row_change dec fmt rl m)
       (\<lambda>(x, c). Inr (rl\<lparr>txCache := (txCache rl)(x \<mapsto> tx_store (fst c) (snd c) (cached rl x))\<rparr>))"
  by (cases m) (simp_all add: OnInsert_def OnUpdate_def OnDelete_def append_change bind_result_assoc split: option.split)

text \<open>A change reads only the relations, the tables, the configuration and the current transaction.\<close>

lemma row_change_frame: "row_change dec fmt (rl\<lparr>txCache := c\<rparr>) m = row_change dec fmt rl m"
proof -
  have "getTable (rl\<lparr>txCache := c\<rparr>) = getTable rl" by (simp add: getTable_def fun_eq_iff)
  then have "read_row dec rel t (rl\<lparr>txCache := c\<rparr>) = read_row dec rel t rl"
    "change_of fmt rm kind gd gp (rl\<lparr>txCache := c\<rparr>) = change_of fmt rm kind gd gp rl" for rel t rm kind gd gp
    by (simp_all add: read_row_def getReadIndexes_def change_of_def fun_eq_iff)
  then show ?thesis by (cases m) (simp_all add: xidFromMsgOrCurrent_def split: option.split)
qed

fun run_rows :: "'x decoder \<Rightarrow> ('x goval option \<Rightarrow> string) \<Rightarrow> row_msg list \<Rightarrow> 'x listener \<Rightarrow> 'x listener go_result" where
  "run_rows dec fmt [] rl = Inr rl"
| "run_rows dec fmt (m # ms) rl = bind_result (on_row dec fmt m rl) (run_rows dec fmt ms)"

definition changes_of :: "u32 \<Rightarrow> (u32 \<times> string \<times> 'x row WriteEntry) list \<Rightarrow> (string \<times> 'x row WriteEntry) list" where
  "changes_of x cs = map snd (filter (\<lambda>c. fst c = x) cs)"

lemma run_rows_changes:
  assumes "run_rows dec fmt ms rl = Inr rl'" "\<And>x. tl_view (cached rl x) (view x)"
  shows "\<exists>cs. list_all2 (\<lambda>m c. row_change dec fmt rl m = Inr c) ms cs \<and>
    (\<forall>x. tl_view (cached rl' x) (fold tx_put (changes_of x cs) (view x))) \<and>
    (\<exists>c. rl' = rl\<lparr>txCache := c\<rparr>) \<and> (\<forall>x. changes_of x cs = [] \<longrightarrow> txCache rl' x = txCache rl x) \<and>
    (\<forall>x. changes_of x cs \<noteq> [] \<longrightarrow> txCache rl' x \<noteq> None)"
  using assms
proof (induction ms arbitrary: rl view)
  case Nil
  then show ?case by (intro exI [of _ "[]"]) (auto simp: changes_of_def intro: exI [of _ "txCache rl"])
next
  case (Cons m ms)
  obtain x k e where c: "row_change dec fmt rl m = Inr (x, k, e)"
    and r1: "run_rows dec fmt ms (rl\<lparr>txCache := (txCache rl)(x \<mapsto> tx_store k e (cached rl x))\<rparr>) = Inr rl'"
    using Cons.prems(1) unfolding run_rows.simps on_row_change by auto
  let ?rl = "rl\<lparr>txCache := (txCache rl)(x \<mapsto> tx_store k e (cached rl x))\<rparr>"
  let ?view = "view(x := tx_put (k, e) (view x))"
  have "tl_view (cached ?rl y) (?view y)" for y
    using Cons.prems(2) view_tx_store [OF Cons.prems(2), of k e x] by (auto simp: cached_def)
  from Cons.IH [OF r1 this] obtain cs where cs: "list_all2 (\<lambda>m c. row_change dec fmt ?rl m = Inr c) ms cs"
    "\<And>y. tl_view (cached rl' y) (fold tx_put (changes_of y cs) (?view y))" "\<exists>c. rl' = ?rl\<lparr>txCache := c\<rparr>"
    "\<And>y. changes_of y cs = [] \<Longrightarrow> txCache rl' y = txCache ?rl y" "\<And>y. changes_of y cs \<noteq> [] \<Longrightarrow> txCache rl' y \<noteq> None"
    by blast
  have "list_all2 (\<lambda>m c. row_change dec fmt rl m = Inr c) (m # ms) ((x, k, e) # cs)"
    using cs(1) c by (simp add: row_change_frame)
  moreover have "tl_view (cached rl' y) (fold tx_put (changes_of y ((x, k, e) # cs)) (view y))" for y
    using cs(2) [of y] by (auto simp: changes_of_def split: if_splits)
  moreover have "\<exists>c. rl' = rl\<lparr>txCache := c\<rparr>" using cs(3) by auto
  moreover have "changes_of y ((x, k, e) # cs) = [] \<longrightarrow> txCache rl' y = txCache rl y"
    "changes_of y ((x, k, e) # cs) \<noteq> [] \<longrightarrow> txCache rl' y \<noteq> None" for y
    using cs(4,5) [of y] by (cases "changes_of y cs = []"; auto simp: changes_of_def split: if_splits)+
  ultimately show ?case by blast
qed


section \<open>Commit and abort\<close>

lemma row_change_kind:
  assumes "row_change dec fmt rl m = Inr (x, k, e)"
  shows "we_Kind e \<noteq> SnapshotRead"
  using assms by (cases m) (auto simp: change_of_def Let_def deref_def split: option.splits if_splits)

lemma tx_spec_kind:
  assumes "\<And>k e. (k, e) \<in> set cs \<Longrightarrow> we_Kind e \<noteq> SnapshotRead"
  shows "\<forall>x \<in> set (tx_spec cs). we_Kind (snd x) \<noteq> SnapshotRead"
proof -
  have "we_Kind (merged cs k) \<noteq> SnapshotRead" if k: "k \<in> fst ` set cs" for k
  proof -
    obtain e where e: "map_of cs k = Some e" using k map_of_eq_None_iff [of cs k] by (cases "map_of cs k") simp_all
    then show ?thesis using assms [OF map_of_SomeD [OF e]] by (simp add: merged_def)
  qed
  then show ?thesis by (auto simp: tx_spec_def)
qed

text \<open>The write request a transaction becomes.\<close>

definition tx_request :: "LSN \<Rightarrow> u32 \<Rightarrow> int \<Rightarrow> (string \<times> 'x row WriteEntry) list \<Rightarrow> 'x row WriteRequest" where
  "tx_request lsn xid time cs =
     \<lparr>wr_Entries = number_from 0 (map snd (tx_spec cs)), wr_LSN = lsn, wr_XID = xid, wr_CommitTime = time, wr_isSnapshot = False\<rparr>"

lemma send_request:
  assumes "tl_view (cached rl x) (tx_spec cs)" "\<And>k e. (k, e) \<in> set cs \<Longrightarrow> we_Kind e \<noteq> SnapshotRead"
  shows "sendToLSNTracker (txCache rl x) lsn xid time rl = Inr (sendWALRequestToLSNTracker (tx_request lsn xid time cs) rl)"
proof -
  obtain R where R: "tl_rep (cached rl x) R" "view_of R = tx_spec cs" using assms(1) by (auto simp: tl_view_def)
  have "map snd (view_of R) = map (snd \<circ> snd) R" by (simp add: view_of_def)
  then have "map snd (tl_entries (cached rl x)) = map snd (tx_spec cs)" using R by (simp add: tl_rep_def)
  moreover have "(case txCache rl x of None \<Rightarrow> [] | Some l \<Rightarrow> map snd (tl_entries l)) = map snd (tl_entries (cached rl x))"
    by (simp add: cached_def newTxList_def split: option.split)
  ultimately show ?thesis using tx_spec_kind [of cs] assms(2)
    by (simp add: sendToLSNTracker_def tx_request_def list_ex_iff)
qed

definition tx_wf :: "'x listener \<Rightarrow> bool" where
  "tx_wf rl \<longleftrightarrow> (\<forall>x. \<exists>v. tl_view (cached rl x) v)"

lemma run_rows_tx:
  assumes "run_rows dec fmt ms rl = Inr rl'" "tx_wf rl" "txCache rl x = None"
  shows "\<exists>cs. list_all2 (\<lambda>m c. row_change dec fmt rl m = Inr c) ms cs \<and> tl_view (cached rl' x) (tx_spec (changes_of x cs)) \<and>
    lsnTracker rl' = lsnTracker rl \<and> currentXID rl' = currentXID rl \<and> (\<forall>k e. (k, e) \<in> set (changes_of x cs) \<longrightarrow> we_Kind e \<noteq> SnapshotRead)"
proof -
  obtain view where v: "\<And>x. tl_view (cached rl x) (view x)" using assms(2) unfolding tx_wf_def by metis
  let ?view = "view(x := [])"
  have "tl_view (cached rl y) (?view y)" for y using v assms(3) by (simp add: cached_def)
  from run_rows_changes [OF assms(1) this] obtain cs where cs: "list_all2 (\<lambda>m c. row_change dec fmt rl m = Inr c) ms cs"
    "tl_view (cached rl' x) (fold tx_put (changes_of x cs) (?view x))" "\<exists>c. rl' = rl\<lparr>txCache := c\<rparr>" by blast
  have "we_Kind e \<noteq> SnapshotRead" if "(k, e) \<in> set (changes_of x cs)" for k e
  proof -
    have "(x, k, e) \<in> set cs" using that by (auto simp: changes_of_def)
    then obtain m where "row_change dec fmt rl m = Inr (x, k, e)" using cs(1) by (auto simp: list_all2_conv_all_nth in_set_conv_nth)
    then show ?thesis by (rule row_change_kind)
  qed
  then show ?thesis using cs by (auto simp: fold_tx_put)
qed

section \<open>Properties\<close>

text \<open>A listener that has received the relation of a table with one key column.\<close>

definition sample_relation :: RelationMessage where
  "sample_relation = \<lparr>rm_RelationID = 1, rm_Namespace = ''public'', rm_RelationName = ''t'', rm_Columns = [\<lparr>rc_Name = ''id'', rc_DataType = 2950\<rparr>]\<rparr>"

definition sample_pub :: PubTableRes where
  "sample_pub =
     (let t = count_columns (AddColumn \<lparr>col_Name = ''id'', TypeID = 2950, IsPK = True, Position = 1\<rparr> (NewTable ''public'' ''t''))
      in \<lparr>res_Tables = [(''public.t'', t)], TablesWithAllColumns = [(''public.t'', t)]\<rparr>)"

definition sample_listener :: "nat listener" where
  "sample_listener =
     projr (OnRelation (Inr sample_pub) \<lparr>tx_Save = False, tx_Name = []\<rparr> sample_relation
       (NewListener (NewListenerOptions ''pub'' PgNumericModeFloat ''app'') [] sample_cfg NewArena))"

fun sample_fmt :: "nat goval option \<Rightarrow> string" where
  "sample_fmt (Some (GStr s)) = s"
| "sample_fmt _ = ''<nil>''"

definition sample_cell :: "string \<Rightarrow> TupleCol list option" where
  "sample_cell s = Some [\<lparr>tc_DataType = CHR ''t'', tc_Data = s\<rparr>]"

definition sample_ops :: "row_msg list" where
  "sample_ops = [RInsert 1 9 (sample_cell ''7''), RInsert 1 8 (sample_cell ''5''), RDelete 1 9 (sample_cell ''7'')]"

lemma sample_run: "\<exists>rl'. run_rows sample_dec sample_fmt sample_ops sample_listener = Inr rl'"
proof -
  have "isl (run_rows sample_dec sample_fmt sample_ops sample_listener) = False" by code_simp
  then show ?thesis by (cases "run_rows sample_dec sample_fmt sample_ops sample_listener") auto
qed

lemma sample_listener_empty: "txCache sample_listener = Map.empty"
  by (simp add: sample_listener_def OnRelation_def LoadPubTables_def mergeConfigAndPubTables_def NewListener_def sample_pub_def Let_def
      getTable_def sample_relation_def MakeTableName_def NewTable_def AddColumn_def count_columns_def FullName_def deref_def)

lemma sample_listener_wf: "tx_wf sample_listener"
  by (auto simp: tx_wf_def cached_def sample_listener_empty intro: tl_view_new)

text \<open>
  (C8) A streamed transaction reaches the tracker whole: however the rows of other transactions
  are interleaved with its own, its commit hands over one request with one entry per changed row
  of this transaction, in the order of the last change of each row, each with the tuple of its
  last change and offsets counted from zero; the buffer of the transaction is dropped.
\<close>

theorem stream_commit_sends_transaction:
  assumes "run_rows dec fmt ms rl = Inr rl'" "tx_wf rl" "txCache rl x = None"
  shows "\<exists>cs rl''. list_all2 (\<lambda>m c. row_change dec fmt rl m = Inr c) ms cs \<and>
    OnStreamCommit x lsn time rl' = Inr rl'' \<and>
    lsnTracker rl'' = snd (Add (tx_request lsn x time (changes_of x cs)) (lsnTracker rl)) \<and> txCache rl'' x = None"
proof -
  obtain cs where cs: "list_all2 (\<lambda>m c. row_change dec fmt rl m = Inr c) ms cs" "tl_view (cached rl' x) (tx_spec (changes_of x cs))"
    "lsnTracker rl' = lsnTracker rl" "\<And>k e. (k, e) \<in> set (changes_of x cs) \<Longrightarrow> we_Kind e \<noteq> SnapshotRead"
    using run_rows_tx [OF assms] by blast
  note s = send_request [OF cs(2,4), where lsn = lsn and xid = x and time = time]
  show ?thesis using cs(1,3) s by (auto simp: OnStreamCommit_def sendWALRequestToLSNTracker_def)
qed

theorem stream_commit_sends_transaction_witness:
  "\<exists>rl' cs rl''. run_rows sample_dec sample_fmt sample_ops sample_listener = Inr rl' \<and> tx_wf sample_listener \<and>
     list_all2 (\<lambda>m c. row_change sample_dec sample_fmt sample_listener m = Inr c) sample_ops cs \<and>
     OnStreamCommit 9 100 0 rl' = Inr rl'' \<and>
     lsnTracker rl'' = snd (Add (tx_request 100 9 0 (changes_of 9 cs)) (lsnTracker sample_listener))"
proof -
  obtain rl' where r: "run_rows sample_dec sample_fmt sample_ops sample_listener = Inr rl'" using sample_run by blast
  have n: "txCache sample_listener 9 = None" by (simp add: sample_listener_empty)
  show ?thesis using stream_commit_sends_transaction [OF r sample_listener_wf n, of 100 0] r sample_listener_wf by blast
qed

text \<open>
  The same for a transaction that is not streamed: the rows between \<open>OnTxBegin\<close> and
  \<open>OnTxCommit\<close> carry no transaction id and belong to the current transaction.
\<close>

theorem commit_sends_transaction:
  assumes "run_rows dec fmt ms (OnTxBegin x rl) = Inr rl'" "tx_wf rl" "txCache rl x = None" "0 < x"
  shows "\<exists>cs rl''. list_all2 (\<lambda>m c. row_change dec fmt (OnTxBegin x rl) m = Inr c) ms cs \<and>
    OnTxCommit lsn time rl' = Inr rl'' \<and>
    lsnTracker rl'' = snd (Add (tx_request lsn x time (changes_of x cs)) (lsnTracker rl)) \<and>
    txCache rl'' x = None \<and> currentXID rl'' = 0"
proof -
  have b: "tx_wf (OnTxBegin x rl)" "txCache (OnTxBegin x rl) x = None" "currentXID (OnTxBegin x rl) = x"
    using assms(2,3) by (simp_all add: tx_wf_def cached_def OnTxBegin_def)
  obtain cs where cs: "list_all2 (\<lambda>m c. row_change dec fmt (OnTxBegin x rl) m = Inr c) ms cs"
    "tl_view (cached rl' x) (tx_spec (changes_of x cs))"
    "lsnTracker rl' = lsnTracker rl" "currentXID rl' = x" "\<And>k e. (k, e) \<in> set (changes_of x cs) \<Longrightarrow> we_Kind e \<noteq> SnapshotRead"
    using run_rows_tx [OF assms(1) b(1,2)] b(3) by (auto simp: OnTxBegin_def)
  note s = send_request [OF cs(2,5), where lsn = lsn and xid = x and time = time]
  show ?thesis using cs(1,3,4) s assms(4) by (auto simp: OnTxCommit_def sendWALRequestToLSNTracker_def)
qed

definition sample_tx_ops :: "row_msg list" where
  "sample_tx_ops = [RInsert 1 0 (sample_cell ''7''), RUpdate 1 0 (sample_cell ''7'') None]"

theorem commit_sends_transaction_witness:
  "\<exists>rl' cs rl''. run_rows sample_dec sample_fmt sample_tx_ops (OnTxBegin 9 sample_listener) = Inr rl' \<and>
     list_all2 (\<lambda>m c. row_change sample_dec sample_fmt (OnTxBegin 9 sample_listener) m = Inr c) sample_tx_ops cs \<and>
     OnTxCommit 100 0 rl' = Inr rl'' \<and>
     lsnTracker rl'' = snd (Add (tx_request 100 9 0 (changes_of 9 cs)) (lsnTracker sample_listener))"
proof -
  have "isl (run_rows sample_dec sample_fmt sample_tx_ops (OnTxBegin 9 sample_listener)) = False" by code_simp
  then obtain rl' where r: "run_rows sample_dec sample_fmt sample_tx_ops (OnTxBegin 9 sample_listener) = Inr rl'"
    by (cases "run_rows sample_dec sample_fmt sample_tx_ops (OnTxBegin 9 sample_listener)") auto
  have n: "txCache sample_listener 9 = None" "(0 :: u32) < 9" by (simp_all add: sample_listener_empty)
  show ?thesis using commit_sends_transaction [OF r sample_listener_wf n, of 100 0] r by blast
qed

lemma row_change_other: "row_change dec fmt (OnStreamAbort x rl) m = row_change dec fmt rl m"
  using row_change_frame [where rl = rl and c = "(txCache rl)(x := None)"] by (simp add: OnStreamAbort_def)

lemma cached_abort: "cached (OnStreamAbort x rl) y = (if y = x then newTxList else cached rl y)"
  by (simp add: cached_def OnStreamAbort_def)

text \<open>What the buffers hold after rows, an abort and more rows.\<close>

lemma abort_changes:
  assumes "run_rows dec fmt ms1 rl = Inr rl1" "run_rows dec fmt ms2 (OnStreamAbort x rl1) = Inr rl2" "tx_wf rl" "y = x \<or> txCache rl y = None"
  shows "\<exists>cs1 cs2. list_all2 (\<lambda>m c. row_change dec fmt rl m = Inr c) ms1 cs1 \<and> list_all2 (\<lambda>m c. row_change dec fmt rl m = Inr c) ms2 cs2 \<and>
    tl_view (cached rl2 y) (tx_spec (changes_of y (if y = x then cs2 else cs1 @ cs2))) \<and> lsnTracker rl2 = lsnTracker rl"
proof -
  obtain view where v: "\<And>z. tl_view (cached rl z) (view z)" using assms(3) unfolding tx_wf_def by metis
  let ?view = "if y = x then view else view(y := [])"
  have "tl_view (cached rl z) (?view z)" for z using v assms(4) by (auto simp: cached_def)
  from run_rows_changes [OF assms(1) this] obtain cs1 where c1: "list_all2 (\<lambda>m c. row_change dec fmt rl m = Inr c) ms1 cs1"
      "\<And>z. tl_view (cached rl1 z) (fold tx_put (changes_of z cs1) (?view z))" "\<exists>c. rl1 = rl\<lparr>txCache := c\<rparr>" by blast
  let ?view1 = "(\<lambda>z. fold tx_put (changes_of z cs1) (?view z))(x := [])"
  have "tl_view (cached (OnStreamAbort x rl1) z) (?view1 z)" for z using c1(2) by (simp add: cached_abort)
  from run_rows_changes [OF assms(2) this] obtain cs2 where c2: "list_all2 (\<lambda>m c. row_change dec fmt (OnStreamAbort x rl1) m = Inr c) ms2 cs2"
      "tl_view (cached rl2 y) (fold tx_put (changes_of y cs2) (?view1 y))" "\<exists>c. rl2 = (OnStreamAbort x rl1)\<lparr>txCache := c\<rparr>" by blast
  have "list_all2 (\<lambda>m c. row_change dec fmt rl m = Inr c) ms2 cs2" using c2(1) c1(3) by (auto simp: row_change_other row_change_frame)
  moreover have "fold tx_put (changes_of y cs2) (?view1 y) = tx_spec (changes_of y (if y = x then cs2 else cs1 @ cs2))"
    by (cases "y = x") (simp_all add: fold_tx_put [symmetric] changes_of_def)
  moreover have "lsnTracker rl2 = lsnTracker rl" using c1(3) c2(3) by (auto simp: OnStreamAbort_def)
  ultimately show ?thesis using c1(1) c2(2) by (intro exI [of _ cs1] exI [of _ cs2]) simp
qed

text \<open>
  (C9) An abort discards exactly the rows buffered under the aborted id so far. When rows of several transactions arrive, one
  is aborted, and more rows arrive, then the commit of a transaction hands the tracker one request: for the
  aborted id with the changes that came after the abort only, for every other id with all its changes, before and
  after, as if there had been no abort. (The id is \<open>Xid\<close>; the code does not read the \<open>SubXid\<close> of the message.)
\<close>

theorem abort_discards:
  assumes "run_rows dec fmt ms1 rl = Inr rl1" "run_rows dec fmt ms2 (OnStreamAbort x rl1) = Inr rl2" "tx_wf rl" "y = x \<or> txCache rl y = None"
  shows "\<exists>cs1 cs2 rl3. list_all2 (\<lambda>m c. row_change dec fmt rl m = Inr c) ms1 cs1 \<and> list_all2 (\<lambda>m c. row_change dec fmt rl m = Inr c) ms2 cs2 \<and>
    OnStreamCommit y lsn time rl2 = Inr rl3 \<and> txCache rl3 y = None \<and>
    lsnTracker rl3 = snd (Add (tx_request lsn y time (changes_of y (if y = x then cs2 else cs1 @ cs2))) (lsnTracker rl))"
proof -
  obtain cs1 cs2 where cs: "list_all2 (\<lambda>m c. row_change dec fmt rl m = Inr c) ms1 cs1" "list_all2 (\<lambda>m c. row_change dec fmt rl m = Inr c) ms2 cs2"
    "tl_view (cached rl2 y) (tx_spec (changes_of y (if y = x then cs2 else cs1 @ cs2)))" "lsnTracker rl2 = lsnTracker rl"
    using abort_changes [OF assms] by blast
  let ?cs = "if y = x then cs2 else cs1 @ cs2"
  have "we_Kind e \<noteq> SnapshotRead" if k: "(k, e) \<in> set (changes_of y ?cs)" for k e
  proof -
    have "(y, k, e) \<in> set cs1 \<or> (y, k, e) \<in> set cs2" using k by (auto simp: changes_of_def split: if_splits)
    then obtain m where "row_change dec fmt rl m = Inr (y, k, e)" using cs(1,2) by (auto simp: list_all2_conv_all_nth in_set_conv_nth)
    then show ?thesis by (rule row_change_kind)
  qed
  from send_request [OF cs(3) this, where lsn = lsn and xid = y and time = time]
  have "OnStreamCommit y lsn time rl2 = Inr ((sendWALRequestToLSNTracker (tx_request lsn y time (changes_of y ?cs)) rl2)\<lparr>txCache := (txCache rl2)(y := None)\<rparr>)"
    by (simp add: OnStreamCommit_def sendWALRequestToLSNTracker_def)
  then show ?thesis using cs(1,2,4) by (intro exI [of _ cs1] exI [of _ cs2] exI conjI) (auto simp: sendWALRequestToLSNTracker_def)
qed

theorem abort_discards_witness:
  "\<exists>rl1 rl2 cs1 cs2 rl3. run_rows sample_dec sample_fmt sample_ops sample_listener = Inr rl1 \<and> tl_Len (cached rl1 9) = 1 \<and>
     run_rows sample_dec sample_fmt sample_ops (OnStreamAbort 9 rl1) = Inr rl2 \<and> length cs1 = 3 \<and> length cs2 = 3 \<and> OnStreamCommit 8 100 0 rl2 = Inr rl3 \<and>
     lsnTracker rl3 = snd (Add (tx_request 100 8 0 (changes_of 8 (cs1 @ cs2))) (lsnTracker sample_listener))"
proof -
  define r where "r = run_rows sample_dec sample_fmt sample_ops sample_listener"
  define run where "run = bind_result r (\<lambda>rl1. bind_result (run_rows sample_dec sample_fmt sample_ops (OnStreamAbort 9 rl1)) (\<lambda>rl2. Inr (tl_Len (cached rl1 9) = 1)))"
  have "map_sum (\<lambda>_. ()) id run = Inr True" unfolding run_def r_def by code_simp
  then have "run = Inr True" by (cases run) auto
  then obtain rl1 rl2 where s: "r = Inr rl1" "run_rows sample_dec sample_fmt sample_ops (OnStreamAbort 9 rl1) = Inr rl2" "tl_Len (cached rl1 9) = 1"
    unfolding run_def by auto
  have n: "8 = (9 :: u32) \<or> txCache sample_listener 8 = None" by (simp add: sample_listener_empty)
  obtain cs1 cs2 rl3 where c: "list_all2 (\<lambda>m c. row_change sample_dec sample_fmt sample_listener m = Inr c) sample_ops cs1"
      "list_all2 (\<lambda>m c. row_change sample_dec sample_fmt sample_listener m = Inr c) sample_ops cs2" "OnStreamCommit 8 100 0 rl2 = Inr rl3"
      "lsnTracker rl3 = snd (Add (tx_request 100 8 0 (changes_of 8 (if (8 :: u32) = 9 then cs2 else cs1 @ cs2))) (lsnTracker sample_listener))"
    using abort_discards [OF s(1) [unfolded r_def] s(2) sample_listener_wf n, of 100 0] by blast
  have "length cs1 = 3" "length cs2 = 3" using c(1,2) by (auto simp: sample_ops_def dest!: list_all2_lengthD)
  then show ?thesis using s c(3,4) unfolding r_def by (intro exI [of _ rl1] exI [of _ rl2] exI [of _ cs1] exI [of _ cs2] exI [of _ rl3]) simp
qed

text \<open>The key under which a change is kept is made of the table and the primary key of its entry.\<close>

lemma row_change_key:
  assumes "row_change dec fmt rl m = Inr (x, k, e)"
  shows "k = tn_FullName (we_Table e) @ '':'' @ we_PK e"
  using assms by (cases m) (auto simp: change_of_def FullName_def Let_def deref_def split: option.splits if_splits)

lemma filter_number_from:
  assumes "\<And>e i. P (e\<lparr>we_Offset := i\<rparr>) = P e"
  shows "map (\<lambda>e. e\<lparr>we_Offset := 0\<rparr>) (filter P (number_from i es)) = map (\<lambda>e. e\<lparr>we_Offset := 0\<rparr>) (filter P es)"
  using assms by (induction es arbitrary: i) simp_all

lemma filter_remdups_one: "k \<in> set ks \<Longrightarrow> filter (\<lambda>k'. k' = k) (remdups ks) = [k]"
  by (induction ks) (auto simp: filter_empty_conv)

text \<open>The entry of a request for the row that a change belongs to.\<close>

lemma tx_request_entry:
  assumes "map_of cs k = Some e1" "\<And>k e. (k, e) \<in> set cs \<Longrightarrow> k = tn_FullName (we_Table e) @ '':'' @ we_PK e"
  shows "\<exists>e. filter (\<lambda>e. we_Table e = we_Table e1 \<and> we_PK e = we_PK e1) (wr_Entries (tx_request lsn xid time cs)) = [e] \<and>
    we_Kind e = we_Kind e1 \<and> we_PrevTuple e = we_PrevTuple e1"
proof -
  let ?P = "\<lambda>e. we_Table e = we_Table e1 \<and> we_PK e = we_PK e1"
  have k: "(k, e1) \<in> set cs" using assms(1) by (rule map_of_SomeD)
  have "?P (merged cs k') \<longleftrightarrow> k' = k" if "k' \<in> set (remdups (map fst cs))" for k'
  proof -
    have "map_of cs k' \<noteq> None" using that unfolding map_of_eq_None_iff set_remdups set_map by simp
    then obtain e' where e': "map_of cs k' = Some e'" by blast
    have m: "we_Table (merged cs k') = we_Table e'" "we_PK (merged cs k') = we_PK e'" using e' by (simp_all add: merged_def)
    have names: "k' = tn_FullName (we_Table e') @ '':'' @ we_PK e'" "k = tn_FullName (we_Table e1) @ '':'' @ we_PK e1"
      by (rule assms(2) [OF map_of_SomeD [OF e']], rule assms(2) [OF k])
    show ?thesis
    proof
      assume "?P (merged cs k')"
      then show "k' = k" using names m by simp
    next
      assume "k' = k"
      then show "?P (merged cs k')" using e' assms(1) m by simp
    qed
  qed
  then have "filter (\<lambda>k'. ?P (merged cs k')) (remdups (map fst cs)) = filter (\<lambda>k'. k' = k) (remdups (map fst cs))"
    by (intro filter_cong refl) blast
  then have "filter ?P (map snd (tx_spec cs)) = map (merged cs) (filter (\<lambda>k'. k' = k) (remdups (map fst cs)))"
    by (simp add: tx_spec_def filter_map comp_def)
  also have "filter (\<lambda>k'. k' = k) (remdups (map fst cs)) = [k]"
    using k by (intro filter_remdups_one) force
  finally have "map (\<lambda>e. e\<lparr>we_Offset := 0\<rparr>) (filter ?P (number_from 0 (map snd (tx_spec cs)))) = [(merged cs k)\<lparr>we_Offset := 0\<rparr>]"
    by (subst filter_number_from) simp_all
  then obtain e where e: "filter ?P (number_from 0 (map snd (tx_spec cs))) = [e]" "e\<lparr>we_Offset := 0\<rparr> = (merged cs k)\<lparr>we_Offset := 0\<rparr>" by auto
  have "we_Kind (e\<lparr>we_Offset := 0\<rparr>) = we_Kind e1" "we_PrevTuple (e\<lparr>we_Offset := 0\<rparr>) = we_PrevTuple e1"
    unfolding e(2) using assms(1) by (simp_all add: merged_def)
  then show ?thesis using e(1) by (simp add: tx_request_def)
qed

text \<open>
  (C34) The kind of a row that changes more than once in one transaction is the kind of its first change: when the rows of a
  transaction are received and it is committed, the request handed to the tracker has one entry for the row, with
  the kind and the old tuple of the first change. A row that is inserted and
  deleted in one transaction is sent as an insert, and one that is updated and then deleted as an
  update, so the delete never reaches the downstream.
\<close>

theorem kind_of_first_change:
  assumes "run_rows dec fmt (ms1 @ m # ms2) rl = Inr rl'" "tx_wf rl" "txCache rl x = None" "row_change dec fmt rl m = Inr (x, k, e1)"
    and "\<And>m' e. m' \<in> set ms1 \<Longrightarrow> row_change dec fmt rl m' \<noteq> Inr (x, k, e)"
  shows "\<exists>req rl'' e. OnStreamCommit x lsn time rl' = Inr rl'' \<and> lsnTracker rl'' = snd (Add req (lsnTracker rl)) \<and> wr_LSN req = lsn \<and>
    filter (\<lambda>e. we_Table e = we_Table e1 \<and> we_PK e = we_PK e1) (wr_Entries req) = [e] \<and> we_Kind e = we_Kind e1 \<and> we_PrevTuple e = we_PrevTuple e1"
proof -
  obtain cs where cs: "list_all2 (\<lambda>m c. row_change dec fmt rl m = Inr c) (ms1 @ m # ms2) cs" "tl_view (cached rl' x) (tx_spec (changes_of x cs))"
    "lsnTracker rl' = lsnTracker rl" "\<And>k e. (k, e) \<in> set (changes_of x cs) \<Longrightarrow> we_Kind e \<noteq> SnapshotRead"
    using run_rows_tx [OF assms(1-3)] by blast
  obtain cs1 cs2 where c: "cs = cs1 @ (x, k, e1) # cs2" "list_all2 (\<lambda>m c. row_change dec fmt rl m = Inr c) ms1 cs1"
    using cs(1) assms(4) by (auto simp: list_all2_append1 list_all2_Cons1)
  have all: "\<exists>m. row_change dec fmt rl m = Inr c" if "c \<in> set cs" for c
    using cs(1) that by (auto simp: list_all2_conv_all_nth in_set_conv_nth)
  have "(x, k, e) \<notin> set cs1" for e
  proof
    assume "(x, k, e) \<in> set cs1"
    then obtain i where "i < length cs1" "cs1 ! i = (x, k, e)" by (auto simp: in_set_conv_nth)
    then have "ms1 ! i \<in> set ms1" "row_change dec fmt rl (ms1 ! i) = Inr (x, k, e)" using c(2) by (auto simp: list_all2_conv_all_nth)
    then show False using assms(5) by blast
  qed
  then have "map_of (changes_of x cs) k = Some e1"
    by (auto simp: c(1) changes_of_def map_add_def split: option.split dest!: map_of_SomeD)
  moreover have "k' = tn_FullName (we_Table e) @ '':'' @ we_PK e" if "(k', e) \<in> set (changes_of x cs)" for k' e
    using all [of "(x, k', e)"] that row_change_key by (fastforce simp: changes_of_def)
  ultimately obtain e where e: "filter (\<lambda>e. we_Table e = we_Table e1 \<and> we_PK e = we_PK e1) (wr_Entries (tx_request lsn x time (changes_of x cs))) = [e]"
    "we_Kind e = we_Kind e1" "we_PrevTuple e = we_PrevTuple e1" using tx_request_entry [of "changes_of x cs" k e1 lsn x time] by blast
  note send = send_request [OF cs(2,4), where lsn = lsn and xid = x and time = time]
  obtain rl'' where "OnStreamCommit x lsn time rl' = Inr rl''" "lsnTracker rl'' = snd (Add (tx_request lsn x time (changes_of x cs)) (lsnTracker rl))"
    using send cs(3) by (auto simp: OnStreamCommit_def sendWALRequestToLSNTracker_def)
  then show ?thesis using e by (intro exI [of _ "tx_request lsn x time (changes_of x cs)"] exI [of _ rl''] exI [of _ e]) (simp add: tx_request_def)
qed

theorem kind_of_first_change_witness:
  "\<exists>rl' rl'' req e. run_rows sample_dec sample_fmt sample_ops sample_listener = Inr rl' \<and> OnStreamCommit 9 100 0 rl' = Inr rl'' \<and>
     lsnTracker rl'' = snd (Add req (lsnTracker sample_listener)) \<and> e \<in> set (wr_Entries req) \<and> we_Kind e = Insert"
proof -
  obtain rl' where r: "run_rows sample_dec sample_fmt sample_ops sample_listener = Inr rl'" using sample_run by blast
  have "map_sum (\<lambda>_. ()) (\<lambda>(x, k, e). (x, k, we_Kind e)) (row_change sample_dec sample_fmt sample_listener (hd sample_ops)) =
      Inr (9, ''public.t:7'', Insert)" by code_simp
  then obtain e1 where e1: "row_change sample_dec sample_fmt sample_listener (hd sample_ops) = Inr (9, ''public.t:7'', e1)" "we_Kind e1 = Insert"
    by (cases "row_change sample_dec sample_fmt sample_listener (hd sample_ops)") auto
  have ops: "sample_ops = [] @ hd sample_ops # tl sample_ops" by (simp add: sample_ops_def)
  have n: "txCache sample_listener 9 = None" by (simp add: sample_listener_empty)
  have run: "run_rows sample_dec sample_fmt ([] @ hd sample_ops # tl sample_ops) sample_listener = Inr rl'"
    by (subst ops [symmetric]) (rule r)
  obtain req rl'' e where q: "OnStreamCommit 9 100 0 rl' = Inr rl''" "lsnTracker rl'' = snd (Add req (lsnTracker sample_listener))"
      "filter (\<lambda>e. we_Table e = we_Table e1 \<and> we_PK e = we_PK e1) (wr_Entries req) = [e]" "we_Kind e = we_Kind e1"
    using kind_of_first_change [OF run sample_listener_wf n e1(1), of 100 0] by auto
  then have "e \<in> set (wr_Entries req)" using filter_is_subset [of "\<lambda>e. we_Table e = we_Table e1 \<and> we_PK e = we_PK e1" "wr_Entries req"] by simp
  then show ?thesis using r q(1,2,4) e1(2) by (intro exI [of _ rl'] exI [of _ rl''] exI [of _ req] exI [of _ e]) simp
qed

text \<open>
  (C35) The tracker knows a transaction by its LSN alone. A streamed transaction is added under
  the start of its commit record, one that is not streamed under the end of it, and the end of one
  record is the start of the next: when a write with the LSN of a streamed commit is already
  tracked without failures, or that LSN is already confirmed, the commit drops the rows of the
  streamed transaction without handing them to the tracker.
\<close>

theorem stream_commit_lost_on_equal_lsn:
  assumes "OnStreamCommit x lsn time rl = Inr rl'"
    and "isAcknowledged (lsnTracker rl) lsn \<or>
      (\<exists>a. findTrackedWrite (lsnTracker rl) lsn = Some a \<and> \<not> hasFailures (tw_at (lsnTracker rl) a))"
  shows "lsnTracker rl' = lsnTracker rl \<and> txCache rl' x = None"
  using assms
  by (auto simp: OnStreamCommit_def sendToLSNTracker_def sendWALRequestToLSNTracker_def Add_def Let_def split: if_splits)

theorem stream_commit_lost_on_equal_lsn_witness:
  "\<exists>rl1 rl2 rl3. run_rows sample_dec sample_fmt sample_ops sample_listener = Inr rl1 \<and> tl_Len (cached rl1 9) = 1 \<and>
     OnTxCommit 100 0 (OnTxBegin 7 rl1) = Inr rl2 \<and> OnStreamCommit 9 100 0 rl2 = Inr rl3 \<and>
     lsnTracker rl3 = lsnTracker rl2 \<and> txCache rl3 9 = None"
proof -
  define r where "r = run_rows sample_dec sample_fmt sample_ops sample_listener"
  define run where "run = bind_result r (\<lambda>rl1. bind_result (OnTxCommit 100 0 (OnTxBegin 7 rl1)) (\<lambda>rl2.
      bind_result (OnStreamCommit 9 100 0 rl2) (\<lambda>rl3. Inr (tl_Len (cached rl1 9) = 1 \<and>
        findTrackedWrite (lsnTracker rl2) 100 = Some 0 \<and> \<not> hasFailures (tw_at (lsnTracker rl2) 0)))))"
  have "map_sum (\<lambda>_. ()) id run = Inr True" unfolding run_def r_def by code_simp
  then have "run = Inr True" by (cases run) auto
  then obtain rl1 rl2 rl3 where s: "r = Inr rl1" "OnTxCommit 100 0 (OnTxBegin 7 rl1) = Inr rl2" "OnStreamCommit 9 100 0 rl2 = Inr rl3"
    "tl_Len (cached rl1 9) = 1" "findTrackedWrite (lsnTracker rl2) 100 = Some 0" "\<not> hasFailures (tw_at (lsnTracker rl2) 0)"
    unfolding run_def by auto
  show ?thesis using stream_commit_lost_on_equal_lsn [OF s(3)] s(1-6) unfolding r_def by blast
qed

end
