(* ===== verification/Rediscommand.thy ===== *)
theory Rediscommand
  imports Jsonparsing Appconfig
begin

text \<open>
  \<open>pg2redis/redis_command.go\<close>: the arguments of a Redis command are compiled once into closures
  of type \<open>redisCompiledCommand\<close>, here the constructors of a datatype, and run twice for every
  entry: first to get the number of cells they need, then to write them. The formatting of
  numbers and instants, floating-point arithmetic and the JSON encoder are a record of
  functions, an argument of the definitions that use them.
\<close>

section \<open>Placeholders\<close>

text \<open>The two markers and the text they stand for.\<close>

abbreviation open_mark :: char where
  "open_mark \<equiv> CHR 0x00"

abbreviation close_mark :: char where
  "close_mark \<equiv> CHR 0x01"

definition unmark :: "string \<Rightarrow> string" where
  "unmark = map (\<lambda>c. if c = open_mark then CHR ''{'' else if c = close_mark then CHR ''}'' else c)"

definition brace :: "char \<Rightarrow> bool" where
  "brace c \<longleftrightarrow> c = CHR ''{'' \<or> c = CHR ''}''"

text \<open>
  The matches of \<open>placeholderRegExp\<close>, an opening brace, one or more characters that are no
  braces and a closing brace, from left to right, with the text between them.
\<close>

datatype piece = Text string | Match string

text \<open>The content of a match that starts right after an opening brace, and what follows it.\<close>

definition match_at :: "string \<Rightarrow> (string \<times> string) option" where
  "match_at s =
     (let body = takeWhile (\<lambda>c. \<not> brace c) s; rest = dropWhile (\<lambda>c. \<not> brace c) s in
      if body \<noteq> [] \<and> rest \<noteq> [] \<and> hd rest = CHR ''}'' then Some (body, tl rest) else None)"

lemma match_at_length: "match_at s = Some (body, rest) \<Longrightarrow> length rest < length s"
proof -
  assume "match_at s = Some (body, rest)"
  then have "rest = tl (dropWhile (\<lambda>c. \<not> brace c) s)" "dropWhile (\<lambda>c. \<not> brace c) s \<noteq> []"
    by (auto simp: match_at_def Let_def split: if_splits)
  then show ?thesis using length_dropWhile_le [of "\<lambda>c. \<not> brace c" s]
    by (metis diff_less length_greater_0_conv length_tl less_le_trans zero_less_one)
qed

function pieces :: "string \<Rightarrow> string \<Rightarrow> piece list" where
  "pieces acc [] = (if acc = [] then [] else [Text acc])"
| "pieces acc (c # s) =
     (case (if c = CHR ''{'' then match_at s else None) of
        Some (body, rest) \<Rightarrow> (if acc = [] then [] else [Text acc]) @ Match body # pieces [] rest
      | None \<Rightarrow> pieces (acc @ [c]) s)"
  by pat_completeness auto
termination
  by (relation "measure (\<lambda>(acc, s). length s)")
    (auto split: if_splits dest: match_at_length [THEN less_SucI])

section \<open>Values\<close>

record ('x, 'f) host =
  format_value :: "'x goval \<Rightarrow> string"
  format_time :: "int \<Rightarrow> string"
  float_of :: "'x goval \<Rightarrow> 'f option"
  float_zero :: 'f
  float_sub :: "'f \<Rightarrow> 'f \<Rightarrow> 'f"
  encode_value :: "'x goval option \<Rightarrow> string go_result"
  encode_key :: "string \<Rightarrow> string go_result"

text \<open>The cells of an argument array: strings, the float of a difference, or nil.\<close>

datatype 'f arg = NilArg | StrArg string | FloatArg 'f

type_synonym 'x entry = "'x goval OrderedMap WriteEntry"

definition stringifyForRedis :: "('x, 'f) host \<Rightarrow> 'x goval option \<Rightarrow> string" where
  "stringifyForRedis h v =
     (case v of
        None \<Rightarrow> ''<nil>''
      | Some (GBool b) \<Rightarrow> if b then ''1'' else ''0''
      | Some (GStr s) \<Rightarrow> s
      | Some w \<Rightarrow> format_value h w)"

text \<open>\<open>convertToFloat64\<close>: nil and values of no numeric type give zero with an error or a flag.\<close>

definition convertToFloat64 :: "('x, 'f) host \<Rightarrow> 'x goval option \<Rightarrow> 'f" where
  "convertToFloat64 h v =
     (case v of None \<Rightarrow> float_zero h
      | Some w \<Rightarrow> (case float_of h w of None \<Rightarrow> float_zero h | Some f \<Rightarrow> f))"

text \<open>
  Method calls on the tuple of an entry: a nil interface and an interface around a nil map are
  both a nil dereference.
\<close>

fun tuple_of :: "'v OrderedMap EntryTuple \<Rightarrow> 'v OrderedMap go_result" where
  "tuple_of (Tup om) = Inr om"
| "tuple_of _ = Inl nil_panic"

definition tuple_Get :: "'v OrderedMap EntryTuple \<Rightarrow> string \<Rightarrow> ('v option \<times> bool) go_result" where
  "tuple_Get t k = bind_result (tuple_of t) (\<lambda>om. om_Get om k)"

section \<open>Compilation\<close>

datatype template_part =
  PartLiteral string | PartTable | PartSchema | PartXid | PartPK | PartOld string | PartColumn string string

datatype redisCompiledCommand =
  LiteralCommand string | PairsStar | PairsSubset "string list" | ColumnsStar
  | JsonStar | JsonSubset "string list" | DiffCommand string | TemplateCommand "template_part list"

definition placeholderTemplatePart :: "string \<Rightarrow> template_part" where
  "placeholderTemplatePart content =
     (if content = ''%table%'' then PartTable
      else if content = ''%schema%'' then PartSchema
      else if content = ''%xid%'' then PartXid
      else if content = ''%pk%'' then PartPK
      else let colName = TrimSpace content in
        if has_prefix ''old:'' colName then PartOld (drop 4 colName)
        else PartColumn colName (''{'' @ content @ ''}''))"

fun part_of_piece :: "piece \<Rightarrow> template_part" where
  "part_of_piece (Text s) = PartLiteral (unmark s)"
| "part_of_piece (Match content) = placeholderTemplatePart content"

fun is_match :: "piece \<Rightarrow> bool" where
  "is_match (Match _) = True"
| "is_match (Text _) = False"

definition compileTemplateCommand :: "string \<Rightarrow> redisCompiledCommand" where
  "compileTemplateCommand pattern =
     (let ps = pieces [] pattern in
      if list_ex is_match ps then TemplateCommand (map part_of_piece ps) else LiteralCommand (unmark pattern))"

definition splitPlaceholderColumns :: "string \<Rightarrow> string list" where
  "splitPlaceholderColumns s = map TrimSpace (split_on (CHR '','') s)"

text \<open>The content of a pattern of the form \<open>{pfx...}\<close> with no further opening brace.\<close>

definition placeholder_body :: "string \<Rightarrow> string \<Rightarrow> string option" where
  "placeholder_body pfx pattern =
     (if has_prefix pfx pattern \<and> pattern \<noteq> [] \<and> last pattern = CHR ''}'' \<and>
         CHR ''{'' \<notin> set (butlast (drop (length pfx) pattern))
      then Some (butlast (drop (length pfx) pattern)) else None)"

definition compileCommand :: "string \<Rightarrow> redisCompiledCommand" where
  "compileCommand pattern =
     (if pattern = ''{pairs:*}'' then PairsStar
      else case placeholder_body ''{pairs:'' pattern of
        Some cols \<Rightarrow> PairsSubset (splitPlaceholderColumns cols)
      | None \<Rightarrow>
        if pattern = ''{columns:*}'' then ColumnsStar
        else if pattern = ''{json:*}'' then JsonStar
        else case placeholder_body ''{json:'' pattern of
          Some cols \<Rightarrow> JsonSubset (splitPlaceholderColumns cols)
        | None \<Rightarrow>
          case placeholder_body ''{diff:'' pattern of
            Some col \<Rightarrow> DiffCommand (TrimSpace col)
          | None \<Rightarrow>
            compileTemplateCommand
              (replace_double (CHR ''}'') close_mark (replace_double (CHR ''{'') open_mark pattern)))"

section \<open>Running a compiled argument\<close>

definition part_value :: "('x, 'f) host \<Rightarrow> 'x entry \<Rightarrow> u32 \<Rightarrow> template_part \<Rightarrow> string go_result" where
  "part_value h entry xid part =
     (case part of
        PartLiteral s \<Rightarrow> Inr s
      | PartTable \<Rightarrow> Inr (tn_Name (we_Table entry))
      | PartSchema \<Rightarrow> Inr (tn_Schema (we_Table entry))
      | PartXid \<Rightarrow> Inr (format_uint (unat xid))
      | PartPK \<Rightarrow> Inr (we_PK entry)
      | PartOld col \<Rightarrow>
          (if is_nil (we_PrevTuple entry) then Inr []
           else bind_result (tuple_Get (we_PrevTuple entry) col) (\<lambda>(v, ok).
             Inr (if ok then stringifyForRedis h v else [])))
      | PartColumn col match \<Rightarrow>
          bind_result (tuple_Get (we_Tuple entry) col) (\<lambda>(v, ok).
            Inr (if ok then stringifyForRedis h v else match)))"

fun template_value :: "('x, 'f) host \<Rightarrow> 'x entry \<Rightarrow> u32 \<Rightarrow> template_part list \<Rightarrow> string go_result" where
  "template_value h entry xid [] = Inr []"
| "template_value h entry xid (p # ps) =
     bind_result (part_value h entry xid p) (\<lambda>s.
       bind_result (template_value h entry xid ps) (\<lambda>t. Inr (s @ t)))"

text \<open>The first pass: how many cells the argument takes.\<close>

definition eval_arg :: "TxCommitTimeOptions \<Rightarrow> 'x entry \<Rightarrow> redisCompiledCommand \<Rightarrow> u32 go_result" where
  "eval_arg opts entry cmd =
     (case cmd of
        PairsStar \<Rightarrow> bind_result (tuple_of (we_Tuple entry)) (\<lambda>om.
          Inr (om_Size om * 2 + (if tx_Save opts then 2 else 0)))
      | PairsSubset cols \<Rightarrow> Inr (of_nat (length cols * 2))
      | ColumnsStar \<Rightarrow> bind_result (tuple_of (we_Tuple entry)) (\<lambda>om.
          Inr (om_Size om + (if tx_Save opts then 1 else 0)))
      | _ \<Rightarrow> Inr 1)"

text \<open>The second pass: writing cells from \<open>startAt\<close> on. It gives the next free cell and the array.\<close>

fun write_cells :: "'f arg list \<Rightarrow> 'f arg list \<times> u32 \<Rightarrow> ('f arg list \<times> u32) go_result" where
  "write_cells [] st = Inr st"
| "write_cells (v # vs) (arr, startAt) =
     bind_result (slice_set arr (unat startAt) v) (\<lambda>arr'. write_cells vs (arr', startAt + 1))"

definition pair_cells :: "('x, 'f) host \<Rightarrow> (string \<times> 'x goval option) list \<Rightarrow> 'f arg list" where
  "pair_cells h kvs = concat (map (\<lambda>(k, v). [StrArg k, StrArg (stringifyForRedis h v)]) kvs)"

definition time_cells :: "('x, 'f) host \<Rightarrow> TxCommitTimeOptions \<Rightarrow> int \<Rightarrow> 'f arg list" where
  "time_cells h opts commitTime =
     (if tx_Save opts then [StrArg (tx_Name opts), StrArg (format_time h commitTime)] else [])"

fun subset_pairs :: "'v OrderedMap EntryTuple \<Rightarrow> string list \<Rightarrow> (string \<times> 'v option) list go_result" where
  "subset_pairs t [] = Inr []"
| "subset_pairs t (col # cols) =
     bind_result (tuple_Get t col) (\<lambda>(v, ok).
       bind_result (subset_pairs t cols) (\<lambda>kvs. Inr (if ok then (col, v) # kvs else kvs)))"

definition diff_value :: "('x, 'f) host \<Rightarrow> 'x entry \<Rightarrow> string \<Rightarrow> 'f go_result" where
  "diff_value h entry col =
     bind_result (tuple_Get (we_Tuple entry) col) (\<lambda>(cur, okc).
       bind_result (if is_nil (we_PrevTuple entry) then Inr (None, False) else tuple_Get (we_PrevTuple entry) col)
         (\<lambda>(prev, okp).
            Inr (float_sub h (if okc then convertToFloat64 h cur else float_zero h)
                             (if okp then convertToFloat64 h prev else float_zero h))))"

text \<open>
  \<open>jsonStarCommand\<close> stores the commit time in the tuple of the entry before it prints it, so
  the entry is part of the result, also when printing fails.
\<close>

definition exec_arg ::
  "('x, 'f) host \<Rightarrow> TxCommitTimeOptions \<Rightarrow> int \<Rightarrow> u32 \<Rightarrow> redisCompiledCommand \<Rightarrow>
   'f arg list \<times> u32 \<Rightarrow> 'x entry \<Rightarrow> ('f arg list \<times> u32) go_result \<times> 'x entry" where
  "exec_arg h opts commitTime xid cmd st entry =
     (case cmd of
        LiteralCommand s \<Rightarrow> (write_cells [StrArg s] st, entry)
      | PairsStar \<Rightarrow>
          (bind_result (tuple_of (we_Tuple entry)) (\<lambda>om.
             write_cells (pair_cells h (om_Iter om) @ time_cells h opts commitTime) st), entry)
      | PairsSubset cols \<Rightarrow>
          (bind_result (subset_pairs (we_Tuple entry) cols) (\<lambda>kvs. write_cells (pair_cells h kvs) st), entry)
      | ColumnsStar \<Rightarrow>
          (bind_result (tuple_of (we_Tuple entry)) (\<lambda>om.
             write_cells (map (StrArg \<circ> fst) (om_Iter om) @ (if tx_Save opts then [StrArg (tx_Name opts)] else [])) st), entry)
      | JsonStar \<Rightarrow>
          (case bind_result (tuple_of (we_Tuple entry)) (\<lambda>om.
             if tx_Save opts then om_Set om (tx_Name opts) (Some (GStr (format_time h commitTime))) else Inr om) of
             Inl e \<Rightarrow> (Inl e, entry)
           | Inr om \<Rightarrow>
               (bind_result (MarshalJSON (encode_value h) (encode_key h) om) (\<lambda>j. write_cells [StrArg j] st),
                entry\<lparr>we_Tuple := Tup om\<rparr>))
      | JsonSubset cols \<Rightarrow>
          (bind_result (tuple_of (we_Tuple entry)) (\<lambda>om.
             bind_result (CustomMarshalJSON (encode_value h) (encode_key h) om (Some cols) []) (\<lambda>j.
               write_cells [StrArg j] st)), entry)
      | DiffCommand col \<Rightarrow> (bind_result (diff_value h entry col) (\<lambda>f. write_cells [FloatArg f] st), entry)
      | TemplateCommand parts \<Rightarrow>
          (bind_result (template_value h entry xid parts) (\<lambda>s. write_cells [StrArg s] st), entry))"

section \<open>Templates are read as they are written\<close>

text \<open>
  A template as its author means it: literal text and placeholders. Braces of literal text are
  doubled, placeholders are put in braces.
\<close>

datatype seg = SLit string | SVar string

definition escape_char :: "char \<Rightarrow> string" where
  "escape_char c = (if brace c then [c, c] else [c])"

fun print_seg :: "seg \<Rightarrow> string" where
  "print_seg (SLit s) = concat (map escape_char s)"
| "print_seg (SVar v) = ''{'' @ v @ ''}''"

definition print_segs :: "seg list \<Rightarrow> string" where
  "print_segs segs = concat (map print_seg segs)"

fun seg_part :: "seg \<Rightarrow> template_part" where
  "seg_part (SLit s) = PartLiteral s"
| "seg_part (SVar v) = placeholderTemplatePart v"

definition mark :: "char \<Rightarrow> bool" where
  "mark c \<longleftrightarrow> c = open_mark \<or> c = close_mark"

text \<open>
  The placeholders of templates: not empty, without braces and marker bytes, and not one of the
  forms that stand for a whole argument.
\<close>

fun seg_ok :: "seg \<Rightarrow> bool" where
  "seg_ok (SLit s) \<longleftrightarrow> (\<forall>c \<in> set s. \<not> mark c)"
| "seg_ok (SVar v) \<longleftrightarrow> v \<noteq> [] \<and> (\<forall>c \<in> set v. \<not> brace c \<and> \<not> mark c) \<and>
     \<not> has_prefix ''pairs:'' v \<and> \<not> has_prefix ''json:'' v \<and> \<not> has_prefix ''diff:'' v \<and> \<not> has_prefix ''columns:'' v"

lemma seg_ok_var: "seg_ok (SVar v) \<Longrightarrow> v \<noteq> [] \<and> (\<forall>c \<in> set v. \<not> brace c) \<and> CHR ''{'' \<notin> set v \<and> CHR ''}'' \<notin> set v"
  by (auto simp: brace_def)

text \<open>No literal closing brace directly after a placeholder.\<close>

fun apart :: "seg list \<Rightarrow> bool" where
  "apart [] \<longleftrightarrow> True"
| "apart (SLit s # segs) \<longleftrightarrow> apart segs"
| "apart (SVar v # segs) \<longleftrightarrow> take 1 (print_segs segs) \<noteq> ''}'' \<and> apart segs"

text \<open>The text after the replacement of the doubled braces of the first and of both kinds.\<close>

definition open_char :: "char \<Rightarrow> string" where
  "open_char c = (if c = CHR ''{'' then [open_mark] else escape_char c)"

definition mark_char :: "char \<Rightarrow> char" where
  "mark_char c = (if c = CHR ''{'' then open_mark else if c = CHR ''}'' then close_mark else c)"

fun open_seg :: "seg \<Rightarrow> string" where
  "open_seg (SLit s) = concat (map open_char s)"
| "open_seg (SVar v) = ''{'' @ v @ ''}''"

fun mark_seg :: "seg \<Rightarrow> string" where
  "mark_seg (SLit s) = map mark_char s"
| "mark_seg (SVar v) = ''{'' @ v @ ''}''"

lemma replace_double_skip: "c \<noteq> x \<Longrightarrow> replace_double x m (c # s) = c # replace_double x m s"
  by (cases s) auto

lemma replace_double_skips: "x \<notin> set u \<Longrightarrow> replace_double x m (u @ s) = u @ replace_double x m s"
  by (induction u) (auto simp: replace_double_skip)

lemma replace_double_single: "take 1 s \<noteq> [x] \<Longrightarrow> replace_double x m (x # s) = x # replace_double x m s"
  by (cases s) auto

lemma replace_open_lit:
  "replace_double (CHR ''{'') open_mark (concat (map escape_char s) @ t) =
     concat (map open_char s) @ replace_double (CHR ''{'') open_mark t"
  by (induction s) (auto simp: escape_char_def open_char_def brace_def replace_double_skip)

lemma replace_open:
  "\<forall>seg \<in> set segs. seg_ok seg \<Longrightarrow>
     replace_double (CHR ''{'') open_mark (print_segs segs) = concat (map open_seg segs)"
proof (induction segs)
  case (Cons seg segs)
  then have IH: "replace_double (CHR ''{'') open_mark (print_segs segs) = concat (map open_seg segs)" by simp
  show ?case
  proof (cases seg)
    case (SLit s)
    then show ?thesis using IH by (simp add: print_segs_def replace_open_lit)
  next
    case (SVar v)
    then have "take 1 (v @ CHR ''}'' # print_segs segs) \<noteq> ''{''" "CHR ''{'' \<notin> set (v @ ''}'')"
      using Cons.prems by (cases v; auto simp: brace_def)+
    then show ?thesis using IH SVar replace_double_skips [of "CHR ''{''" "v @ ''}''" open_mark "print_segs segs"]
      by (simp add: print_segs_def replace_double_single)
  qed
qed (simp add: print_segs_def)

lemma replace_close_lit:
  "\<forall>c \<in> set s. \<not> mark c \<Longrightarrow> replace_double (CHR ''}'') close_mark (concat (map open_char s) @ t) =
     map mark_char s @ replace_double (CHR ''}'') close_mark t"
  by (induction s) (auto simp: escape_char_def open_char_def mark_char_def brace_def replace_double_skip)

lemma open_first: "take 1 (concat (map open_seg segs)) = ''}'' \<longleftrightarrow> take 1 (print_segs segs) = ''}''"
proof (induction segs)
  case (Cons seg segs)
  then show ?case
    by (cases seg; cases "case seg of SLit s \<Rightarrow> s | SVar v \<Rightarrow> v")
      (auto simp: print_segs_def open_char_def escape_char_def brace_def)
qed (simp add: print_segs_def)

lemma replace_close:
  "\<forall>seg \<in> set segs. seg_ok seg \<Longrightarrow> apart segs \<Longrightarrow>
     replace_double (CHR ''}'') close_mark (concat (map open_seg segs)) = concat (map mark_seg segs)"
proof (induction segs)
  case (Cons seg segs)
  show ?case
  proof (cases seg)
    case (SLit s)
    then show ?thesis using Cons by (simp add: replace_close_lit)
  next
    case (SVar v)
    then have "take 1 (concat (map open_seg segs)) \<noteq> ''}''" using Cons.prems(2) open_first [of segs] by simp
    moreover have "CHR ''}'' \<notin> set (CHR ''{'' # v)" using seg_ok_var Cons.prems(1) SVar by auto
    ultimately have "replace_double (CHR ''}'') close_mark ((CHR ''{'' # v) @ CHR ''}'' # concat (map open_seg segs)) =
        (CHR ''{'' # v) @ CHR ''}'' # replace_double (CHR ''}'') close_mark (concat (map open_seg segs))"
      by (simp only: replace_double_skips replace_double_single not_False_eq_True)
    then show ?thesis using Cons SVar by simp
  qed
qed simp

text \<open>The scanner on the marked text: adjacent literals run together.\<close>

fun scanned :: "string \<Rightarrow> seg list \<Rightarrow> piece list" where
  "scanned acc [] = (if acc = [] then [] else [Text acc])"
| "scanned acc (SLit s # segs) = scanned (acc @ map mark_char s) segs"
| "scanned acc (SVar v # segs) = (if acc = [] then [] else [Text acc]) @ Match v # scanned [] segs"

lemma pieces_lit: "CHR ''{'' \<notin> set u \<Longrightarrow> pieces acc (u @ s) = pieces (acc @ u) s"
  by (induction u arbitrary: acc) auto

lemma match_at_var: "v \<noteq> [] \<Longrightarrow> \<forall>c \<in> set v. \<not> brace c \<Longrightarrow> match_at (v @ CHR ''}'' # s) = Some (v, s)"
  by (simp add: match_at_def takeWhile_append2 dropWhile_append2 brace_def)

lemma pieces_marked:
  "\<forall>seg \<in> set segs. seg_ok seg \<Longrightarrow> pieces acc (concat (map mark_seg segs)) = scanned acc segs"
proof (induction segs arbitrary: acc)
  case (Cons seg segs)
  show ?case
  proof (cases seg)
    case (SLit s)
    have "CHR ''{'' \<notin> set (map mark_char s)" by (auto simp: mark_char_def)
    then show ?thesis using Cons SLit by (simp add: pieces_lit)
  next
    case (SVar v)
    then show ?thesis using Cons by (simp add: match_at_var)
  qed
qed simp

lemma unmark_mark [simp]: "\<forall>c \<in> set s. \<not> mark c \<Longrightarrow> unmark (map mark_char s) = s"
  by (induction s) (auto simp: unmark_def mark_char_def mark_def)

lemma unmark_append [simp]: "unmark (s @ t) = unmark s @ unmark t" "unmark [] = []"
  by (simp_all add: unmark_def)

lemma template_value_append:
  "template_value h e xid (ps @ qs) =
     bind_result (template_value h e xid ps) (\<lambda>s. bind_result (template_value h e xid qs) (\<lambda>t. Inr (s @ t)))"
  by (induction ps) (simp_all add: bind_result_assoc)

lemma scanned_value:
  "\<forall>seg \<in> set segs. seg_ok seg \<Longrightarrow>
     template_value h e xid (map part_of_piece (scanned acc segs)) =
       bind_result (template_value h e xid (map seg_part segs)) (\<lambda>t. Inr (unmark acc @ t))"
proof (induction segs arbitrary: acc)
  case (Cons seg segs)
  then show ?case
    by (cases seg) (auto simp: part_value_def bind_result_assoc template_value_append)
qed (auto simp: part_value_def)

lemma scanned_no_match:
  "\<not> list_ex is_match (scanned acc segs) \<Longrightarrow> \<forall>seg \<in> set segs. seg_ok seg \<Longrightarrow>
     template_value h e xid (map seg_part segs) = Inr (unmark (concat (map mark_seg segs)))"
proof (induction segs arbitrary: acc)
  case (Cons seg segs)
  then show ?case by (cases seg) (auto simp: part_value_def split: if_splits)
qed simp

lemma has_prefix_brace:
  assumes "has_prefix (CHR ''{'' # p) (print_segs segs)" "p \<noteq> []" "\<forall>c \<in> set p. \<not> brace c"
  shows "\<exists>v. SVar v \<in> set segs \<and> has_prefix p v"
  using assms
proof (induction segs)
  case (Cons seg segs)
  show ?case
  proof (cases seg)
    case (SLit s)
    show ?thesis
    proof (cases s)
      case (Cons c s')
      then show ?thesis using Cons.prems SLit
        by (cases p) (auto simp: has_prefix_def print_segs_def escape_char_def brace_def split: if_splits)
    next
      case Nil
      then show ?thesis using Cons SLit by (auto simp: print_segs_def)
    qed
  next
    case (SVar v)
    then have "take (length p) (v @ CHR ''}'' # print_segs segs) = p" using Cons.prems(1)
      by (simp add: has_prefix_def print_segs_def)
    moreover have "length p \<le> length v"
    proof (rule ccontr)
      assume "\<not> length p \<le> length v"
      then have "p ! length v = CHR ''}''" "length v < length p"
        using calculation by (metis nth_append_length nth_take not_le)+
      then show False using Cons.prems(3) by (metis brace_def nth_mem)
    qed
    ultimately show ?thesis using SVar by (auto simp: has_prefix_def)
  qed
qed (simp add: has_prefix_def print_segs_def)

lemma compile_template:
  assumes "\<forall>seg \<in> set segs. seg_ok seg" "apart segs"
  shows "compileCommand (print_segs segs) = compileTemplateCommand (concat (map mark_seg segs))"
proof -
  have no: "\<not> has_prefix (CHR ''{'' # p) (print_segs segs)"
    if "p \<in> {''pairs:'', ''json:'', ''diff:'', ''columns:''}" for p
  proof
    assume "has_prefix (CHR ''{'' # p) (print_segs segs)"
    moreover have "p \<noteq> []" "\<forall>c \<in> set p. \<not> brace c" using that by (auto simp: brace_def)
    ultimately obtain v where "SVar v \<in> set segs" "has_prefix p v" using has_prefix_brace by blast
    with assms(1) that show False by fastforce
  qed
  have "print_segs segs \<noteq> CHR ''{'' # p @ ''*}''" if "p \<in> {''pairs:'', ''json:'', ''columns:''}" for p
    using no [of p] that has_prefix_append [of "CHR ''{'' # p" "''*}''"] by auto
  from this [of "''pairs:''"] this [of "''json:''"] this [of "''columns:''"]
  have "print_segs segs \<noteq> ''{pairs:*}''" "print_segs segs \<noteq> ''{json:*}''" "print_segs segs \<noteq> ''{columns:*}''" by simp_all
  then show ?thesis using no [of "''pairs:''"] no [of "''json:''"] no [of "''diff:''"] replace_open [OF assms(1)] replace_close [OF assms]
    by (simp add: compileCommand_def placeholder_body_def)
qed

text \<open>
  (C21) Templates mean what they say. For a template of literal text, with its braces doubled, and
  placeholders, in which no literal closing brace follows a placeholder directly, compiling and
  running it writes exactly one cell: the literal text as it was, braces included, and the value of
  each placeholder, in order.
\<close>

theorem template_roundtrip:
  assumes "\<forall>seg \<in> set segs. seg_ok seg" and "apart segs"
  shows "exec_arg h opts commitTime xid (compileCommand (print_segs segs)) st entry =
     (bind_result (template_value h entry xid (map seg_part segs)) (\<lambda>s. write_cells [StrArg s] st), entry)"
proof (cases "list_ex is_match (pieces [] (concat (map mark_seg segs)))")
  case True
  then show ?thesis
    by (simp add: compile_template [OF assms] compileTemplateCommand_def exec_arg_def
        pieces_marked [OF assms(1)] scanned_value [OF assms(1)])
next
  case False
  then have "template_value h entry xid (map seg_part segs) = Inr (unmark (concat (map mark_seg segs)))"
    using scanned_no_match pieces_marked assms(1) by metis
  with False show ?thesis
    by (simp add: compile_template [OF assms] compileTemplateCommand_def exec_arg_def)
qed

definition sample_host :: "(nat, int) host" where
  "sample_host = \<lparr>format_value = (\<lambda>v. ''?''), format_time = (\<lambda>t. ''now''), float_of = (\<lambda>v. None), float_zero = 0,
     float_sub = (-), encode_value = (\<lambda>v. Inr ''v''), encode_key = (\<lambda>k. Inr k)\<rparr>"

definition sample_entry :: "nat entry" where
  "sample_entry = \<lparr>we_Tuple = Tup \<lparr>om_values = [Some (GStr ''7''), None], om_set = [True, False], om_size = 1, om_keyMap = km_New [''id'', ''ts'']\<rparr>,
     we_PrevTuple = NoTuple, we_PK = ''7'', we_Kind = Insert, we_Table = \<lparr>tn_Schema = ''public'', tn_Name = ''t'', tn_FullName = ''public.t''\<rparr>, we_Offset = 0\<rparr>"

lemma sample_id [simp]: "tuple_Get (we_Tuple sample_entry) ''id'' = Inr (Some (GStr ''7''), True)"
  by (simp add: sample_entry_def tuple_Get_def om_Get_def GetIndex_def km_New_def)

theorem template_roundtrip_witness:
  "fst (exec_arg sample_host \<lparr>tx_Save = False, tx_Name = []\<rparr> 0 9 (compileCommand ''{{k}}:{id}/{%pk%}'') ([NilArg, NilArg], 1) sample_entry) =
     Inr ([NilArg, StrArg ''{k}:7/7''], 2)"
proof -
  let ?segs = "[SLit ''{k}:'', SVar ''id'', SLit ''/'', SVar ''%pk%'']"
  have "\<forall>seg \<in> set ?segs. seg_ok seg" "apart ?segs"
    by (auto simp: mark_def brace_def has_prefix_def print_segs_def escape_char_def)
  note * = template_roundtrip [OF this, of sample_host "\<lparr>tx_Save = False, tx_Name = []\<rparr>" 0 9 "([NilArg, NilArg], 1)" sample_entry]
  have "template_value sample_host sample_entry 9 (map seg_part ?segs) = Inr ''{k}:7/7''"
    by (simp add: placeholderTemplatePart_def TrimSpace_def is_space_def has_prefix_def part_value_def stringifyForRedis_def)
      (simp add: sample_entry_def)
  moreover have "print_segs ?segs = ''{{k}}:{id}/{%pk%}''" by (simp add: print_segs_def escape_char_def brace_def)
  ultimately show ?thesis using * by (simp add: slice_set_def)
qed

text \<open>
  A literal closing brace cannot follow a placeholder: in the template of a JSON object
  \<open>{{id:{id}}}\<close> the replacement of the doubled braces takes the closing brace of the placeholder
  with it, so what is written is not the value but the placeholder text with a marker byte in it.
\<close>

theorem template_brace_after_placeholder:
  "exec_arg sample_host \<lparr>tx_Save = False, tx_Name = []\<rparr> 0 9 (compileCommand ''{{id:{id}}}'') ([NilArg], 0) sample_entry =
     (Inr ([StrArg (''{id:{id'' @ [close_mark] @ ''}'')], 1), sample_entry)"
proof -
  have "compileCommand ''{{id:{id}}}'' =
      TemplateCommand [PartLiteral ''{id:'', PartColumn (''id'' @ [close_mark]) (''{id'' @ [close_mark] @ ''}'')]"
    by code_simp
  moreover have "tuple_Get (we_Tuple sample_entry) (''id'' @ [close_mark]) = Inr (None, False)"
    by (simp add: sample_entry_def tuple_Get_def om_Get_def GetIndex_def km_New_def)
  ultimately show ?thesis by (simp add: exec_arg_def part_value_def slice_set_def)
qed

end
