(* ===== verification/Redisconfig.thy ===== *)
theory Redisconfig
  imports Rediscommand Pgschema
begin

text \<open>
  \<open>pg2redis/redisconfig/redis_config.go\<close>: the commands of each table as they are written in the
  configuration, their normalisation, their validation alone and against the schema of the
  publication, and the columns they need. A value of type \<open>any\<close> from the YAML parser or the
  environment is a datatype; \<open>fmt.Sprintf("%v")\<close> of one is the parameter \<open>fmt\<close>. Go maps are
  association lists; joined errors are lists of messages.
\<close>

section \<open>Configuration data\<close>

datatype OperationType = OpInsert | OpUpdate | OpDelete

datatype ConditionOperator =
  OpEqual | OpNotEqual | OpLess | OpGreater | OpLessEq | OpGreaterEq | OpIn | OpNotIn
  | OpIsNull | OpIsNotNull | OpIsDistinctFrom | OpOther string

definition operator_names :: "(string \<times> ConditionOperator) list" where
  "operator_names =
     [(''='', OpEqual), (''<>'', OpNotEqual), (''<'', OpLess), (''>'', OpGreater), (''<='', OpLessEq), (''>='', OpGreaterEq),
      (''in'', OpIn), (''not_in'', OpNotIn), (''is_null'', OpIsNull), (''is_not_null'', OpIsNotNull), (''is_distinct_from'', OpIsDistinctFrom)]"

definition operator_of :: "string \<Rightarrow> ConditionOperator" where
  "operator_of s = (case map_of operator_names s of Some op \<Rightarrow> op | None \<Rightarrow> OpOther s)"

record ConditionConfig =
  cond_Op :: ConditionOperator
  cond_Column :: string
  cond_Value :: string
  cond_Values :: "string list"

record RedisCommandWithCondition =
  rc_Commands :: "string list list"
  rc_Condition :: "ConditionConfig option"

record RedisTableConfig =
  rt_FullName :: string
  rt_Options :: "(string \<times> string) list"
  rt_Insert :: "any list option"
  rt_Update :: "any list option"
  rt_Delete :: "any list option"
  rt_Commands :: "any list"
  ResolvedCommands :: "RedisCommandWithCondition list"
  InsertCommands :: "RedisCommandWithCondition list"
  UpdateCommands :: "RedisCommandWithCondition list"
  DeleteCommands :: "RedisCommandWithCondition list"

type_synonym redis_tables = "(string \<times> RedisTableConfig) list"

section \<open>Parsing commands\<close>

text \<open>The sentinel errors are compared by identity, so a wrapped one is another value.\<close>

datatype command_error = ErrInvalidCommandFormat | ErrEmptyCommandGroup | WrappedFormat string

type_synonym 'a parsed = "command_error + 'a"

text \<open>
  Maps with numeric keys stand for lists: the loop reads the keys \<open>0\<close>, \<open>1\<close>, ... until one is
  missing. The first argument bounds the number of rounds.
\<close>

fun numbered :: "nat \<Rightarrow> (string \<times> 'a) list \<Rightarrow> nat \<Rightarrow> 'a list" where
  "numbered 0 m i = []"
| "numbered (Suc fuel) m i =
     (case map_of m (format_uint i) of Some v \<Rightarrow> v # numbered fuel m (Suc i) | None \<Rightarrow> [])"

definition resolveSliceParts :: "any \<Rightarrow> any list option" where
  "resolveSliceParts raw =
     (case raw of
        AList v \<Rightarrow> Some v
      | AStrs v \<Rightarrow> Some (map AStr v)
      | AMap v \<Rightarrow> Some (numbered (Suc (length v)) v 0)
      | _ \<Rightarrow> None)"

fun string_parts :: "any list \<Rightarrow> string list parsed" where
  "string_parts [] = Inr []"
| "string_parts (AStr s # ps) = (case string_parts ps of Inl e \<Rightarrow> Inl e | Inr ss \<Rightarrow> Inr (s # ss))"
| "string_parts (p # ps) = Inl (WrappedFormat ''argument is not a string'')"

definition parseCommandStringSlice :: "any \<Rightarrow> string list parsed" where
  "parseCommandStringSlice raw =
     (case resolveSliceParts raw of
        None \<Rightarrow> Inl ErrInvalidCommandFormat
      | Some [] \<Rightarrow> Inl ErrInvalidCommandFormat
      | Some parts \<Rightarrow> string_parts parts)"

fun parse_group :: "any list \<Rightarrow> string list list parsed" where
  "parse_group [] = Inr []"
| "parse_group (cmd # cmds) =
     (case parseCommandStringSlice cmd of
        Inl ErrInvalidCommandFormat \<Rightarrow> Inl (WrappedFormat ''command is invalid or empty'')
      | Inl e \<Rightarrow> Inl e
      | Inr ss \<Rightarrow> (case parse_group cmds of Inl e \<Rightarrow> Inl e | Inr sss \<Rightarrow> Inr (ss # sss)))"

definition parseCommands :: "any \<Rightarrow> string list list parsed" where
  "parseCommands raw =
     (case raw of
        ANil \<Rightarrow> Inl ErrInvalidCommandFormat
      | AList [] \<Rightarrow> Inl ErrEmptyCommandGroup
      | AList (AStr s # multi) \<Rightarrow> map_sum id (\<lambda>ss. [ss]) (parseCommandStringSlice raw)
      | AList multi \<Rightarrow> parse_group multi
      | _ \<Rightarrow> map_sum id (\<lambda>ss. [ss]) (parseCommandStringSlice raw))"

fun any_string :: "any \<Rightarrow> string" where
  "any_string (AStr s) = s"
| "any_string _ = []"

definition resolveStringSlice :: "(any \<Rightarrow> string) \<Rightarrow> any \<Rightarrow> string list" where
  "resolveStringSlice fmt raw =
     (case resolveSliceParts raw of
        None \<Rightarrow> []
      | Some parts \<Rightarrow> map (\<lambda>p. case p of AStr s \<Rightarrow> s | _ \<Rightarrow> fmt p) parts)"

definition parse_condition :: "(any \<Rightarrow> string) \<Rightarrow> (string \<times> any) list \<Rightarrow> ConditionConfig" where
  "parse_condition fmt condMap =
     \<lparr>cond_Op = operator_of (any_string (any_get condMap ''op'')),
      cond_Column = any_string (any_get condMap ''column''),
      cond_Value = any_string (any_get condMap ''value''),
      cond_Values = (case map_of condMap ''values'' of None \<Rightarrow> [] | Some v \<Rightarrow> resolveStringSlice fmt v)\<rparr>"

definition condition_of :: "(any \<Rightarrow> string) \<Rightarrow> any \<Rightarrow> ConditionConfig option" where
  "condition_of fmt c = (case c of AMap condMap \<Rightarrow> Some (parse_condition fmt condMap) | _ \<Rightarrow> None)"

text \<open>One entry of the \<open>commands\<close> list: nothing, a group of commands, or an error message.\<close>

definition resolve_one :: "(any \<Rightarrow> string) \<Rightarrow> any \<Rightarrow> RedisCommandWithCondition option parsed" where
  "resolve_one fmt cmd =
     (let plain = (case parseCommands cmd of
            Inl e \<Rightarrow> Inl e
          | Inr cmds \<Rightarrow> Inr (if cmds = [] then None else Some \<lparr>rc_Commands = cmds, rc_Condition = None\<rparr>))
      in case cmd of
        AMap m \<Rightarrow>
          if any_get m ''command'' = ANil \<and> any_get m ''condition'' = ANil then plain
          else if any_get m ''command'' = ANil then Inl (WrappedFormat ''conditional command missing command'')
          else (case parseCommands (any_get m ''command'') of
              Inl e \<Rightarrow> Inl e
            | Inr cmds \<Rightarrow> Inr (if cmds = [] then None
                else Some \<lparr>rc_Commands = cmds, rc_Condition = condition_of fmt (any_get m ''condition'')\<rparr>))
      | _ \<Rightarrow> plain)"

fun resolveCommandsStrict :: "(any \<Rightarrow> string) \<Rightarrow> any list \<Rightarrow> RedisCommandWithCondition list \<times> command_error list" where
  "resolveCommandsStrict fmt [] = ([], [])"
| "resolveCommandsStrict fmt (cmd # cmds) =
     (let (res, errs) = resolveCommandsStrict fmt cmds in
      case resolve_one fmt cmd of
        Inl e \<Rightarrow> (res, e # errs)
      | Inr g \<Rightarrow> (opt_list g @ res, errs))"

section \<open>The environment\<close>

definition readSliceFromEnv :: "any \<Rightarrow> string list" where
  "readSliceFromEnv raw = (case raw of AStr str \<Rightarrow> map TrimSpace (split_on (CHR ''/'') str) | _ \<Rightarrow> [])"

definition env_command :: "any \<Rightarrow> any option" where
  "env_command cmd =
     (if readSliceFromEnv cmd \<noteq> [] then Some (AStrs (readSliceFromEnv cmd))
      else case cmd of AMap m \<Rightarrow> Some cmd | _ \<Rightarrow> None)"

definition readCommandsAsAnyFromEnv :: "any \<Rightarrow> any list" where
  "readCommandsAsAnyFromEnv commands =
     (case commands of
        AMap m \<Rightarrow> concat (map (\<lambda>cmd. opt_list (env_command cmd)) (numbered (Suc (length m)) m 0))
      | _ \<Rightarrow> [])"

definition readOperationConfigFromEnv :: "any \<Rightarrow> any list option" where
  "readOperationConfigFromEnv op =
     (case op of AMap m \<Rightarrow> Some (readCommandsAsAnyFromEnv (any_get m ''commands'')) | _ \<Rightarrow> None)"

definition string_options :: "any \<Rightarrow> (string \<times> string) list" where
  "string_options opts =
     (case opts of
        AMap m \<Rightarrow> concat (map (\<lambda>(k, v). case v of AStr s \<Rightarrow> [(k, s)] | _ \<Rightarrow> []) m)
      | _ \<Rightarrow> [])"

definition readTableCfgFromEnv :: "(string \<times> any) list \<Rightarrow> (string \<times> RedisTableConfig) option" where
  "readTableCfgFromEnv tableMap =
     (let tableName = any_string (any_get tableMap ''name'') in
      if tableName = [] then None
      else Some (tableName,
        \<lparr>rt_FullName = [], rt_Options = string_options (any_get tableMap ''options''),
         rt_Insert = readOperationConfigFromEnv (any_get tableMap ''insert''),
         rt_Update = readOperationConfigFromEnv (any_get tableMap ''update''),
         rt_Delete = readOperationConfigFromEnv (any_get tableMap ''delete''),
         rt_Commands = readCommandsAsAnyFromEnv (any_get tableMap ''commands''),
         ResolvedCommands = [], InsertCommands = [], UpdateCommands = [], DeleteCommands = []\<rparr>))"

fun mergeFromEnv :: "(string \<times> any) list \<Rightarrow> redis_tables \<Rightarrow> redis_tables" where
  "mergeFromEnv [] tables = tables"
| "mergeFromEnv ((k, value) # envMap) tables =
     mergeFromEnv envMap
       (case value of
          AMap tableMap \<Rightarrow> (case readTableCfgFromEnv tableMap of
              Some (name, cfg) \<Rightarrow> AList.update name cfg tables
            | None \<Rightarrow> tables)
        | _ \<Rightarrow> tables)"

section \<open>Normalisation\<close>

fun wellFormTableNames :: "redis_tables \<Rightarrow> redis_tables" where
  "wellFormTableNames [] = []"
| "wellFormTableNames ((key, cfg) # tables) =
     (let newKey = WellFormTableName key in
      AList.update newKey (cfg\<lparr>rt_FullName := newKey\<rparr>) (wellFormTableNames tables))"

definition op_commands :: "(any \<Rightarrow> string) \<Rightarrow> any list option \<Rightarrow> RedisCommandWithCondition list \<Rightarrow>
   RedisCommandWithCondition list \<times> command_error list" where
  "op_commands fmt op old = (case op of None \<Rightarrow> (old, []) | Some cmds \<Rightarrow> resolveCommandsStrict fmt cmds)"

definition no_commands :: "RedisTableConfig \<Rightarrow> bool" where
  "no_commands c \<longleftrightarrow> ResolvedCommands c = [] \<and> InsertCommands c = [] \<and> UpdateCommands c = [] \<and> DeleteCommands c = []"

definition default_hset :: "string \<Rightarrow> RedisCommandWithCondition list" where
  "default_hset fullName =
     [\<lparr>rc_Commands = [[''HSET'', fullName @ '':{%pk%}'', ''{pairs:*}'']], rc_Condition = None\<rparr>]"

definition wellFormTable :: "(any \<Rightarrow> string) \<Rightarrow> RedisTableConfig \<Rightarrow> RedisTableConfig \<times> command_error list" where
  "wellFormTable fmt c =
     (let (rs, e1) = resolveCommandsStrict fmt (rt_Commands c);
          (is, e2) = op_commands fmt (rt_Insert c) (InsertCommands c);
          (us, e3) = op_commands fmt (rt_Update c) (UpdateCommands c);
          (ds, e4) = op_commands fmt (rt_Delete c) (DeleteCommands c);
          c = c\<lparr>ResolvedCommands := rs, InsertCommands := is, UpdateCommands := us, DeleteCommands := ds\<rparr>
      in (if no_commands c then c\<lparr>ResolvedCommands := default_hset (rt_FullName c)\<rparr> else c, e1 @ e2 @ e3 @ e4))"

definition WellForm :: "(any \<Rightarrow> string) \<Rightarrow> any \<Rightarrow> redis_tables \<Rightarrow> redis_tables \<times> command_error list" where
  "WellForm fmt env tables =
     (let tables = (case env of AMap m \<Rightarrow> mergeFromEnv m tables | _ \<Rightarrow> tables);
          tables = wellFormTableNames tables
      in (map (\<lambda>(k, c). (k, fst (wellFormTable fmt c))) tables,
          concat (map (\<lambda>(k, c). snd (wellFormTable fmt c)) tables)))"

section \<open>Validation\<close>

definition supported_commands :: "string list" where
  "supported_commands =
     [''SET'', ''SETEX'', ''MSET'', ''INCR'', ''DECR'', ''INCRBY'', ''DECRBY'', ''APPEND'', ''DEL'', ''EXPIRE'',
      ''HSET'', ''HINCRBY'', ''HDEL'', ''SADD'', ''SREM'', ''ZADD'', ''ZINCRBY'', ''ZREM'', ''XADD'', ''XDEL'', ''PUBLISH'']"

definition isSupportedRedisCommand :: "string \<Rightarrow> bool" where
  "isSupportedRedisCommand cmd \<longleftrightarrow> cmd \<in> set supported_commands"

definition validate_condition :: "ConditionConfig \<Rightarrow> string list" where
  "validate_condition cond =
     (if cond_Column cond = [] then [''condition must have a column''] else []) @
     (case cond_Op cond of
        OpIn \<Rightarrow> if cond_Values cond = [] then [''condition must have values array''] else []
      | OpNotIn \<Rightarrow> if cond_Values cond = [] then [''condition must have values array''] else []
      | OpIsNull \<Rightarrow> if cond_Value cond \<noteq> [] \<or> cond_Values cond \<noteq> [] then [''condition must not have value or values''] else []
      | OpIsNotNull \<Rightarrow> if cond_Value cond \<noteq> [] \<or> cond_Values cond \<noteq> [] then [''condition must not have value or values''] else []
      | OpOther [] \<Rightarrow> [''condition must have an operator'']
      | OpOther _ \<Rightarrow> [''unsupported condition operator'']
      | _ \<Rightarrow> if cond_Value cond = [] then [''condition must have a value''] else [])"

fun validate_command :: "string list \<Rightarrow> string list" where
  "validate_command [] = [''empty command found'']"
| "validate_command (name # args) =
     (if isSupportedRedisCommand (ToUpper name) then [] else [''unsupported Redis command'']) @
     (if args = [] then [''command must have at least a key pattern''] else [])"

definition validate_group :: "RedisCommandWithCondition \<Rightarrow> string list" where
  "validate_group g =
     (if rc_Commands g = [] then [''command group is empty'']
      else concat (map validate_command (rc_Commands g)) @
        (case rc_Condition g of None \<Rightarrow> [] | Some cond \<Rightarrow> validate_condition cond))"

definition all_groups :: "RedisTableConfig \<Rightarrow> RedisCommandWithCondition list" where
  "all_groups c = ResolvedCommands c @ InsertCommands c @ UpdateCommands c @ DeleteCommands c"

definition validate_table :: "string \<times> RedisTableConfig \<Rightarrow> string list" where
  "validate_table t =
     (let (tableName, c) = t in
      (if CHR ''.'' \<in> set tableName then [] else [''table must follow Postgres naming conventions'']) @
      (if no_commands c then [''table must have at least one of commands, insert, update, or delete defined''] else []) @
      concat (map validate_group (all_groups c)))"

text \<open>\<open>Validate\<close>; the outcome of \<open>Snapshot.Validate\<close> is the last argument.\<close>

definition redis_Validate :: "command_error list \<Rightarrow> redis_tables \<Rightarrow> string list \<Rightarrow> string list" where
  "redis_Validate validationErr tables snapshotErr =
     map (\<lambda>e. ''invalid command format'') validationErr @ concat (map validate_table tables) @ snapshotErr"

section \<open>Columns\<close>

text \<open>The contents of the placeholders of a text, in order.\<close>

fun match_contents :: "piece list \<Rightarrow> string list" where
  "match_contents [] = []"
| "match_contents (Match c # ps) = c # match_contents ps"
| "match_contents (Text t # ps) = match_contents ps"

definition column_prefixes :: "string list" where
  "column_prefixes = [''pairs:'', ''json:'', ''columns:'', ''diff:'']"

definition prefixed_columns :: "string \<Rightarrow> string list" where
  "prefixed_columns content = filter (\<lambda>p. p \<noteq> []) (map TrimSpace (split_on (CHR '','') content))"

definition plain_column :: "string \<Rightarrow> string list" where
  "plain_column placeholder =
     (let p = TrimSpace placeholder in
      if has_prefix ''%'' p \<or> has_suffix ''%'' p then [] else [TrimPrefix p ''old:''])"

fun extract_matches :: "string list \<Rightarrow> string list \<Rightarrow> string list \<times> bool" where
  "extract_matches cols [] = (cols, False)"
| "extract_matches cols (placeholder # ms) =
     (case find (\<lambda>p. has_prefix p placeholder) column_prefixes of
        Some p \<Rightarrow>
          (let content = TrimPrefix placeholder p in
           if content = ''*'' then ([], True)
           else extract_matches (cols @ prefixed_columns content) ms)
      | None \<Rightarrow> extract_matches (cols @ plain_column placeholder) ms)"

definition extractColumnsFromPlaceholder :: "string \<Rightarrow> string list \<times> bool" where
  "extractColumnsFromPlaceholder s = extract_matches [] (match_contents (pieces [] s))"

definition columnsFromPattern :: "string \<Rightarrow> string list" where
  "columnsFromPattern pattern = (let (cols, all) = extractColumnsFromPlaceholder pattern in if all then [] else cols)"

definition condition_columns :: "ConditionConfig option \<Rightarrow> string list" where
  "condition_columns cond =
     (case cond of
        None \<Rightarrow> []
      | Some c \<Rightarrow>
          fst (extractColumnsFromPlaceholder (''{'' @ cond_Column c @ ''}'')) @
          (if cond_Value c \<noteq> [] then fst (extractColumnsFromPlaceholder (cond_Value c)) else []) @
          concat (map (fst \<circ> extractColumnsFromPlaceholder) (cond_Values c)))"

definition group_args :: "RedisCommandWithCondition \<Rightarrow> string list" where
  "group_args g = concat (rc_Commands g)"

text \<open>\<open>ExtractColumns\<close>: Go's map of columns is a set; it is listed in first-seen order, after \<open>config.AllColumns\<close> when all are asked for.\<close>

definition ExtractColumns :: "RedisTableConfig \<Rightarrow> string list" where
  "ExtractColumns c =
     (let gs = all_groups c;
          hasAll = list_ex (\<lambda>g. list_ex (\<lambda>arg. snd (extractColumnsFromPlaceholder arg)) (group_args g)) gs;
          cols = concat (map (\<lambda>g. concat (map (fst \<circ> extractColumnsFromPlaceholder) (group_args g)) @ condition_columns (rc_Condition g)) gs)
      in (if hasAll then [''all''] else []) @ remdups cols)"

section \<open>Validation against the schema\<close>

definition BoolOID :: u32 where "BoolOID = 16"
definition JSONOID :: u32 where "JSONOID = 114"
definition JSONBOID :: u32 where "JSONBOID = 3802"

definition conditionOperatorAllowedForType :: "ConditionOperator \<Rightarrow> u32 \<Rightarrow> bool" where
  "conditionOperatorAllowedForType op typeID =
     (if op = OpIsNull \<or> op = OpIsNotNull then True
      else if typeID = BoolOID then op \<in> {OpEqual, OpNotEqual, OpIn, OpNotIn, OpIsDistinctFrom}
      else if typeID = JSONOID \<or> typeID = JSONBOID then op = OpIsDistinctFrom
      else True)"

definition missing_columns :: "Table \<Rightarrow> string \<Rightarrow> string list \<Rightarrow> string list" where
  "missing_columns table msg cols = map (\<lambda>col. msg) (filter (\<lambda>col. \<not> HasColumn table col) cols)"

definition schema_condition :: "Table \<Rightarrow> ConditionConfig \<Rightarrow> string list" where
  "schema_condition table cond =
     (case map_of (Columns table) (cond_Column cond) of
        None \<Rightarrow> [''condition column does not exist'']
      | Some col \<Rightarrow> if conditionOperatorAllowedForType (cond_Op cond) (TypeID col) then []
                    else [''condition operator is not supported for column'']) @
     missing_columns table ''condition value references column which does not exist'' (columnsFromPattern (cond_Value cond)) @
     concat (map (\<lambda>v. missing_columns table ''condition value references column which does not exist'' (columnsFromPattern v)) (cond_Values cond))"

definition schema_group :: "Table \<Rightarrow> RedisCommandWithCondition \<Rightarrow> string list" where
  "schema_group table g =
     concat (map (\<lambda>arg. missing_columns table ''command references column which does not exist'' (columnsFromPattern arg)) (group_args g)) @
     (case rc_Condition g of None \<Rightarrow> [] | Some cond \<Rightarrow> schema_condition table cond)"

definition ValidateAgainstSchema :: "redis_tables \<Rightarrow> (string \<times> Table) list \<Rightarrow> string list" where
  "ValidateAgainstSchema cfgTables pubTables =
     concat (map (\<lambda>(tableName, c). case map_of pubTables tableName of
         None \<Rightarrow> [''table is not available in publication metadata'']
       | Some table \<Rightarrow> concat (map (schema_group table) (all_groups c))) cfgTables)"

section \<open>Connection options\<close>

text \<open>\<open>ReadRedisOptions\<close>, the number of the database: the test of the error is inverted in the code.\<close>

definition redis_db :: "(string \<Rightarrow> int \<times> go_error option) \<Rightarrow> string \<Rightarrow> int" where
  "redis_db atoi database =
     (if database \<noteq> [] then (let (x, err) = atoi database in if err \<noteq> None then x else 0) else 0)"

section \<open>The loop over numeric keys ends\<close>

lemma numbered_spec:
  "(\<forall>j < length (numbered fuel m i). map_of m (format_uint (i + j)) = Some (numbered fuel m i ! j)) \<and>
   (length (numbered fuel m i) = fuel \<or> map_of m (format_uint (i + length (numbered fuel m i))) = None)"
proof (induction fuel m i rule: numbered.induct)
  case (2 fuel m i)
  show ?case
  proof (cases "map_of m (format_uint i)")
    case (Some v)
    have "map_of m (format_uint (i + j)) = Some ((v # numbered fuel m (Suc i)) ! j)"
      if "j < Suc (length (numbered fuel m (Suc i)))" for j
      using that 2 [OF Some] Some by (cases j) auto
    then show ?thesis using Some 2 [OF Some] by auto
  qed simp
qed simp

text \<open>
  The loop that reads a map with numeric keys as a list ends, and the bound on its rounds is
  never what ends it: it gives the values of the keys \<open>0\<close> to \<open>n - 1\<close> in order, where \<open>n\<close> is the
  first number that is not a key.
\<close>

theorem numbered_complete:
  "(let vs = numbered (Suc (length m)) m 0 in
    map_of m (format_uint (length vs)) = None \<and>
    vs = map (\<lambda>i. the (map_of m (format_uint i))) [0..<length vs] \<and>
    (\<forall>i. i < length vs \<longrightarrow> map_of m (format_uint i) \<noteq> None))"
proof -
  define vs where "vs = numbered (Suc (length m)) m 0"
  note spec = numbered_spec [of "Suc (length m)" m 0, folded vs_def, unfolded add_0]
  have vals: "map_of m (format_uint j) = Some (vs ! j)" if "j < length vs" for j
    using spec that by blast
  have "length vs \<noteq> Suc (length m)"
  proof
    assume len: "length vs = Suc (length m)"
    have "format_uint j \<in> dom (map_of m)" if "j < length vs" for j using vals [OF that] by blast
    then have "format_uint ` {..<length vs} \<subseteq> dom (map_of m)" by blast
    then have "card (format_uint ` {..<length vs}) \<le> card (fst ` set m)"
      by (metis card_mono dom_map_of_conv_image_fst finite_dom_map_of)
    also have "\<dots> \<le> length m" by (metis card_length length_map set_map)
    finally show False by (simp add: card_image inj_on_def len)
  qed
  then have "map_of m (format_uint (length vs)) = None" using spec by blast
  moreover have "vs = map (\<lambda>i. the (map_of m (format_uint i))) [0..<length vs]"
    by (rule nth_equalityI) (simp_all add: vals)
  ultimately show ?thesis using vals by (simp add: Let_def del: numbered.simps flip: vs_def)
qed

theorem numbered_complete_witness:
  "numbered 4 [(''1'', ''b''), (''0'', ''a''), (''x'', ''c'')] 0 = [''a'', ''b''] \<and>
   map_of [(''1'', ''b''), (''0'', ''a''), (''x'', ''c'')] (format_uint 2) = None"
proof -
  let ?m = "[(''1'', ''b''), (''0'', ''a''), (''x'', ''c'')]"
  have vs: "numbered (Suc (length ?m)) ?m 0 = [''a'', ''b'']" by code_simp
  show ?thesis using numbered_complete [of ?m] unfolding Let_def vs using vs
    by (simp only: list.size numeral_eq_Suc pred_numeral_simps BitM.simps One_nat_def add_Suc_right add_0_right)
qed

section \<open>Every column a command reads is extracted\<close>

fun part_columns :: "template_part \<Rightarrow> string list" where
  "part_columns (PartOld c) = [c]"
| "part_columns (PartColumn c m) = [c]"
| "part_columns _ = []"

text \<open>The columns a compiled argument looks up by name.\<close>

fun reads :: "redisCompiledCommand \<Rightarrow> string list" where
  "reads (PairsSubset cols) = cols"
| "reads (JsonSubset cols) = cols"
| "reads (DiffCommand col) = [col]"
| "reads (TemplateCommand parts) = concat (map part_columns parts)"
| "reads _ = []"

lemma takeWhile_split: "\<forall>x \<in> set u. P x \<Longrightarrow> \<not> P c \<Longrightarrow> takeWhile P (u @ c # w) = u \<and> dropWhile P (u @ c # w) = c # w"
  by (induction u) auto

lemma match_at_not_past_open:
  assumes "match_at (u @ CHR ''{'' # w) = Some (body, rest)"
  shows "\<exists>u'. u = body @ CHR ''}'' # u' \<and> rest = u' @ CHR ''{'' # w"
proof -
  let ?P = "\<lambda>c. \<not> brace c" and ?s = "u @ CHR ''{'' # w"
  have s: "body = takeWhile ?P ?s" "dropWhile ?P ?s = CHR ''}'' # rest"
    using assms by (cases "dropWhile ?P ?s"; simp add: match_at_def Let_def split: if_splits)+
  show ?thesis
  proof (cases "\<forall>c \<in> set u. ?P c")
    case True
    then have "dropWhile ?P ?s = CHR ''{'' # w" using takeWhile_split [of u ?P] by (simp add: brace_def)
    with s(2) show ?thesis by simp
  next
    case False
    then have "takeWhile ?P ?s = takeWhile ?P u" "dropWhile ?P ?s = dropWhile ?P u @ CHR ''{'' # w"
      by (auto simp: takeWhile_append dropWhile_append)
    moreover have "dropWhile ?P u \<noteq> []" using False by (simp add: dropWhile_eq_Nil_conv)
    ultimately show ?thesis using s
      by (metis append_Cons list.inject list.sel(1,3) neq_Nil_conv takeWhile_dropWhile_id)
  qed
qed

lemma pieces_finds:
  assumes "v \<noteq> []" "\<forall>c \<in> set v. \<not> brace c"
  shows "Match v \<in> set (pieces acc (u @ CHR ''{'' # v @ CHR ''}'' # w))"
proof (induction "length u" arbitrary: acc u rule: less_induct)
  case less
  let ?t = "CHR ''{'' # v @ CHR ''}'' # w"
  show ?case
  proof (cases u)
    case Nil
    then show ?thesis by (simp add: match_at_var assms)
  next
    case (Cons c u')
    show ?thesis
    proof (cases "if c = CHR ''{'' then match_at (u' @ ?t) else None")
      case None
      have "Match v \<in> set (pieces (acc @ [c]) (u' @ ?t))" by (rule less) (simp add: Cons)
      then show ?thesis using None Cons by simp
    next
      case (Some br)
      then obtain body rest where br: "br = (body, rest)" "match_at (u' @ ?t) = Some (body, rest)" "c = CHR ''{''"
        by (cases br) (auto split: if_splits)
      then obtain u'' where u'': "u' = body @ CHR ''}'' # u''" "rest = u'' @ ?t"
        using match_at_not_past_open by blast
      have "Match v \<in> set (pieces [] (u'' @ ?t))" by (rule less) (simp add: Cons u'')
      then show ?thesis using br u'' Cons by simp
    qed
  qed
qed

lemma match_contents_iff [simp]: "c \<in> set (match_contents ps) \<longleftrightarrow> Match c \<in> set ps"
  by (induction ps rule: match_contents.induct) auto

lemma extract_mono: "\<not> snd (extract_matches cols ms) \<Longrightarrow> set cols \<subseteq> set (fst (extract_matches cols ms))"
  by (induction cols ms rule: extract_matches.induct) (auto split: option.splits simp: Let_def split: if_splits)

definition match_columns :: "string \<Rightarrow> string list" where
  "match_columns placeholder =
     (case find (\<lambda>p. has_prefix p placeholder) column_prefixes of
        Some p \<Rightarrow> prefixed_columns (TrimPrefix placeholder p)
      | None \<Rightarrow> plain_column placeholder)"

lemma extract_member:
  "m \<in> set ms \<Longrightarrow> \<not> snd (extract_matches cols ms) \<Longrightarrow> set (match_columns m) \<subseteq> set (fst (extract_matches cols ms))"
proof (induction cols ms rule: extract_matches.induct)
  case (2 cols placeholder ms)
  show ?case
  proof (cases "find (\<lambda>p. has_prefix p placeholder) column_prefixes")
    case None
    then show ?thesis using 2 extract_mono [of "cols @ plain_column placeholder" ms] by (auto simp: match_columns_def)
  next
    case (Some p)
    have ns: "TrimPrefix placeholder p \<noteq> ''*''" using 2(4) Some by (auto simp: Let_def)
    then have eq: "extract_matches cols (placeholder # ms) = extract_matches (cols @ prefixed_columns (TrimPrefix placeholder p)) ms"
      using Some by simp
    have *: "\<not> snd (extract_matches (cols @ prefixed_columns (TrimPrefix placeholder p)) ms)" using 2(4) eq by simp
    show ?thesis
    proof (cases "m = placeholder")
      case True
      then show ?thesis using extract_mono [OF *] Some eq by (auto simp: match_columns_def)
    next
      case False
      then show ?thesis using 2(2) [OF Some refl ns _ *] 2(3) eq by auto
    qed
  qed
qed simp

lemma extracted:
  assumes "Match m \<in> set (pieces [] pattern)"
  shows "set (match_columns m) \<subseteq> set (fst (extractColumnsFromPlaceholder pattern)) \<or> snd (extractColumnsFromPlaceholder pattern)"
  using extract_member [of m "match_contents (pieces [] pattern)" "[]"] assms
  by (auto simp: extractColumnsFromPlaceholder_def)

lemma seg_match:
  assumes "SVar v \<in> set segs" "seg_ok (SVar v)"
  shows "Match v \<in> set (pieces [] (print_segs segs))"
proof -
  obtain xs ys where "segs = xs @ SVar v # ys" using assms(1) by (meson split_list)
  then have "print_segs segs = print_segs xs @ CHR ''{'' # v @ CHR ''}'' # print_segs ys"
    by (simp add: print_segs_def)
  then show ?thesis using pieces_finds [of v "[]" "print_segs xs" "print_segs ys"] seg_ok_var [OF assms(2)] by simp
qed

lemma plain_columns_cover:
  assumes "seg_ok (SVar v)" "c \<in> set (part_columns (placeholderTemplatePart v))" "c \<noteq> []" "\<not> has_prefix ''%'' c" "\<not> has_suffix ''%'' c"
  shows "c \<in> set (match_columns v)"
proof -
  have "find (\<lambda>p. has_prefix p v) column_prefixes = None"
    using assms(1) by (simp add: column_prefixes_def find_None_iff)
  moreover have "c = (if has_prefix ''old:'' (TrimSpace v) then drop 4 (TrimSpace v) else TrimSpace v)"
    using assms(2) by (auto simp: placeholderTemplatePart_def Let_def split: if_splits)
  moreover have "\<not> has_prefix ''%'' (TrimSpace v)" "\<not> has_suffix ''%'' (TrimSpace v)" if "has_prefix ''old:'' (TrimSpace v)"
  proof -
    have "take 4 (TrimSpace v) = ''old:''" using that by (simp add: has_prefix_def eval_nat_numeral)
    then have eq: "TrimSpace v = ''old:'' @ c" using that calculation(2) append_take_drop_id [of 4 "TrimSpace v"] by simp
    show "\<not> has_prefix ''%'' (TrimSpace v)" unfolding eq by (simp add: has_prefix_def)
    show "\<not> has_suffix ''%'' (TrimSpace v)" unfolding eq using assms(3,5)
      by (cases "rev c") (auto simp: has_suffix_def has_prefix_def)
  qed
  ultimately show ?thesis using assms(4,5)
    by (auto simp: match_columns_def plain_column_def Let_def TrimPrefix_def eval_nat_numeral split: if_splits)
qed

lemma scanned_columns:
  "c \<in> set (concat (map part_columns (map part_of_piece (scanned acc segs)))) \<Longrightarrow>
     \<exists>v. SVar v \<in> set segs \<and> c \<in> set (part_columns (placeholderTemplatePart v))"
  by (induction acc segs rule: scanned.induct) (auto split: if_splits)

lemma pieces_whole:
  assumes "pfx \<noteq> []" "\<forall>c \<in> set pfx. \<not> brace c" "\<forall>c \<in> set cols. \<not> brace c"
  shows "Match (pfx @ cols) \<in> set (pieces [] (CHR ''{'' # pfx @ cols @ ''}''))"
proof -
  have "Match (pfx @ cols) \<in> set (pieces [] ([] @ CHR ''{'' # (pfx @ cols) @ CHR ''}'' # []))"
    using assms by (intro pieces_finds) auto
  then show ?thesis by (simp only: append_assoc append_Nil)
qed

text \<open>The patterns an argument is meant to be: a template, a list of columns, a difference.\<close>

inductive argument_pattern :: "string \<Rightarrow> bool" where
  template: "\<forall>seg \<in> set segs. seg_ok seg \<Longrightarrow> apart segs \<Longrightarrow> argument_pattern (print_segs segs)"
| columns: "pfx \<in> {''pairs:'', ''json:''} \<Longrightarrow> \<forall>c \<in> set cols. \<not> brace c \<Longrightarrow> argument_pattern (CHR ''{'' # pfx @ cols @ ''}'')"
| difference: "\<forall>c \<in> set col. \<not> brace c \<and> c \<noteq> CHR '','' \<Longrightarrow> argument_pattern (CHR ''{'' # ''diff:'' @ col @ ''}'')"

lemma placeholder_body_self:
  "CHR ''{'' \<notin> set cols \<Longrightarrow> placeholder_body pfx (pfx @ cols @ ''}'') = Some cols"
  by (simp add: placeholder_body_def has_prefix_def butlast_append)

lemma placeholder_body_other: "\<not> has_prefix pfx pattern \<Longrightarrow> placeholder_body pfx pattern = None"
  by (simp add: placeholder_body_def)

lemma compile_pairs:
  assumes "CHR ''{'' \<notin> set cols"
  shows "set (reads (compileCommand (''{pairs:'' @ cols @ ''}''))) \<subseteq> set (splitPlaceholderColumns cols)"
  using placeholder_body_self [OF assms, of "''{pairs:''"]
  by (cases "''{pairs:'' @ cols @ ''}'' = ''{pairs:*}''") (simp_all add: compileCommand_def)

lemma compile_json:
  assumes "CHR ''{'' \<notin> set cols"
  shows "set (reads (compileCommand (''{json:'' @ cols @ ''}''))) \<subseteq> set (splitPlaceholderColumns cols)"
  using placeholder_body_self [OF assms, of "''{json:''"] placeholder_body_other [of "''{pairs:''" "''{json:'' @ cols @ ''}''"]
  by (cases "''{json:'' @ cols @ ''}'' = ''{json:*}''") (simp_all add: compileCommand_def has_prefix_def)

lemma compile_difference:
  assumes "CHR ''{'' \<notin> set col"
  shows "reads (compileCommand (''{diff:'' @ col @ ''}'')) = [TrimSpace col]"
  using placeholder_body_self [OF assms, of "''{diff:''"] placeholder_body_other [of "''{pairs:''" "''{diff:'' @ col @ ''}''"]
    placeholder_body_other [of "''{json:''" "''{diff:'' @ col @ ''}''"]
  by (simp add: compileCommand_def has_prefix_def)

lemma compile_columns:
  assumes "pfx \<in> {''pairs:'', ''json:''}" "\<forall>c \<in> set cols. \<not> brace c" "c \<in> set (reads (compileCommand (CHR ''{'' # pfx @ cols @ ''}'')))"
  shows "c \<in> set (splitPlaceholderColumns cols)"
proof -
  have "CHR ''{'' \<notin> set cols" using assms(2) by (auto simp: brace_def)
  then show ?thesis using assms(1,3) compile_pairs [of cols] compile_json [of cols] by auto
qed

lemma match_columns_prefixed:
  assumes "pfx \<in> {''pairs:'', ''json:'', ''diff:''}"
  shows "match_columns (pfx @ cols) = prefixed_columns cols"
proof -
  have "find (\<lambda>p. has_prefix p (pfx @ cols)) column_prefixes = Some pfx"
    using assms by (auto simp: column_prefixes_def has_prefix_def)
  then show ?thesis by (simp add: match_columns_def TrimPrefix_def)
qed

text \<open>One pattern: a column its compiled form looks up by name is extracted from it, or it asks for all columns.\<close>

lemma pattern_columns:
  assumes "argument_pattern pattern" "c \<in> set (reads (compileCommand pattern))"
    and "c \<noteq> []" "\<not> has_prefix ''%'' c" "\<not> has_suffix ''%'' c"
  shows "c \<in> set (fst (extractColumnsFromPlaceholder pattern)) \<or> snd (extractColumnsFromPlaceholder pattern)"
  using assms(1)
proof cases
  case (template segs)
  then have "c \<in> set (concat (map part_columns (map part_of_piece (scanned [] segs))))"
    using assms(2) by (auto simp: compile_template compileTemplateCommand_def pieces_marked Let_def split: if_splits)
  then obtain v where v: "SVar v \<in> set segs" "c \<in> set (part_columns (placeholderTemplatePart v))"
    using scanned_columns by blast
  then have "seg_ok (SVar v)" using template by blast
  with v show ?thesis
    using plain_columns_cover assms(3,4,5) extracted [OF seg_match] template(1) by blast
next
  case (columns pfx cols)
  then have "c \<in> set (prefixed_columns cols)"
    using compile_columns assms(2,3) by (auto simp: prefixed_columns_def splitPlaceholderColumns_def)
  moreover have "Match (pfx @ cols) \<in> set (pieces [] pattern)"
  proof -
    have "pfx \<noteq> []" "\<forall>c \<in> set pfx. \<not> brace c" using columns(2) by (auto simp: brace_def)
    from pieces_whole [OF this columns(3)] show ?thesis by (simp only: columns(1))
  qed
  moreover have "match_columns (pfx @ cols) = prefixed_columns cols" using columns(2) by (intro match_columns_prefixed) blast
  ultimately show ?thesis using extracted [of "pfx @ cols" pattern] by auto
next
  case (difference col)
  then have nb: "CHR ''{'' \<notin> set col" "CHR '','' \<notin> set col" by (auto simp: brace_def)
  have "pattern = ''{diff:'' @ col @ ''}''" using difference(1) by simp
  then have "c = TrimSpace col" using assms(2) compile_difference [OF nb(1)] by simp
  then have "c \<in> set (prefixed_columns col)" using assms(3) nb(2) by (simp add: prefixed_columns_def split_on_no_sep)
  moreover have "Match (''diff:'' @ col) \<in> set (pieces [] pattern)"
  proof -
    have "''diff:'' \<noteq> []" "\<forall>c \<in> set ''diff:''. \<not> brace c" "\<forall>c \<in> set col. \<not> brace c" using difference(2) by (auto simp: brace_def)
    from pieces_whole [OF this] show ?thesis by (simp only: difference(1))
  qed
  moreover have "match_columns (''diff:'' @ col) = prefixed_columns col" by (intro match_columns_prefixed) blast
  ultimately show ?thesis using extracted [of "''diff:'' @ col" pattern] by (metis subsetD)
qed

lemma ExtractColumns_covers:
  assumes "g \<in> set (all_groups c)" "arg \<in> set (group_args g)"
    and "col \<in> set (fst (extractColumnsFromPlaceholder arg)) \<or> snd (extractColumnsFromPlaceholder arg)"
  shows "col \<in> set (ExtractColumns c) \<or> (ExtractColumns c \<noteq> [] \<and> hd (ExtractColumns c) = ''all'')"
proof (cases "snd (extractColumnsFromPlaceholder arg)")
  case True
  then have "list_ex (\<lambda>g. list_ex (\<lambda>arg. snd (extractColumnsFromPlaceholder arg)) (group_args g)) (all_groups c)"
    using assms(1,2) unfolding list_ex_iff by blast
  then show ?thesis by (simp add: ExtractColumns_def Let_def)
next
  case False
  then show ?thesis using assms by (auto simp: ExtractColumns_def Let_def)
qed


text \<open>A table with one command, on delete.\<close>

definition sample_delete_table :: RedisTableConfig where
  "sample_delete_table = \<lparr>rt_FullName = ''public.t'', rt_Options = [], rt_Insert = None, rt_Update = None, rt_Delete = None, rt_Commands = [],
     ResolvedCommands = [], InsertCommands = [], UpdateCommands = [],
     DeleteCommands = [\<lparr>rc_Commands = [[''SREM'', ''{pairs: id, name}'']], rc_Condition = None\<rparr>]\<rparr>"


end
