(* ===== verification/Rediscondition.thy ===== *)
theory Rediscondition
  imports Redisconfig
begin

text \<open>
  \<open>pg2redis/condition/evaluator.go\<close>: the condition of a command group on the values of an entry.
  Parsing a float from a string and comparing floats extend the record of host functions.
\<close>

record ('x, 'f) cond_host = "('x, 'f) host" +
  parse_float :: "string \<Rightarrow> 'f option"
  float_less :: "'f \<Rightarrow> 'f \<Rightarrow> bool"
  float_less_eq :: "'f \<Rightarrow> 'f \<Rightarrow> bool"

section \<open>Values\<close>

text \<open>\<open>strconv.FormatBool\<close> and the formatting shared with the commands.\<close>

definition stringifyForCondition :: "('x, 'f, 'z) cond_host_scheme \<Rightarrow> 'x goval \<Rightarrow> string" where
  "stringifyForCondition h v =
     (case v of
        GBool b \<Rightarrow> if b then ''true'' else ''false''
      | GStr s \<Rightarrow> s
      | _ \<Rightarrow> format_value h v)"

text \<open>\<open>convertToFloat64\<close> of this package: strings are parsed, numerics and booleans are not numbers.\<close>

definition cond_float :: "('x, 'f, 'z) cond_host_scheme \<Rightarrow> 'x goval \<Rightarrow> 'f option" where
  "cond_float h v =
     (case v of
        GStr s \<Rightarrow> parse_float h s
      | GBool b \<Rightarrow> None
      | GNumeric n \<Rightarrow> None
      | _ \<Rightarrow> float_of h v)"

definition isEqual :: "('x, 'f, 'z) cond_host_scheme \<Rightarrow> 'x goval option \<Rightarrow> 'x goval option \<Rightarrow> bool" where
  "isEqual h a b =
     (case (a, b) of
        (Some x, Some y) \<Rightarrow> stringifyForCondition h x = stringifyForCondition h y
      | (None, None) \<Rightarrow> True
      | _ \<Rightarrow> False)"

definition isDistinctFrom :: "('x, 'f, 'z) cond_host_scheme \<Rightarrow> 'x goval option \<Rightarrow> 'x goval option \<Rightarrow> bool" where
  "isDistinctFrom h a b =
     (if a = None \<and> b = None then False
      else if a = None \<or> b = None then True
      else \<not> isEqual h a b)"

section \<open>Evaluation\<close>

definition resolveValue :: "string \<Rightarrow> 'x entry \<Rightarrow> ('x goval option \<times> bool) go_result" where
  "resolveValue colName entry =
     (if has_prefix ''{old:'' colName \<and> has_suffix ''}'' colName then
        (if is_nil (we_PrevTuple entry) then Inr (None, False)
         else tuple_Get (we_PrevTuple entry) (butlast (drop 5 colName)))
      else if has_prefix ''{'' colName \<and> has_suffix ''}'' colName then
        tuple_Get (we_Tuple entry) (butlast (drop 1 colName))
      else tuple_Get (we_Tuple entry) colName)"

definition resolveValueMacro :: "string \<Rightarrow> 'x entry \<Rightarrow> ('x goval option \<times> bool) go_result" where
  "resolveValueMacro macro entry =
     (if has_prefix ''{old:'' macro \<and> has_suffix ''}'' macro then
        (if is_nil (we_PrevTuple entry) then Inr (None, False)
         else tuple_Get (we_PrevTuple entry) (butlast (drop 5 macro)))
      else if has_prefix ''{'' macro \<and> has_suffix ''}'' macro then
        tuple_Get (we_Tuple entry) (butlast (drop 1 macro))
      else Inr (Some (GStr macro), True))"

definition order_values :: "('x, 'f, 'z) cond_host_scheme \<Rightarrow> 'x goval \<Rightarrow> 'x goval \<Rightarrow>
   ('f \<Rightarrow> 'f \<Rightarrow> bool) \<Rightarrow> (string \<Rightarrow> string \<Rightarrow> bool) \<Rightarrow> bool" where
  "order_values h a b fcmp scmp =
     (case (cond_float h a, cond_float h b) of
        (Some x, Some y) \<Rightarrow> fcmp x y
      | _ \<Rightarrow> scmp (stringifyForCondition h a) (stringifyForCondition h b))"

definition compare_values :: "('x, 'f, 'z) cond_host_scheme \<Rightarrow> 'x goval \<Rightarrow> 'x goval \<Rightarrow> ConditionOperator \<Rightarrow> bool go_result" where
  "compare_values h a b op =
     (case op of
        OpEqual \<Rightarrow> Inr (isEqual h (Some a) (Some b))
      | OpNotEqual \<Rightarrow> Inr (\<not> isEqual h (Some a) (Some b))
      | OpLess \<Rightarrow> Inr (order_values h a b (float_less h) (<))
      | OpGreater \<Rightarrow> Inr (order_values h a b (\<lambda>x y. float_less h y x) (>))
      | OpLessEq \<Rightarrow> Inr (order_values h a b (float_less_eq h) (\<le>))
      | OpGreaterEq \<Rightarrow> Inr (order_values h a b (\<lambda>x y. float_less_eq h y x) (\<ge>))
      | _ \<Rightarrow> Inl (Error ''unsupported operator for comparison''))"

text \<open>The loop of \<open>in\<close> returns true at the first value equal to the column's, the loop of \<open>not_in\<close> false.\<close>

fun matches_any :: "('x, 'f, 'z) cond_host_scheme \<Rightarrow> 'x entry \<Rightarrow> 'x goval option \<Rightarrow> string list \<Rightarrow> bool go_result" where
  "matches_any h entry val [] = Inr False"
| "matches_any h entry val (vMacro # vs) =
     bind_result (resolveValueMacro vMacro entry) (\<lambda>(otherVal, _).
       if isEqual h val otherVal then Inr True else matches_any h entry val vs)"

fun matches_none :: "('x, 'f, 'z) cond_host_scheme \<Rightarrow> 'x entry \<Rightarrow> 'x goval option \<Rightarrow> string list \<Rightarrow> bool go_result" where
  "matches_none h entry val [] = Inr True"
| "matches_none h entry val (vMacro # vs) =
     bind_result (resolveValueMacro vMacro entry) (\<lambda>(otherVal, _).
       if isEqual h val otherVal then Inr False else matches_none h entry val vs)"

definition Evaluate :: "('x, 'f, 'z) cond_host_scheme \<Rightarrow> ConditionConfig option \<Rightarrow> 'x entry \<Rightarrow> bool go_result" where
  "Evaluate h condition entry =
     (case condition of
        None \<Rightarrow> Inr True
      | Some cond \<Rightarrow>
         bind_result (resolveValue (cond_Column cond) entry) (\<lambda>(v, ok).
           let val = (if ok then v else None) in
           case cond_Op cond of
             OpIsNull \<Rightarrow> Inr (val = None)
           | OpIsNotNull \<Rightarrow> Inr (val \<noteq> None)
           | OpIsDistinctFrom \<Rightarrow>
               bind_result (resolveValueMacro (cond_Value cond) entry) (\<lambda>(otherVal, _). Inr (isDistinctFrom h val otherVal))
           | op \<Rightarrow>
               (case val of
                  None \<Rightarrow> Inr False
                | Some w \<Rightarrow>
                   (case op of
                      OpIn \<Rightarrow> matches_any h entry val (cond_Values cond)
                    | OpNotIn \<Rightarrow> matches_none h entry val (cond_Values cond)
                    | OpOther _ \<Rightarrow> Inl (Error ''unsupported operator'')
                    | _ \<Rightarrow>
                       bind_result (resolveValueMacro (cond_Value cond) entry) (\<lambda>(otherVal, _).
                         case otherVal of
                           None \<Rightarrow> Inr False
                         | Some other \<Rightarrow> compare_values h w other op)))))"

section \<open>Totality and duality\<close>

text \<open>An entry whose tuples can be read: the tuple is there, the previous one is absent or there.\<close>

definition readable :: "'x entry \<Rightarrow> bool" where
  "readable entry \<longleftrightarrow> (\<exists>om. we_Tuple entry = Tup om \<and> om_wf om) \<and>
     (we_PrevTuple entry = NoTuple \<or> (\<exists>om. we_PrevTuple entry = Tup om \<and> om_wf om))"

lemma om_Get_total: "om_wf om \<Longrightarrow> \<exists>r. om_Get om k = Inr r"
  by (erule om_index_cases [where k = k]) (auto simp: om_Get_def Let_def)

lemma tuple_Get_total:
  assumes "readable entry"
  shows "\<exists>v ok. tuple_Get (we_Tuple entry) k = Inr (v, ok)"
    "we_PrevTuple entry \<noteq> NoTuple \<Longrightarrow> \<exists>v ok. tuple_Get (we_PrevTuple entry) k = Inr (v, ok)"
  using assms om_Get_total by (fastforce simp: readable_def tuple_Get_def)+

lemma resolve_total:
  assumes "readable entry"
  shows "\<exists>v ok. resolveValue c entry = Inr (v, ok)" "\<exists>v ok. resolveValueMacro m entry = Inr (v, ok)"
  using tuple_Get_total [OF assms] by (auto simp: resolveValue_def resolveValueMacro_def)

text \<open>The value of the column of a condition, and of a right-hand side, in an entry.\<close>

definition column_value :: "ConditionConfig \<Rightarrow> 'x entry \<Rightarrow> 'x goval option" where
  "column_value cond entry =
     (case resolveValue (cond_Column cond) entry of Inr (v, True) \<Rightarrow> v | _ \<Rightarrow> None)"

definition macro_value :: "string \<Rightarrow> 'x entry \<Rightarrow> 'x goval option" where
  "macro_value m entry = (case resolveValueMacro m entry of Inr (v, _) \<Rightarrow> v | _ \<Rightarrow> None)"

definition equals_one_of :: "('x, 'f, 'z) cond_host_scheme \<Rightarrow> 'x entry \<Rightarrow> 'x goval option \<Rightarrow> string list \<Rightarrow> bool" where
  "equals_one_of h entry val vs = list_ex (\<lambda>m. isEqual h val (macro_value m entry)) vs"

text \<open>Both loops end, and decide the same question.\<close>

lemma matches_loops:
  assumes "readable entry"
  shows "matches_any h entry val vs = Inr (equals_one_of h entry val vs)"
    "matches_none h entry val vs = Inr (\<not> equals_one_of h entry val vs)"
proof (induction vs)
  case (Cons m vs)
  obtain v ok where "resolveValueMacro m entry = Inr (v, ok)" using resolve_total(2) [OF assms] by blast
  { case 1 show ?case using Cons.IH \<open>resolveValueMacro m entry = Inr (v, ok)\<close> by (simp add: equals_one_of_def macro_value_def)
  next
    case 2 show ?case using Cons.IH \<open>resolveValueMacro m entry = Inr (v, ok)\<close> by (simp add: equals_one_of_def macro_value_def) }
qed (simp_all add: equals_one_of_def)

lemma some_bool [simp]: "\<exists>b. \<not> b" "Ex Not" "\<exists>b. b"
  by blast+

text \<open>The operator that negates another one.\<close>

fun dual :: "ConditionOperator \<Rightarrow> ConditionOperator" where
  "dual OpEqual = OpNotEqual"
| "dual OpNotEqual = OpEqual"
| "dual OpIn = OpNotIn"
| "dual OpNotIn = OpIn"
| "dual OpIsNull = OpIsNotNull"
| "dual OpIsNotNull = OpIsNull"
| "dual op = op"

lemma supported_operator: "validate_condition cond = [] \<Longrightarrow> cond_Op cond \<noteq> OpOther s"
  by (auto simp: validate_condition_def split: list.splits)


definition sample_cond_host :: "(nat, int) cond_host" where
  "sample_cond_host = host.extend sample_host \<lparr>parse_float = (\<lambda>s. None), float_less = (<), float_less_eq = (\<le>)\<rparr>"

lemma sample_readable: "readable sample_entry"
proof -
  have "om_wf \<lparr>om_values = [Some (GStr ''7''), None], om_set = [True, False], om_size = 1, om_keyMap = km_New [''id'', ''ts'']\<rparr>"
    using km_wf_New [of "[''id'', ''ts'']"] by (simp add: om_wf_def less_Suc_eq Len_def km_New_def nth_Cons')
  then show ?thesis by (simp add: readable_def sample_entry_def)
qed


end
