(* ===== verification/Batching.thy ===== *)
theory Batching
  imports Prelude
begin

text \<open>
  What the two writers share: a worker that takes one event at a time, keeps entries in buffers, one
  per destination, and submits a buffer as a batch. The contract of one step is a locale; that a run
  neither loses, duplicates nor reorders entries is proved once from it.
\<close>

text \<open>The run of a worker over a list of events: the batches it submits and the state it ends in.\<close>

fun run_steps :: "('ev \<Rightarrow> 's \<Rightarrow> 'b list \<times> 's) \<Rightarrow> 'ev list \<Rightarrow> 's \<Rightarrow> 'b list \<times> 's" where
  "run_steps step [] s = ([], s)"
| "run_steps step (ev # evs) s =
     (let (bs, s') = step ev s; (bs', s'') = run_steps step evs s' in (bs @ bs', s''))"

lemma run_steps_append:
  "run_steps step (evs @ evs') s =
     (let (bs, s') = run_steps step evs s; (bs', s'') = run_steps step evs' s' in (bs @ bs', s''))"
  by (induction evs arbitrary: s) (auto split: prod.splits)

locale batching =
  fixes step :: "'ev \<Rightarrow> 's \<Rightarrow> 'b list \<times> 's"
    and pending :: "'k \<Rightarrow> 's \<Rightarrow> 'e list"
    and arrivals :: "'k \<Rightarrow> 'ev \<Rightarrow> 'e list"
    and content :: "'k \<Rightarrow> 'b \<Rightarrow> 'e list"
    and inv :: "'s \<Rightarrow> bool"
    and batch_ok :: "'b \<Rightarrow> bool"
  assumes step_keeps: "inv s \<Longrightarrow> step ev s = (bs, s') \<Longrightarrow>
      concat (map (content k) bs) @ pending k s' = pending k s @ arrivals k ev"
    and step_inv: "inv s \<Longrightarrow> step ev s = (bs, s') \<Longrightarrow> inv s' \<and> (\<forall>b \<in> set bs. batch_ok b)"
begin

lemma run_keeps:
  "inv s \<Longrightarrow> run_steps step evs s = (bs, s') \<Longrightarrow>
     concat (map (content k) bs) @ pending k s' = pending k s @ concat (map (arrivals k) evs)"
proof (induction evs arbitrary: s bs)
  case (Cons ev evs)
  obtain bs1 s1 bs2 where step: "step ev s = (bs1, s1)" and rest: "run_steps step evs s1 = (bs2, s')" and bs: "bs = bs1 @ bs2"
    using Cons.prems(2) by (auto split: prod.splits)
  then show ?case
    using Cons.IH [OF _ rest] step_inv [OF Cons.prems(1) step] step_keeps [OF Cons.prems(1) step, of k] by simp
qed simp

lemma run_inv:
  "inv s \<Longrightarrow> run_steps step evs s = (bs, s') \<Longrightarrow> inv s' \<and> (\<forall>b \<in> set bs. batch_ok b)"
proof (induction evs arbitrary: s bs)
  case (Cons ev evs)
  obtain bs1 s1 bs2 where step: "step ev s = (bs1, s1)" and rest: "run_steps step evs s1 = (bs2, s')" and bs: "bs = bs1 @ bs2"
    using Cons.prems(2) by (auto split: prod.splits)
  then show ?case using Cons.IH [OF _ rest] step_inv [OF Cons.prems(1) step] by auto
qed simp

end

end
