(* ===== verification/Rediswriter.thy ===== *)
theory Rediswriter
  imports Rediscondition Batching
begin

text \<open>
  \<open>pg2redis/redis_writer.go\<close>: the commands of a table are compiled once; the writer of a table
  turns an entry into commands on a pipeline, inside \<open>MULTI\<close>/\<open>EXEC\<close> when there is more than one; the
  worker collects entries into batches, and a batch is flushed as one pipeline and answered to the
  tracker. The Redis client is a parameter: the error of queueing a command (\<open>do\<close>) and of
  executing the pipeline. A pipeline is the list of commands queued on it. Statistics are left out.
\<close>

section \<open>Compiled tables\<close>

record redisCompiledCommandConfig =
  cc_name :: string
  cc_args :: "redisCompiledCommand list"

record redisCompiledCommandGroup =
  cg_condition :: "ConditionConfig option"
  cg_commands :: "redisCompiledCommandConfig list"

definition compileCommandConfig :: "string list \<Rightarrow> redisCompiledCommandConfig option" where
  "compileCommandConfig cmdCfg =
     (case cmdCfg of
        [] \<Rightarrow> None
      | name # args \<Rightarrow> Some \<lparr>cc_name = ToUpper name, cc_args = map compileCommand args\<rparr>)"

definition compile_group :: "RedisCommandWithCondition \<Rightarrow> redisCompiledCommandGroup" where
  "compile_group g =
     \<lparr>cg_condition = rc_Condition g,
      cg_commands = concat (map (\<lambda>cmd. opt_list (compileCommandConfig cmd)) (rc_Commands g))\<rparr>"

definition mustCompileCommandGroups :: "RedisCommandWithCondition list \<Rightarrow> redisCompiledCommandGroup list" where
  "mustCompileCommandGroups groups = filter (\<lambda>cg. cg_commands cg \<noteq> []) (map compile_group groups)"

definition defaultDeleteCommands :: "string \<Rightarrow> RedisCommandWithCondition list" where
  "defaultDeleteCommands tableName =
     [\<lparr>rc_Commands = [[''DEL'', tableName @ '':%pk%'']], rc_Condition = None\<rparr>]"

record redisDynamicWriter =
  resolvedCommands :: "redisCompiledCommandGroup list"
  insertCommands :: "redisCompiledCommandGroup list"
  updateCommands :: "redisCompiledCommandGroup list"
  deleteCommands :: "redisCompiledCommandGroup list"
  dw_defaultDelete :: "redisCompiledCommandGroup list"
  dw_txOpts :: TxCommitTimeOptions

definition createPipelineWriter :: "TxCommitTimeOptions \<Rightarrow> RedisTableConfig \<Rightarrow> redisDynamicWriter" where
  "createPipelineWriter opts cfg =
     \<lparr>resolvedCommands = mustCompileCommandGroups (ResolvedCommands cfg),
      insertCommands = mustCompileCommandGroups (InsertCommands cfg),
      updateCommands = mustCompileCommandGroups (UpdateCommands cfg),
      deleteCommands = mustCompileCommandGroups (DeleteCommands cfg),
      dw_defaultDelete = mustCompileCommandGroups (defaultDeleteCommands (rt_FullName cfg)),
      dw_txOpts = opts\<rparr>"

definition getCommands :: "redisDynamicWriter \<Rightarrow> OperationType \<Rightarrow> redisCompiledCommandGroup list" where
  "getCommands r opType =
     (let ops = (case opType of OpInsert \<Rightarrow> insertCommands r | OpUpdate \<Rightarrow> updateCommands r | OpDelete \<Rightarrow> deleteCommands r) in
      if ops \<noteq> [] then ops
      else if opType = OpDelete then dw_defaultDelete r
      else resolvedCommands r)"

section \<open>Building one command\<close>

record 'f redisCommand =
  cmd_name :: string
  cmd_args :: "'f arg list"
  cmd_table :: string

fun required_len :: "TxCommitTimeOptions \<Rightarrow> 'x entry \<Rightarrow> redisCompiledCommand list \<Rightarrow> u32 \<Rightarrow> u32 go_result" where
  "required_len opts entry [] n = Inr n"
| "required_len opts entry (a # as) n = bind_result (eval_arg opts entry a) (\<lambda>k. required_len opts entry as (n + k))"

fun exec_args :: "('x, 'f, 'z) cond_host_scheme \<Rightarrow> TxCommitTimeOptions \<Rightarrow> int \<Rightarrow> u32 \<Rightarrow> redisCompiledCommand list \<Rightarrow>
   'f arg list \<times> u32 \<Rightarrow> 'x entry \<Rightarrow> ('f arg list \<times> u32) go_result \<times> 'x entry" where
  "exec_args h opts commitTime xid [] st entry = (Inr st, entry)"
| "exec_args h opts commitTime xid (a # as) st entry =
     (case exec_arg (host.truncate h) opts commitTime xid a st entry of
        (Inl e, entry') \<Rightarrow> (Inl e, entry')
      | (Inr st', entry') \<Rightarrow> exec_args h opts commitTime xid as st' entry')"

definition buildCommand ::
  "('x, 'f, 'z) cond_host_scheme \<Rightarrow> TxCommitTimeOptions \<Rightarrow> redisCompiledCommandConfig \<Rightarrow> 'x entry \<Rightarrow> int \<Rightarrow> u32 \<Rightarrow>
   'f redisCommand option go_result \<times> 'x entry" where
  "buildCommand h opts cmdCfg entry commitTime xid =
     (if cc_name cmdCfg = [] then (Inr None, entry)
      else case required_len opts entry (cc_args cmdCfg) 1 of
        Inl e \<Rightarrow> (Inl e, entry)
      | Inr requiredLen \<Rightarrow>
         (case slice_set (replicate (unat requiredLen) NilArg) 0 (StrArg (cc_name cmdCfg)) of
            Inl e \<Rightarrow> (Inl e, entry)
          | Inr args \<Rightarrow>
             (case exec_args h opts commitTime xid (cc_args cmdCfg) (args, 1) entry of
                (Inl e, entry') \<Rightarrow> (Inl e, entry')
              | (Inr (args', next), entry') \<Rightarrow>
                  (Inr (Some \<lparr>cmd_name = cc_name cmdCfg, cmd_args = take (unat next) args',
                              cmd_table = tn_FullName (we_Table entry')\<rparr>), entry'))))"

section \<open>Writing one entry\<close>

type_synonym 'f pipeline = "'f arg list list"

definition enqueueCommand :: "('f arg list \<Rightarrow> go_error option) \<Rightarrow> 'f redisCommand \<Rightarrow> 'f pipeline \<Rightarrow> unit go_result \<times> 'f pipeline" where
  "enqueueCommand do cmd pp =
     (case do (cmd_args cmd) of
        None \<Rightarrow> (Inr (), pp @ [cmd_args cmd])
      | Some e \<Rightarrow> (Inl e, pp @ [cmd_args cmd]))"

fun enqueue_all :: "('f arg list \<Rightarrow> go_error option) \<Rightarrow> 'f redisCommand list \<Rightarrow> 'f pipeline \<Rightarrow> unit go_result \<times> 'f pipeline" where
  "enqueue_all do [] pp = (Inr (), pp)"
| "enqueue_all do (cmd # cmds) pp =
     (case enqueueCommand do cmd pp of
        (Inl e, pp') \<Rightarrow> (Inl e, pp')
      | (Inr _, pp') \<Rightarrow> enqueue_all do cmds pp')"

definition bare_command :: "string \<Rightarrow> 'f redisCommand" where
  "bare_command name = \<lparr>cmd_name = name, cmd_args = [StrArg name], cmd_table = []\<rparr>"

definition enqueueTransaction :: "('f arg list \<Rightarrow> go_error option) \<Rightarrow> 'f redisCommand list \<Rightarrow> 'f pipeline \<Rightarrow> unit go_result \<times> 'f pipeline" where
  "enqueueTransaction do commands pp =
     enqueue_all do (bare_command ''MULTI'' # commands @ [bare_command ''EXEC'']) pp"

definition wrap_build :: "go_error \<Rightarrow> go_error" where
  "wrap_build e = (case e of Error m \<Rightarrow> Error (''failed to build Redis command: '' @ m) | _ \<Rightarrow> e)"

fun build_all :: "('x, 'f, 'z) cond_host_scheme \<Rightarrow> TxCommitTimeOptions \<Rightarrow> redisCompiledCommandConfig list \<Rightarrow> 'x entry \<Rightarrow> int \<Rightarrow> u32 \<Rightarrow>
   'f redisCommand list \<Rightarrow> 'f redisCommand list go_result \<times> 'x entry" where
  "build_all h opts [] entry commitTime xid res = (Inr res, entry)"
| "build_all h opts (c # cs) entry commitTime xid res =
     (case buildCommand h opts c entry commitTime xid of
        (Inl e, entry') \<Rightarrow> (Inl (wrap_build e), entry')
      | (Inr r, entry') \<Rightarrow> build_all h opts cs entry' commitTime xid (res @ opt_list r))"

text \<open>The groups whose condition holds; a condition that cannot be evaluated is logged and skipped.\<close>

definition group_matches :: "('x, 'f, 'z) cond_host_scheme \<Rightarrow> ConditionConfig option \<Rightarrow> 'x entry \<Rightarrow> bool go_result" where
  "group_matches h c entry =
     (case Evaluate h c entry of
        Inl (Error m) \<Rightarrow> Inr False
      | r \<Rightarrow> r)"

fun build_groups :: "('x, 'f, 'z) cond_host_scheme \<Rightarrow> TxCommitTimeOptions \<Rightarrow> redisCompiledCommandGroup list \<Rightarrow> 'x entry \<Rightarrow> int \<Rightarrow> u32 \<Rightarrow>
   'f redisCommand list \<Rightarrow> 'f redisCommand list go_result \<times> 'x entry" where
  "build_groups h opts [] entry commitTime xid res = (Inr res, entry)"
| "build_groups h opts (g # gs) entry commitTime xid res =
     (case group_matches h (cg_condition g) entry of
        Inl e \<Rightarrow> (Inl e, entry)
      | Inr False \<Rightarrow> build_groups h opts gs entry commitTime xid res
      | Inr True \<Rightarrow>
         (case build_all h opts (cg_commands g) entry commitTime xid res of
            (Inl e, entry') \<Rightarrow> (Inl e, entry')
          | (Inr res', entry') \<Rightarrow> build_groups h opts gs entry' commitTime xid res'))"

fun op_of_kind :: "OpKind \<Rightarrow> OperationType" where
  "op_of_kind Update = OpUpdate"
| "op_of_kind Delete = OpDelete"
| "op_of_kind _ = OpInsert"

definition write_entry ::
  "('x, 'f, 'z) cond_host_scheme \<Rightarrow> ('f arg list \<Rightarrow> go_error option) \<Rightarrow> redisDynamicWriter \<Rightarrow> 'x entry \<Rightarrow> int \<Rightarrow> u32 \<Rightarrow>
   'f pipeline \<Rightarrow> unit go_result \<times> 'f pipeline \<times> 'x entry" where
  "write_entry h do r entry commitTime xid pp =
     (let commands = getCommands r (op_of_kind (we_Kind entry)) in
      if commands = [] then (Inl (Fatal ''no commands configured''), pp, entry)
      else case build_groups h (dw_txOpts r) commands entry commitTime xid [] of
        (Inl e, entry') \<Rightarrow> (Inl e, pp, entry')
      | (Inr resolved, entry') \<Rightarrow>
         (case resolved of
            [] \<Rightarrow> (Inr (), pp, entry')
          | [cmd] \<Rightarrow> (let (res, pp') = enqueueCommand do cmd pp in (res, pp', entry'))
          | _ \<Rightarrow> (let (res, pp') = enqueueTransaction do resolved pp in (res, pp', entry'))))"

section \<open>Batches\<close>

record 'x redisBatchEntry =
  be_LSN :: LSN
  be_XID :: u32
  be_TableName :: TableName
  be_PK :: string
  be_Offset :: u32
  be_walEntry :: "'x entry"
  be_commitTime :: int

text \<open>\<open>enqueue\<close>: an empty request is answered at once, the entries of another go to the worker.\<close>

definition rw_enqueue :: "'x goval OrderedMap WriteRequest \<Rightarrow> ResponseEntry list + 'x redisBatchEntry list" where
  "rw_enqueue req =
     (if wr_Entries req = []
      then Inl [\<lparr>re_PK = [], re_Table = \<lparr>tn_Schema = [], tn_Name = [], tn_FullName = []\<rparr>, re_LSN = wr_LSN req, re_XID = wr_XID req, re_Offset = 0\<rparr>]
      else Inr (map (\<lambda>entry. \<lparr>be_LSN = wr_LSN req, be_XID = wr_XID req, be_TableName = we_Table entry, be_PK = we_PK entry,
                              be_Offset = we_Offset entry, be_walEntry = entry, be_commitTime = wr_CommitTime req\<rparr>) (wr_Entries req)))"

definition response_of :: "'x redisBatchEntry \<Rightarrow> ResponseEntry" where
  "response_of entry =
     \<lparr>re_PK = be_PK entry, re_Table = be_TableName entry, re_LSN = be_LSN entry, re_XID = be_XID entry, re_Offset = be_Offset entry\<rparr>"

text \<open>Errors of a flush: a reply of the Redis server, or any other error.\<close>

datatype flush_error = RedisReply string | OtherError string

fun error_text :: "flush_error \<Rightarrow> string" where
  "error_text (RedisReply m) = m"
| "error_text (OtherError m) = m"

definition isNonRetryableRedisError :: "flush_error \<Rightarrow> bool" where
  "isNonRetryableRedisError err =
     (case err of
        OtherError m \<Rightarrow> False
      | RedisReply m \<Rightarrow> has_prefix ''WRONGTYPE'' (ToUpper m) \<or> has_prefix ''ERR UNKNOWN COMMAND'' (ToUpper m) \<or>
                        has_prefix ''ERR SYNTAX ERROR'' (ToUpper m))"

definition redisFlushError :: "flush_error \<Rightarrow> WriterError" where
  "redisFlushError err =
     \<lparr>err_Error = error_text err, IsRetryable = (\<not> isNonRetryableRedisError err), IsDownStreamDown = (\<not> isNonRetryableRedisError err)\<rparr>"

definition notifyError :: "'x redisBatchEntry list \<Rightarrow> flush_error \<Rightarrow> ErrorResponseEntry list" where
  "notifyError entries err = map (\<lambda>e. \<lparr>ee_Entry = response_of e, ee_Reason = redisFlushError err\<rparr>) entries"

text \<open>
  What a flush does to the tracker: \<open>OnSuccess\<close>, \<open>OnError\<close>, or the process ends. The entries as
  the flush leaves them are part of the outcome.
\<close>

datatype flush_outcome = FlushOk "ResponseEntry list" | FlushFailed "ErrorResponseEntry list" flush_error | ProcessEnds go_error

fun write_batch ::
  "('x, 'f, 'z) cond_host_scheme \<Rightarrow> ('f arg list \<Rightarrow> go_error option) \<Rightarrow> (string \<rightharpoonup> redisDynamicWriter) \<Rightarrow>
   'x redisBatchEntry list \<Rightarrow> 'f pipeline \<Rightarrow> unit go_result \<times> 'f pipeline \<times> 'x redisBatchEntry list" where
  "write_batch h do writersMap [] pp = (Inr (), pp, [])"
| "write_batch h do writersMap (b # bs) pp =
     (case writersMap (tn_FullName (we_Table (be_walEntry b))) of
        None \<Rightarrow> (Inl (Fatal ''cannot find writer for table''), pp, b # bs)
      | Some w \<Rightarrow>
         (case write_entry h do w (be_walEntry b) (be_commitTime b) (be_XID b) pp of
            (Inl e, pp', entry') \<Rightarrow> (Inl e, pp', b\<lparr>be_walEntry := entry'\<rparr> # bs)
          | (Inr _, pp', entry') \<Rightarrow>
              (let (r, pp'', bs') = write_batch h do writersMap bs pp' in (r, pp'', b\<lparr>be_walEntry := entry'\<rparr> # bs'))))"

definition flushBatch ::
  "('x, 'f, 'z) cond_host_scheme \<Rightarrow> ('f arg list \<Rightarrow> go_error option) \<Rightarrow> ('f pipeline \<Rightarrow> flush_error option) \<Rightarrow>
   (string \<rightharpoonup> redisDynamicWriter) \<Rightarrow> 'x redisBatchEntry list \<Rightarrow> flush_outcome \<times> 'f pipeline \<times> 'x redisBatchEntry list" where
  "flushBatch h do exec writersMap entries =
     (case write_batch h do writersMap entries [] of
        (Inl (Error m), pp, es) \<Rightarrow> (FlushFailed (notifyError entries (OtherError m)) (OtherError m), [], es)
      | (Inl e, pp, es) \<Rightarrow> (ProcessEnds e, [], es)
      | (Inr _, pp, es) \<Rightarrow>
         (case exec pp of
            Some err \<Rightarrow> (FlushFailed (notifyError entries err) err, pp, es)
          | None \<Rightarrow> (FlushOk (map response_of entries), pp, es)))"

section \<open>The worker\<close>

text \<open>
  \<open>runWorker\<close> takes one event at a time: an entry from the channel or the tick of the timer. A
  batch it flushes is submitted to the parallel writers.
\<close>

datatype 'x worker_event = EntryEvent "'x redisBatchEntry" | TimerEvent

record 'x worker =
  wk_buffer :: "'x redisBatchEntry list"
  isTimerRunning :: bool

definition tryFlushBatch :: "'x worker \<Rightarrow> 'x redisBatchEntry list list \<times> 'x worker" where
  "tryFlushBatch w = (if wk_buffer w = [] then ([], w) else ([wk_buffer w], w\<lparr>wk_buffer := []\<rparr>))"

definition buffer_length :: "'x redisBatchEntry list \<Rightarrow> u32" where
  "buffer_length entries = of_nat (length entries)"

fun runWorker_step :: "u32 \<Rightarrow> 'x worker_event \<Rightarrow> 'x worker \<Rightarrow> 'x redisBatchEntry list list \<times> 'x worker" where
  "runWorker_step bufferSize (EntryEvent r) w =
     (let w = w\<lparr>wk_buffer := wk_buffer w @ [r], isTimerRunning := True\<rparr> in
      if 0 < bufferSize \<and> bufferSize \<le> buffer_length (wk_buffer w) then tryFlushBatch w else ([], w))"
| "runWorker_step bufferSize TimerEvent w = tryFlushBatch (w\<lparr>isTimerRunning := False\<rparr>)"

definition runWorker :: "u32 \<Rightarrow> 'x worker_event list \<Rightarrow> 'x worker \<Rightarrow> 'x redisBatchEntry list list \<times> 'x worker" where
  "runWorker bufferSize = run_steps (runWorker_step bufferSize)"

definition new_worker :: "'x worker" where
  "new_worker = \<lparr>wk_buffer = [], isTimerRunning = False\<rparr>"

end
