(* ===== verification/Redisbatch.thy ===== *)
theory Redisbatch
  imports Rediswriter
begin

text \<open>
  Correctness of the Redis writer: the two passes of \<open>buildCommand\<close> agree, a batch keeps the
  commands of each entry together and answers every entry once, the worker neither loses nor
  reorders entries, and accepted configurations do not end the process.
\<close>

section \<open>The two passes of a command\<close>

text \<open>The cells an argument stands for.\<close>

definition arg_spec ::
  "('x, 'f) host \<Rightarrow> TxCommitTimeOptions \<Rightarrow> int \<Rightarrow> u32 \<Rightarrow> 'x entry \<Rightarrow> 'x goval OrderedMap \<Rightarrow> redisCompiledCommand \<Rightarrow> 'f arg list go_result" where
  "arg_spec h opts commitTime xid entry om cmd =
     (case cmd of
        LiteralCommand s \<Rightarrow> Inr [StrArg s]
      | PairsStar \<Rightarrow> Inr (pair_cells h (om_Iter om) @ time_cells h opts commitTime)
      | PairsSubset cols \<Rightarrow> Inr (pair_cells h (om_select om cols))
      | ColumnsStar \<Rightarrow> Inr (map (StrArg \<circ> fst) (om_Iter om) @ (if tx_Save opts then [StrArg (tx_Name opts)] else []))
      | JsonStar \<Rightarrow> bind_result (json_object (encode_value h) (encode_key h) (om_Iter om)) (\<lambda>j. Inr [StrArg j])
      | JsonSubset cols \<Rightarrow> bind_result (json_object (encode_value h) (encode_key h) (om_select om cols)) (\<lambda>j. Inr [StrArg j])
      | DiffCommand col \<Rightarrow> bind_result (diff_value h entry col) (\<lambda>f. Inr [FloatArg f])
      | TemplateCommand parts \<Rightarrow> bind_result (template_value h entry xid parts) (\<lambda>s. Inr [StrArg s]))"

text \<open>The number of cells the first pass reserves.\<close>

definition need :: "TxCommitTimeOptions \<Rightarrow> 'x goval OrderedMap \<Rightarrow> redisCompiledCommand \<Rightarrow> nat" where
  "need opts om cmd =
     (case cmd of
        PairsStar \<Rightarrow> 2 * unat (om_Size om) + (if tx_Save opts then 2 else 0)
      | PairsSubset cols \<Rightarrow> 2 * length cols
      | ColumnsStar \<Rightarrow> unat (om_Size om) + (if tx_Save opts then 1 else 0)
      | _ \<Rightarrow> 1)"

lemma eval_arg_need: "we_Tuple entry = Tup om \<Longrightarrow> eval_arg opts entry cmd = Inr (of_nat (need opts om cmd))"
  by (cases cmd) (simp_all add: eval_arg_def need_def mult.commute)

lemma required_len_need:
  "we_Tuple entry = Tup om \<Longrightarrow> required_len opts entry args n = Inr (n + of_nat (sum_list (map (need opts om) args)))"
  by (induction args arbitrary: n) (simp_all add: eval_arg_need add.assoc)

lemma subset_pairs_select: "om_wf om \<Longrightarrow> subset_pairs (Tup om) cols = Inr (om_select om cols)"
  by (induction cols) (simp_all add: om_select_def tuple_Get_def om_Get_lookup split: option.splits)

lemma exec_arg_spec:
  assumes "we_Tuple entry = Tup om" "om_wf om" "\<not> (tx_Save opts \<and> cmd = JsonStar)"
  shows "exec_arg h opts commitTime xid cmd st entry =
     (bind_result (arg_spec h opts commitTime xid entry om cmd) (\<lambda>vs. write_cells vs st), entry)"
proof (cases cmd)
  case JsonStar
  have "entry\<lparr>we_Tuple := Tup om\<rparr> = entry" using assms(1) by simp
  with JsonStar assms show ?thesis
    by (simp add: exec_arg_def arg_spec_def MarshalJSON_json_object bind_result_assoc)
qed (use assms in \<open>simp_all add: exec_arg_def arg_spec_def subset_pairs_select CustomMarshalJSON_json_object bind_result_assoc\<close>)

lemma length_pair_cells [simp]: "length (pair_cells h kvs) = 2 * length kvs"
  by (induction kvs) (auto simp: pair_cells_def)

lemma length_om_select: "length (om_select om cols) \<le> length cols"
  by (induction cols) (auto simp: om_select_def split: option.splits)

lemma arg_spec_fits:
  assumes "om_wf om" "arg_spec h opts commitTime xid entry om cmd = Inr vs"
  shows "length vs \<le> need opts om cmd"
  using assms length_om_select
  by (cases cmd) (auto simp: arg_spec_def need_def om_Iter_length time_cells_def)

lemma write_cells_spec:
  "unat n + length vs \<le> length arr \<Longrightarrow> length arr < 2 ^ 32 \<Longrightarrow>
     write_cells vs (arr, n) = Inr (take (unat n) arr @ vs @ drop (unat n + length vs) arr, n + of_nat (length vs))"
proof (induction vs arbitrary: arr n)
  case (Cons v vs)
  have n: "unat (n + 1) = Suc (unat n)" using Cons.prems by (intro unat_Suc_u32) simp
  have "take (Suc (unat n)) (arr[unat n := v]) = take (unat n) arr @ [v]"
    using Cons.prems by (simp add: take_Suc_conv_app_nth)
  then show ?case using Cons.prems Cons.IH [of "n + 1" "arr[unat n := v]"] by (simp add: n add.assoc)
qed simp

text \<open>The cells of all arguments, in order; the first failing argument decides the error.\<close>

fun args_spec :: "('x, 'f) host \<Rightarrow> TxCommitTimeOptions \<Rightarrow> int \<Rightarrow> u32 \<Rightarrow> 'x entry \<Rightarrow> 'x goval OrderedMap \<Rightarrow> redisCompiledCommand list \<Rightarrow> 'f arg list go_result" where
  "args_spec h opts commitTime xid entry om [] = Inr []"
| "args_spec h opts commitTime xid entry om (a # as) =
     bind_result (arg_spec h opts commitTime xid entry om a) (\<lambda>vs.
       bind_result (args_spec h opts commitTime xid entry om as) (\<lambda>ws. Inr (vs @ ws)))"

lemma exec_args_spec:
  assumes "we_Tuple entry = Tup om" "om_wf om" "\<not> (tx_Save opts \<and> JsonStar \<in> set args)"
    and "length done + sum_list (map (need opts om) args) \<le> length arr" "length arr < 2 ^ 32" "take (length done) arr = done"
  shows "exec_args h opts commitTime xid args (arr, of_nat (length done)) entry =
     (case args_spec (host.truncate h) opts commitTime xid entry om args of
        Inl e \<Rightarrow> (Inl e, entry)
      | Inr vs \<Rightarrow> (Inr (done @ vs @ drop (length done + length vs) arr, of_nat (length done + length vs)), entry))"
  using assms(3,4,5,6)
proof (induction args arbitrary: "done" arr)
  case Nil
  then show ?case using append_take_drop_id [of "length done" arr] by simp
next
  case (Cons a as)
  let ?h = "host.truncate h"
  have un: "unat (of_nat (length done) :: u32) = length done" using Cons.prems by (simp add: unat_of_nat)
  have "\<not> (tx_Save opts \<and> a = JsonStar)" using Cons.prems(1) by auto
  note exec = exec_arg_spec [OF assms(1,2) this]
  show ?case
  proof (cases "arg_spec ?h opts commitTime xid entry om a")
    case (Inl e)
    then show ?thesis by (simp add: exec)
  next
    case (Inr vs)
    have fits: "length vs \<le> need opts om a" by (rule arg_spec_fits [OF assms(2) Inr])
    let ?arr = "done @ vs @ drop (length done + length vs) arr"
    have "write_cells vs (arr, of_nat (length done)) = Inr (?arr, of_nat (length (done @ vs)))"
      using Cons.prems fits un by (simp add: write_cells_spec)
    then have "exec_args h opts commitTime xid (a # as) (arr, of_nat (length done)) entry =
        exec_args h opts commitTime xid as (?arr, of_nat (length (done @ vs))) entry"
      using Inr by (simp add: exec)
    also have "\<dots> = (case args_spec ?h opts commitTime xid entry om as of
        Inl e \<Rightarrow> (Inl e, entry)
      | Inr ws \<Rightarrow> (Inr ((done @ vs) @ ws @ drop (length (done @ vs) + length ws) ?arr, of_nat (length (done @ vs) + length ws)), entry))"
      using Cons.prems fits by (intro Cons.IH) auto
    finally show ?thesis using Inr by (cases "args_spec ?h opts commitTime xid entry om as") (simp_all add: ac_simps)
  qed
qed

text \<open>
  (C31) When the two passes of a Redis command agree. For an entry with its tuple, unless the argument
  \<open>{json:*}\<close> stores the commit time on the way (then they can disagree, as shown below), building a command never writes out of range; the
  command consists of its name followed by exactly the cells of its arguments, in order, and the
  entry is unchanged. An argument that cannot be printed is the only error.
\<close>

theorem buildCommand_cells:
  fixes h :: "('x, 'f, 'z) cond_host_scheme"
  assumes "we_Tuple entry = Tup om" and "om_wf om" and "cc_name cmd \<noteq> []"
    and "\<not> (tx_Save opts \<and> JsonStar \<in> set (cc_args cmd))"
    and "1 + sum_list (map (need opts om) (cc_args cmd)) < 2 ^ 32"
  shows "buildCommand h opts cmd entry commitTime xid =
     (case args_spec (host.truncate h) opts commitTime xid entry om (cc_args cmd) of
        Inl e \<Rightarrow> (Inl e, entry)
      | Inr vs \<Rightarrow> (Inr (Some \<lparr>cmd_name = cc_name cmd, cmd_args = StrArg (cc_name cmd) # vs,
                             cmd_table = tn_FullName (we_Table entry)\<rparr>), entry))"
proof -
  define total where "total = 1 + sum_list (map (need opts om) (cc_args cmd))"
  have total: "unat (1 + of_nat (sum_list (map (need opts om) (cc_args cmd))) :: u32) = total"
    using assms(5) unat_of_nat [of total, where 'a = 32] by (simp add: total_def)
  define arr :: "'f arg list" where "arr = StrArg (cc_name cmd) # replicate (total - 1) NilArg"
  have arr: "(replicate total NilArg)[0 := StrArg (cc_name cmd)] = arr" "length arr = total" "0 < total"
    by (cases total; simp add: arr_def total_def)+
  let ?d = "[StrArg (cc_name cmd)] :: 'f arg list"
  have "exec_args h opts commitTime xid (cc_args cmd) (arr, of_nat (length ?d)) entry =
     (case args_spec (host.truncate h) opts commitTime xid entry om (cc_args cmd) of
        Inl e \<Rightarrow> (Inl e, entry)
      | Inr vs \<Rightarrow> (Inr (?d @ vs @ drop (length ?d + length vs) arr,
                  of_nat (length ?d + length vs)), entry))"
    using assms arr by (intro exec_args_spec) (auto simp: total_def arr_def)
  moreover have "length vs < total" if "args_spec (host.truncate h) opts commitTime xid entry om (cc_args cmd) = Inr vs" for vs
  proof -
    have "args_spec (host.truncate h) opts commitTime xid entry om as = Inr ws \<Longrightarrow> length ws \<le> sum_list (map (need opts om) as)" for as ws
      by (induction as arbitrary: ws) (auto dest!: arg_spec_fits [OF assms(2)] intro: add_mono)
    then show ?thesis using that by (simp add: total_def less_Suc_eq_le)
  qed
  then have "unat (1 + of_nat (length vs) :: u32) = Suc (length vs)"
    if "args_spec (host.truncate h) opts commitTime xid entry om (cc_args cmd) = Inr vs" for vs
    using that assms(5) unat_of_nat [of "Suc (length vs)", where 'a = 32] by (fastforce simp: total_def)
  ultimately show ?thesis
    using assms(3) arr
    by (auto simp: buildCommand_def required_len_need [OF assms(1)] total split: sum.splits)
qed

definition sample_map :: "nat goval OrderedMap" where
  "sample_map = \<lparr>om_values = [Some (GStr ''7''), None], om_set = [True, False], om_size = 1, om_keyMap = km_New [''id'', ''ts'']\<rparr>"

lemma sample_map_wf [simp]: "om_wf sample_map"
  using km_wf_New [of "[''id'', ''ts'']"] by (simp add: sample_map_def om_wf_def less_Suc_eq Len_def km_New_def nth_Cons')

lemma sample_tuple [simp]: "we_Tuple sample_entry = Tup sample_map"
  by (simp add: sample_entry_def sample_map_def)

definition sample_command :: redisCompiledCommandConfig where
  "sample_command = \<lparr>cc_name = ''HSET'', cc_args = [TemplateCommand [PartPK], PairsStar]\<rparr>"

theorem buildCommand_cells_witness:
  "map_sum id (map_option cmd_args) (fst (buildCommand sample_cond_host \<lparr>tx_Save = True, tx_Name = ''ts''\<rparr> sample_command sample_entry 0 9)) =
     Inr (Some [StrArg ''HSET'', StrArg ''7'', StrArg ''id'', StrArg ''7'', StrArg ''ts'', StrArg ''now''])"
proof -
  let ?opts = "\<lparr>tx_Save = True, tx_Name = ''ts''\<rparr>" and ?h = "host.truncate sample_cond_host"
  have spec: "args_spec ?h ?opts 0 9 sample_entry sample_map (cc_args sample_command) =
      Inr [StrArg ''7'', StrArg ''id'', StrArg ''7'', StrArg ''ts'', StrArg ''now'']"
    by (simp add: sample_command_def arg_spec_def part_value_def pair_cells_def time_cells_def sample_map_def om_Iter_def
        km_New_def Keys_def stringifyForRedis_def sample_cond_host_def sample_host_def host.defs)
      (simp add: sample_entry_def)
  have size: "1 + sum_list (map (need ?opts sample_map) (cc_args sample_command)) < 2 ^ 32"
    by (simp add: sample_command_def need_def om_Size_def sample_map_def)
  have other: "cc_name sample_command \<noteq> []" "\<not> (tx_Save ?opts \<and> JsonStar \<in> set (cc_args sample_command))"
    by (simp_all add: sample_command_def)
  show ?thesis using buildCommand_cells [OF sample_tuple sample_map_wf other size, of sample_cond_host 0 9]
    unfolding spec by (simp add: sample_command_def)
qed

text \<open>
  When the commit time is saved, a command with \<open>{json:*}\<close> before \<open>{pairs:*}\<close> ends in an index out
  of range: the first argument adds the commit time column to the tuple after the sizes were taken.
\<close>

theorem json_then_pairs_panics:
  "fst (buildCommand sample_cond_host \<lparr>tx_Save = True, tx_Name = ''ts''\<rparr>
      \<lparr>cc_name = ''XADD'', cc_args = [JsonStar, PairsStar]\<rparr> sample_entry 0 9) = Inl index_panic"
  by code_simp

section \<open>The worker\<close>

fun entries_of :: "'x worker_event \<Rightarrow> 'x redisBatchEntry list" where
  "entries_of (EntryEvent r) = [r]"
| "entries_of TimerEvent = []"

definition small_buffer :: "u32 \<Rightarrow> 'x worker \<Rightarrow> bool" where
  "small_buffer sz w \<longleftrightarrow> (0 < sz \<longrightarrow> length (wk_buffer w) < unat sz)"

definition small_batch :: "u32 \<Rightarrow> 'x redisBatchEntry list \<Rightarrow> bool" where
  "small_batch sz b \<longleftrightarrow> b \<noteq> [] \<and> (0 < sz \<longrightarrow> length b \<le> unat sz)"

lemma worker_step_keeps: "runWorker_step sz ev w = (bs, w') \<Longrightarrow> concat bs @ wk_buffer w' = wk_buffer w @ entries_of ev"
  by (cases ev) (auto simp: tryFlushBatch_def Let_def split: if_splits)

lemma worker_step_small:
  assumes "small_buffer sz w" "runWorker_step sz ev w = (bs, w')"
  shows "small_buffer sz w' \<and> (\<forall>b \<in> set bs. small_batch sz b)"
proof (cases "ev = TimerEvent \<or> \<not> 0 < sz")
  case True
  then show ?thesis using assms
    by (cases ev) (auto simp: tryFlushBatch_def small_buffer_def small_batch_def Let_def word_gt_0 split: if_splits)
next
  case False
  then obtain r where ev: "ev = EntryEvent r" "0 < sz" by (cases ev) auto
  have len: "Suc (length (wk_buffer w)) \<le> unat sz" using assms(1) ev by (simp add: small_buffer_def)
  then have "unat (buffer_length (wk_buffer w @ [r])) = Suc (length (wk_buffer w))"
    using unat_u32 [of sz] by (simp add: buffer_length_def unat_of_nat del: of_nat_Suc)
  then have "sz \<le> buffer_length (wk_buffer w @ [r]) \<longleftrightarrow> length (wk_buffer w @ [r]) = unat sz"
    using len by (auto simp: word_le_nat_alt)
  then show ?thesis using assms(2) ev len
    by (auto simp: tryFlushBatch_def small_buffer_def small_batch_def Let_def split: if_splits)
qed

text \<open>The worker has one destination, so the key of the contract is the unit.\<close>

interpretation redis_worker: batching "runWorker_step sz" "\<lambda>_ :: unit. wk_buffer" "\<lambda>_. entries_of" "\<lambda>_ b. b" "small_buffer sz" "small_batch sz"
  for sz
  by unfold_locales (use worker_step_keeps worker_step_small in \<open>fastforce+\<close>)

text \<open>
  (C29) The worker of the Redis writer neither loses, duplicates nor reorders an entry: the batches it
  submits, followed by what is still in the buffer, are the entries it received, in order. No batch is
  empty, none is larger than the configured buffer size, the buffer stays below it, and a tick of the
  timer empties the buffer.
\<close>

theorem runWorker_no_loss:
  assumes "runWorker sz evs new_worker = (bs, w')"
  shows "concat bs @ wk_buffer w' = concat (map entries_of evs) \<and>
     (\<forall>b \<in> set bs. small_batch sz b) \<and> small_buffer sz w' \<and>
     concat (fst (runWorker sz (evs @ [TimerEvent]) new_worker)) = concat (map entries_of evs)"
proof -
  have init: "small_buffer sz (new_worker :: 'a worker)"
    by (simp add: small_buffer_def new_worker_def unat_gt_0 word_gt_0)
  have run: "run_steps (runWorker_step sz) evs new_worker = (bs, w')" using assms by (simp add: runWorker_def)
  have keeps: "concat bs @ wk_buffer w' = concat (map entries_of evs)"
    using redis_worker.run_keeps [OF init run] by (simp add: new_worker_def)
  moreover have "concat (fst (runWorker sz (evs @ [TimerEvent]) new_worker)) = concat bs @ wk_buffer w'"
    by (simp add: runWorker_def run_steps_append run tryFlushBatch_def)
  ultimately show ?thesis using redis_worker.run_inv [OF init run] by simp
qed

definition sample_batch_entry :: "u32 \<Rightarrow> nat redisBatchEntry" where
  "sample_batch_entry n = \<lparr>be_LSN = 10, be_XID = 9, be_TableName = we_Table sample_entry, be_PK = ''7'', be_Offset = n, be_walEntry = sample_entry, be_commitTime = 0\<rparr>"

theorem runWorker_no_loss_witness:
  "\<exists>bs w'. runWorker 2 (map (EntryEvent \<circ> sample_batch_entry) [0, 1, 2]) new_worker = (bs, w') \<and>
     concat bs @ wk_buffer w' = map sample_batch_entry [0, 1, 2] \<and> length (wk_buffer w') < 2"
proof -
  obtain bs w' where r: "runWorker 2 (map (EntryEvent \<circ> sample_batch_entry) [0, 1, 2]) new_worker = (bs, w')" by fastforce
  show ?thesis using runWorker_no_loss [OF r] r by (simp add: small_buffer_def)
qed

section \<open>Flushing a batch\<close>

text \<open>What an entry puts on the pipeline: nothing, its command, or its commands as one transaction.\<close>

fun transaction :: "'f redisCommand list \<Rightarrow> 'f pipeline" where
  "transaction [] = []"
| "transaction [cmd] = [cmd_args cmd]"
| "transaction cmds = [[StrArg ''MULTI'']] @ map cmd_args cmds @ [[StrArg ''EXEC'']]"

lemma enqueue_all_ok: "(\<And>args. do args = None) \<Longrightarrow> enqueue_all do cmds pp = (Inr (), pp @ map cmd_args cmds)"
  by (induction cmds arbitrary: pp) (simp_all add: enqueueCommand_def)

definition entry_commands :: "('x, 'f, 'z) cond_host_scheme \<Rightarrow> redisDynamicWriter \<Rightarrow> 'x redisBatchEntry \<Rightarrow> 'f redisCommand list go_result" where
  "entry_commands h w b =
     (let commands = getCommands w (op_of_kind (we_Kind (be_walEntry b))) in
      if commands = [] then Inl (Fatal ''no commands configured'')
      else fst (build_groups h (dw_txOpts w) commands (be_walEntry b) (be_commitTime b) (be_XID b) []))"

lemma write_entry_ok:
  assumes "\<And>args. do args = None"
  shows "\<exists>entry'. write_entry h do w (be_walEntry b) (be_commitTime b) (be_XID b) pp =
     (case entry_commands h w b of
        Inl e \<Rightarrow> (Inl e, pp, entry')
      | Inr cmds \<Rightarrow> (Inr (), pp @ transaction cmds, entry'))"
proof (cases "getCommands w (op_of_kind (we_Kind (be_walEntry b))) = []")
  case False
  let ?r = "build_groups h (dw_txOpts w) (getCommands w (op_of_kind (we_Kind (be_walEntry b)))) (be_walEntry b) (be_commitTime b) (be_XID b) []"
  obtain r entry' where r: "?r = (r, entry')" by fastforce
  show ?thesis
  proof (cases r)
    case (Inr cmds)
    then show ?thesis using False r assms
      by (cases cmds rule: transaction.cases)
        (simp_all add: write_entry_def entry_commands_def enqueueCommand_def enqueueTransaction_def enqueue_all_ok bare_command_def)
  qed (use False r in \<open>simp add: write_entry_def entry_commands_def\<close>)
qed (simp add: write_entry_def entry_commands_def)

definition batch_commands :: "('x, 'f, 'z) cond_host_scheme \<Rightarrow> (string \<rightharpoonup> redisDynamicWriter) \<Rightarrow> 'x redisBatchEntry \<Rightarrow> 'f redisCommand list go_result" where
  "batch_commands h writersMap b =
     (case writersMap (tn_FullName (we_Table (be_walEntry b))) of
        None \<Rightarrow> Inl (Fatal ''cannot find writer for table'')
      | Some w \<Rightarrow> entry_commands h w b)"

lemma write_batch_ok:
  assumes "\<And>args. do args = None" "write_batch h do writersMap bs pp = (r, pp', bs')"
  shows "(\<forall>e. r = Inl e \<longrightarrow> (\<exists>b \<in> set bs. batch_commands h writersMap b = Inl e)) \<and>
     (r = Inr () \<longrightarrow> (\<exists>css. list_all2 (\<lambda>b cs. batch_commands h writersMap b = Inr cs) bs css \<and> pp' = pp @ concat (map transaction css)))"
  using assms(2)
proof (induction bs arbitrary: pp bs')
  case (Cons b bs)
  show ?case
  proof (cases "writersMap (tn_FullName (we_Table (be_walEntry b)))")
    case None
    then show ?thesis using Cons.prems by (auto simp: batch_commands_def)
  next
    case (Some w)
    obtain entry' where w: "write_entry h do w (be_walEntry b) (be_commitTime b) (be_XID b) pp =
        (case entry_commands h w b of Inl e \<Rightarrow> (Inl e, pp, entry') | Inr cmds \<Rightarrow> (Inr (), pp @ transaction cmds, entry'))"
      using write_entry_ok [where do = do and h = h and w = w and b = b and pp = pp] assms(1) by blast
    show ?thesis
    proof (cases "entry_commands h w b")
      case (Inl e)
      then show ?thesis using Cons.prems Some w by (auto simp: batch_commands_def)
    next
      case (Inr cmds)
      obtain r1 pp1 bs1 where rest: "write_batch h do writersMap bs (pp @ transaction cmds) = (r1, pp1, bs1)" by (metis prod_cases3)
      then have eq: "r = r1" "pp' = pp1" using Cons.prems Some w Inr by auto
      have here: "batch_commands h writersMap b = Inr cmds" using Some Inr by (simp add: batch_commands_def)
      from Cons.IH [OF rest [folded eq]] show ?thesis
      proof (elim conjE, intro conjI, goal_cases)
        case 1
        then show ?case by auto
      next
        case 2
        then show ?case using here by (auto simp: list_all2_Cons1 intro: exI [of _ "cmds # _"])
      qed
    qed
  qed
qed auto

text \<open>
  (C30) A flush answers every entry of its batch exactly once, with the key, table, LSN, transaction and
  offset of the entry. If it succeeds, the pipeline that was executed is, entry after entry, the
  commands of the entry, as one \<open>MULTI\<close>/\<open>EXEC\<close> transaction when there is more than one, with nothing in
  between; if a command cannot be built nothing is executed; the process ends only if an entry has
  no writer, no commands, or a panic while building.
\<close>

theorem flushBatch_answers_all:
  assumes "\<And>args. do args = None"
  shows "(case flushBatch h do exec writersMap entries of
     (FlushOk resp, pp, _) \<Rightarrow> resp = map response_of entries \<and> exec pp = None \<and>
        (\<exists>css. list_all2 (\<lambda>b cs. batch_commands h writersMap b = Inr cs) entries css \<and> pp = concat (map transaction css))
   | (FlushFailed errs err, pp, _) \<Rightarrow>
        map ee_Entry errs = map response_of entries \<and> (\<forall>e \<in> set errs. ee_Reason e = redisFlushError err) \<and>
        (exec pp = Some err \<or> pp = [] \<and> (\<exists>b \<in> set entries. \<exists>m. batch_commands h writersMap b = Inl (Error m) \<and> err = OtherError m))
   | (ProcessEnds e, _, _) \<Rightarrow> \<exists>b \<in> set entries. batch_commands h writersMap b = Inl e)"
proof -
  obtain r pp es where wb: "write_batch h do writersMap entries [] = (r, pp, es)" by (metis prod_cases3)
  have spec: "(\<forall>e. r = Inl e \<longrightarrow> (\<exists>b \<in> set entries. batch_commands h writersMap b = Inl e)) \<and>
     (r = Inr () \<longrightarrow> (\<exists>css. list_all2 (\<lambda>b cs. batch_commands h writersMap b = Inr cs) entries css \<and> pp = [] @ concat (map transaction css)))"
    by (rule write_batch_ok [OF _ wb]) (rule assms)
  show ?thesis
  proof (cases r)
    case (Inl e)
    then obtain b where "b \<in> set entries" "batch_commands h writersMap b = Inl e" using spec by blast
    with Inl show ?thesis by (cases e) (auto simp: flushBatch_def wb notifyError_def)
  next
    case (Inr u)
    with spec show ?thesis by (cases "exec pp") (auto simp: flushBatch_def wb notifyError_def)
  qed
qed

definition sample_writer :: redisDynamicWriter where
  "sample_writer = \<lparr>resolvedCommands = [\<lparr>cg_condition = None, cg_commands = [sample_command, sample_command]\<rparr>],
     insertCommands = [], updateCommands = [], deleteCommands = [], dw_defaultDelete = [], dw_txOpts = \<lparr>tx_Save = False, tx_Name = []\<rparr>\<rparr>"

theorem flushBatch_answers_all_witness:
  "\<exists>pp es. flushBatch sample_cond_host (\<lambda>args. None) (\<lambda>pp. None) [''public.t'' \<mapsto> sample_writer] [sample_batch_entry 3] =
     (FlushOk [response_of (sample_batch_entry 3)], pp, es) \<and>
     pp = [[StrArg ''MULTI''], [StrArg ''HSET'', StrArg ''7'', StrArg ''id'', StrArg ''7''], [StrArg ''HSET'', StrArg ''7'', StrArg ''id'', StrArg ''7''], [StrArg ''EXEC'']]"
proof -
  let ?f = "flushBatch sample_cond_host (\<lambda>args. None) (\<lambda>pp. None) [''public.t'' \<mapsto> sample_writer] [sample_batch_entry 3]"
  have run: "(case ?f of (FlushOk resp, pp, _) \<Rightarrow> Some pp | _ \<Rightarrow> None) =
    Some [[StrArg ''MULTI''], [StrArg ''HSET'', StrArg ''7'', StrArg ''id'', StrArg ''7''], [StrArg ''HSET'', StrArg ''7'', StrArg ''id'', StrArg ''7''], [StrArg ''EXEC'']]"
    by code_simp
  then obtain resp pp es where f: "?f = (FlushOk resp, pp, es)"
    by (cases ?f) (auto split: flush_outcome.splits)
  with flushBatch_answers_all [where do = "\<lambda>args. None" and h = sample_cond_host and exec = "\<lambda>pp. None"
      and writersMap = "[''public.t'' \<mapsto> sample_writer]" and entries = "[sample_batch_entry 3]", OF refl]
  have "resp = [response_of (sample_batch_entry 3)]" by simp
  with run f show ?thesis by simp
qed

section \<open>Accepted configurations\<close>

lemma valid_group_compiles:
  assumes "validate_group g = []"
  shows "cg_commands (compile_group g) \<noteq> []"
proof -
  obtain cmd where "cmd \<in> set (rc_Commands g)" using assms by (cases "rc_Commands g") (auto simp: validate_group_def)
  then have "validate_command cmd = []" using assms by (auto simp: validate_group_def split: if_splits)
  then obtain name args where "cmd = name # args" by (cases cmd) auto
  then show ?thesis using \<open>cmd \<in> set (rc_Commands g)\<close> by (force simp: compile_group_def compileCommandConfig_def)
qed

lemma valid_groups_compile:
  "\<forall>g \<in> set gs. validate_group g = [] \<Longrightarrow> mustCompileCommandGroups gs = [] \<longleftrightarrow> gs = []"
  using valid_group_compiles by (cases gs) (auto simp: mustCompileCommandGroups_def)

text \<open>
  What validation guarantees about commands: for a table of an accepted configuration, every kind
  of change finds commands to run if and only if the table has commands for all operations, or has
  both insert and update commands. An accepted table with insert commands only ends the process at
  its first update.
\<close>

theorem accepted_table_has_commands:
  assumes "redis_Validate verr tables snapshotErr = []" and "(name, c) \<in> set tables"
  shows "(\<forall>kind. getCommands (createPipelineWriter opts c) (op_of_kind kind) \<noteq> []) \<longleftrightarrow>
     ResolvedCommands c \<noteq> [] \<or> InsertCommands c \<noteq> [] \<and> UpdateCommands c \<noteq> []"
proof -
  have valid: "\<forall>g \<in> set (all_groups c). validate_group g = []"
    using assms by (auto simp: redis_Validate_def validate_table_def Let_def)
  have del: "mustCompileCommandGroups (defaultDeleteCommands (rt_FullName c)) \<noteq> []"
    by (simp add: defaultDeleteCommands_def mustCompileCommandGroups_def compile_group_def compileCommandConfig_def)
  note compile = valid_groups_compile [of "ResolvedCommands c"] valid_groups_compile [of "InsertCommands c"]
    valid_groups_compile [of "UpdateCommands c"] valid_groups_compile [of "DeleteCommands c"]
  have "(\<forall>kind. getCommands (createPipelineWriter opts c) (op_of_kind kind) \<noteq> []) \<longleftrightarrow>
      getCommands (createPipelineWriter opts c) OpInsert \<noteq> [] \<and> getCommands (createPipelineWriter opts c) OpUpdate \<noteq> [] \<and>
      getCommands (createPipelineWriter opts c) OpDelete \<noteq> []"
    by (metis op_of_kind.elims op_of_kind.simps)
  then show ?thesis using valid compile del
    by (auto simp: getCommands_def createPipelineWriter_def all_groups_def)
qed

definition insert_only :: RedisTableConfig where
  "insert_only = \<lparr>rt_FullName = ''public.t'', rt_Options = [], rt_Insert = None, rt_Update = None, rt_Delete = None, rt_Commands = [],
     ResolvedCommands = [], InsertCommands = [\<lparr>rc_Commands = [[''SET'', ''{id}'', ''1'']], rc_Condition = None\<rparr>], UpdateCommands = [], DeleteCommands = []\<rparr>"

theorem accepted_table_has_commands_witness:
  "\<exists>kind. getCommands (createPipelineWriter \<lparr>tx_Save = False, tx_Name = []\<rparr> insert_only) (op_of_kind kind) = []"
proof -
  have "redis_Validate [] [(''public.t'', insert_only)] [] = []" by code_simp
  from accepted_table_has_commands [OF this, of "''public.t''" insert_only "\<lparr>tx_Save = False, tx_Name = []\<rparr>"]
  show ?thesis by (simp add: insert_only_def)
qed

end
