(* ===== verification/Parallelio.thy ===== *)
theory Parallelio
  imports Prelude "HOL-Library.Multiset"
begin

text \<open>
  \<open>parallelio/parallel_io.go\<close>: a bounded channel of requests and a fixed number of workers that
  take a request each and run the handler on it. The goroutines are the steps of a relation: a
  submit that does not block, a worker that takes the head of the channel, a handler that returns,
  \<open>Close\<close>, and a worker that sees the closed channel while it is idle.
\<close>

record 'r TrackedIORequest =
  io_Request :: 'r
  io_WorkerID :: u32
  io_RequestID :: u64

record 'r ParallelIO =
  requestCh :: "'r list"
  pio_workers :: nat
  pio_busy :: "nat \<rightharpoonup> 'r TrackedIORequest"
  pio_requestID :: "nat \<Rightarrow> u64"
  pio_finished :: "nat set"
  doneCh :: bool
  pio_handled :: "'r list"

definition NewParallelIO :: "u32 \<Rightarrow> 'r ParallelIO" where
  "NewParallelIO numWorkers =
     \<lparr>requestCh = [], pio_workers = (if numWorkers = 0 then 1 else unat numWorkers), pio_busy = Map.empty,
      pio_requestID = (\<lambda>_. 1), pio_finished = {}, doneCh = False, pio_handled = []\<rparr>"

text \<open>\<open>Submit\<close> sends on the channel, whose capacity is the number of workers; \<open>None\<close> is blocking.\<close>

definition pio_Submit :: "'r \<Rightarrow> 'r ParallelIO \<Rightarrow> 'r ParallelIO option" where
  "pio_Submit req io =
     (if length (requestCh io) < pio_workers io then Some (io\<lparr>requestCh := requestCh io @ [req]\<rparr>) else None)"

definition idle :: "'r ParallelIO \<Rightarrow> nat \<Rightarrow> bool" where
  "idle io w \<longleftrightarrow> 1 \<le> w \<and> w \<le> pio_workers io \<and> pio_busy io w = None \<and> w \<notin> pio_finished io"

definition worker_take :: "nat \<Rightarrow> 'r ParallelIO \<Rightarrow> 'r ParallelIO option" where
  "worker_take w io =
     (case requestCh io of
        req # rest \<Rightarrow>
          if idle io w
          then Some (io\<lparr>requestCh := rest, pio_busy := (pio_busy io)(w \<mapsto>
                 \<lparr>io_Request = req, io_WorkerID = of_nat w, io_RequestID = pio_requestID io w\<rparr>)\<rparr>)
          else None
      | [] \<Rightarrow> None)"

definition worker_return :: "nat \<Rightarrow> 'r ParallelIO \<Rightarrow> 'r ParallelIO option" where
  "worker_return w io =
     (case pio_busy io w of
        Some tracked \<Rightarrow> Some (io\<lparr>pio_busy := (pio_busy io)(w := None),
          pio_requestID := (pio_requestID io)(w := pio_requestID io w + 1), pio_handled := pio_handled io @ [io_Request tracked]\<rparr>)
      | None \<Rightarrow> None)"

definition worker_finish :: "nat \<Rightarrow> 'r ParallelIO \<Rightarrow> 'r ParallelIO option" where
  "worker_finish w io = (if doneCh io \<and> idle io w then Some (io\<lparr>pio_finished := insert w (pio_finished io)\<rparr>) else None)"

definition pio_Close :: "'r ParallelIO \<Rightarrow> 'r ParallelIO" where
  "pio_Close io = io\<lparr>doneCh := True\<rparr>"

text \<open>Executions, with the requests submitted so far.\<close>

inductive pio_run :: "u32 \<Rightarrow> 'r list \<Rightarrow> 'r ParallelIO \<Rightarrow> bool" for n where
  start: "pio_run n [] (NewParallelIO n)"
| submit: "pio_run n rs io \<Longrightarrow> pio_Submit r io = Some io' \<Longrightarrow> pio_run n (rs @ [r]) io'"
| take: "pio_run n rs io \<Longrightarrow> worker_take w io = Some io' \<Longrightarrow> pio_run n rs io'"
| return: "pio_run n rs io \<Longrightarrow> worker_return w io = Some io' \<Longrightarrow> pio_run n rs io'"
| finish: "pio_run n rs io \<Longrightarrow> worker_finish w io = Some io' \<Longrightarrow> pio_run n rs io'"
| close: "pio_run n rs io \<Longrightarrow> pio_run n rs (pio_Close io)"

text \<open>The requests the workers hold, by worker number.\<close>

definition in_progress :: "'r ParallelIO \<Rightarrow> 'r list" where
  "in_progress io = concat (map (\<lambda>w. map io_Request (opt_list (pio_busy io w))) [1..<Suc (pio_workers io)])"

definition busy_in_range :: "'r ParallelIO \<Rightarrow> bool" where
  "busy_in_range io \<longleftrightarrow> (\<forall>w t. pio_busy io w = Some t \<longrightarrow> 1 \<le> w \<and> w \<le> pio_workers io)"

lemma concat_map_upd:
  fixes lo hi w :: nat
  assumes "lo \<le> w" "w < hi"
  shows "mset (concat (map (\<lambda>i. if i = w then xs else f i) [lo..<hi])) + mset (f w) = mset (concat (map f [lo..<hi])) + mset xs"
proof -
  have split: "[lo..<hi] = [lo..<w] @ w # [Suc w..<hi]" using assms by (metis less_imp_le_nat upt_add_eq_append upt_conv_Cons le_add_diff_inverse)
  have eq: "map (\<lambda>i. if i = w then xs else f i) [lo..<w] = map f [lo..<w]"
    "map (\<lambda>i. if i = w then xs else f i) [Suc w..<hi] = map f [Suc w..<hi]" by auto
  show ?thesis
    by (simp only: split map_append concat_append list.map concat.simps eq mset_append simp_thms if_True ac_simps)
qed

lemma in_progress_upd:
  assumes "1 \<le> w" "w \<le> pio_workers io"
  shows "mset (in_progress (io\<lparr>pio_busy := (pio_busy io)(w := v)\<rparr>)) + mset (map io_Request (opt_list (pio_busy io w))) =
     mset (in_progress io) + mset (map io_Request (opt_list v))"
proof -
  have "(\<lambda>i. map io_Request (opt_list (((pio_busy io)(w := v)) i))) =
      (\<lambda>i. if i = w then map io_Request (opt_list v) else map io_Request (opt_list (pio_busy io i)))" by auto
  then show ?thesis
    using concat_map_upd [of 1 w "Suc (pio_workers io)" "map io_Request (opt_list v)" "\<lambda>i. map io_Request (opt_list (pio_busy io i))"] assms
    by (simp add: in_progress_def)
qed

lemma in_progress_other [simp]:
  "in_progress (io\<lparr>requestCh := q\<rparr>) = in_progress io" "in_progress (io\<lparr>pio_requestID := f\<rparr>) = in_progress io"
  "in_progress (io\<lparr>pio_finished := s\<rparr>) = in_progress io" "in_progress (io\<lparr>doneCh := b\<rparr>) = in_progress io"
  "in_progress (io\<lparr>pio_handled := h\<rparr>) = in_progress io"
  by (simp_all add: in_progress_def)

lemma pio_run_workers: "pio_run n rs io \<Longrightarrow> pio_workers io = (if n = 0 then 1 else unat n)"
  by (induction rule: pio_run.induct)
    (auto simp: NewParallelIO_def pio_Submit_def worker_take_def worker_return_def worker_finish_def pio_Close_def split: if_splits list.splits option.splits)

lemma pio_run_single: "pio_run n rs io \<Longrightarrow> n \<le> 1 \<Longrightarrow> pio_workers io = 1"
proof -
  assume "pio_run n rs io" "n \<le> 1"
  moreover have "n = 0 \<or> n = 1" using \<open>n \<le> 1\<close> by (metis le_less unat_1 unat_0 less_one word_less_nat_alt unat_eq_zero)
  ultimately show ?thesis using pio_run_workers [of n rs io] by auto
qed

lemma pio_run_busy: "pio_run n rs io \<Longrightarrow> busy_in_range io"
  by (induction rule: pio_run.induct)
    (auto simp: NewParallelIO_def pio_Submit_def worker_take_def worker_return_def worker_finish_def pio_Close_def busy_in_range_def idle_def split: if_splits list.splits option.splits)

lemma in_progress_New [simp]: "in_progress (NewParallelIO n) = []"
  by (simp add: in_progress_def NewParallelIO_def)

lemma take_progress:
  assumes "worker_take w io = Some io'"
  shows "mset (requestCh io') + mset (in_progress io') = mset (requestCh io) + mset (in_progress io) \<and> pio_handled io' = pio_handled io"
proof -
  obtain req rest where q: "requestCh io = req # rest" and idle: "idle io w"
    and io': "io' = io\<lparr>requestCh := rest, pio_busy := (pio_busy io)(w \<mapsto> \<lparr>io_Request = req, io_WorkerID = of_nat w, io_RequestID = pio_requestID io w\<rparr>)\<rparr>"
    using assms by (auto simp: worker_take_def split: list.splits if_splits)
  have "pio_busy io w = None" "1 \<le> w" "w \<le> pio_workers io" using idle by (auto simp: idle_def)
  then show ?thesis
    using in_progress_upd [of w "io\<lparr>requestCh := rest\<rparr>" "Some \<lparr>io_Request = req, io_WorkerID = of_nat w, io_RequestID = pio_requestID io w\<rparr>"] q
    by (simp add: io')
qed

lemma return_progress:
  assumes "worker_return w io = Some io'" "busy_in_range io"
  shows "mset (in_progress io') + mset (pio_handled io') = mset (in_progress io) + mset (pio_handled io) \<and> requestCh io' = requestCh io"
proof -
  obtain t where t: "pio_busy io w = Some t"
    and io': "io' = io\<lparr>pio_busy := (pio_busy io)(w := None), pio_requestID := (pio_requestID io)(w := pio_requestID io w + 1), pio_handled := pio_handled io @ [io_Request t]\<rparr>"
    using assms(1) by (auto simp: worker_return_def split: option.splits)
  have "1 \<le> w" "w \<le> pio_workers io" using assms(2) t by (auto simp: busy_in_range_def)
  then show ?thesis using in_progress_upd [of w io None] t by (simp add: io')
qed

lemma pio_run_conserves:
  "pio_run n rs io \<Longrightarrow> mset rs = mset (pio_handled io) + mset (in_progress io) + mset (requestCh io)"
proof (induction rule: pio_run.induct)
  case (take rs io w io')
  then show ?case using take_progress [OF take(2)] by (simp add: ac_simps)
next
  case (return rs io w io')
  then show ?case using return_progress [OF return(2) pio_run_busy [OF return(1)]] by (simp add: ac_simps)
next
  case (submit rs io r io')
  then show ?case by (auto simp: pio_Submit_def split: if_splits)
next
  case start
  show ?case by simp (simp add: NewParallelIO_def)
qed (auto simp: worker_finish_def pio_Close_def split: if_splits)

lemma pio_single_order:
  "pio_run n rs io \<Longrightarrow> n \<le> 1 \<Longrightarrow> rs = pio_handled io @ map io_Request (opt_list (pio_busy io 1)) @ requestCh io"
proof (induction rule: pio_run.induct)
  case (take rs io w io')
  have "pio_workers io = 1" by (rule pio_run_single [OF take(1) take.prems])
  then show ?case using take by (auto simp: worker_take_def idle_def split: list.splits if_splits)
next
  case (return rs io w io')
  have "pio_workers io = 1" by (rule pio_run_single [OF return(1) return.prems])
  moreover obtain t where "pio_busy io w = Some t" using return(2) by (auto simp: worker_return_def split: option.splits)
  ultimately have "w = 1" using pio_run_busy [OF return(1)] unfolding busy_in_range_def by (metis le_antisym)
  then show ?case using return by (auto simp: worker_return_def split: option.splits)
next
  case (submit rs io r io')
  then show ?case by (auto simp: pio_Submit_def split: if_splits)
qed (auto simp: worker_finish_def pio_Close_def NewParallelIO_def split: if_splits)

text \<open>
  The parallel writers lose nothing and repeat nothing: at every moment the submitted requests are
  those handled, those a worker holds and those still in the channel. With a single worker they are
  handled in the order they were submitted.
\<close>

theorem parallel_io_conserves:
  assumes "pio_run n rs io"
  shows "mset rs = mset (pio_handled io) + mset (in_progress io) + mset (requestCh io) \<and>
     length (requestCh io) \<le> pio_workers io \<and>
     (n \<le> 1 \<longrightarrow> (\<exists>later. rs = pio_handled io @ later))"
proof -
  have "length (requestCh io) \<le> pio_workers io" using assms
    by (induction rule: pio_run.induct)
      (auto simp: NewParallelIO_def pio_Submit_def worker_take_def worker_return_def worker_finish_def pio_Close_def split: if_splits list.splits option.splits)
  then show ?thesis using pio_run_conserves [OF assms] pio_single_order [OF assms] by blast
qed

text \<open>A run of two workers in which the second of two requests is handled first.\<close>

definition overtaken :: "nat ParallelIO" where
  "overtaken = the (worker_return 2 (the (worker_take 2 (the (worker_take 1 (the (pio_Submit 20 (the (pio_Submit 10 (NewParallelIO 2))))))))))"

lemma overtaken_run: "pio_run 2 [10, 20] overtaken"
proof -
  have 1: "pio_Submit 10 (NewParallelIO 2) = Some (the (pio_Submit 10 (NewParallelIO 2 :: nat ParallelIO)))"
    by (simp add: pio_Submit_def NewParallelIO_def)
  have r1: "pio_run 2 [10] (the (pio_Submit 10 (NewParallelIO 2 :: nat ParallelIO)))"
    using pio_run.submit [OF pio_run.start 1] by simp
  let ?s = "the (pio_Submit 10 (NewParallelIO 2 :: nat ParallelIO))"
  have 2: "pio_Submit 20 ?s = Some (the (pio_Submit 20 ?s))" by (simp add: pio_Submit_def NewParallelIO_def)
  have r2: "pio_run 2 [10, 20] (the (pio_Submit 20 ?s))" using pio_run.submit [OF r1 2] by simp
  let ?t = "the (pio_Submit 20 ?s)"
  have 3: "worker_take 1 ?t = Some (the (worker_take 1 ?t))" by (simp add: pio_Submit_def NewParallelIO_def worker_take_def idle_def)
  have 4: "worker_take 2 (the (worker_take 1 ?t)) = Some (the (worker_take 2 (the (worker_take 1 ?t))))"
    by (simp add: pio_Submit_def NewParallelIO_def worker_take_def idle_def)
  have 5: "worker_return 2 (the (worker_take 2 (the (worker_take 1 ?t)))) = Some overtaken"
    by (simp add: overtaken_def pio_Submit_def NewParallelIO_def worker_take_def idle_def worker_return_def)
  show ?thesis by (rule pio_run.return [OF pio_run.take [OF pio_run.take [OF r2 3] 4] 5])
qed

theorem parallel_io_conserves_witness:
  "mset [10, 20] = mset (pio_handled overtaken) + mset (in_progress overtaken) + mset (requestCh overtaken)"
  using parallel_io_conserves [OF overtaken_run] by blast

text \<open>
  With two workers or more the order is lost: there is a run in which a batch submitted later is
  handled first, while the earlier one is still in progress. Two changes of one row in consecutive
  batches can therefore reach the target in the wrong order.
\<close>

theorem parallel_io_overtakes:
  "\<exists>io :: nat ParallelIO. pio_run 2 [10, 20] io \<and> pio_handled io = [20] \<and> in_progress io = [10]"
  using overtaken_run
  by (intro exI [of _ overtaken])
    (simp add: overtaken_def pio_Submit_def NewParallelIO_def worker_take_def idle_def worker_return_def in_progress_def upt_rec)

end
