(* ===== verification/Sqsqueues.thy ===== *)
theory Sqsqueues
  imports Jsonparsing Appconfig Pgschema
begin

text \<open>
  \<open>pg2sqs/queuemapper/sqs_queue_mapper.go\<close> and \<open>pg2sqs/sqsops/sqs_ops.go\<close>: which queue the changes of
  a table go to, the deduplication and group identifiers of a message, and the queue addresses.
  \<open>fmt.Sprintf("%v")\<close> of a value is the parameter \<open>fmt\<close>; the calls to AWS are parameters.
\<close>

section \<open>Configuration\<close>

record queue_names =
  qn_Name :: string
  qn_URL :: string
  qn_GroupID :: string

record SQSQueueConfig = queue_names +
  qc_Insert :: "queue_names option"
  qc_Update :: "queue_names option"
  qc_Delete :: "queue_names option"

record TableQueueConfig =
  tq_tableName :: string
  tq_queueName :: string
  tq_queueURL :: string
  tq_fifo :: bool
  tq_skip :: bool
  needsOpInJSON :: bool
  groupIDPattern :: string

definition kind_code :: "OpKind \<Rightarrow> nat" where
  "kind_code k = (case k of Insert \<Rightarrow> 0 | Update \<Rightarrow> 1 | Delete \<Rightarrow> 2 | SnapshotRead \<Rightarrow> 3)"

definition makeQueueConfigKey :: "string \<Rightarrow> OpKind \<Rightarrow> string" where
  "makeQueueConfigKey tableName opKind = tableName @ ''-'' @ format_uint (kind_code opKind)"

lemma format_uint_no_colon [simp]: "CHR '':'' \<notin> set (format_uint n)"
  by (rule format_uint_no_char) simp

lemma format_uint_no_dash [simp]: "CHR ''-'' \<notin> set (format_uint n)"
  by (rule format_uint_no_char) simp

lemma kind_code_inj [simp]: "kind_code k = kind_code k' \<longleftrightarrow> k = k'"
  by (cases k; cases k') (auto simp: kind_code_def)

lemma makeQueueConfigKey_inj [simp]: "makeQueueConfigKey t k = makeQueueConfigKey t' k' \<longleftrightarrow> t = t' \<and> k = k'"
  by (simp add: makeQueueConfigKey_def last_field_unique)

definition newQueueConfig :: "OpKind \<Rightarrow> string \<Rightarrow> queue_names \<Rightarrow> queue_names option \<Rightarrow> string \<times> TableQueueConfig" where
  "newQueueConfig opKind tableName defaultConfig mergeConfig =
     (let qc = \<lparr>tq_tableName = tableName, tq_queueName = qn_Name defaultConfig, tq_queueURL = qn_URL defaultConfig,
                tq_fifo = False, tq_skip = False, needsOpInJSON = True, groupIDPattern = qn_GroupID defaultConfig\<rparr>;
          qc = (case mergeConfig of
              None \<Rightarrow> qc
            | Some m \<Rightarrow>
               (let qc = qc\<lparr>needsOpInJSON := False\<rparr>;
                    qc = (if \<not> EqualFold (qn_Name m) ''skip''
                          then qc\<lparr>tq_queueName := qn_Name m, tq_queueURL := qn_URL m\<rparr>
                          else qc\<lparr>tq_skip := True, tq_queueName := [], tq_queueURL := []\<rparr>)
                in if qn_GroupID m \<noteq> [] then qc\<lparr>groupIDPattern := qn_GroupID m\<rparr> else qc));
          qc = (if tq_queueName qc = [] \<and> \<not> tq_skip qc
                then qc\<lparr>tq_queueName := map (\<lambda>c. if c = CHR ''.'' then CHR ''_'' else c) tableName\<rparr> else qc)
      in (makeQueueConfigKey tableName opKind, qc))"

type_synonym SQSQueueMapper = "(string \<times> TableQueueConfig) list"

text \<open>A table without a queue section has a nil queue configuration, which the mapper dereferences.\<close>

fun NewSQSQueueMapper :: "(string \<times> SQSQueueConfig option) list \<Rightarrow> SQSQueueMapper go_result" where
  "NewSQSQueueMapper [] = Inr []"
| "NewSQSQueueMapper ((tableName, cfg) # tables) =
     bind_result (deref cfg) (\<lambda>q.
       bind_result (NewSQSQueueMapper tables) (\<lambda>m.
         let d = queue_names.truncate q;
             (insertKey, insertConfig) = newQueueConfig Insert tableName d (qc_Insert q);
             (updateKey, updateConfig) = newQueueConfig Update tableName d (qc_Update q);
             (deleteKey, deleteConfig) = newQueueConfig Delete tableName d (qc_Delete q)
         in Inr (AList.update deleteKey deleteConfig (AList.update updateKey updateConfig (AList.update insertKey insertConfig m)))))"

definition GetQueueConfig :: "SQSQueueMapper \<Rightarrow> 't WriteEntry \<Rightarrow> TableQueueConfig option" where
  "GetQueueConfig m entry = map_of m (makeQueueConfigKey (tn_FullName (we_Table entry)) (we_Kind entry))"

definition GetAllQueueNames :: "SQSQueueMapper \<Rightarrow> string list" where
  "GetAllQueueNames m = sort (remdups (map (tq_queueName \<circ> snd) m))"

section \<open>Identifiers\<close>

definition aws_char :: "char \<Rightarrow> bool" where
  "aws_char c \<longleftrightarrow> 33 \<le> (of_char c :: nat) \<and> (of_char c :: nat) \<le> 126"

definition wellFormAWSID :: "string \<Rightarrow> string" where
  "wellFormAWSID awsID = take 128 (filter aws_char awsID)"

definition dedup_text :: "'t WriteEntry \<Rightarrow> u32 \<Rightarrow> string" where
  "dedup_text entry xid =
     tn_FullName (we_Table entry) @ '':'' @ we_PK entry @ '':'' @ format_uint (kind_code (we_Kind entry)) @ '':'' @ format_uint (unat xid)"

definition GetDeduplicationID :: "TableQueueConfig \<Rightarrow> 't WriteEntry \<Rightarrow> u32 \<Rightarrow> string option" where
  "GetDeduplicationID qc entry xid =
     (if \<not> tq_fifo qc then None
      else Some (wellFormAWSID ('' '' @ base64_EncodeToString (dedup_text entry xid))))"

text \<open>
  The matches of \<open>groupIDRegExp\<close>: a dollar sign and an opening brace, one or more characters that are
  no closing brace, and a closing brace.
\<close>

definition group_at :: "string \<Rightarrow> (string \<times> string) option" where
  "group_at s =
     (case s of
        CHR ''{'' # t \<Rightarrow>
          (let body = takeWhile (\<lambda>c. c \<noteq> CHR ''}'') t; rest = dropWhile (\<lambda>c. c \<noteq> CHR ''}'') t in
           if body \<noteq> [] \<and> rest \<noteq> [] then Some (body, tl rest) else None)
      | _ \<Rightarrow> None)"

lemma group_at_length: "group_at s = Some (body, rest) \<Longrightarrow> length rest < length s"
proof -
  assume "group_at s = Some (body, rest)"
  then obtain t where "s = CHR ''{'' # t" "rest = tl (dropWhile (\<lambda>c. c \<noteq> CHR ''}'') t)"
    by (auto simp: group_at_def Let_def split: list.splits if_splits char.splits bool.splits)
  moreover have "length (tl (dropWhile (\<lambda>c. c \<noteq> CHR ''}'') t)) \<le> length t"
    by (metis diff_le_self length_dropWhile_le length_tl order_trans)
  ultimately show ?thesis by simp
qed

datatype group_piece = GText char | GMacro string

function group_pieces :: "string \<Rightarrow> group_piece list" where
  "group_pieces [] = []"
| "group_pieces (c # s) =
     (case (if c = CHR ''$'' then group_at s else None) of
        Some (body, rest) \<Rightarrow> GMacro body # group_pieces rest
      | None \<Rightarrow> GText c # group_pieces s)"
  by pat_completeness auto
termination
  by (relation "measure length") (auto split: if_splits dest: group_at_length [THEN less_SucI])

fun macros :: "group_piece list \<Rightarrow> string list" where
  "macros [] = []"
| "macros (GMacro m # ps) = m # macros ps"
| "macros (GText c # ps) = macros ps"

definition ValidateMessageGroupID :: "TableQueueConfig \<Rightarrow> string list \<Rightarrow> string list" where
  "ValidateMessageGroupID qc columns =
     (if groupIDPattern qc = [] then []
      else filter (\<lambda>macro. macro \<notin> {''%schema%'', ''%table%'', ''%xid%''} \<and> \<not> list_ex (EqualFold macro) columns)
             (macros (group_pieces (groupIDPattern qc))))"

definition macro_value ::
  "('x goval \<Rightarrow> string) \<Rightarrow> 'x goval OrderedMap WriteEntry \<Rightarrow> u32 \<Rightarrow> string \<Rightarrow> string go_result" where
  "macro_value fmt entry xid macro =
     (if macro = ''%schema%'' then Inr (tn_Schema (we_Table entry))
      else if macro = ''%table%'' then Inr (tn_Name (we_Table entry))
      else if macro = ''%xid%'' then Inr (format_uint (unat xid))
      else case we_Tuple entry of
        Tup om \<Rightarrow>
          bind_result (om_Get om macro) (\<lambda>(v, exists).
            if exists then (case v of None \<Rightarrow> Inr [] | Some w \<Rightarrow> Inr (wellFormAWSID (fmt w)))
            else Inr (wellFormAWSID (''${'' @ macro @ ''}'')))
      | _ \<Rightarrow> Inl nil_panic)"

fun group_text ::
  "('x goval \<Rightarrow> string) \<Rightarrow> 'x goval OrderedMap WriteEntry \<Rightarrow> u32 \<Rightarrow> group_piece list \<Rightarrow> string go_result" where
  "group_text fmt entry xid [] = Inr []"
| "group_text fmt entry xid (GText c # ps) = bind_result (group_text fmt entry xid ps) (\<lambda>s. Inr (c # s))"
| "group_text fmt entry xid (GMacro m # ps) =
     bind_result (macro_value fmt entry xid m) (\<lambda>v. bind_result (group_text fmt entry xid ps) (\<lambda>s. Inr (v @ s)))"

definition GetMessageGroupID ::
  "('x goval \<Rightarrow> string) \<Rightarrow> TableQueueConfig \<Rightarrow> 'x goval OrderedMap WriteEntry \<Rightarrow> u32 \<Rightarrow> string option go_result" where
  "GetMessageGroupID fmt qc entry xid =
     (if groupIDPattern qc = [] then Inr None
      else bind_result (group_text fmt entry xid (group_pieces (groupIDPattern qc))) (\<lambda>s. Inr (Some s)))"

section \<open>Queue addresses\<close>

datatype queue_lookup = QueueURL string | QueueDoesNotExist | QueueError string

definition ReadOrCreateSQSQueueURL ::
  "(string \<Rightarrow> queue_lookup) \<Rightarrow> (string \<Rightarrow> bool \<Rightarrow> string go_result) \<Rightarrow> string \<Rightarrow> (string \<times> bool) go_result" where
  "ReadOrCreateSQSQueueURL getQueueUrl createQueue queueName =
     (let fifo = EqualFold (last (split_on (CHR ''.'') queueName)) ''fifo'' in
      case getQueueUrl queueName of
        QueueURL url \<Rightarrow> Inr (url, fifo)
      | QueueDoesNotExist \<Rightarrow> bind_result (createQueue queueName fifo) (\<lambda>url. Inr (url, fifo))
      | QueueError e \<Rightarrow> Inl (Error (''SQS writer: failed to get URL of the queue: '' @ e)))"

text \<open>\<open>ping\<close> looks every queue up and stores its address and kind.\<close>

fun sqs_ping :: "(string \<Rightarrow> (string \<times> bool) go_result) \<Rightarrow> SQSQueueMapper \<Rightarrow> SQSQueueMapper go_result" where
  "sqs_ping readURL [] = Inr []"
| "sqs_ping readURL ((k, qc) # m) =
     bind_result (readURL (tq_queueName qc)) (\<lambda>(url, fifo).
       bind_result (sqs_ping readURL m) (\<lambda>m'. Inr ((k, qc\<lparr>tq_queueURL := url, tq_fifo := fifo\<rparr>) # m')))"

text \<open>
  \<open>ValidateConfig\<close>: the configurations in the order of the map iteration; only the first one of a table
  is looked at.
\<close>

fun sqs_ValidateConfig :: "(string \<times> string list) list \<Rightarrow> string set \<Rightarrow> SQSQueueMapper \<Rightarrow> string list" where
  "sqs_ValidateConfig pubTables processed [] = []"
| "sqs_ValidateConfig pubTables processed ((k, qc) # m) =
     (if tq_tableName qc \<in> processed then sqs_ValidateConfig pubTables processed m
      else (case map_of pubTables (tq_tableName qc) of
              None \<Rightarrow> [tq_tableName qc]
            | Some columns \<Rightarrow> ValidateMessageGroupID qc columns) @
           sqs_ValidateConfig pubTables (insert (tq_tableName qc) processed) m)"

end
