(* ===== verification/Sqswriter.thy ===== *)
theory Sqswriter
  imports Sqsqueues Batching
begin

text \<open>
  \<open>pg2sqs/sqs_writer.go\<close> and \<open>Write\<close> of \<open>pg2sqs/listener_sqs.go\<close>: an entry becomes a JSON message
  with its queue, the worker collects messages into one buffer per queue address, and a batch of at
  most ten messages is sent in one call, whose answer is turned into the answers for the tracker. The
  SQS client, the identifiers drawn by \<open>uuid.New\<close>, the JSON encoder and the formatting of a
  time are parameters; statistics and logging are left out.
\<close>

section \<open>Messages\<close>

record 'x sqs_host =
  sq_enc :: "'x goval option \<Rightarrow> string go_result"
  sq_enck :: "string \<Rightarrow> string go_result"
  sq_time :: "int \<Rightarrow> string"
  sq_fmt :: "'x goval \<Rightarrow> string"

type_synonym 'x tuple_pairs = "'x goval OrderedMap \<times> (string \<times> 'x goval option) list"

text \<open>A value goes over the column of that name when the tuple has it, else behind the tuple.\<close>

definition set_or_append :: "string \<Rightarrow> string \<Rightarrow> 'x tuple_pairs \<Rightarrow> 'x tuple_pairs go_result" where
  "set_or_append key v st =
     (let (om, custom) = st in
      bind_result (om_Get om key) (\<lambda>(_, exists).
        if exists then bind_result (om_Set om key (Some (GStr v))) (\<lambda>om'. Inr (om', custom))
        else Inr (om, custom @ [(key, Some (GStr v))])))"

fun kind_text :: "OpKind \<Rightarrow> string" where
  "kind_text Insert = ''insert''"
| "kind_text Update = ''update''"
| "kind_text Delete = ''delete''"
| "kind_text SnapshotRead = []"

definition json_pairs ::
  "'x sqs_host \<Rightarrow> TxCommitTimeOptions \<Rightarrow> OpKind \<Rightarrow> int \<Rightarrow> bool \<Rightarrow> 'x goval OrderedMap \<Rightarrow> 'x tuple_pairs go_result" where
  "json_pairs h opts kind commitTime needsOp om =
     bind_result (if tx_Save opts then set_or_append (tx_Name opts) (sq_time h commitTime) (om, []) else Inr (om, [])) (\<lambda>st.
       if needsOp \<and> kind_text kind \<noteq> [] then set_or_append ''kind'' (kind_text kind) st else Inr st)"

definition wrap_marshal :: "go_error \<Rightarrow> go_error" where
  "wrap_marshal e = (case e of Error m \<Rightarrow> Error (''failed to marshal JSON: '' @ m) | _ \<Rightarrow> e)"

text \<open>
  \<open>getJSON\<close>: the message and the tuple as the call leaves it (the tuple of the entry is changed in
  place). A nil tuple panics on its first use.
\<close>

definition getJSON ::
  "'x sqs_host \<Rightarrow> TxCommitTimeOptions \<Rightarrow> 'x goval OrderedMap WriteEntry \<Rightarrow> int \<Rightarrow> bool \<Rightarrow>
   (string \<times> 'x goval OrderedMap) go_result" where
  "getJSON h opts entry commitTime needsOp =
     (case we_Tuple entry of
        Tup om \<Rightarrow>
          bind_result (json_pairs h opts (we_Kind entry) commitTime needsOp om) (\<lambda>(om', custom).
            case CustomMarshalJSON (sq_enc h) (sq_enck h) om' None custom of
              Inl e \<Rightarrow> Inl (wrap_marshal e)
            | Inr j \<Rightarrow> Inr (j, om'))
      | _ \<Rightarrow> Inl nil_panic)"

record sqsBatchEntry =
  sb_LSN :: LSN
  sb_XID :: u32
  sb_TableName :: TableName
  sb_PK :: string
  sb_Offset :: u32
  sb_queueConfig :: TableQueueConfig
  sb_message :: string
  deduplicationID :: "string option"
  groupID :: "string option"

text \<open>One round of the loop of \<open>enqueueOrWrite\<close>.\<close>

definition enqueue_one ::
  "'x sqs_host \<Rightarrow> TxCommitTimeOptions \<Rightarrow> SQSQueueMapper \<Rightarrow> 'x goval OrderedMap WriteRequest \<Rightarrow>
   'x goval OrderedMap WriteEntry \<Rightarrow> sqsBatchEntry go_result" where
  "enqueue_one h opts m req entry =
     (case GetQueueConfig m entry of
        None \<Rightarrow> Inl (Error (''table configuration not found: '' @ tn_FullName (we_Table entry)))
      | Some tableCfg \<Rightarrow>
          bind_result (getJSON h opts entry (wr_CommitTime req) (needsOpInJSON tableCfg)) (\<lambda>(j, om').
            bind_result (GetMessageGroupID (sq_fmt h) tableCfg (entry\<lparr>we_Tuple := Tup om'\<rparr>) (wr_XID req)) (\<lambda>g.
              Inr \<lparr>sb_LSN = wr_LSN req, sb_XID = wr_XID req, sb_TableName = we_Table entry, sb_PK = we_PK entry,
                   sb_Offset = we_Offset entry, sb_queueConfig = tableCfg, sb_message = j,
                   deduplicationID = GetDeduplicationID tableCfg entry (wr_XID req), groupID = g\<rparr>)))"

text \<open>The messages put on the channel, and the error that stopped the loop.\<close>

fun enqueue_entries ::
  "'x sqs_host \<Rightarrow> TxCommitTimeOptions \<Rightarrow> SQSQueueMapper \<Rightarrow> 'x goval OrderedMap WriteRequest \<Rightarrow>
   'x goval OrderedMap WriteEntry list \<Rightarrow> sqsBatchEntry list \<times> unit go_result" where
  "enqueue_entries h opts m req [] = ([], Inr ())"
| "enqueue_entries h opts m req (entry # entries) =
     (case enqueue_one h opts m req entry of
        Inl e \<Rightarrow> ([], Inl e)
      | Inr b \<Rightarrow> (let (bs, r) = enqueue_entries h opts m req entries in (b # bs, r)))"

section \<open>Write\<close>

text \<open>What a call leaves: messages for the worker, entries acknowledged, entries reported as failed.\<close>

record sqs_result =
  sr_events :: "sqsBatchEntry list"
  sr_onSuccess :: "ResponseEntry list"
  sr_onError :: "ErrorResponseEntry list"

definition sqs_error_entry :: "'t WriteRequest \<Rightarrow> string \<Rightarrow> 't WriteEntry \<Rightarrow> ErrorResponseEntry" where
  "sqs_error_entry req reason e =
     \<lparr>ee_Entry = \<lparr>re_PK = we_PK e, re_Table = we_Table e, re_LSN = wr_LSN req, re_XID = wr_XID req, re_Offset = we_Offset e\<rparr>,
      ee_Reason = \<lparr>err_Error = reason, IsRetryable = True, IsDownStreamDown = False\<rparr>\<rparr>"

text \<open>
  No error of \<open>enqueueOrWrite\<close> wraps \<open>ErrOpened\<close>, so \<open>IsDownStreamDown\<close> is false. A cancelled
  context drops the request without an answer.
\<close>

definition sqs_Write ::
  "bool \<Rightarrow> 'x sqs_host \<Rightarrow> TxCommitTimeOptions \<Rightarrow> SQSQueueMapper \<Rightarrow> 'x goval OrderedMap WriteRequest \<Rightarrow> sqs_result go_result" where
  "sqs_Write cancelled h opts m req =
     (if cancelled then Inr \<lparr>sr_events = [], sr_onSuccess = [], sr_onError = []\<rparr>
      else if wr_Entries req = []
      then Inr \<lparr>sr_events = [], sr_onSuccess = [\<lparr>re_PK = [], re_Table = \<lparr>tn_Schema = [], tn_Name = [], tn_FullName = []\<rparr>,
                re_LSN = wr_LSN req, re_XID = wr_XID req, re_Offset = 0\<rparr>], sr_onError = []\<rparr>
      else case enqueue_entries h opts m req (wr_Entries req) of
        (bs, Inr _) \<Rightarrow> Inr \<lparr>sr_events = bs, sr_onSuccess = [], sr_onError = []\<rparr>
      | (bs, Inl (Error reason)) \<Rightarrow>
          Inr \<lparr>sr_events = bs, sr_onSuccess = [], sr_onError = map (sqs_error_entry req reason) (wr_Entries req)\<rparr>
      | (bs, Inl e) \<Rightarrow> Inl e)"

section \<open>Flushing a batch\<close>

definition maxBatchSizeInSQS :: nat where
  "maxBatchSizeInSQS = 10"

record SendMessageBatchRequestEntry =
  mr_Id :: string
  MessageBody :: string
  MessageDeduplicationId :: "string option"
  MessageGroupId :: "string option"

record BatchResultErrorEntry =
  fe_Id :: string
  fe_Code :: string
  fe_Message :: "string option"
  SenderFault :: bool

definition sqs_response :: "sqsBatchEntry \<Rightarrow> ResponseEntry" where
  "sqs_response b =
     \<lparr>re_PK = sb_PK b, re_Table = sb_TableName b, re_LSN = sb_LSN b, re_XID = sb_XID b, re_Offset = sb_Offset b\<rparr>"

definition batch_message :: "string \<Rightarrow> sqsBatchEntry \<Rightarrow> SendMessageBatchRequestEntry" where
  "batch_message i b =
     \<lparr>mr_Id = i, MessageBody = sb_message b, MessageDeduplicationId = deduplicationID b, MessageGroupId = groupID b\<rparr>"

text \<open>
  The loop that numbers the messages: \<open>currentBatch\<close> has room for ten of them, and the
  identifiers index \<open>batchMap\<close>. \<open>uuid i\<close> is the identifier drawn in round \<open>i\<close>.
\<close>

fun number_batch ::
  "(nat \<Rightarrow> string) \<Rightarrow> nat \<Rightarrow> sqsBatchEntry list \<Rightarrow> SendMessageBatchRequestEntry option list \<Rightarrow> (string \<times> sqsBatchEntry) list \<Rightarrow>
   (SendMessageBatchRequestEntry option list \<times> (string \<times> sqsBatchEntry) list) go_result" where
  "number_batch uuid i [] currentBatch batchMap = Inr (currentBatch, batchMap)"
| "number_batch uuid i (b # bs) currentBatch batchMap =
     bind_result (slice_set currentBatch i (Some (batch_message (uuid i) b))) (\<lambda>currentBatch'.
       number_batch uuid (Suc i) bs currentBatch' (AList.update (uuid i) b batchMap))"

definition sqs_flushError :: "string \<Rightarrow> string \<Rightarrow> bool \<Rightarrow> WriterError" where
  "sqs_flushError code message senderFault =
     \<lparr>err_Error = code @ '': '' @ message, IsRetryable = (\<not> senderFault), IsDownStreamDown = False\<rparr>"

text \<open>
  \<open>processFailuresFromSQSResponse\<close>: the message of a failure, which the service may leave out, is dereferenced;
  an identifier that was not sent, or was answered before, ends the process.
\<close>

fun processFailures ::
  "BatchResultErrorEntry list \<Rightarrow> (string \<times> sqsBatchEntry) list \<Rightarrow> (ErrorResponseEntry list \<times> (string \<times> sqsBatchEntry) list) go_result" where
  "processFailures [] batchMap = Inr ([], batchMap)"
| "processFailures (f # fs) batchMap =
     (case fe_Message f of
        None \<Rightarrow> Inl nil_panic
      | Some message \<Rightarrow>
         (case map_of batchMap (fe_Id f) of
            None \<Rightarrow> Inl (Fatal ''got unknown ID from SQS'')
          | Some b \<Rightarrow>
              bind_result (processFailures fs (AList.delete (fe_Id f) batchMap)) (\<lambda>(errs, m).
                Inr (\<lparr>ee_Entry = sqs_response b, ee_Reason = sqs_flushError (fe_Code f) message (SenderFault f)\<rparr> # errs, m))))"

definition processFailureFromSend :: "sqsBatchEntry list \<Rightarrow> string \<Rightarrow> ErrorResponseEntry list" where
  "processFailureFromSend entries err =
     map (\<lambda>b. \<lparr>ee_Entry = sqs_response b, ee_Reason = \<lparr>err_Error = err, IsRetryable = True, IsDownStreamDown = True\<rparr>\<rparr>) entries"

text \<open>
  \<open>flushBatch\<close>: the messages sent, and the answers. \<open>sendBatch\<close> is the call of the SQS client:
  an error, or the list of failed messages. \<open>OnError\<close> is called when there are failures,
  \<open>OnSuccess\<close> for the rest of the map whenever the call came back.
\<close>

definition sqs_flushBatch ::
  "(nat \<Rightarrow> string) \<Rightarrow> (string \<Rightarrow> SendMessageBatchRequestEntry option list \<Rightarrow> string + BatchResultErrorEntry list) \<Rightarrow>
   string \<Rightarrow> sqsBatchEntry list \<Rightarrow>
   (SendMessageBatchRequestEntry option list \<times> ErrorResponseEntry list \<times> ResponseEntry list) go_result" where
  "sqs_flushBatch uuid sendBatch url entries =
     bind_result (number_batch uuid 0 entries (replicate maxBatchSizeInSQS None) []) (\<lambda>(currentBatch, batchMap).
       let msgs = take (length entries) currentBatch in
       case sendBatch url msgs of
         Inl err \<Rightarrow> Inr (msgs, processFailureFromSend entries (''SendMessageBatch error: '' @ err), [])
       | Inr failed \<Rightarrow>
           bind_result (if failed \<noteq> [] then processFailures failed batchMap else Inr ([], batchMap)) (\<lambda>(errs, m).
             Inr (msgs, errs, map (sqs_response \<circ> snd) m)))"

section \<open>The worker\<close>

text \<open>
  One buffer per queue address, in the order the addresses were first seen; Go iterates over them
  in an arbitrary order when the timer ticks. A batch is submitted with the address of its buffer.
\<close>

datatype sqs_event = SqsEntry sqsBatchEntry | SqsTick

record sqs_worker =
  queueBatches :: "(string \<times> sqsBatchEntry list) list"
  sq_timerRunning :: bool

definition batch_of :: "string \<Rightarrow> sqs_worker \<Rightarrow> sqsBatchEntry list" where
  "batch_of url w = (case map_of (queueBatches w) url of None \<Rightarrow> [] | Some b \<Rightarrow> b)"

definition put_batch :: "string \<Rightarrow> sqsBatchEntry list \<Rightarrow> sqs_worker \<Rightarrow> sqs_worker" where
  "put_batch url b w = w\<lparr>queueBatches := AList.update url b (queueBatches w)\<rparr>"

definition sqs_tryFlushBatch :: "string \<Rightarrow> sqs_worker \<Rightarrow> (string \<times> sqsBatchEntry list) list \<times> sqs_worker" where
  "sqs_tryFlushBatch url w = (if batch_of url w = [] then ([], w) else ([(url, batch_of url w)], put_batch url [] w))"

fun tryFlushAll :: "string list \<Rightarrow> sqs_worker \<Rightarrow> (string \<times> sqsBatchEntry list) list \<times> sqs_worker" where
  "tryFlushAll [] w = ([], w)"
| "tryFlushAll (url # urls) w =
     (let (bs, w') = sqs_tryFlushBatch url w; (bs', w'') = tryFlushAll urls w' in (bs @ bs', w''))"

definition isMaxedOut :: "sqsBatchEntry list \<Rightarrow> bool" where
  "isMaxedOut b \<longleftrightarrow> maxBatchSizeInSQS \<le> length b"

fun sqs_worker_step :: "sqs_event \<Rightarrow> sqs_worker \<Rightarrow> (string \<times> sqsBatchEntry list) list \<times> sqs_worker" where
  "sqs_worker_step (SqsEntry r) w =
     (let url = tq_queueURL (sb_queueConfig r);
          w = (put_batch url (batch_of url w @ [r]) w)\<lparr>sq_timerRunning := True\<rparr>
      in if isMaxedOut (batch_of url w) then sqs_tryFlushBatch url w else ([], w))"
| "sqs_worker_step SqsTick w =
     tryFlushAll (map fst (queueBatches w)) (w\<lparr>sq_timerRunning := False\<rparr>)"

definition sqs_runWorker :: "sqs_event list \<Rightarrow> sqs_worker \<Rightarrow> (string \<times> sqsBatchEntry list) list \<times> sqs_worker" where
  "sqs_runWorker = run_steps sqs_worker_step"

definition new_sqs_worker :: sqs_worker where
  "new_sqs_worker = \<lparr>queueBatches = [], sq_timerRunning = False\<rparr>"

end
