(* ===== verification/Encodings.thy ===== *)
theory Encodings
  imports Jsonparsing
begin

text \<open>
  The binary encodings of \<open>jsonparsing/decode/decode.go\<close> lose nothing: decoders that undo the
  hexadecimal and the base64 text, and the lemmas on prefixes and characters of base64 text that the
  message identifiers of the SQS writer rest on.
\<close>

section \<open>Digits\<close>

definition position :: "char \<Rightarrow> string \<Rightarrow> nat" where
  "position c s = length (takeWhile (\<lambda>d. d \<noteq> c) s)"

lemma position_nth: "distinct s \<Longrightarrow> i < length s \<Longrightarrow> position (s ! i) s = i"
proof (induction s arbitrary: i)
  case (Cons a s)
  then show ?case by (cases i) (auto simp: position_def)
qed simp

definition base64_alphabet :: string where
  "base64_alphabet = ''ABCDEFGHIJKLMNOPQRSTUVWXYZabcdefghijklmnopqrstuvwxyz0123456789+/''"

definition base64_value :: "char \<Rightarrow> nat" where
  "base64_value c = position c base64_alphabet"

lemma base64_alphabet_ok: "distinct base64_alphabet" "length base64_alphabet = 64" "CHR ''='' \<notin> set base64_alphabet"
  by code_simp+

lemma base64_value_char [simp]: "n < 64 \<Longrightarrow> base64_value (base64_char n) = n"
  using position_nth [OF base64_alphabet_ok(1), of n] base64_alphabet_ok(2)
  by (simp add: base64_value_def base64_char_def base64_alphabet_def)

lemma base64_char_in: "n < 64 \<Longrightarrow> base64_char n \<in> set base64_alphabet"
  using base64_alphabet_ok(2) by (simp add: base64_char_def base64_alphabet_def flip: base64_alphabet_def)

lemma base64_char_not_pad [simp]: "n < 64 \<Longrightarrow> base64_char n \<noteq> CHR ''=''"
  using base64_char_in base64_alphabet_ok(3) by metis

section \<open>Bytes\<close>

definition quad :: "char \<Rightarrow> char \<Rightarrow> char \<Rightarrow> char \<Rightarrow> nat" where
  "quad p q r s = base64_value p * 262144 + base64_value q * 4096 + base64_value r * 64 + base64_value s"

definition byte :: "nat \<Rightarrow> char" where
  "byte n = char_of (n mod 256)"

lemma sextets: "v div 262144 * 262144 + v div 4096 mod 64 * 4096 + v div 64 mod 64 * 64 + v mod 64 = (v :: nat)"
proof -
  have "v = v div 64 * 64 + v mod 64" by simp
  moreover have "v div 64 = v div 4096 * 64 + v div 64 mod 64" using div_mult_mod_eq [of "v div 64" 64] by (simp add: div_mult2_eq [symmetric])
  moreover have "v div 4096 = v div 262144 * 64 + v div 4096 mod 64" using div_mult_mod_eq [of "v div 4096" 64] by (simp add: div_mult2_eq [symmetric])
  ultimately show ?thesis by linarith
qed

lemma quad_chars:
  "v < 16777216 \<Longrightarrow>
     quad (base64_char (v div 262144)) (base64_char (v div 4096 mod 64)) (base64_char (v div 64 mod 64)) (base64_char (v mod 64)) = v"
  using sextets [of v] by (simp add: quad_def less_mult_imp_div_less)

fun base64_decode :: "string \<Rightarrow> string" where
  "base64_decode (p # q # r # s # rest) =
     (if r = CHR ''='' then [byte (quad p q (CHR ''A'') (CHR ''A'') div 65536)]
      else if s = CHR ''='' then [byte (quad p q r (CHR ''A'') div 65536), byte (quad p q r (CHR ''A'') div 256)]
      else [byte (quad p q r s div 65536), byte (quad p q r s div 256), byte (quad p q r s)] @ base64_decode rest)"
| "base64_decode _ = []"

lemma bytes_of_triple:
  fixes a b c :: nat
  assumes "a < 256" "b < 256" "c < 256"
  shows "(a * 65536 + b * 256 + c) div 65536 = a" "(a * 65536 + b * 256 + c) div 256 mod 256 = b" "(a * 65536 + b * 256 + c) mod 256 = c"
    "a * 65536 + b * 256 + c < 16777216"
proof -
  have "(a * 65536 + b * 256 + c) div 256 = a * 256 + b"
    using assms div_mult_self3 [of 256 c "a * 256 + b"] by (simp add: algebra_simps)
  then show "(a * 65536 + b * 256 + c) div 256 mod 256 = b" using assms by simp
  have "b * 256 + c < 65536" using assms by linarith
  then show "(a * 65536 + b * 256 + c) div 65536 = a" using div_mult_self3 [of 65536 "b * 256 + c" a] by (simp add: add.assoc)
  show "(a * 65536 + b * 256 + c) mod 256 = c" using assms mod_mult_self3 [of "a * 256 + b" 256 c] by (simp add: algebra_simps)
  show "a * 65536 + b * 256 + c < 16777216" using assms by linarith
qed

lemma byte_eq: "n mod 256 = of_char c \<Longrightarrow> byte n = c"
  by (simp add: byte_def)

lemma base64_value_A [simp]: "base64_value (CHR ''A'') = 0"
  by code_simp

lemma base64_roundtrip: "base64_decode (base64_EncodeToString d) = d"
proof (induction d rule: base64_EncodeToString.induct)
  case (1 a b c ds)
  let ?v = "of_char a * 65536 + of_char b * 256 + of_char c :: nat"
  note v = bytes_of_triple [OF nat_of_char_less_256 [of a] nat_of_char_less_256 [of b] nat_of_char_less_256 [of c]]
  have "byte (?v div 65536) = a" "byte (?v div 256) = b" "byte ?v = c" using v by (simp_all add: byte_eq)
  then show ?case using 1 quad_chars [OF v(4)] by (simp add: Let_def)
next
  case (2 a b)
  let ?v = "of_char a * 65536 + of_char b * 256 :: nat"
  note v = bytes_of_triple [OF nat_of_char_less_256 [of a] nat_of_char_less_256 [of b], of 0, simplified]
  have "?v mod 64 = 0" by (simp add: mod_eq_0_iff_dvd)
  then have "quad (base64_char (?v div 262144)) (base64_char (?v div 4096 mod 64)) (base64_char (?v div 64 mod 64)) (CHR ''A'') = ?v"
    using sextets [of ?v] v(4) by (simp add: quad_def less_mult_imp_div_less)
  moreover have "byte (?v div 65536) = a" "byte (?v div 256) = b" using v by (simp_all add: byte_eq)
  ultimately show ?case by (simp add: Let_def)
next
  case (3 a)
  let ?v = "of_char a * 65536 :: nat"
  have b: "(of_char a :: nat) < 256" by simp
  have "?v mod 64 = 0" "?v div 64 mod 64 = 0" by (simp_all add: mod_eq_0_iff_dvd div_mult_swap)
  then have "quad (base64_char (?v div 262144)) (base64_char (?v div 4096 mod 64)) (CHR ''A'') (CHR ''A'') = ?v"
    using sextets [of ?v] b by (simp add: quad_def less_mult_imp_div_less)
  moreover have "byte (?v div 65536) = a" by (simp add: byte_eq)
  ultimately show ?case by (simp add: Let_def)
qed simp

section \<open>Hexadecimal text\<close>

definition hex_alphabet :: string where
  "hex_alphabet = ''0123456789abcdef''"

fun hex_decode :: "string \<Rightarrow> string" where
  "hex_decode (p # q # rest) = byte (position p hex_alphabet * 16 + position q hex_alphabet) # hex_decode rest"
| "hex_decode _ = []"

lemma hex_value_digit: "n < 16 \<Longrightarrow> position (hex_digit n) hex_alphabet = n"
proof -
  have "distinct hex_alphabet" "length hex_alphabet = 16" by code_simp+
  moreover assume "n < 16"
  ultimately show ?thesis using position_nth [of hex_alphabet n] by (simp add: hex_digit_def hex_alphabet_def)
qed

lemma hex_roundtrip: "hex_decode (hex_EncodeToString d) = d"
proof (induction d)
  case (Cons c d)
  have "(of_char c :: nat) div 16 < 16" using nat_of_char_less_256 [of c] by (simp add: less_mult_imp_div_less)
  then have "byte (position (hex_digit (of_char c div 16)) hex_alphabet * 16 + position (hex_digit (of_char c mod 16)) hex_alphabet) = c"
    by (simp add: hex_value_digit byte_eq)
  with Cons show ?case by (simp add: hex_EncodeToString_def Let_def)
qed (simp add: hex_EncodeToString_def)

text \<open>
  Binary columns survive: in either encoding, base64 with padding or hexadecimal, two values with
  the same text are the same bytes, whatever their lengths.
\<close>

theorem EncodeBinary_injective:
  assumes "EncodeBinary d fmt = EncodeBinary d' fmt"
  shows "d = d'"
proof (cases fmt)
  case BinaryEncodingBase64
  with assms have "base64_decode (base64_EncodeToString d) = base64_decode (base64_EncodeToString d')"
    by (simp add: EncodeBinary_def)
  then show ?thesis by (simp only: base64_roundtrip)
next
  case BinaryEncodingHex
  with assms have "hex_decode (hex_EncodeToString d) = hex_decode (hex_EncodeToString d')"
    by (simp add: EncodeBinary_def)
  then show ?thesis by (simp only: hex_roundtrip)
qed

theorem EncodeBinary_injective_witness:
  "EncodeBinary ''ab'' BinaryEncodingBase64 \<noteq> EncodeBinary ''abc'' BinaryEncodingBase64"
  using EncodeBinary_injective [of "''ab''" BinaryEncodingBase64 "''abc''"] by auto

section \<open>Prefixes and characters of base64 text\<close>

lemma triple_dvd: "3 dvd Suc (Suc (Suc n)) \<longleftrightarrow> 3 dvd n"
  by presburger

lemma base64_append: "3 dvd length s \<Longrightarrow> base64_EncodeToString (s @ t) = base64_EncodeToString s @ base64_EncodeToString t"
proof (induction s rule: base64_EncodeToString.induct)
  case (1 a b c ds)
  then have "3 dvd length ds" by (simp add: triple_dvd)
  then show ?case using 1(1) by (simp add: Let_def)
qed (auto dest: dvd_imp_le)

lemma base64_length: "length (base64_EncodeToString s) = 4 * ((length s + 2) div 3)"
proof (induction s rule: base64_EncodeToString.induct)
  case (1 a b c ds)
  have "(length ds + 5) div 3 = Suc ((length ds + 2) div 3)" by presburger
  moreover have "length (a # b # c # ds) + 2 = length ds + 5" by simp
  moreover have "length (base64_EncodeToString (a # b # c # ds)) = 4 + length (base64_EncodeToString ds)" by (simp add: Let_def)
  ultimately show ?case using 1 by (simp only: mult_Suc_right)
qed (simp_all add: Let_def)

text \<open>Cutting base64 text after whole groups of four characters cuts the data after whole triples.\<close>

lemma base64_take: "take (4 * n) (base64_EncodeToString s) = base64_EncodeToString (take (3 * n) s)"
proof (cases "3 * n \<le> length s")
  case True
  then have len: "length (take (3 * n) s) = 3 * n" by simp
  then have "base64_EncodeToString s = base64_EncodeToString (take (3 * n) s) @ base64_EncodeToString (drop (3 * n) s)"
    using base64_append [of "take (3 * n) s" "drop (3 * n) s"] by simp
  moreover have "length (base64_EncodeToString (take (3 * n) s)) = 4 * n" unfolding base64_length len by simp
  ultimately show ?thesis by simp
next
  case False
  then have "(length s + 2) div 3 < Suc n" by (simp add: div_less_iff_less_mult)
  then have "length (base64_EncodeToString s) \<le> 4 * n" by (simp add: base64_length)
  then show ?thesis using False by simp
qed

lemma base64_chars: "c \<in> set (base64_EncodeToString s) \<Longrightarrow> c = CHR ''='' \<or> c \<in> set base64_alphabet"
proof (induction s rule: base64_EncodeToString.induct)
  case (1 x y z ds)
  then show ?case using bytes_of_triple(4) [OF nat_of_char_less_256 [of x] nat_of_char_less_256 [of y] nat_of_char_less_256 [of z]]
    by (auto simp: Let_def intro!: base64_char_in less_mult_imp_div_less)
next
  case (2 x y)
  then show ?case using bytes_of_triple(4) [OF nat_of_char_less_256 [of x] nat_of_char_less_256 [of y], of 0]
    by (auto simp: Let_def intro!: base64_char_in less_mult_imp_div_less)
next
  case (3 x)
  then show ?case using nat_of_char_less_256 [of x]
    by (auto simp: Let_def intro!: base64_char_in less_mult_imp_div_less)
qed simp

end
