(* ===== verification/Sqsbatch.thy ===== *)
theory Sqsbatch
  imports Sqswriter Encodings "HOL-Library.Multiset"
begin

text \<open>
  The SQS writer: the worker keeps the entries of every queue in order and its batches fit one
  call, a flushed batch is answered exactly once per entry, a message carries the tuple with the
  commit time and the operation, and the deduplication identifiers.
\<close>

section \<open>The worker\<close>

lemma batch_of_put [simp]: "batch_of url (put_batch url' b w) = (if url = url' then b else batch_of url w)"
  by (auto simp: batch_of_def put_batch_def update_conv')

lemma batch_of_timer [simp]: "batch_of url (w\<lparr>sq_timerRunning := x\<rparr>) = batch_of url w"
  by (simp add: batch_of_def)

definition entry_url :: "sqsBatchEntry \<Rightarrow> string" where
  "entry_url b = tq_queueURL (sb_queueConfig b)"

fun arrivals_at :: "string \<Rightarrow> sqs_event \<Rightarrow> sqsBatchEntry list" where
  "arrivals_at url (SqsEntry r) = (if entry_url r = url then [r] else [])"
| "arrivals_at url SqsTick = []"

definition content_at :: "string \<Rightarrow> string \<times> sqsBatchEntry list \<Rightarrow> sqsBatchEntry list" where
  "content_at url b = (if fst b = url then snd b else [])"

definition sqs_buffers_ok :: "sqs_worker \<Rightarrow> bool" where
  "sqs_buffers_ok w \<longleftrightarrow>
     (\<forall>url. length (batch_of url w) < maxBatchSizeInSQS \<and> (\<forall>b \<in> set (batch_of url w). entry_url b = url))"

definition sqs_batch_ok :: "string \<times> sqsBatchEntry list \<Rightarrow> bool" where
  "sqs_batch_ok b \<longleftrightarrow> snd b \<noteq> [] \<and> length (snd b) \<le> maxBatchSizeInSQS \<and> (\<forall>e \<in> set (snd b). entry_url e = fst b)"

lemmas sqs_worker_defs = content_at_def sqs_buffers_ok_def sqs_batch_ok_def sqs_tryFlushBatch_def

lemma tryFlushBatch_keeps:
  "sqs_tryFlushBatch url' w = (bs, w') \<Longrightarrow> concat (map (content_at url) bs) @ batch_of url w' = batch_of url w"
  by (auto simp: sqs_worker_defs split: if_splits)

lemma tryFlushBatch_ok:
  "sqs_buffers_ok w \<Longrightarrow> sqs_tryFlushBatch url w = (bs, w') \<Longrightarrow> sqs_buffers_ok w' \<and> (\<forall>b \<in> set bs. sqs_batch_ok b)"
  by (auto simp: sqs_worker_defs maxBatchSizeInSQS_def less_imp_le split: if_splits)

lemma tryFlushAll_keeps:
  "tryFlushAll urls w = (bs, w') \<Longrightarrow> concat (map (content_at url) bs) @ batch_of url w' = batch_of url w"
proof (induction urls arbitrary: w bs)
  case (Cons u urls)
  obtain bs1 w1 bs2 where s: "sqs_tryFlushBatch u w = (bs1, w1)" "tryFlushAll urls w1 = (bs2, w')" "bs = bs1 @ bs2"
    using Cons.prems by (auto split: prod.splits)
  then show ?case using Cons.IH [OF s(2)] tryFlushBatch_keeps [OF s(1), of url] by simp
qed simp

lemma tryFlushAll_ok:
  "sqs_buffers_ok w \<Longrightarrow> tryFlushAll urls w = (bs, w') \<Longrightarrow> sqs_buffers_ok w' \<and> (\<forall>b \<in> set bs. sqs_batch_ok b)"
proof (induction urls arbitrary: w bs)
  case (Cons u urls)
  obtain bs1 w1 bs2 where s: "sqs_tryFlushBatch u w = (bs1, w1)" "tryFlushAll urls w1 = (bs2, w')" "bs = bs1 @ bs2"
    using Cons.prems by (auto split: prod.splits)
  then show ?case using Cons.IH [OF _ s(2)] tryFlushBatch_ok [OF Cons.prems(1) s(1)] by auto
qed simp

lemma tryFlushAll_empties:
  "tryFlushAll urls w = (bs, w') \<Longrightarrow> url \<in> set urls \<or> batch_of url w = [] \<Longrightarrow> batch_of url w' = []"
proof (induction urls arbitrary: w bs)
  case (Cons u urls)
  obtain bs1 w1 bs2 where s: "sqs_tryFlushBatch u w = (bs1, w1)" "tryFlushAll urls w1 = (bs2, w')"
    using Cons.prems(1) by (auto split: prod.splits)
  have "url \<in> set urls \<or> batch_of url w1 = []"
    using Cons.prems(2) s(1) by (auto simp: sqs_tryFlushBatch_def split: if_splits)
  then show ?case using Cons.IH [OF s(2)] by blast
qed simp

lemma sqs_step_keeps:
  "sqs_worker_step ev w = (bs, w') \<Longrightarrow> concat (map (content_at url) bs) @ batch_of url w' = batch_of url w @ arrivals_at url ev"
proof (cases ev)
  case SqsTick
  moreover assume "sqs_worker_step ev w = (bs, w')"
  ultimately show ?thesis
    using tryFlushAll_keeps [of "map fst (queueBatches w)" "w\<lparr>sq_timerRunning := False\<rparr>" bs w' url] by simp
next
  case (SqsEntry r)
  moreover assume "sqs_worker_step ev w = (bs, w')"
  ultimately show ?thesis by (auto simp: sqs_worker_defs entry_url_def Let_def split: if_splits)
qed

lemma sqs_step_ok:
  assumes ok: "sqs_buffers_ok w" and step: "sqs_worker_step ev w = (bs, w')"
  shows "sqs_buffers_ok w' \<and> (\<forall>b \<in> set bs. sqs_batch_ok b)"
proof (cases ev)
  case SqsTick
  moreover have "sqs_buffers_ok (w\<lparr>sq_timerRunning := False\<rparr>)" using ok by (simp add: sqs_buffers_ok_def)
  ultimately show ?thesis using tryFlushAll_ok step by simp
next
  case (SqsEntry r)
  have "Suc (length (batch_of (entry_url r) w)) \<le> maxBatchSizeInSQS"
    using ok by (simp add: sqs_buffers_ok_def Suc_le_eq)
  then show ?thesis using ok step SqsEntry
    by (auto simp: sqs_worker_defs isMaxedOut_def entry_url_def maxBatchSizeInSQS_def Let_def split: if_splits)
qed

interpretation sqs_worker: batching sqs_worker_step batch_of arrivals_at content_at sqs_buffers_ok sqs_batch_ok
  by unfold_locales (use sqs_step_keeps sqs_step_ok in \<open>blast+\<close>)

text \<open>
  (C26) The worker of the SQS writer neither loses, duplicates nor reorders a message of a queue: for
  every queue address the batches submitted to it, followed by its buffer, are the messages for it, in
  order. Every batch holds between one and ten messages, all for its address, so that numbering it never
  leaves the range of the request, and a tick of the timer empties the buffers.
\<close>

theorem sqs_runWorker_no_loss:
  assumes run: "sqs_runWorker evs new_sqs_worker = (bs, w')"
  shows "concat (map (content_at url) bs) @ batch_of url w' = concat (map (arrivals_at url) evs) \<and>
     (\<forall>b \<in> set bs. sqs_batch_ok b) \<and>
     (\<forall>b \<in> set bs. \<forall>uuid. \<exists>r. number_batch uuid 0 (snd b) (replicate maxBatchSizeInSQS None) [] = Inr r) \<and>
     batch_of url (snd (sqs_runWorker (evs @ [SqsTick]) new_sqs_worker)) = []"
proof -
  have init: "sqs_buffers_ok new_sqs_worker" by (simp add: sqs_buffers_ok_def new_sqs_worker_def batch_of_def maxBatchSizeInSQS_def)
  note run' = run [unfolded sqs_runWorker_def]
  have keeps: "concat (map (content_at url) bs) @ batch_of url w' = concat (map (arrivals_at url) evs)"
    using sqs_worker.run_keeps [OF init run'] by (simp add: new_sqs_worker_def batch_of_def)
  have ok: "\<forall>b \<in> set bs. sqs_batch_ok b" using sqs_worker.run_inv [OF init run'] by blast
  have number: "\<exists>r. number_batch uuid i es cb m = Inr r" if "i + length es \<le> length cb" for uuid i es cb m
    using that by (induction es arbitrary: i cb m) auto
  have flushed: "batch_of url (snd (sqs_worker_step SqsTick w')) = []"
  proof -
    obtain bs' w'' where f: "tryFlushAll (map fst (queueBatches w')) (w'\<lparr>sq_timerRunning := False\<rparr>) = (bs', w'')" by fastforce
    have "url \<in> set (map fst (queueBatches w')) \<or> batch_of url w' = []"
      by (auto simp: batch_of_def dest: map_of_SomeD split: option.splits) (metis map_of_eq_None_iff option.distinct(1) list.set_map)
    then show ?thesis using tryFlushAll_empties [OF f, of url] f by simp
  qed
  have "\<forall>b \<in> set bs. \<forall>uuid. \<exists>r. number_batch uuid 0 (snd b) (replicate maxBatchSizeInSQS None) [] = Inr r"
    using ok number by (simp add: sqs_batch_ok_def)
  then show ?thesis using keeps ok flushed
    by (auto simp: sqs_runWorker_def run_steps_append run' split: prod.splits)
qed

definition sample_queue :: "string \<Rightarrow> TableQueueConfig" where
  "sample_queue url = \<lparr>tq_tableName = ''public.t'', tq_queueName = ''q'', tq_queueURL = url, tq_fifo = True, tq_skip = False,
     needsOpInJSON = True, groupIDPattern = []\<rparr>"

definition sample_message :: "string \<Rightarrow> u32 \<Rightarrow> sqsBatchEntry" where
  "sample_message url n =
     \<lparr>sb_LSN = 10, sb_XID = 9, sb_TableName = \<lparr>tn_Schema = ''public'', tn_Name = ''t'', tn_FullName = ''public.t''\<rparr>,
      sb_PK = ''7'', sb_Offset = n, sb_queueConfig = sample_queue url, sb_message = ''{}'', deduplicationID = None, groupID = None\<rparr>"

theorem sqs_runWorker_no_loss_witness:
  "\<exists>bs w'. sqs_runWorker [SqsEntry (sample_message ''a'' 0), SqsEntry (sample_message ''b'' 1), SqsEntry (sample_message ''a'' 2)] new_sqs_worker = (bs, w') \<and>
     concat (map (content_at ''a'') bs) @ batch_of ''a'' w' = [sample_message ''a'' 0, sample_message ''a'' 2]"
proof -
  obtain bs w' where r: "sqs_runWorker [SqsEntry (sample_message ''a'' 0), SqsEntry (sample_message ''b'' 1), SqsEntry (sample_message ''a'' 2)] new_sqs_worker = (bs, w')"
    by fastforce
  show ?thesis using sqs_runWorker_no_loss [OF r, of "''a''"] r by (simp add: entry_url_def sample_message_def sample_queue_def)
qed

section \<open>Flushing a batch\<close>

lemma number_batch_spec:
  assumes "distinct (map uuid [i..<i + length es])" "i + length es \<le> length cb" "fst ` set m \<inter> uuid ` {i..<i + length es} = {}"
  shows "number_batch uuid i es cb m =
    Inr (take i cb @ map2 (\<lambda>j b. Some (batch_message (uuid j) b)) [i..<i + length es] es @ drop (i + length es) cb,
         m @ zip (map uuid [i..<i + length es]) es)"
  using assms
proof (induction es arbitrary: i cb m)
  case (Cons b es)
  let ?cb = "cb[i := Some (batch_message (uuid i) b)]"
  have upt: "[i..<i + length (b # es)] = i # [Suc i..<Suc i + length es]" by (simp add: upt_conv_Cons del: upt_Suc)
  have "uuid i \<in> uuid ` {i..<i + length (b # es)}" by simp
  then have fresh: "map_of m (uuid i) = None" using Cons.prems(3) unfolding map_of_eq_None_iff by blast
  then have upd: "AList.update (uuid i) b m = m @ [(uuid i, b)]"
    by (induction m) auto
  have "number_batch uuid (Suc i) es ?cb (m @ [(uuid i, b)]) =
      Inr (take (Suc i) ?cb @ map2 (\<lambda>j b. Some (batch_message (uuid j) b)) [Suc i..<Suc i + length es] es @ drop (Suc i + length es) ?cb,
           (m @ [(uuid i, b)]) @ zip (map uuid [Suc i..<Suc i + length es]) es)"
  proof (rule Cons.IH)
    show "distinct (map uuid [Suc i..<Suc i + length es])" using Cons.prems(1) unfolding upt by simp
    show "fst ` set (m @ [(uuid i, b)]) \<inter> uuid ` {Suc i..<Suc i + length es} = {}"
      using Cons.prems(1,3) unfolding upt by auto
  qed (use Cons.prems(2) in simp)
  moreover have "take (Suc i) ?cb = take i cb @ [Some (batch_message (uuid i) b)]"
    using Cons.prems(2) by (simp add: take_Suc_conv_app_nth)
  ultimately show ?case using Cons.prems(2) by (simp add: upd upt_conv_Cons del: upt_Suc)
qed simp

text \<open>The reason and the answer for a failed message, when the service says why.\<close>

definition failure_reason :: "BatchResultErrorEntry \<Rightarrow> WriterError" where
  "failure_reason f = sqs_flushError (fe_Code f) (the (fe_Message f)) (SenderFault f)"

definition failed_answer :: "(string \<times> sqsBatchEntry) list \<Rightarrow> BatchResultErrorEntry \<Rightarrow> ErrorResponseEntry" where
  "failed_answer m f = \<lparr>ee_Entry = sqs_response (the (map_of m (fe_Id f))), ee_Reason = failure_reason f\<rparr>"

lemma processFailures_spec:
  assumes "distinct (map fe_Id fs)" "fe_Id ` set fs \<subseteq> fst ` set m"
  shows "processFailures fs m =
    (if None \<in> fe_Message ` set fs then Inl nil_panic
     else Inr (map (failed_answer m) fs, filter (\<lambda>e. fst e \<notin> fe_Id ` set fs) m))"
  using assms
proof (induction fs arbitrary: m)
  case (Cons f fs)
  obtain b where b: "map_of m (fe_Id f) = Some b"
    using Cons.prems(2) by (metis image_subset_iff list.set_intros(1) map_of_eq_None_iff not_Some_eq)
  let ?m = "AList.delete (fe_Id f) m"
  have dele: "?m = filter (\<lambda>e. fst e \<noteq> fe_Id f) m" by (auto simp: AList.delete_eq intro!: filter_cong)
  have new: "fe_Id f \<notin> fe_Id ` set fs" using Cons.prems(1) by simp
  have "fst ` set ?m = fst ` set m - {fe_Id f}" unfolding dele by auto
  moreover have "fe_Id ` set fs \<subseteq> fst ` set m" using Cons.prems(2) by simp
  ultimately have sub: "fe_Id ` set fs \<subseteq> fst ` set ?m" using new by (simp add: subset_Diff_insert)
  have "map_of ?m (fe_Id g) = map_of m (fe_Id g)" if "g \<in> set fs" for g
    using new that by (metis delete_conv' fun_upd_other image_eqI)
  then have "map (failed_answer ?m) fs = map (failed_answer m) fs"
    by (simp add: failed_answer_def)
  moreover have "filter (\<lambda>e. fst e \<notin> fe_Id ` set fs) ?m = filter (\<lambda>e. fst e \<notin> fe_Id ` set (f # fs)) m"
    unfolding dele filter_filter by (rule filter_cong) auto
  ultimately have "processFailures fs ?m =
      (if None \<in> fe_Message ` set fs then Inl nil_panic
       else Inr (map (failed_answer m) fs, filter (\<lambda>e. fst e \<notin> fe_Id ` set (f # fs)) m))"
    using Cons.IH [OF _ sub] Cons.prems(1) by simp
  then show ?case using b by (cases "fe_Message f") (simp_all add: failed_answer_def failure_reason_def)
qed simp

lemma partition_answers:
  assumes "distinct (map fst m)" "distinct (map fe_Id fs)" "fe_Id ` set fs \<subseteq> fst ` set m"
  shows "mset (map (ee_Entry \<circ> failed_answer m) fs) + mset (map (sqs_response \<circ> snd) (filter (\<lambda>e. fst e \<notin> fe_Id ` set fs) m)) =
    mset (map (sqs_response \<circ> snd) m)"
proof -
  let ?ids = "fe_Id ` set fs"
  let ?hit = "filter (\<lambda>e. fst e \<in> ?ids) m"
  have "mset (map fe_Id fs) = mset (map fst ?hit)"
  proof (rule set_eq_iff_mset_eq_distinct [THEN iffD1])
    show "distinct (map fst ?hit)" using assms(1) by (simp add: distinct_map_filter)
    have "set (map fst ?hit) = fst ` set m \<inter> ?ids" by auto
    then show "set (map fe_Id fs) = set (map fst ?hit)" using assms(3) by (simp add: Int_absorb1)
  qed (fact assms(2))
  then have "mset (map (\<lambda>i. sqs_response (the (map_of m i))) (map fe_Id fs)) = mset (map (\<lambda>i. sqs_response (the (map_of m i))) (map fst ?hit))"
    by (metis mset_map)
  also have "map (\<lambda>i. sqs_response (the (map_of m i))) (map fst ?hit) = map (sqs_response \<circ> snd) ?hit"
    using assms(1) by (auto intro!: map_cong)
  finally have "mset (map (ee_Entry \<circ> failed_answer m) fs) = mset (map (sqs_response \<circ> snd) ?hit)"
    by (simp add: failed_answer_def comp_def)
  then show ?thesis by (simp flip: image_mset_union)
qed

text \<open>The messages of a batch and the map from identifiers to entries that \<open>flushBatch\<close> builds.\<close>

definition numbered :: "(nat \<Rightarrow> string) \<Rightarrow> sqsBatchEntry list \<Rightarrow> (string \<times> sqsBatchEntry) list" where
  "numbered uuid es = map (\<lambda>j. (uuid j, es ! j)) [0..<length es]"

definition numbered_messages :: "(nat \<Rightarrow> string) \<Rightarrow> sqsBatchEntry list \<Rightarrow> SendMessageBatchRequestEntry option list" where
  "numbered_messages uuid es = map2 (\<lambda>j b. Some (batch_message (uuid j) b)) [0..<length es] es"

lemma numbered_facts:
  "map fst (numbered uuid es) = map uuid [0..<length es]" "map (sqs_response \<circ> snd) (numbered uuid es) = map sqs_response es"
  "fst ` set (numbered uuid es) = uuid ` {0..<length es}" "length (numbered_messages uuid es) = length es"
proof -
  show "map (sqs_response \<circ> snd) (numbered uuid es) = map sqs_response es"
    by (rule nth_equalityI) (simp_all add: numbered_def)
qed (simp_all add: numbered_def numbered_messages_def image_image)

lemma sqs_flushBatch_numbered:
  assumes "length es \<le> maxBatchSizeInSQS" "distinct (map uuid [0..<length es])"
  shows "sqs_flushBatch uuid sendBatch url es =
    (case sendBatch url (numbered_messages uuid es) of
       Inl err \<Rightarrow> Inr (numbered_messages uuid es, processFailureFromSend es (''SendMessageBatch error: '' @ err), [])
     | Inr failed \<Rightarrow>
         bind_result (processFailures failed (numbered uuid es)) (\<lambda>(errs, m).
           Inr (numbered_messages uuid es, errs, map (sqs_response \<circ> snd) m)))"
proof -
  have "zip (map uuid [0..<length es]) es = numbered uuid es" by (rule nth_equalityI) (simp_all add: numbered_def)
  then have number: "number_batch uuid 0 es (replicate maxBatchSizeInSQS None) [] =
      Inr (numbered_messages uuid es @ drop (length es) (replicate maxBatchSizeInSQS None), numbered uuid es)"
    using number_batch_spec [of uuid 0 es "replicate maxBatchSizeInSQS None" "[]"] assms by (simp add: numbered_messages_def)
  have guard: "(if failed \<noteq> [] then processFailures failed m else Inr ([], m)) = processFailures failed m" for failed m
    by (cases failed) simp_all
  show ?thesis unfolding sqs_flushBatch_def number bind_result.simps prod.case Let_def guard
    by (simp only: take_append numbered_facts(4) take_all diff_self_eq_0 take_0 append_Nil2 order_refl)
qed

text \<open>
  (C27) A batch the worker submits is sent whole and answered once per entry. The messages go out in
  the order of the entries. When the call fails every entry is reported as failed, the destination as
  down; else, provided the service names as failed only identifiers it was sent, each once, the failed
  entries are reported, retryable unless the sender is at fault, and exactly the others acknowledged. The one
  exception is a failure that comes without its message, which the service may leave out: then the worker panics.
\<close>

theorem sqs_flushBatch_answers_once:
  assumes n: "length es \<le> maxBatchSizeInSQS" and fresh: "distinct (map uuid [0..<length es])"
    and msgs: "msgs = map2 (\<lambda>j b. Some (batch_message (uuid j) b)) [0..<length es] es"
    and answer: "\<And>failed. sendBatch url msgs = Inr failed \<Longrightarrow>
      distinct (map fe_Id failed) \<and> fe_Id ` set failed \<subseteq> uuid ` {0..<length es}"
  shows "if \<exists>failed. sendBatch url msgs = Inr failed \<and> None \<in> fe_Message ` set failed
    then sqs_flushBatch uuid sendBatch url es = Inl nil_panic
    else \<exists>errs oks. sqs_flushBatch uuid sendBatch url es = Inr (msgs, errs, oks) \<and>
      mset (map ee_Entry errs) + mset oks = mset (map sqs_response es) \<and>
      (case sendBatch url msgs of
         Inl err \<Rightarrow> oks = [] \<and> list_all (\<lambda>e. IsRetryable (ee_Reason e) \<and> IsDownStreamDown (ee_Reason e)) errs
       | Inr failed \<Rightarrow> map ee_Reason errs = map failure_reason failed \<and>
           oks = map (\<lambda>j. sqs_response (es ! j)) (filter (\<lambda>j. uuid j \<notin> fe_Id ` set failed) [0..<length es]))"
proof -
  let ?m = "numbered uuid es"
  have m: "msgs = numbered_messages uuid es" by (simp add: msgs numbered_messages_def)
  note flush = sqs_flushBatch_numbered [OF n fresh, of sendBatch url, folded m]
  show ?thesis
  proof (cases "sendBatch url msgs")
    case (Inl err)
    have "map ee_Entry (processFailureFromSend es e) = map sqs_response es \<and>
        list_all (\<lambda>e. IsRetryable (ee_Reason e) \<and> IsDownStreamDown (ee_Reason e)) (processFailureFromSend es e)" for e
      by (auto simp: processFailureFromSend_def list_all_iff)
    then show ?thesis using Inl by (simp add: flush flip: mset_map)
  next
    case (Inr failed)
    note ans = answer [OF Inr]
    have sub: "fe_Id ` set failed \<subseteq> fst ` set ?m" using ans by (simp add: numbered_facts)
    note fails = processFailures_spec [OF ans [THEN conjunct1] sub]
    have oks: "map (sqs_response \<circ> snd) (filter (\<lambda>e. fst e \<notin> fe_Id ` set failed) ?m) =
        map (\<lambda>j. sqs_response (es ! j)) (filter (\<lambda>j. uuid j \<notin> fe_Id ` set failed) [0..<length es])"
      by (simp add: numbered_def filter_map comp_def)
    have "distinct (map fst ?m)" using fresh by (simp only: numbered_facts)
    note part = partition_answers [OF this ans [THEN conjunct1] sub, unfolded oks numbered_facts(2)]
    have reasons: "map ee_Reason (map (failed_answer ?m) failed) = map failure_reason failed" by (simp add: failed_answer_def)
    show ?thesis
    proof (cases "None \<in> fe_Message ` set failed")
      case True
      then show ?thesis by (simp add: flush Inr fails)
    next
      case False
      then have "sqs_flushBatch uuid sendBatch url es = Inr (msgs, map (failed_answer ?m) failed,
          map (\<lambda>j. sqs_response (es ! j)) (filter (\<lambda>j. uuid j \<notin> fe_Id ` set failed) [0..<length es]))"
        by (simp only: flush Inr sum.case fails if_False bind_result.simps prod.case oks)
      then show ?thesis using part reasons False Inr by (simp add: multiset.map_comp)
    qed
  qed
qed

definition sample_failure :: BatchResultErrorEntry where
  "sample_failure = \<lparr>fe_Id = ''1'', fe_Code = ''Throttled'', fe_Message = Some ''slow down'', SenderFault = False\<rparr>"

theorem sqs_flushBatch_answers_once_witness:
  "\<exists>msgs errs oks. sqs_flushBatch format_uint (\<lambda>_ _. Inr [sample_failure]) ''a'' [sample_message ''a'' 0, sample_message ''a'' 1] = Inr (msgs, errs, oks) \<and>
     map ee_Reason errs = [failure_reason sample_failure] \<and> oks = [sqs_response (sample_message ''a'' 0)]"
proof -
  have ids: "format_uint 0 = ''0''" "format_uint 1 = ''1''" "format_uint (Suc 0) = ''1''" by code_simp+
  have "''1'' \<in> format_uint ` {..<Suc (Suc 0)}" using ids(3) by (metis imageI lessI lessThan_iff)
  then show ?thesis
    using sqs_flushBatch_answers_once [where uuid = format_uint and es = "[sample_message ''a'' 0, sample_message ''a'' 1]"
        and sendBatch = "\<lambda>_ _. Inr [sample_failure]" and url = "''a''", OF _ _ refl]
    by (simp add: maxBatchSizeInSQS_def ids sample_failure_def upt_rec atLeast0LessThan)
       (elim exE conjE, intro exI conjI, assumption+)
qed

section \<open>Messages\<close>

text \<open>A tuple with pairs behind it, as one map from names to values.\<close>

definition pairs_ok :: "'x tuple_pairs \<Rightarrow> bool" where
  "pairs_ok st \<longleftrightarrow> om_wf (fst st) \<and> distinct (Keys (om_keyMap (fst st))) \<and> distinct (map fst (snd st)) \<and>
     (\<forall>k \<in> fst ` set (snd st). om_lookup (fst st) k = None)"

definition pairs_map :: "'x tuple_pairs \<Rightarrow> string \<rightharpoonup> 'x goval option" where
  "pairs_map st = om_lookup (fst st) ++ map_of (snd st)"

lemma set_or_append_spec:
  assumes ok: "pairs_ok st" and new: "key \<notin> fst ` set (snd st)"
  obtains st' where "set_or_append key v st = Inr st'" "pairs_ok st'" "pairs_map st' = (pairs_map st)(key \<mapsto> Some (GStr v))"
    "fst ` set (snd st') \<subseteq> insert key (fst ` set (snd st))"
proof -
  obtain om custom where st: "st = (om, custom)" by (cases st)
  have wf: "om_wf om" using ok by (simp add: pairs_ok_def st)
  have none: "map_of custom key = None" using new by (simp add: st map_of_eq_None_iff)
  show ?thesis
  proof (cases "om_lookup om key")
    case None
    then have r: "set_or_append key v st = Inr (om, custom @ [(key, Some (GStr v))])"
      using om_Get_lookup [OF wf] by (simp add: set_or_append_def st)
    have "pairs_ok (om, custom @ [(key, Some (GStr v))])"
      using ok new None by (auto simp: pairs_ok_def st)
    moreover have "map_of (custom @ [(key, Some (GStr v))]) = (map_of custom)(key \<mapsto> Some (GStr v))"
      using none by (auto simp: map_add_def fun_eq_iff split: option.splits)
    then have "pairs_map (om, custom @ [(key, Some (GStr v))]) = (pairs_map st)(key \<mapsto> Some (GStr v))"
      by (simp add: pairs_map_def st)
    ultimately show ?thesis using that [OF r] by (auto simp: st)
  next
    case (Some w)
    then obtain om' where om': "om_Set om key (Some (GStr v)) = Inr om'"
      using om_Set_ok_iff [OF wf] om_lookup_dom [OF wf] by metis
    then have r: "set_or_append key v st = Inr (om', custom)"
      using om_Get_lookup [OF wf] Some by (simp add: set_or_append_def st)
    note look = om_Set_lookup [OF wf om']
    have "pairs_ok (om', custom)"
      using ok new om_Set_wf [OF wf om'] by (auto simp: pairs_ok_def st look)
    moreover have "pairs_map (om', custom) = (pairs_map st)(key \<mapsto> Some (GStr v))"
      using none by (auto simp: pairs_map_def st look map_add_def fun_eq_iff split: option.splits)
    ultimately show ?thesis using that [OF r] by (auto simp: st)
  qed
qed

lemma om_select_keys: "set (map fst (om_select om ks)) = {k \<in> set ks. om_lookup om k \<noteq> None}"
  by (induction ks) (auto simp: om_select_def split: option.splits)

lemma om_select_map: "distinct ks \<Longrightarrow> distinct (map fst (om_select om ks)) \<and> map_of (om_select om ks) = om_lookup om |` set ks"
proof (induction ks)
  case (Cons k ks)
  then have "k \<notin> set (map fst (om_select om ks))" unfolding om_select_keys by simp
  then show ?case using Cons
    by (auto simp: om_select_Cons restrict_map_def fun_eq_iff split: option.splits)
qed (simp add: om_select_def restrict_map_def fun_eq_iff)

lemma pairs_listing:
  assumes "pairs_ok st"
  defines "ps \<equiv> om_select (fst st) (Keys (om_keyMap (fst st))) @ snd st"
  shows "distinct (map fst ps) \<and> map_of ps = pairs_map st"
proof -
  let ?om = "fst st" and ?ks = "Keys (om_keyMap (fst st))"
  note sel = om_select_map [of ?ks ?om] and keys = om_select_keys [of ?om ?ks]
  have wf: "om_wf ?om" and dk: "distinct ?ks" using assms(1) by (auto simp: pairs_ok_def)
  have dj: "set (map fst (om_select ?om ?ks)) \<inter> set (map fst (snd st)) = {}"
    using assms(1) unfolding keys by (auto simp: pairs_ok_def)
  have "om_lookup ?om |` set ?ks = om_lookup ?om"
    using om_lookup_dom [OF wf] by (auto simp: restrict_map_def fun_eq_iff) (metis not_None_eq)
  then have "map_of ps = map_of (snd st) ++ om_lookup ?om" using sel dk by (simp add: ps_def)
  also have "\<dots> = pairs_map st"
    unfolding pairs_map_def
    by (rule map_add_comm) (use assms(1) in \<open>auto simp: pairs_ok_def dom_map_of_conv_image_fst\<close>)
  finally show ?thesis using sel dk dj assms(1) by (simp add: ps_def pairs_ok_def)
qed

text \<open>
  The message of an entry is the JSON object of its row with the commit time under the configured
  name and the operation under \<open>kind\<close>, where each is asked for: they replace the columns of these names
  and are added where there is none. No name occurs twice, every other column keeps its value, and
  the only way to fail is an error of the encoder.
\<close>

theorem getJSON_contents:
  assumes "we_Tuple entry = Tup om" "om_wf om" "distinct (Keys (om_keyMap om))" "tx_Name opts \<noteq> ''kind''"
  shows "\<exists>om' pairs. getJSON h opts entry commitTime needsOp =
      (case json_object (sq_enc h) (sq_enck h) pairs of Inl e \<Rightarrow> Inl (wrap_marshal e) | Inr j \<Rightarrow> Inr (j, om')) \<and>
    distinct (map fst pairs) \<and>
    map_of pairs = (\<lambda>k.
      if tx_Save opts \<and> k = tx_Name opts then Some (Some (GStr (sq_time h commitTime)))
      else if needsOp \<and> we_Kind entry \<noteq> SnapshotRead \<and> k = ''kind'' then Some (Some (GStr (kind_text (we_Kind entry))))
      else om_lookup om k)"
proof -
  have ok: "pairs_ok (om, [])" using assms(2,3) by (simp add: pairs_ok_def)
  define f where "f = (\<lambda>k. if tx_Save opts \<and> k = tx_Name opts then Some (Some (GStr (sq_time h commitTime))) else om_lookup om k)"
  obtain st where st: "(if tx_Save opts then set_or_append (tx_Name opts) (sq_time h commitTime) (om, []) else Inr (om, [])) = Inr st"
      "pairs_ok st" "pairs_map st = f" "fst ` set (snd st) \<subseteq> {tx_Name opts}"
    using ok by (cases "tx_Save opts"; cases rule: set_or_append_spec [OF ok, of "tx_Name opts" "sq_time h commitTime"])
                (auto simp: pairs_map_def f_def fun_eq_iff)
  have "''kind'' \<notin> fst ` set (snd st)" using st(4) assms(4) by auto
  then obtain st' where st': "set_or_append ''kind'' (kind_text (we_Kind entry)) st = Inr st'" "pairs_ok st'"
      "pairs_map st' = f(''kind'' \<mapsto> Some (GStr (kind_text (we_Kind entry))))"
    using set_or_append_spec [OF st(2), of "''kind''"] unfolding st(3) by metis
  have kind: "kind_text k \<noteq> [] \<longleftrightarrow> k \<noteq> SnapshotRead" for k by (cases k) auto
  define r where "r = (if needsOp \<and> we_Kind entry \<noteq> SnapshotRead then st' else st)"
  have run: "json_pairs h opts (we_Kind entry) commitTime needsOp om = Inr r" and r: "pairs_ok r"
    using st(1,2) st'(1,2) by (auto simp: json_pairs_def kind r_def)
  have "pairs_map r = (\<lambda>k. if tx_Save opts \<and> k = tx_Name opts then Some (Some (GStr (sq_time h commitTime)))
      else if needsOp \<and> we_Kind entry \<noteq> SnapshotRead \<and> k = ''kind'' then Some (Some (GStr (kind_text (we_Kind entry))))
      else om_lookup om k)"
    using st(3) st'(3) assms(4) by (auto simp: r_def f_def fun_eq_iff)
  moreover have "om_wf (fst r)" using r by (simp add: pairs_ok_def)
  then have "getJSON h opts entry commitTime needsOp =
      (case json_object (sq_enc h) (sq_enck h) (om_select (fst r) (Keys (om_keyMap (fst r))) @ snd r) of
        Inl e \<Rightarrow> Inl (wrap_marshal e) | Inr j \<Rightarrow> Inr (j, fst r))"
    using assms(1) run CustomMarshalJSON_json_object [of "fst r"] by (simp add: getJSON_def case_prod_beta')
  ultimately show ?thesis using pairs_listing [OF r]
    by (intro exI [where x = "fst r"] exI [where x = "om_select (fst r) (Keys (om_keyMap (fst r))) @ snd r"] conjI) simp_all
qed

definition sample_sqs_host :: "nat sqs_host" where
  "sample_sqs_host = \<lparr>sq_enc = (\<lambda>v. case v of Some (GStr s) \<Rightarrow> Inr (''\"'' @ s @ ''\"'') | _ \<Rightarrow> Inr ''null''),
     sq_enck = (\<lambda>k. Inr (''\"'' @ k @ ''\"'')), sq_time = (\<lambda>t. ''2025-01-01T00:00:00Z''), sq_fmt = (\<lambda>_. [])\<rparr>"

theorem getJSON_contents_witness:
  "\<exists>r. getJSON sample_sqs_host \<lparr>tx_Save = True, tx_Name = ''ts''\<rparr>
     \<lparr>we_Tuple = Tup (om_New (km_New [''id''])), we_PrevTuple = NoTuple, we_PK = ''7'', we_Kind = Insert,
      we_Table = \<lparr>tn_Schema = ''public'', tn_Name = ''t'', tn_FullName = ''public.t''\<rparr>, we_Offset = 0\<rparr> 0 True = Inr r"
proof -
  have km: "km_wf (km_New [''id''])" "Keys (km_New [''id'']) = [''id'']" "Len (km_New [''id'']) = 1"
    using km_wf_New [of "[''id'']"] by (simp_all add: km_New_def Keys_def Len_def)
  have enc: "\<exists>j. json_object (sq_enc sample_sqs_host) (sq_enck sample_sqs_host) ps = Inr j" for ps
  proof -
    have "\<exists>qs. enc_pairs (sq_enc sample_sqs_host) (sq_enck sample_sqs_host) ps = Inr qs"
      by (induction ps) (auto simp: sample_sqs_host_def split: option.splits goval.splits)
    then show ?thesis by (auto simp: json_object_def)
  qed
  show ?thesis
    using getJSON_contents [of "\<lparr>we_Tuple = Tup (om_New (km_New [''id''])), we_PrevTuple = NoTuple, we_PK = ''7'', we_Kind = Insert,
        we_Table = \<lparr>tn_Schema = ''public'', tn_Name = ''t'', tn_FullName = ''public.t''\<rparr>, we_Offset = 0\<rparr>"
        "om_New (km_New [''id''])" "\<lparr>tx_Save = True, tx_Name = ''ts''\<rparr>" sample_sqs_host 0 True] km enc
    by (auto split: sum.splits) (metis old.sum.exhaust)
qed

section \<open>Deduplication identifiers\<close>

lemma base64_aws: "filter aws_char (base64_EncodeToString s) = base64_EncodeToString s"
proof -
  have "list_all aws_char (CHR ''='' # base64_alphabet)" by code_simp
  then show ?thesis using base64_chars by (auto simp: filter_id_conv list_all_iff)
qed

lemma dedup_id: "tq_fifo qc \<Longrightarrow> GetDeduplicationID qc entry xid = Some (base64_EncodeToString (take 96 (dedup_text entry xid)))"
proof -
  have "\<not> aws_char (CHR '' '')" by code_simp
  then have "wellFormAWSID ('' '' @ base64_EncodeToString s) = base64_EncodeToString (take 96 s)" for s
    using base64_take [of 32 s] by (simp add: wellFormAWSID_def base64_aws)
  moreover assume "tq_fifo qc"
  ultimately show ?thesis by (simp add: GetDeduplicationID_def)
qed

lemma base64_inj: "base64_EncodeToString s = base64_EncodeToString t \<longleftrightarrow> s = t"
  by (metis base64_roundtrip)

text \<open>
  On a FIFO queue changes whose key text is at most 96 bytes long get the same deduplication
  identifier only when they are the same operation of the same transaction on the same row: the service
  never drops a different change as a duplicate.
\<close>

theorem dedup_id_distinguishes:
  assumes "tq_fifo qc" "length (dedup_text e xid) \<le> 96" "length (dedup_text e' xid') \<le> 96"
    and "GetDeduplicationID qc e xid = GetDeduplicationID qc e' xid'"
  shows "we_Kind e = we_Kind e' \<and> xid = xid' \<and>
    tn_FullName (we_Table e) @ '':'' @ we_PK e = tn_FullName (we_Table e') @ '':'' @ we_PK e'"
proof -
  have "dedup_text e xid = dedup_text e' xid'" using assms by (simp add: dedup_id base64_inj)
  then have "((tn_FullName (we_Table e) @ '':'' @ we_PK e) @ CHR '':'' # format_uint (kind_code (we_Kind e))) @ CHR '':'' # format_uint (unat xid) =
      ((tn_FullName (we_Table e') @ '':'' @ we_PK e') @ CHR '':'' # format_uint (kind_code (we_Kind e'))) @ CHR '':'' # format_uint (unat xid')"
    by (simp add: dedup_text_def)
  then show ?thesis
    by (simp only: last_field_unique format_uint_no_colon not_False_eq_True format_uint_inj kind_code_inj word_unat_eq_iff simp_thms)
qed

definition keyed_entry :: "string \<Rightarrow> OpKind \<Rightarrow> unit WriteEntry" where
  "keyed_entry pk kind = \<lparr>we_Tuple = NoTuple, we_PrevTuple = NoTuple, we_PK = pk, we_Kind = kind,
     we_Table = \<lparr>tn_Schema = ''public'', tn_Name = ''t'', tn_FullName = ''public.t''\<rparr>, we_Offset = 0\<rparr>"

theorem dedup_id_distinguishes_witness:
  "GetDeduplicationID (sample_queue ''a'') (keyed_entry ''7'' Update) 41 \<noteq> GetDeduplicationID (sample_queue ''a'') (keyed_entry ''7'' Update) 42"
proof -
  have "length (dedup_text (keyed_entry ''7'' Update) 41) \<le> 96" "length (dedup_text (keyed_entry ''7'' Update) 42) \<le> 96"
    "tq_fifo (sample_queue ''a'')" by code_simp+
  then show ?thesis using dedup_id_distinguishes [of "sample_queue ''a''" "keyed_entry ''7'' Update" 41 "keyed_entry ''7'' Update" 42] by auto
qed

text \<open>
  (C36) Where table and key alone take 96 bytes or more, the cut to 128 characters drops operation and
  transaction from the identifier: all changes of the row share one, and within the deduplication window
  of the queue the service keeps only the first of them.
\<close>

theorem dedup_id_truncated:
  assumes "tq_fifo qc" "we_Table e = we_Table e'" "we_PK e = we_PK e'"
    and "96 \<le> length (tn_FullName (we_Table e) @ '':'' @ we_PK e @ '':'')"
  shows "GetDeduplicationID qc e xid = GetDeduplicationID qc e' xid'"
proof -
  let ?p = "tn_FullName (we_Table e) @ '':'' @ we_PK e @ '':''"
  have "dedup_text e xid = ?p @ format_uint (kind_code (we_Kind e)) @ '':'' @ format_uint (unat xid)"
    "dedup_text e' xid' = ?p @ format_uint (kind_code (we_Kind e')) @ '':'' @ format_uint (unat xid')"
    using assms(2,3) by (simp_all add: dedup_text_def)
  then have "take 96 (dedup_text e xid) = take 96 (dedup_text e' xid')"
    using assms(4) by (simp only: take_append) simp
  then show ?thesis using assms(1) by (simp add: dedup_id)
qed

theorem dedup_id_truncated_witness:
  "GetDeduplicationID (sample_queue ''a'') (keyed_entry (replicate 90 (CHR ''k'')) Insert) 41 =
   GetDeduplicationID (sample_queue ''a'') (keyed_entry (replicate 90 (CHR ''k'')) Delete) 42"
  by (rule dedup_id_truncated) (simp_all add: sample_queue_def keyed_entry_def)

end
