(* ===== verification/Sqsconfig.thy ===== *)
theory Sqsconfig
  imports Sqsqueues Bufferedlistener
begin

text \<open>
  \<open>pg2sqs/sqsconfig/sqs_config.go\<close>: the tables of the configuration, merged from the environment and
  brought to full names, and the queues every change of such a table gets.
\<close>

record SQSTableConfig =
  sc_Columns :: "string list"
  sc_Options :: "(string \<times> string) list"
  sc_QueueConfig :: "SQSQueueConfig option"

type_synonym sqs_tables = "(string \<times> SQSTableConfig) list"

definition readSlice :: "any \<Rightarrow> string list option" where
  "readSlice v = (case v of AStr str \<Rightarrow> Some (map TrimSpace (split_on (CHR '','') str)) | _ \<Rightarrow> None)"

definition any_text :: "(string \<times> any) list \<Rightarrow> string \<Rightarrow> string" where
  "any_text m k = (case any_get m k of AStr s \<Rightarrow> s | _ \<Rightarrow> [])"

definition readQueueConfig :: "any \<Rightarrow> queue_names option" where
  "readQueueConfig q =
     (case q of
        AMap m \<Rightarrow> Some \<lparr>qn_Name = any_text m ''name'', qn_URL = [], qn_GroupID = any_text m ''groupid''\<rparr>
      | _ \<Rightarrow> None)"

definition readQueueOpts :: "any \<Rightarrow> SQSQueueConfig option" where
  "readQueueOpts q =
     (case q of
        AMap queueMap \<Rightarrow>
          (let queueConf = (case readQueueConfig q of Some c \<Rightarrow> c | None \<Rightarrow> \<lparr>qn_Name = [], qn_URL = [], qn_GroupID = []\<rparr>) in
           Some (queue_names.extend queueConf
             (SQSQueueConfig.fields (readQueueConfig (any_get queueMap ''insert''))
               (readQueueConfig (any_get queueMap ''update'')) (readQueueConfig (any_get queueMap ''delete'')))))
      | _ \<Rightarrow> None)"

definition sqs_readTableCfgFromEnv :: "(string \<times> any) list \<Rightarrow> (string \<times> SQSTableConfig) option" where
  "sqs_readTableCfgFromEnv tableMap =
     (if any_text tableMap ''name'' = [] then None
      else case readSlice (any_get tableMap ''columns'') of
        None \<Rightarrow> None
      | Some columns \<Rightarrow>
         (case readQueueOpts (any_get tableMap ''q'') of
            None \<Rightarrow> None
          | Some q \<Rightarrow> Some (any_text tableMap ''name'', \<lparr>sc_Columns = columns, sc_Options = [], sc_QueueConfig = Some q\<rparr>)))"

text \<open>The environment is visited in the order of a map iteration.\<close>

fun sqs_mergeFromEnv :: "(string \<times> any) list \<Rightarrow> sqs_tables \<Rightarrow> sqs_tables" where
  "sqs_mergeFromEnv [] tables = tables"
| "sqs_mergeFromEnv ((k, v) # envMap) tables =
     sqs_mergeFromEnv envMap
       (case v of
          AMap tableMap \<Rightarrow> (case sqs_readTableCfgFromEnv tableMap of Some (name, cfg) \<Rightarrow> AList.update name cfg tables | None \<Rightarrow> tables)
        | _ \<Rightarrow> tables)"

fun sqs_wellFormTableNames :: "sqs_tables \<Rightarrow> sqs_tables" where
  "sqs_wellFormTableNames [] = []"
| "sqs_wellFormTableNames ((key, cfg) # tables) =
     AList.update (WellFormTableName key) cfg (sqs_wellFormTableNames tables)"

definition sqs_WellForm :: "any \<Rightarrow> sqs_tables \<Rightarrow> sqs_tables" where
  "sqs_WellForm env tables =
     sqs_wellFormTableNames (case env of AMap m \<Rightarrow> sqs_mergeFromEnv m tables | _ \<Rightarrow> tables)"

definition sqs_TablesConfig :: "sqs_tables \<Rightarrow> (string \<times> TableConfig) list" where
  "sqs_TablesConfig tables = map (\<lambda>(k, c). (k, \<lparr>cfg_Columns = sc_Columns c, cfg_Options = map_of (sc_Options c)\<rparr>)) tables"

section \<open>Every change has a queue\<close>

text \<open>The operation's own queue section, if it has one.\<close>

fun op_queue :: "SQSQueueConfig \<Rightarrow> OpKind \<Rightarrow> queue_names option" where
  "op_queue q Insert = qc_Insert q"
| "op_queue q Update = qc_Update q"
| "op_queue q Delete = qc_Delete q"
| "op_queue q SnapshotRead = None"

lemma newQueueConfig_key: "fst (newQueueConfig k t d m) = makeQueueConfigKey t k"
  by (simp add: newQueueConfig_def Let_def)

lemma NewSQSQueueMapper_lookup:
  assumes "NewSQSQueueMapper tables = Inr m" "k \<noteq> SnapshotRead"
  shows "map_of m (makeQueueConfigKey t k) =
    (case map_of tables t of
       Some (Some q) \<Rightarrow> Some (snd (newQueueConfig k t (queue_names.truncate q) (op_queue q k)))
     | _ \<Rightarrow> None)"
  using assms(1)
proof (induction tables arbitrary: m)
  case (Cons tc tables)
  obtain tn cfg where tc: "tc = (tn, cfg)" by (cases tc)
  obtain q m' where q: "cfg = Some q" "NewSQSQueueMapper tables = Inr m'"
    using Cons.prems by (cases cfg) (auto simp: tc deref_def)
  let ?n = "\<lambda>k. newQueueConfig k tn (queue_names.truncate q) (op_queue q k)"
  have "m = AList.update (fst (?n Delete)) (snd (?n Delete)) (AList.update (fst (?n Update)) (snd (?n Update))
      (AList.update (fst (?n Insert)) (snd (?n Insert)) m'))"
    using Cons.prems q by (simp add: tc deref_def Let_def case_prod_beta)
  then show ?case using Cons.IH [OF q(2)] assms(2) q(1)
    by (cases k) (auto simp: tc newQueueConfig_key update_conv')
qed simp

lemma NewSQSQueueMapper_ok: "list_all (\<lambda>(t, c). c \<noteq> None) tables \<Longrightarrow> \<exists>m. NewSQSQueueMapper tables = Inr m"
  by (induction tables rule: NewSQSQueueMapper.induct) (auto simp: deref_def case_prod_beta Let_def)

text \<open>
  When every table has a queue section the mapper is built, and every insert, update and delete of a
  configured table gets the queue of its operation: the queue named for the operation, unless that name
  is \<open>skip\<close>, else the queue of the table, else the queue named after the table with dots
  replaced; the operation is written into the message exactly when it has no section of its own.
\<close>

theorem every_change_has_queue:
  assumes "list_all (\<lambda>(t, c). c \<noteq> None) tables" "map_of tables (tn_FullName (we_Table e)) = Some (Some q)"
    and "we_Kind e \<noteq> SnapshotRead" "op_queue q (we_Kind e) = opq"
  shows "\<exists>m qc. NewSQSQueueMapper tables = Inr m \<and> GetQueueConfig m e = Some qc \<and>
    tq_tableName qc = tn_FullName (we_Table e) \<and> needsOpInJSON qc = (opq = None) \<and>
    (tq_skip qc \<longleftrightarrow> (\<exists>x. opq = Some x \<and> EqualFold (qn_Name x) ''skip'')) \<and>
    (\<not> tq_skip qc \<longrightarrow>
      (let named = qn_Name (case opq of None \<Rightarrow> queue_names.truncate q | Some x \<Rightarrow> x) in
       tq_queueName qc = (if named \<noteq> [] then named else map (\<lambda>c. if c = CHR ''.'' then CHR ''_'' else c) (tn_FullName (we_Table e)))))"
proof -
  obtain m where m: "NewSQSQueueMapper tables = Inr m" using NewSQSQueueMapper_ok [OF assms(1)] ..
  have "GetQueueConfig m e = Some (snd (newQueueConfig (we_Kind e) (tn_FullName (we_Table e)) (queue_names.truncate q) opq))"
    using NewSQSQueueMapper_lookup [OF m assms(3)] assms(2,4) by (simp add: GetQueueConfig_def)
  then show ?thesis using m by (cases opq) (auto simp: newQueueConfig_def Let_def)
qed

definition sample_queues :: "(string \<times> SQSQueueConfig option) list" where
  "sample_queues = [(''public.t'', Some \<lparr>qn_Name = [], qn_URL = [], qn_GroupID = [], qc_Insert = None, qc_Update = None,
     qc_Delete = Some \<lparr>qn_Name = ''deleted.fifo'', qn_URL = [], qn_GroupID = []\<rparr>\<rparr>)]"

theorem every_change_has_queue_witness:
  "\<exists>m qc. NewSQSQueueMapper sample_queues = Inr m \<and> GetQueueConfig m \<lparr>we_Tuple = NoTuple, we_PrevTuple = NoTuple, we_PK = ''7'', we_Kind = Delete,
      we_Table = \<lparr>tn_Schema = ''public'', tn_Name = ''t'', tn_FullName = ''public.t''\<rparr>, we_Offset = 0\<rparr> = Some qc \<and>
     tq_queueName qc = ''deleted.fifo'' \<and> \<not> needsOpInJSON qc"
proof -
  have "\<not> EqualFold ''deleted.fifo'' ''skip''" by code_simp
  then show ?thesis
    using every_change_has_queue [of sample_queues "\<lparr>we_Tuple = NoTuple, we_PrevTuple = NoTuple, we_PK = ''7'', we_Kind = Delete,
        we_Table = \<lparr>tn_Schema = ''public'', tn_Name = ''t'', tn_FullName = ''public.t''\<rparr>, we_Offset = 0\<rparr>"]
    by (fastforce simp: sample_queues_def Let_def)
qed

end
