(* ===== verification/Replicator.thy ===== *)
theory Replicator
  imports Bufferedlistener "HOL-Library.Signed_Division"
begin

text \<open>
  \<open>replicator/pg_replicator.go\<close>: the loop that reads the replication stream, hands the logical messages
  to the listener, reports the confirmed position to Postgres and saves it. The connection is the
  environment: what was received, whether a send succeeded, and the clock are inputs of a round. The
  parsers of the pglogrepl package are parameters. Times and durations are nanoseconds; the zero time
  is \<open>None\<close>. Statistics are left out.
\<close>

section \<open>Options\<close>

record Options =
  SlotName :: string
  PubName :: string
  StandByTimeout :: int
  WatchXID :: u32
  ReceiveMsgTimeout :: int
  StatsInterval :: int
  MaxWriteQueueSize :: u64
  standbyThreshold :: int

text \<open>A product of type \<open>int64\<close> wraps around; the division of Go truncates.\<close>

definition wrap64 :: "int \<Rightarrow> int" where
  "wrap64 x = sint (word_of_int x :: 64 word)"

definition NewOptions :: "string \<Rightarrow> string \<Rightarrow> int \<Rightarrow> int \<Rightarrow> int \<Rightarrow> u64 \<Rightarrow> Options" where
  "NewOptions slotName pubName standByTimeout receiveTimeout statsInterval maxWriteQueueSize =
     (let actualStandbyTimeout = (if 0 < standByTimeout then standByTimeout else 10 * 1000000000);
          actualReceiveTimeout = (if 0 < receiveTimeout then receiveTimeout else 8 * 1000000000);
          threshold = wrap64 (actualStandbyTimeout * 15) sdiv 100;
          actualReceiveTimeout = (if actualStandbyTimeout \<le> actualReceiveTimeout
                                  then wrap64 (actualStandbyTimeout * (100 - 15)) sdiv 100 else actualReceiveTimeout)
      in \<lparr>SlotName = slotName, PubName = pubName, StandByTimeout = actualStandbyTimeout, WatchXID = 0,
          ReceiveMsgTimeout = actualReceiveTimeout, StatsInterval = statsInterval,
          MaxWriteQueueSize = maxWriteQueueSize, standbyThreshold = threshold\<rparr>)"

section \<open>State\<close>

record repl_state =
  inStream :: bool
  txActive :: bool
  pos :: CommitPoint
  nextStandBy :: "int option"

definition canThrottlePgMessage :: "repl_state \<Rightarrow> bool" where
  "canThrottlePgMessage s \<longleftrightarrow> \<not> inStream s \<and> \<not> txActive s"

record PGReplicator =
  rp_Options :: Options
  rp_state :: repl_state
  lastSentLSN :: LSN
  isStopping :: bool
  replicaLSN :: LSN

definition MustCreate :: "Options \<Rightarrow> PGReplicator" where
  "MustCreate opts =
     \<lparr>rp_Options = opts,
      rp_state = \<lparr>inStream = False, txActive = False, pos = \<lparr>cp_LSN = 0, cp_XID = 0\<rparr>, nextStandBy = None\<rparr>,
      lastSentLSN = 0, isStopping = False, replicaLSN = 0\<rparr>"

text \<open>\<open>watchAndRestart\<close>: the position one below the start, since a report adds one.\<close>

definition set_start :: "LSN \<Rightarrow> PGReplicator \<Rightarrow> PGReplicator" where
  "set_start lsn r = r\<lparr>rp_state := (rp_state r)\<lparr>pos := \<lparr>cp_LSN = (if 0 < lsn then lsn - 1 else 0), cp_XID = 0\<rparr>\<rparr>\<rparr>"

section \<open>Logical messages\<close>

datatype logicalMsg =
    RelationMessageV2 RelationMessage
  | BeginMessage u32
  | CommitMessage LSN int
  | InsertMessageV2 u32 u32 "TupleCol list option"
  | UpdateMessageV2 u32 u32 "TupleCol list option" "TupleCol list option"
  | DeleteMessageV2 u32 u32 "TupleCol list option"
  | TruncateMessageV2
  | TypeMessageV2
  | OriginMessage
  | LogicalDecodingMessageV2 bool string string LSN
  | StreamStartMessageV2
  | StreamStopMessageV2
  | StreamCommitMessageV2 u32 LSN int
  | StreamAbortMessageV2 u32
  | UnknownMessage

record 'x repl_host =
  parseV2 :: "string \<Rightarrow> bool \<Rightarrow> logicalMsg go_result"
  parseXLogData :: "string \<Rightarrow> string go_result"
  parseKeepalive :: "string \<Rightarrow> bool go_result"
  rh_decoder :: "'x decoder"
  rh_fmt :: "'x goval option \<Rightarrow> string"
  rh_txOpts :: TxCommitTimeOptions

text \<open>
  The method of the listener a message is handed to. \<open>pubTables\<close> is what reading the publication
  gives when the listener asks for it.
\<close>

definition dispatch :: "'x repl_host \<Rightarrow> PubTableRes go_result \<Rightarrow> logicalMsg \<Rightarrow> 'x listener \<Rightarrow> 'x listener go_result" where
  "dispatch h pubTables msg l =
     (case msg of
        RelationMessageV2 rel \<Rightarrow> OnRelation pubTables (rh_txOpts h) rel l
      | BeginMessage xid \<Rightarrow> Inr (OnTxBegin xid l)
      | CommitMessage endLSN t \<Rightarrow> OnTxCommit endLSN t l
      | InsertMessageV2 rel xid new \<Rightarrow> OnInsert (rh_decoder h) (rh_fmt h) rel xid new l
      | UpdateMessageV2 rel xid new old \<Rightarrow> OnUpdate (rh_decoder h) (rh_fmt h) rel xid new old l
      | DeleteMessageV2 rel xid old \<Rightarrow> OnDelete (rh_decoder h) (rh_fmt h) rel xid old l
      | TruncateMessageV2 \<Rightarrow> Inr (OnTruncate l)
      | TypeMessageV2 \<Rightarrow> Inr l
      | OriginMessage \<Rightarrow> Inr l
      | LogicalDecodingMessageV2 transactional msgPrefix content lsn \<Rightarrow> Inr (OnLogicalDecodingMessage transactional msgPrefix content lsn l)
      | StreamStartMessageV2 \<Rightarrow> Inr (OnStreamStart l)
      | StreamStopMessageV2 \<Rightarrow> Inr (OnStreamStop l)
      | StreamCommitMessageV2 xid lsn t \<Rightarrow> OnStreamCommit xid lsn t l
      | StreamAbortMessageV2 xid \<Rightarrow> Inr (OnStreamAbort xid l)
      | UnknownMessage \<Rightarrow> Inl (Error ''unknown message type in PG output stream''))"

text \<open>What a message does to the state of the replicator before the listener sees it.\<close>

definition note_message :: "logicalMsg \<Rightarrow> repl_state \<Rightarrow> repl_state" where
  "note_message msg s =
     (case msg of
        BeginMessage _ \<Rightarrow> s\<lparr>txActive := True\<rparr>
      | CommitMessage _ _ \<Rightarrow> s\<lparr>txActive := False\<rparr>
      | StreamStartMessageV2 \<Rightarrow> s\<lparr>txActive := True, inStream := True\<rparr>
      | StreamStopMessageV2 \<Rightarrow> s\<lparr>inStream := False\<rparr>
      | StreamCommitMessageV2 _ _ _ \<Rightarrow> s\<lparr>txActive := False\<rparr>
      | _ \<Rightarrow> s)"

type_synonym 'x repl = "PGReplicator \<times> 'x listener"

definition processV2 :: "'x repl_host \<Rightarrow> PubTableRes go_result \<Rightarrow> string \<Rightarrow> 'x repl \<Rightarrow> unit go_result \<times> 'x repl" where
  "processV2 h pubTables walData rl =
     (let (r, l) = rl in
      case parseV2 h walData (inStream (rp_state r)) of
        Inl e \<Rightarrow> (Inl (wrap_err ''failed to process WAL data: '' e), r, l)
      | Inr msg \<Rightarrow>
         (let r' = r\<lparr>rp_state := note_message msg (rp_state r)\<rparr> in
          case dispatch h pubTables msg l of
            Inl e \<Rightarrow> (Inl e, r', l)
          | Inr l' \<Rightarrow> (Inr (), r', l')))"

definition processXLogData :: "'x repl_host \<Rightarrow> PubTableRes go_result \<Rightarrow> string \<Rightarrow> 'x repl \<Rightarrow> unit go_result \<times> 'x repl" where
  "processXLogData h pubTables d rl =
     (case parseXLogData h d of
        Inl e \<Rightarrow> (Inl (wrap_err ''failed to parse xlogdata: '' e), rl)
      | Inr walData \<Rightarrow> processV2 h pubTables walData rl)"

definition processPrimaryKeepAlive :: "'x repl_host \<Rightarrow> string \<Rightarrow> 'x repl \<Rightarrow> unit go_result \<times> 'x repl" where
  "processPrimaryKeepAlive h d rl =
     (case parseKeepalive h d of
        Inl e \<Rightarrow> (Inl (wrap_err ''failed to parse primary keep alive message: '' e), rl)
      | Inr replyRequested \<Rightarrow>
          (Inr (), if replyRequested then apfst (\<lambda>r. r\<lparr>rp_state := (rp_state r)\<lparr>nextStandBy := None\<rparr>\<rparr>) rl else rl))"

definition processMsg :: "'x repl_host \<Rightarrow> PubTableRes go_result \<Rightarrow> string \<Rightarrow> 'x repl \<Rightarrow> unit go_result \<times> 'x repl" where
  "processMsg h pubTables msg rl =
     (case msg of
        [] \<Rightarrow> (Inl index_panic, rl)
      | b # d \<Rightarrow>
          if b = CHR ''k'' then processPrimaryKeepAlive h d rl
          else if b = CHR ''w'' then processXLogData h pubTables d rl
          else (Inl (Error ''command byte not supported''), rl))"

section \<open>Receiving\<close>

datatype received = Deadline | ReceiveError string | ErrorResponse string | CopyData string | OtherMessage

definition receiveAndProcessMsg ::
  "'x repl_host \<Rightarrow> PubTableRes go_result \<Rightarrow> received \<Rightarrow> 'x repl \<Rightarrow> unit go_result \<times> 'x repl" where
  "receiveAndProcessMsg h pubTables recv rl =
     (case recv of
        Deadline \<Rightarrow> (Inr (), rl)
      | ReceiveError e \<Rightarrow> (Inl (Error (''failed to receive message: '' @ e)), rl)
      | ErrorResponse m \<Rightarrow> (Inl (Error (''received PG wal error: '' @ m)), rl)
      | OtherMessage \<Rightarrow> (Inl (Error ''received unexpected message''), rl)
      | CopyData msg \<Rightarrow>
         (case processMsg h pubTables msg rl of
            (Inl e, rl') \<Rightarrow> (Inl (wrap_err ''failed to process message: '' e), rl')
          | r \<Rightarrow> r))"

section \<open>Reporting\<close>

definition standby_due :: "int \<Rightarrow> PGReplicator \<Rightarrow> bool" where
  "standby_due now r \<longleftrightarrow>
     (case nextStandBy (rp_state r) of
        None \<Rightarrow> True
      | Some t \<Rightarrow> t < now \<or> t - now \<le> standbyThreshold (rp_Options r)) \<or>
     lastSentLSN r < cp_LSN (pos (rp_state r)) \<or> isStopping r"

text \<open>\<open>sendStandBy\<close>: the position sent, if any. \<open>later\<close> is the clock after the send.\<close>

definition sendStandBy :: "int \<Rightarrow> int \<Rightarrow> string option \<Rightarrow> PGReplicator \<Rightarrow> (LSN option \<times> PGReplicator) go_result" where
  "sendStandBy now later sendErr r =
     (if standby_due now r then
        (case sendErr of
           Some e \<Rightarrow> Inl (Error e)
         | None \<Rightarrow>
            (let lsnPos = cp_LSN (pos (rp_state r)) + 1 in
             Inr (Some lsnPos, r\<lparr>rp_state := (rp_state r)\<lparr>nextStandBy := Some (later + StandByTimeout (rp_Options r))\<rparr>,
                                 lastSentLSN := cp_LSN (pos (rp_state r)), replicaLSN := lsnPos\<rparr>)))
      else Inr (None, r))"

text \<open>The listener's confirmed position replaces a smaller one.\<close>

definition take_commit_pos :: "'x repl \<Rightarrow> 'x repl" where
  "take_commit_pos rl =
     (let (r, l) = rl; (p, l') = CommitPos l in
      (if cp_LSN (pos (rp_state r)) < cp_LSN p then r\<lparr>rp_state := (rp_state r)\<lparr>pos := p\<rparr>\<rparr> else r, l'))"

section \<open>The read loop\<close>

text \<open>
  The inputs of a round: the clock, the outcome of a send, an error that the listener put on its
  shutdown channel before the round looks at it, and what is received if the round receives.
\<close>

record round_input =
  ri_now :: int
  ri_later :: int
  ri_sendErr :: "string option"
  ri_shutdown :: "string list"
  ri_recv :: received
  ri_pubTables :: "PubTableRes go_result"

record 'x round_result =
  rr_errs :: "string list"
  rr_stop :: bool
  rr_sent :: "LSN option"
  rr_state :: "'x repl"

definition may_receive :: "'x repl \<Rightarrow> bool" where
  "may_receive rl \<longleftrightarrow>
     MaxWriteQueueSize (rp_Options (fst rl)) = 0 \<or> rl_WriteQueueSize (snd rl) < MaxWriteQueueSize (rp_Options (fst rl)) \<or>
     \<not> canThrottlePgMessage (rp_state (fst rl))"

text \<open>
  One round; \<open>errs\<close> are the errors joined so far. A panic or the fatal exit of the listener ends the
  process. When the queue is full the code would wait only if there already is an error, which
  the check above it excludes: the round does nothing.
\<close>

definition read_round :: "'x repl_host \<Rightarrow> round_input \<Rightarrow> string list \<Rightarrow> 'x repl \<Rightarrow> 'x round_result go_result" where
  "read_round h i errs rl =
     (case sendStandBy (ri_now i) (ri_later i) (ri_sendErr i) (fst rl) of
        Inl (Error e) \<Rightarrow> Inr \<lparr>rr_errs = errs @ ri_shutdown i @ [e], rr_stop = True, rr_sent = None, rr_state = rl\<rparr>
      | Inl e \<Rightarrow> Inl e
      | Inr (sent, r) \<Rightarrow>
         (let errs = errs @ ri_shutdown i in
          if errs \<noteq> [] then Inr \<lparr>rr_errs = errs, rr_stop = True, rr_sent = sent, rr_state = (r, snd rl)\<rparr>
          else bind_result
            (if may_receive (r, snd rl) then
               (case receiveAndProcessMsg h (ri_pubTables i) (ri_recv i) (r, snd rl) of
                  (Inr _, rl') \<Rightarrow> Inr (errs, rl')
                | (Inl (Error e), rl') \<Rightarrow> Inr (errs @ [e], rl')
                | (Inl e, rl') \<Rightarrow> Inl e)
             else Inr (errs, r, snd rl))
            (\<lambda>(errs, rl').
              let rl'' = take_commit_pos rl'; w = WatchXID (rp_Options (fst rl'')) in
              if 0 < w \<and> w \<le> cp_XID (pos (rp_state (fst rl'')))
              then Inr \<lparr>rr_errs = errs @ [''reached WatchXID: '' @ format_uint (unat w)], rr_stop = True, rr_sent = sent, rr_state = rl''\<rparr>
              else Inr \<lparr>rr_errs = errs, rr_stop = False, rr_sent = sent, rr_state = rl''\<rparr>)))"

definition read_start :: "int \<Rightarrow> PGReplicator \<Rightarrow> PGReplicator" where
  "read_start now r = r\<lparr>rp_state := (rp_state r)\<lparr>nextStandBy := Some (now + StandByTimeout (rp_Options r))\<rparr>\<rparr>"

text \<open>\<open>read\<close>, over the inputs of its rounds: the errors it returns, the positions it sent, the state it leaves.\<close>

fun read_loop :: "'x repl_host \<Rightarrow> round_input list \<Rightarrow> string list \<Rightarrow> 'x repl \<Rightarrow> (string list \<times> LSN list \<times> 'x repl) go_result" where
  "read_loop h [] errs rl = Inr (errs, [], rl)"
| "read_loop h (i # is) errs rl =
     bind_result (read_round h i errs rl) (\<lambda>res.
       if rr_stop res then Inr (rr_errs res, opt_list (rr_sent res), rr_state res)
       else bind_result (read_loop h is (rr_errs res) (rr_state res)) (\<lambda>(errs', sent, rl').
         Inr (errs', opt_list (rr_sent res) @ sent, rl')))"

section \<open>Reconnecting\<close>

datatype read_error = ReadTimeout | NetClosed | NetOpError | ReadFailed string

definition contains_text :: "string \<Rightarrow> string \<Rightarrow> bool" where
  "contains_text sub s \<longleftrightarrow> list_ex (has_prefix sub) (suffixes s)"

definition isErrRecoverable :: "read_error \<Rightarrow> bool" where
  "isErrRecoverable e =
     (case e of ReadFailed m \<Rightarrow> contains_text ''unexpected EOF'' m | _ \<Rightarrow> True)"

text \<open>
  The decision of \<open>startReplication\<close> after a read that failed: end with the error, or another
  connection, which starts at the position of the state. Nothing else of the state is touched.
\<close>

definition after_read :: "read_error \<Rightarrow> PGReplicator \<Rightarrow> read_error + (LSN \<times> PGReplicator)" where
  "after_read e r =
     (if 0 < WatchXID (rp_Options r) then Inl e
      else if \<not> isErrRecoverable e then Inl e
      else Inr (cp_LSN (pos (rp_state r)), r))"

section \<open>Saving the position\<close>

record saved =
  sv_states :: "LSN list"
  sv_slots :: "LSN list"

text \<open>
  \<open>advanceSlotsAndSaveState\<close>: the state is saved and, when slots are synchronised, the slots of the
  replicas advanced. \<open>slotOk\<close> is whether that call succeeded; a failed save is logged only.
\<close>

definition advanceSlotsAndSaveState :: "bool \<Rightarrow> bool \<Rightarrow> LSN \<Rightarrow> saved \<Rightarrow> LSN \<times> saved" where
  "advanceSlotsAndSaveState syncSlots slotOk pointLSN sv =
     (if pointLSN = 0 then (0, sv)
      else let sv = sv\<lparr>sv_states := sv_states sv @ [pointLSN]\<rparr> in
        if syncSlots then if slotOk then (pointLSN, sv\<lparr>sv_slots := sv_slots sv @ [pointLSN]\<rparr>) else (0, sv)
        else (pointLSN, sv))"

text \<open>A tick of \<open>advanceReplSlotsLoop\<close>.\<close>

definition slots_tick :: "bool \<Rightarrow> bool \<Rightarrow> PGReplicator \<Rightarrow> LSN \<times> saved \<Rightarrow> LSN \<times> saved" where
  "slots_tick syncSlots slotOk r st =
     (let (lastSent, sv) = st; pointLSN = replicaLSN r in
      if lastSent < pointLSN
      then (let (ls, sv') = advanceSlotsAndSaveState syncSlots slotOk pointLSN sv in (if 0 < ls then ls else lastSent, sv'))
      else (lastSent, sv))"

definition syncs_slots :: "nat \<Rightarrow> PGVersion list \<Rightarrow> bool" where
  "syncs_slots replicasCount versions \<longleftrightarrow> replicasCount \<noteq> 0 \<and> \<not> (list_ex (\<lambda>v. v < 16) versions \<and> 0 < replicasCount)"

definition repl_GracefulShutdown :: "bool \<Rightarrow> bool \<Rightarrow> 'x repl \<Rightarrow> saved \<Rightarrow> 'x repl \<times> saved" where
  "repl_GracefulShutdown syncSlots slotOk rl sv =
     (let (r, l) = rl; l' = GracefulShutdown l; (p, l'') = CommitPos l' in
      ((r\<lparr>isStopping := True\<rparr>, l''), snd (advanceSlotsAndSaveState syncSlots slotOk (cp_LSN p) sv)))"

end
