(* ===== verification/Lsnsafety.thy ===== *)
theory Lsnsafety
  imports Lsntracker "HOL-Library.Multiset"
begin

text \<open>
  Correctness of the LSN tracker. The invariant \<open>tk_inv\<close> speaks about the list of tracked
  addresses rather than the linked queue, so that it can be carried through \<open>PopUntil\<close>
  entry by entry; \<open>tracker_inv\<close> ties it to the queue. The system of tracker, writer
  responses, retry timers and shutdown is a step relation whose steps are the sections the code
  runs under the tracker's mutex, and the safety theorems are invariants of its reachable states.
\<close>

section \<open>Views of the state\<close>

definition tq :: "'t tracker \<Rightarrow> nat list" where
  "tq t = wq_list (trackingQueue t)"

definition rq :: "'t tracker \<Rightarrow> 't readyWriteEntry list" where
  "rq t = wq_list (readyQueue t)"

definition pend :: "'t tracker \<Rightarrow> nat \<Rightarrow> u32 set" where
  "pend t a = pending (tw_at t a)"

lemma tw_at_put [simp]: "tw_at (put_tw a tw t) b = (if b = a then tw else tw_at t b)"
  by (simp add: tw_at_def put_tw_def)

lemma put_tw_frame [simp]:
  "trackingQueue (put_tw a tw t) = trackingQueue t" "readyQueue (put_tw a tw t) = readyQueue t"
  "nextAddr (put_tw a tw t) = nextAddr t" "maxAcknowledged (put_tw a tw t) = maxAcknowledged t"
  "writeQueueLen (put_tw a tw t) = writeQueueLen t" "releasedTimes (put_tw a tw t) = releasedTimes t"
  "stopCtx (put_tw a tw t) = stopCtx t" "wheel (put_tw a tw t) = wheel t" "retryConfig (put_tw a tw t) = retryConfig t"
  "retryQueueLen (put_tw a tw t) = retryQueueLen t" "retryInterval (put_tw a tw t) = retryInterval t"
  by (simp_all add: put_tw_def)

lemma tw_at_fields [simp]:
  "tw_at (t\<lparr>trackingQueue := q\<rparr>) a = tw_at t a" "tw_at (t\<lparr>readyQueue := r\<rparr>) a = tw_at t a"
  "tw_at (t\<lparr>maxAcknowledged := c\<rparr>) a = tw_at t a" "tw_at (t\<lparr>writeQueueLen := n\<rparr>) a = tw_at t a"
  "tw_at (t\<lparr>releasedTimes := f\<rparr>) a = tw_at t a" "tw_at (t\<lparr>nextAddr := m\<rparr>) a = tw_at t a"
  "tw_at (t\<lparr>retryQueueLen := n\<rparr>) a = tw_at t a" "tw_at (t\<lparr>wheel := w\<rparr>) a = tw_at t a"
  "tw_at (t\<lparr>retrySeq := s\<rparr>) a = tw_at t a" "tw_at (t\<lparr>stopCtx := b\<rparr>) a = tw_at t a"
  "tw_at (t\<lparr>shutdownCh := e\<rparr>) a = tw_at t a"
  by (simp_all add: tw_at_def)

lemma lsn_at_fields [simp]:
  "lsn_at (t\<lparr>trackingQueue := q\<rparr>) = lsn_at t" "lsn_at (t\<lparr>readyQueue := r\<rparr>) = lsn_at t"
  "lsn_at (t\<lparr>maxAcknowledged := c\<rparr>) = lsn_at t" "lsn_at (t\<lparr>writeQueueLen := n\<rparr>) = lsn_at t"
  "lsn_at (t\<lparr>nextAddr := m\<rparr>) = lsn_at t" "lsn_at (t\<lparr>retryQueueLen := n\<rparr>) = lsn_at t"
  "lsn_at (t\<lparr>wheel := w\<rparr>) = lsn_at t" "lsn_at (t\<lparr>retrySeq := s\<rparr>) = lsn_at t"
  "lsn_at (t\<lparr>stopCtx := b\<rparr>) = lsn_at t" "lsn_at (t\<lparr>shutdownCh := e\<rparr>) = lsn_at t"
  by (simp_all add: lsn_at_def fun_eq_iff)

lemma tw_release_keeps [simp]:
  "point (snd (snd (tw_release tw))) = point tw" "released (snd (snd (tw_release tw)))"
  by (auto simp: tw_release_def)

lemma release_at_simps [simp]:
  "tw_at (release_at a t) b = (if b = a then snd (snd (tw_release (tw_at t a))) else tw_at t b)"
  "trackingQueue (release_at a t) = trackingQueue t" "readyQueue (release_at a t) = readyQueue t"
  "nextAddr (release_at a t) = nextAddr t" "maxAcknowledged (release_at a t) = maxAcknowledged t"
  "stopCtx (release_at a t) = stopCtx t" "wheel (release_at a t) = wheel t" "retryConfig (release_at a t) = retryConfig t"
  "retryQueueLen (release_at a t) = retryQueueLen t"
  "writeQueueLen (release_at a t) = writeQueueLen t - int (fst (tw_release (tw_at t a)))"
  "releasedTimes (release_at a t) =
     (if fst (snd (tw_release (tw_at t a))) then (releasedTimes t)(a := Suc (releasedTimes t a)) else releasedTimes t)"
  by (simp_all add: release_at_def Let_def case_prod_unfold)

section \<open>The invariant\<close>

text \<open>
  \<open>tw_ok\<close>: a released write has nothing left to deliver, and only a released one has lost its
  write. \<open>tk_inv L t\<close>: the addresses of \<open>L\<close> carry strictly increasing LSNs none of which is
  acknowledged yet; the ready entries of a write that is not released are exactly its queued
  writes, in order; the queue gauge is the number of queued writes; a write's entries are
  released once when it is, and never before.
\<close>

definition tw_ok :: "'t trackedWriteRequest \<Rightarrow> bool" where
  "tw_ok tw \<longleftrightarrow> (if released tw then pending tw = {} \<and> queued tw = [] else tw_write tw \<noteq> None)"

definition tk_inv :: "nat list \<Rightarrow> 't tracker \<Rightarrow> bool" where
  "tk_inv L t \<longleftrightarrow> set L \<subseteq> {..<nextAddr t} \<and> sorted_wrt (<) (map (lsn_at t) L) \<and>
     (\<forall>a \<in> set L. \<not> isAcknowledged t (lsn_at t a)) \<and>
     (\<forall>a < nextAddr t. tw_ok (tw_at t a)) \<and>
     (\<forall>e \<in> set (rq t). rd_tracked e < nextAddr t) \<and>
     (\<forall>a < nextAddr t. \<not> released (tw_at t a) \<longrightarrow>
        map rd_write (filter (\<lambda>e. rd_tracked e = a) (rq t)) = queued (tw_at t a)) \<and>
     writeQueueLen t = (\<Sum>a < nextAddr t. int (length (queued (tw_at t a)))) \<and>
     (\<forall>a. releasedTimes t a = (if a < nextAddr t \<and> released (tw_at t a) then 1 else 0)) \<and>
     (\<forall>(k, e, d) \<in> set (wheel t). rt_tracked e < nextAddr t) \<and>
     retryQueueLen t = int (length (wheel t)) \<and> wq_inv (readyQueue t)"

definition tracker_inv :: "'t tracker \<Rightarrow> bool" where
  "tracker_inv t \<longleftrightarrow> wq_inv (trackingQueue t) \<and> tk_inv (tq t) t"

lemma sum_one_point:
  fixes f g :: "nat \<Rightarrow> int"
  assumes "a < n" "\<And>b. b \<noteq> a \<Longrightarrow> f b = g b"
  shows "(\<Sum>b<n. f b) = (\<Sum>b<n. g b) + (f a - g a)"
proof -
  have "(\<Sum>b<n. f b) = f a + (\<Sum>b \<in> {..<n} - {a}. f b)" "(\<Sum>b<n. g b) = g a + (\<Sum>b \<in> {..<n} - {a}. g b)"
    using assms(1) by (auto intro: sum.remove)
  moreover have "(\<Sum>b \<in> {..<n} - {a}. f b) = (\<Sum>b \<in> {..<n} - {a}. g b)"
    using assms(2) by (intro sum.cong) auto
  ultimately show ?thesis by simp
qed

lemma tk_inv_New [simp]: "tk_inv [] (NewLSNTracker cfg)"
  by (simp add: tk_inv_def NewLSNTracker_def rq_def)

text \<open>Changing one tracked write without touching its queue and its release flag.\<close>

lemma tk_inv_put:
  assumes inv: "tk_inv L t" and a: "a < nextAddr t"
    and keep: "point tw = point (tw_at t a)" "queued tw = queued (tw_at t a)" "released tw = released (tw_at t a)" and ok: "tw_ok tw"
  shows "tk_inv L (put_tw a tw t)"
proof -
  have q: "queued (tw_at (put_tw a tw t) b) = queued (tw_at t b)" "released (tw_at (put_tw a tw t) b) = released (tw_at t b)"
    "lsn_at (put_tw a tw t) b = lsn_at t b" for b
    using keep by (auto simp: lsn_at_def)
  have r: "rq (put_tw a tw t) = rq t" "isAcknowledged (put_tw a tw t) l = isAcknowledged t l" for l
    by (simp_all add: rq_def isAcknowledged_def)
  have "tw_ok (tw_at (put_tw a tw t) b)" if "b < nextAddr t" for b using inv ok that by (auto simp: tk_inv_def)
  then show ?thesis using inv unfolding tk_inv_def q r put_tw_frame by (simp cong: map_cong)
qed

lemma tk_inv_release:
  assumes inv: "tk_inv L t" and a: "a < nextAddr t"
  shows "tk_inv L (release_at a t)"
proof (cases "released (tw_at t a)")
  case True
  then have "release_at a t = t\<lparr>store := (store t)(a \<mapsto> tw_at t a)\<rparr>"
    by (simp add: release_at_def tw_release_def put_tw_def)
  then have "release_at a t = put_tw a (tw_at t a) t" by (simp add: put_tw_def)
  then show ?thesis using tk_inv_put [OF inv a, of "tw_at t a"] inv a by (simp add: tk_inv_def)
next
  case False
  let ?tw = "(tw_at t a)\<lparr>queued := [], pending := {}, failures := [], tw_write := None, released := True\<rparr>"
  have ok: "tw_write (tw_at t a) \<noteq> None" using inv a False by (auto simp: tk_inv_def tw_ok_def)
  have rel: "tw_release (tw_at t a) = (length (queued (tw_at t a)), True, ?tw)"
    using False ok by (simp add: tw_release_def)
  have l: "lsn_at (release_at a t) b = lsn_at t b" "isAcknowledged (release_at a t) m = isAcknowledged t m" "rq (release_at a t) = rq t" for b m
    by (simp_all add: lsn_at_def isAcknowledged_def rq_def)
  have "(\<Sum>b<nextAddr t. int (length (queued (tw_at (release_at a t) b)))) =
      (\<Sum>b<nextAddr t. int (length (queued (tw_at t b)))) - int (length (queued (tw_at t a)))"
    using sum_one_point [OF a, of "\<lambda>b. int (length (queued (tw_at (release_at a t) b)))" "\<lambda>b. int (length (queued (tw_at t b)))"]
    by (simp add: rel)
  then have gauge: "writeQueueLen (release_at a t) = (\<Sum>b<nextAddr t. int (length (queued (tw_at (release_at a t) b))))"
    using inv by (simp add: tk_inv_def rel)
  have times: "releasedTimes (release_at a t) b = (if b < nextAddr t \<and> released (tw_at (release_at a t) b) then 1 else 0)" for b
    using inv False a by (auto simp: tk_inv_def rel)
  have rest: "tw_ok (tw_at (release_at a t) b)" if "b < nextAddr t" for b
    using inv that by (auto simp: tk_inv_def tw_ok_def rel)
  have rdy: "map rd_write (filter (\<lambda>e. rd_tracked e = b) (rq t)) = queued (tw_at (release_at a t) b)"
    if "b < nextAddr t" "\<not> released (tw_at (release_at a t) b)" for b
    using inv that by (auto simp: tk_inv_def rel split: if_splits)
  show ?thesis
    using inv gauge times rest rdy unfolding tk_inv_def l release_at_simps(2-9) by (simp cong: map_cong)
qed


section \<open>Acknowledging\<close>

lemma findTrackedWrite_Some:
  "findTrackedWrite t l = Some a \<Longrightarrow> a \<in> set (tq t) \<and> lsn_at t a = l"
  by (auto simp: findTrackedWrite_def wq_Find_def tq_def find_Some_iff split: if_splits)

lemma findTrackedWrite_None:
  "\<not> stopped (trackingQueue t) \<Longrightarrow> findTrackedWrite t l = None \<longleftrightarrow> l \<notin> lsn_at t ` set (tq t)"
  by (auto simp: findTrackedWrite_def wq_Find_def tq_def find_None_iff)

lemma tk_inv_addr: "tk_inv L t \<Longrightarrow> a \<in> set L \<Longrightarrow> a < nextAddr t"
  by (auto simp: tk_inv_def)

lemma tk_inv_unique: "tk_inv L t \<Longrightarrow> a \<in> set L \<Longrightarrow> b \<in> set L \<Longrightarrow> lsn_at t a = lsn_at t b \<Longrightarrow> a = b"
  by (auto simp: tk_inv_def strict_sorted_iff distinct_map inj_on_def)

lemma tk_inv_distinct: "tk_inv L t \<Longrightarrow> distinct L"
  by (auto simp: tk_inv_def strict_sorted_iff distinct_map)

text \<open>\<open>entry.ack(offsets)\<close> followed by \<open>release\<close> on a full acknowledgement.\<close>

definition ack_at :: "nat \<Rightarrow> u32 list \<Rightarrow> 't tracker \<Rightarrow> 't tracker" where
  "ack_at a offs t =
     (let (fullAck, tw) = tw_ack (tw_at t a) offs; t1 = put_tw a tw t in if fullAck then release_at a t1 else t1)"

lemma ack_ack_at: "ack cp offs t = (case findTrackedWrite t (cp_LSN cp) of None \<Rightarrow> t | Some a \<Rightarrow> ack_at a offs t)"
  by (simp add: ack_def ack_at_def split: option.split)

lemma ack_at_frame [simp]:
  "trackingQueue (ack_at a offs t) = trackingQueue t" "readyQueue (ack_at a offs t) = readyQueue t"
  "nextAddr (ack_at a offs t) = nextAddr t" "maxAcknowledged (ack_at a offs t) = maxAcknowledged t"
  "stopCtx (ack_at a offs t) = stopCtx t" "wheel (ack_at a offs t) = wheel t"
  "point (tw_at (ack_at a offs t) b) = point (tw_at t b)"
  by (simp_all add: ack_at_def Let_def case_prod_unfold tw_ack_def)

lemma pend_ack_at: "pend (ack_at a offs t) b = (if b = a then pend t a - set offs else pend t b)"
  by (auto simp: pend_def ack_at_def tw_ack_def tw_release_def Let_def)

lemma tk_inv_ack_at:
  assumes "tk_inv L t" "a < nextAddr t"
  shows "tk_inv L (ack_at a offs t)"
proof -
  let ?tw = "(tw_at t a)\<lparr>pending := pending (tw_at t a) - set offs\<rparr>"
  have "tw_ok (tw_at t a)" using assms by (simp add: tk_inv_def)
  then have ok: "tw_ok ?tw" by (auto simp: tw_ok_def)
  have "tk_inv L (put_tw a ?tw t)" using tk_inv_put [OF assms, of ?tw] ok by simp
  then show ?thesis using tk_inv_release [of L "put_tw a ?tw t" a] assms(2) by (simp add: ack_at_def tw_ack_def Let_def)
qed

lemma ack_frame [simp]:
  "trackingQueue (ack cp offs t) = trackingQueue t" "readyQueue (ack cp offs t) = readyQueue t"
  "nextAddr (ack cp offs t) = nextAddr t" "maxAcknowledged (ack cp offs t) = maxAcknowledged t"
  "stopCtx (ack cp offs t) = stopCtx t" "wheel (ack cp offs t) = wheel t" "point (tw_at (ack cp offs t) b) = point (tw_at t b)"
  by (simp_all add: ack_ack_at split: option.splits)

lemma lsn_at_ack [simp]: "lsn_at (ack cp offs t) a = lsn_at t a" "tq (ack cp offs t) = tq t"
  by (simp_all add: lsn_at_def tq_def)

lemma tracker_inv_ack: "tracker_inv t \<Longrightarrow> tracker_inv (ack cp offs t)"
  using findTrackedWrite_Some [of t "cp_LSN cp"]
  by (auto simp: tracker_inv_def tk_inv_addr tk_inv_ack_at ack_ack_at tq_def split: option.splits)

text \<open>On the tracked writes an acknowledgement removes the offsets from the write with that LSN.\<close>

lemma pend_ack:
  assumes "tracker_inv t" "\<not> stopped (trackingQueue t)" "a \<in> set (tq t)"
  shows "pend (ack cp offs t) a = (if lsn_at t a = cp_LSN cp then pend t a - set offs else pend t a)"
proof (cases "findTrackedWrite t (cp_LSN cp)")
  case None
  then have "lsn_at t a \<noteq> cp_LSN cp" using assms(2,3) findTrackedWrite_None [of t "cp_LSN cp"] by force
  then show ?thesis using None by (simp add: ack_ack_at)
next
  case (Some b)
  note b = findTrackedWrite_Some [OF Some]
  then have "lsn_at t a = cp_LSN cp \<longleftrightarrow> a = b" using assms tk_inv_unique [of "tq t" t a b] by (auto simp: tracker_inv_def)
  then show ?thesis by (simp add: ack_ack_at Some pend_ack_at)
qed

lemma ack_stopped: "stopped (trackingQueue t) \<Longrightarrow> ack cp offs t = t"
  by (simp add: ack_def findTrackedWrite_def wq_Find_def)

section \<open>Advancing the confirmed LSN\<close>

lemma isAcknowledged_0 [simp]: "cp_LSN (maxAcknowledged t) = 0 \<Longrightarrow> \<not> isAcknowledged t l"
  by (simp add: isAcknowledged_def)

lemma tk_inv_advance_one:
  assumes inv: "tk_inv (a # L) t"
  shows "tk_inv L ((release_at a t)\<lparr>maxAcknowledged := point (tw_at t a)\<rparr>)"
proof -
  let ?t = "(release_at a t)\<lparr>maxAcknowledged := point (tw_at t a)\<rparr>"
  have "tk_inv (a # L) (release_at a t)" using tk_inv_release [OF inv] tk_inv_addr [OF inv] by simp
  moreover have "rq ?t = rq (release_at a t)" by (simp add: rq_def)
  moreover have "\<not> isAcknowledged ?t (lsn_at (release_at a t) b)" if "b \<in> set L" for b
    using inv that by (auto simp: tk_inv_def isAcknowledged_def lsn_at_def)
  ultimately show ?thesis unfolding tk_inv_def by simp
qed

definition last_point :: "CommitPoint \<Rightarrow> 't tracker \<Rightarrow> nat list \<Rightarrow> CommitPoint" where
  "last_point c t as = (if as = [] then c else point (tw_at t (last as)))"

lemma scan_advance:
  assumes "tk_inv L t"
  shows "\<exists>t'. scan advance_callback t L = (t', dropWhile (\<lambda>a. pend t a = {}) L) \<and>
    tk_inv (dropWhile (\<lambda>a. pend t a = {}) L) t' \<and> trackingQueue t' = trackingQueue t \<and>
    maxAcknowledged t' = last_point (maxAcknowledged t) t (takeWhile (\<lambda>a. pend t a = {}) L) \<and>
    (\<forall>b. pend t' b = pend t b \<and> point (tw_at t' b) = point (tw_at t b)) \<and>
    stopCtx t' = stopCtx t \<and> wheel t' = wheel t \<and> nextAddr t' = nextAddr t \<and> readyQueue t' = readyQueue t"
  using assms
proof (induction L arbitrary: t)
  case Nil
  then show ?case by (simp add: last_point_def)
next
  case (Cons a L)
  show ?case
  proof (cases "pend t a = {}")
    case False
    then show ?thesis using Cons.prems by (simp add: advance_callback_def tw_isAcknowledged_def pend_def last_point_def)
  next
    case True
    let ?t = "(release_at a t)\<lparr>maxAcknowledged := point (tw_at t a)\<rparr>"
    have inv: "tk_inv L ?t" by (rule tk_inv_advance_one [OF Cons.prems])
    have same: "pend ?t b = pend t b" "point (tw_at ?t b) = point (tw_at t b)" for b
      using True by (auto simp: pend_def tw_release_def)
    have "advance_callback t a = (True, ?t)" using True by (simp add: advance_callback_def tw_isAcknowledged_def pend_def)
    then show ?thesis using Cons.IH [OF inv] True by (auto simp: same last_point_def)
  qed
qed

text \<open>
  The whole effect of \<open>advanceMaxAcknowledged\<close>: it takes the longest prefix of acknowledged
  writes off the queue, and confirms the last of them.
\<close>

lemma advance_spec:
  assumes "tracker_inv t" "\<not> stopped (trackingQueue t)"
  shows "tracker_inv (advanceMaxAcknowledged t)"
    and "tq (advanceMaxAcknowledged t) = dropWhile (\<lambda>a. pend t a = {}) (tq t)"
    and "maxAcknowledged (advanceMaxAcknowledged t) = last_point (maxAcknowledged t) t (takeWhile (\<lambda>a. pend t a = {}) (tq t))"
    and "pend (advanceMaxAcknowledged t) b = pend t b" "point (tw_at (advanceMaxAcknowledged t) b) = point (tw_at t b)"
    and "stopped (trackingQueue (advanceMaxAcknowledged t)) = stopped (trackingQueue t)"
    and "stopCtx (advanceMaxAcknowledged t) = stopCtx t" "wheel (advanceMaxAcknowledged t) = wheel t"
    and "nextAddr (advanceMaxAcknowledged t) = nextAddr t" "readyQueue (advanceMaxAcknowledged t) = readyQueue t"
proof -
  let ?ys = "dropWhile (\<lambda>a. pend t a = {}) (tq t)"
  obtain t' where t': "scan advance_callback t (tq t) = (t', ?ys)" "tk_inv ?ys t'" "trackingQueue t' = trackingQueue t"
    "maxAcknowledged t' = last_point (maxAcknowledged t) t (takeWhile (\<lambda>a. pend t a = {}) (tq t))"
    "\<And>b. pend t' b = pend t b" "\<And>b. point (tw_at t' b) = point (tw_at t b)" "stopCtx t' = stopCtx t" "wheel t' = wheel t"
    "nextAddr t' = nextAddr t" "readyQueue t' = readyQueue t"
    using scan_advance assms(1) unfolding tracker_inv_def by blast
  obtain q where q: "PopUntil (\<lambda>t a. tw_size (tw_at t a)) (Some advance_callback) t (trackingQueue t) = (t', q)"
    "wq_inv q" "wq_list q = ?ys" "\<not> stopped q"
    using PopUntil_list [of "trackingQueue t" advance_callback t t' ?ys] assms t'(1) by (auto simp: tracker_inv_def tq_def)
  have adv: "advanceMaxAcknowledged t = t'\<lparr>trackingQueue := q\<rparr>" by (simp add: advanceMaxAcknowledged_def q)
  have "isAcknowledged (t'\<lparr>trackingQueue := q\<rparr>) l = isAcknowledged t' l"
    "rq (t'\<lparr>trackingQueue := q\<rparr>) = rq t'" for l
    by (simp_all add: isAcknowledged_def rq_def)
  then show "tracker_inv (advanceMaxAcknowledged t)" using t'(2) q(2,3)
    by (simp add: adv tracker_inv_def tk_inv_def tq_def)
  show "tq (advanceMaxAcknowledged t) = ?ys" by (simp add: adv tq_def q)
  show "pend (advanceMaxAcknowledged t) b = pend t b" using t'(5) by (simp add: adv pend_def)
  show "maxAcknowledged (advanceMaxAcknowledged t) = last_point (maxAcknowledged t) t (takeWhile (\<lambda>a. pend t a = {}) (tq t))"
    "point (tw_at (advanceMaxAcknowledged t) b) = point (tw_at t b)"
    "stopped (trackingQueue (advanceMaxAcknowledged t)) = stopped (trackingQueue t)"
    "stopCtx (advanceMaxAcknowledged t) = stopCtx t" "wheel (advanceMaxAcknowledged t) = wheel t"
    "nextAddr (advanceMaxAcknowledged t) = nextAddr t" "readyQueue (advanceMaxAcknowledged t) = readyQueue t"
    using assms(2) t' q by (simp_all add: adv)
qed

lemma advance_stopped: "stopped (trackingQueue t) \<Longrightarrow> advanceMaxAcknowledged t = t"
  by (simp add: advanceMaxAcknowledged_def PopUntil_stopped)


section \<open>Queueing and delivering\<close>

lemma enqueue_cases:
  obtains "enqueueReadyWrite a w t = (wq_Count (readyQueue t), t)" "released (tw_at t a) \<or> \<not> hasPendingEntries (tw_at t a) (Some w)"
  | q c where "Push (\<lambda>e. wr_Size (rd_write e)) \<lparr>rd_tracked = a, rd_write = w\<rparr> (readyQueue t) = (c, q)"
      "enqueueReadyWrite a w t =
        (c, (put_tw a ((tw_at t a)\<lparr>queued := queued (tw_at t a) @ [w]\<rparr>) t)\<lparr>writeQueueLen := writeQueueLen t + 1, readyQueue := q\<rparr>)"
      "\<not> released (tw_at t a)"
proof -
  obtain c q where "Push (\<lambda>e. wr_Size (rd_write e)) \<lparr>rd_tracked = a, rd_write = w\<rparr> (readyQueue t) = (c, q)" by fastforce
  then show thesis using that
    by (cases "released (tw_at t a) \<or> \<not> hasPendingEntries (tw_at t a) (Some w)")
      (auto simp: enqueueReadyWrite_def queueWrite_def)
qed

lemma enqueue_frame [simp]:
  "trackingQueue (snd (enqueueReadyWrite a w t)) = trackingQueue t" "nextAddr (snd (enqueueReadyWrite a w t)) = nextAddr t"
  "maxAcknowledged (snd (enqueueReadyWrite a w t)) = maxAcknowledged t" "stopCtx (snd (enqueueReadyWrite a w t)) = stopCtx t"
  "wheel (snd (enqueueReadyWrite a w t)) = wheel t"
  "point (tw_at (snd (enqueueReadyWrite a w t)) b) = point (tw_at t b)" "pend (snd (enqueueReadyWrite a w t)) b = pend t b"
  by (rule enqueue_cases [of a w t]; simp add: pend_def)+

lemma tk_inv_enqueue:
  assumes inv: "tk_inv L t" and a: "a < nextAddr t"
  shows "tk_inv L (snd (enqueueReadyWrite a w t))"
proof (rule enqueue_cases [of a w t])
  fix q c
  assume push: "Push (\<lambda>e. wr_Size (rd_write e)) \<lparr>rd_tracked = a, rd_write = w\<rparr> (readyQueue t) = (c, q)"
    and enq: "enqueueReadyWrite a w t =
        (c, (put_tw a ((tw_at t a)\<lparr>queued := queued (tw_at t a) @ [w]\<rparr>) t)\<lparr>writeQueueLen := writeQueueLen t + 1, readyQueue := q\<rparr>)"
    and live: "\<not> released (tw_at t a)"
  let ?t = "snd (enqueueReadyWrite a w t)"
  have "wq_inv (readyQueue t)" using inv by (simp add: tk_inv_def)
  then have q: "wq_inv q" "wq_list q = rq t @ [\<lparr>rd_tracked = a, rd_write = w\<rparr>]"
    using Push_list [of "readyQueue t" "\<lambda>e. wr_Size (rd_write e)" "\<lparr>rd_tracked = a, rd_write = w\<rparr>"] push by (simp_all add: inserted_def rq_def)
  have r: "rq ?t = rq t @ [\<lparr>rd_tracked = a, rd_write = w\<rparr>]" using enq q by (simp add: rq_def)
  have v: "lsn_at ?t = lsn_at t" "isAcknowledged ?t l = isAcknowledged t l" for l
    by (simp_all add: lsn_at_def isAcknowledged_def fun_eq_iff)
  have tw: "tw_at ?t b = (if b = a then (tw_at t a)\<lparr>queued := queued (tw_at t a) @ [w]\<rparr> else tw_at t b)" for b
    by (simp add: enq)
  have "(\<Sum>b<nextAddr t. int (length (queued (tw_at ?t b)))) = (\<Sum>b<nextAddr t. int (length (queued (tw_at t b)))) + 1"
    using sum_one_point [OF a, of "\<lambda>b. int (length (queued (tw_at ?t b)))" "\<lambda>b. int (length (queued (tw_at t b)))"] by (simp add: tw)
  then have gauge: "writeQueueLen ?t = (\<Sum>b<nextAddr ?t. int (length (queued (tw_at ?t b))))"
    using inv by (simp add: tk_inv_def) (simp add: enq)
  have ready: "map rd_write (filter (\<lambda>e. rd_tracked e = b) (rq ?t)) = queued (tw_at ?t b)"
    if "b < nextAddr t" "\<not> released (tw_at ?t b)" for b
    using inv that by (auto simp: tk_inv_def r tw split: if_splits)
  have ok: "tw_ok (tw_at ?t b)" if "b < nextAddr t" for b
    using inv live that by (auto simp: tk_inv_def tw tw_ok_def)
  have times: "releasedTimes ?t b = (if b < nextAddr t \<and> released (tw_at ?t b) then 1 else 0)" for b
    using inv by (simp add: tk_inv_def tw) (simp add: enq)
  have "wq_inv (readyQueue ?t)" "retryQueueLen ?t = retryQueueLen t" using q enq by simp_all
  moreover have "\<forall>e \<in> set (rq ?t). rd_tracked e < nextAddr t" using inv a by (auto simp: tk_inv_def r)
  ultimately show ?thesis using inv gauge ready ok times unfolding tk_inv_def v enqueue_frame by simp
qed (use inv in simp)

text \<open>A new write: allocated, not released, nothing queued, linked at its place by LSN.\<close>

definition track_new :: "'t trackedWriteRequest \<Rightarrow> 't tracker \<Rightarrow> 't tracker" where
  "track_new tw t = snd (pushTrackedWrite (nextAddr t) (snd (alloc_tw tw t)))"

lemma alloc_frame [simp]:
  "trackingQueue (snd (alloc_tw tw t)) = trackingQueue t" "readyQueue (snd (alloc_tw tw t)) = readyQueue t"
  "nextAddr (snd (alloc_tw tw t)) = Suc (nextAddr t)" "maxAcknowledged (snd (alloc_tw tw t)) = maxAcknowledged t"
  "stopCtx (snd (alloc_tw tw t)) = stopCtx t" "wheel (snd (alloc_tw tw t)) = wheel t" "fst (alloc_tw tw t) = nextAddr t"
  "tw_at (snd (alloc_tw tw t)) b = (if b = nextAddr t then tw else tw_at t b)"
  "writeQueueLen (snd (alloc_tw tw t)) = writeQueueLen t" "releasedTimes (snd (alloc_tw tw t)) = releasedTimes t"
  "retryQueueLen (snd (alloc_tw tw t)) = retryQueueLen t"
  by (simp_all add: alloc_tw_def)

lemma tk_inv_alloc:
  assumes inv: "tk_inv L t" and new: "\<not> released tw" "queued tw = []" "tw_write tw \<noteq> None"
  shows "tk_inv L (snd (alloc_tw tw t))"
proof -
  let ?t = "snd (alloc_tw tw t)"
  have L: "a < nextAddr t" if "a \<in> set L" for a using inv that by (rule tk_inv_addr)
  have v: "map (lsn_at ?t) L = map (lsn_at t) L" "isAcknowledged ?t l = isAcknowledged t l" "rq ?t = rq t" for l
    using L by (auto simp: lsn_at_def isAcknowledged_def rq_def)
  have m: "lsn_at ?t a = lsn_at t a" if "a \<in> set L" for a using L [OF that] by (simp add: lsn_at_def)
  have e: "filter (\<lambda>e. rd_tracked e = nextAddr t) (rq t) = []" using inv by (auto simp: tk_inv_def filter_empty_conv)
  have gauge: "(\<Sum>a<Suc (nextAddr t). int (length (queued (tw_at ?t a)))) = (\<Sum>a<nextAddr t. int (length (queued (tw_at t a))))"
    using new(2) by simp
  have rdy: "map rd_write (filter (\<lambda>e. rd_tracked e = a) (rq t)) = queued (tw_at ?t a)"
    if "a < Suc (nextAddr t)" "\<not> released (tw_at ?t a)" for a
    using inv new that e by (cases "a = nextAddr t") (auto simp: tk_inv_def)
  have ok: "tw_ok (tw_at ?t a)" if "a < Suc (nextAddr t)" for a
    using inv new that by (cases "a = nextAddr t") (auto simp: tk_inv_def, simp add: tw_ok_def)
  have times: "releasedTimes ?t a = (if a < Suc (nextAddr t) \<and> released (tw_at ?t a) then 1 else 0)" for a
    using inv new(1) by (auto simp: tk_inv_def)
  show ?thesis
    using inv gauge rdy ok times m unfolding tk_inv_def v alloc_frame(1-7,9-11) by (auto simp: less_Suc_eq)
qed

lemma pushTrackedWrite_spec:
  assumes "wq_inv (trackingQueue t)" "tk_inv (tq t) t" "a < nextAddr t" "lsn_at t a \<notin> lsn_at t ` set (tq t)"
    and "\<not> isAcknowledged t (lsn_at t a)"
  shows "tracker_inv (snd (pushTrackedWrite a t)) \<and> set (tq (snd (pushTrackedWrite a t))) = insert a (set (tq t)) \<and>
    (\<exists>q. snd (pushTrackedWrite a t) = t\<lparr>trackingQueue := q\<rparr> \<and> stopped q = stopped (trackingQueue t))"
proof -
  let ?q = "snd (PushBefore (\<lambda>b. tw_size (tw_at t b)) a (Some (\<lambda>b. lsn_at t a < lsn_at t b)) (trackingQueue t))"
  have p: "snd (pushTrackedWrite a t) = t\<lparr>trackingQueue := ?q\<rparr>" by (simp add: pushTrackedWrite_def case_prod_unfold Let_def)
  have "sorted (map (lsn_at t) (tq t))" using assms(2) by (auto simp: tk_inv_def strict_sorted_iff)
  then obtain xs ys where xs: "tq t = xs @ ys" "\<forall>y \<in> set xs. lsn_at t y \<le> lsn_at t a" "\<forall>y \<in> set ys. lsn_at t a < lsn_at t y"
    and q: "wq_list ?q = xs @ a # ys" "wq_inv ?q" "stopped ?q = stopped (trackingQueue t)"
    using wq.push_before_sorted [of "trackingQueue t" "lsn_at t" a "\<lambda>b. tw_size (tw_at t b)"] assms(1) unfolding tq_def by blast
  have "\<forall>y \<in> set xs. lsn_at t y < lsn_at t a" using xs(1,2) assms(4) by (metis Un_iff image_eqI less_le set_append)
  then have "sorted_wrt (<) (map (lsn_at t) (xs @ a # ys))"
    using assms(2) xs by (auto simp: tk_inv_def sorted_wrt_append)
  moreover have "isAcknowledged (t\<lparr>trackingQueue := ?q\<rparr>) l = isAcknowledged t l" "rq (t\<lparr>trackingQueue := ?q\<rparr>) = rq t" for l
    by (simp_all add: isAcknowledged_def rq_def)
  ultimately have "tk_inv (xs @ a # ys) (t\<lparr>trackingQueue := ?q\<rparr>)"
    using assms(2,3,5) xs(1) by (auto simp: tk_inv_def)
  then show ?thesis using p q xs(1) by (auto simp: tracker_inv_def tq_def)
qed


text \<open>Taking the first ready entry: a live write hands out that very entry, a released one nothing.\<close>

definition skippable :: "'t tracker \<Rightarrow> 't readyWriteEntry \<Rightarrow> bool" where
  "skippable t e \<longleftrightarrow> released (tw_at t (rd_tracked e))"

lemma tk_inv_ready:
  "tk_inv L t \<Longrightarrow> a < nextAddr t \<Longrightarrow> \<not> released (tw_at t a) \<Longrightarrow>
    map rd_write (filter (\<lambda>e. rd_tracked e = a) (rq t)) = queued (tw_at t a)"
  by (simp add: tk_inv_def)

lemma tk_inv_tw_ok: "tk_inv L t \<Longrightarrow> a < nextAddr t \<Longrightarrow> tw_ok (tw_at t a)"
  by (simp add: tk_inv_def)

lemma ready_head:
  assumes inv: "tk_inv L t" and rq: "rq t = e # es" and "\<not> skippable t e"
  shows "queued (tw_at t (rd_tracked e)) = rd_write e # map rd_write (filter (\<lambda>x. rd_tracked x = rd_tracked e) es)"
proof -
  have "rd_tracked e < nextAddr t" using inv rq by (simp add: tk_inv_def)
  then have "map rd_write (filter (\<lambda>x. rd_tracked x = rd_tracked e) (rq t)) = queued (tw_at t (rd_tracked e))"
    using tk_inv_ready [OF inv] assms(3) by (simp add: skippable_def)
  then show ?thesis by (simp add: rq)
qed

lemma pop_first:
  assumes inv: "tk_inv L t" and rq: "rq t = e # es"
  shows "popQueuedWrite (tw_at t (rd_tracked e)) =
    (if skippable t e then (None, tw_at t (rd_tracked e))
     else (Some (rd_write e), (tw_at t (rd_tracked e))\<lparr>queued := map rd_write (filter (\<lambda>x. rd_tracked x = rd_tracked e) es)\<rparr>))"
proof -
  have "tw_ok (tw_at t (rd_tracked e))" using inv rq by (simp add: tk_inv_def)
  then show ?thesis using ready_head [OF inv rq]
    by (auto simp: popQueuedWrite_def skippable_def tw_ok_def split: list.splits)
qed

lemma popQueuedWrite_keeps [simp]:
  "point (snd (popQueuedWrite tw)) = point tw" "pending (snd (popQueuedWrite tw)) = pending tw"
  "released (snd (popQueuedWrite tw)) = released tw" "tw_write (snd (popQueuedWrite tw)) = tw_write tw"
  by (auto simp: popQueuedWrite_def split: list.splits)

lemma tk_inv_pop:
  assumes inv: "tk_inv L t" and rq: "rq t = e # es" and q: "wq_inv q" "wq_list q = es"
  shows "tk_inv L ((put_tw (rd_tracked e) (snd (popQueuedWrite (tw_at t (rd_tracked e)))) (t\<lparr>readyQueue := q\<rparr>))
     \<lparr>writeQueueLen := writeQueueLen t - (if skippable t e then 0 else 1)\<rparr>)" (is "tk_inv L ?t")
proof -
  let ?a = "rd_tracked e"
  have a: "?a < nextAddr t" using inv rq by (simp add: tk_inv_def)
  note pf = pop_first [OF inv rq]
  have tw: "tw_at ?t b = (if b = ?a \<and> \<not> skippable t e
      then (tw_at t ?a)\<lparr>queued := map rd_write (filter (\<lambda>x. rd_tracked x = ?a) es)\<rparr> else tw_at t b)" for b
    by (simp add: pf)
  note old = ready_head [OF inv rq]
  have v: "lsn_at ?t = lsn_at t" "isAcknowledged ?t l = isAcknowledged t l" "rq ?t = es" "nextAddr ?t = nextAddr t" "wheel ?t = wheel t"
    "releasedTimes ?t = releasedTimes t" "retryQueueLen ?t = retryQueueLen t" "readyQueue ?t = q" for l
    using q by (simp_all add: lsn_at_def isAcknowledged_def rq_def fun_eq_iff pf)
  have "(\<Sum>b<nextAddr t. int (length (queued (tw_at ?t b)))) =
      (\<Sum>b<nextAddr t. int (length (queued (tw_at t b)))) - (if skippable t e then 0 else 1)"
    using sum_one_point [OF a, of "\<lambda>b. int (length (queued (tw_at ?t b)))" "\<lambda>b. int (length (queued (tw_at t b)))"] old
    by (simp add: pf)
  then have gauge: "writeQueueLen ?t = (\<Sum>b<nextAddr t. int (length (queued (tw_at ?t b))))" using inv by (simp add: tk_inv_def)
  have ready: "map rd_write (filter (\<lambda>x. rd_tracked x = b) es) = queued (tw_at ?t b)"
    if "b < nextAddr t" "\<not> released (tw_at ?t b)" for b
  proof (cases "b = ?a")
    case True
    then show ?thesis using that(2) unfolding tw by (simp add: skippable_def split: if_splits)
  next
    case False
    then show ?thesis using tk_inv_ready [OF inv, of b] that unfolding tw by (simp add: rq)
  qed
  have rel: "released (tw_at ?t b) = released (tw_at t b)" for b by (simp add: tw)
  have ok: "tw_ok (tw_at ?t b)" if "b < nextAddr t" for b
    using tk_inv_tw_ok [OF inv that] unfolding tw by (auto simp: tw_ok_def skippable_def)
  show ?thesis using inv gauge ready ok q rq unfolding tk_inv_def v rel by simp
qed

text \<open>The rounds of \<open>readyWriteQueue.Pop\<close>: enough fuel always gives an answer.\<close>

definition first_ready :: "'t tracker \<Rightarrow> 't WriteRequest waited" where
  "first_ready t = (case dropWhile (skippable t) (rq t) of [] \<Rightarrow> Blocked | e # _ \<Rightarrow> Got (rd_write e))"

lemma ready_pop_spec:
  assumes "tk_inv L t" "length (rq t) < fuel" "\<not> stopped (readyQueue t)"
  shows "\<exists>t'. ready_pop fuel t = (first_ready t, t') \<and>
    tk_inv L (t'\<lparr>writeQueueLen := writeQueueLen t' - (if first_ready t = Blocked then 0 else 1)\<rparr>) \<and>
    rq t' = tl (dropWhile (skippable t) (rq t)) \<and> trackingQueue t' = trackingQueue t \<and> maxAcknowledged t' = maxAcknowledged t \<and>
    (\<forall>b. pend t' b = pend t b \<and> point (tw_at t' b) = point (tw_at t b)) \<and> stopCtx t' = stopCtx t \<and> wheel t' = wheel t \<and> nextAddr t' = nextAddr t \<and>
    \<not> stopped (readyQueue t')"
  using assms
proof (induction fuel arbitrary: t)
  case (Suc fuel)
  have w: "wq_inv (readyQueue t)" using Suc.prems(1) by (simp add: tk_inv_def)
  show ?case
  proof (cases "rq t")
    case Nil
    then show ?thesis using Pop_empty [OF w] Suc.prems by (simp add: rq_def first_ready_def)
  next
    case (Cons e es)
    obtain q where q: "Pop (\<lambda>e. wr_Size (rd_write e)) (readyQueue t) = (Got e, q)" "wq_inv q" "wq_list q = es" "\<not> stopped q"
      using Pop_cons [OF w, of e es "\<lambda>e. wr_Size (rd_write e)"] Cons Suc.prems(3) by (auto simp: rq_def)
    let ?t = "put_tw (rd_tracked e) (snd (popQueuedWrite (tw_at t (rd_tracked e)))) (t\<lparr>readyQueue := q\<rparr>)"
    note inv = tk_inv_pop [OF Suc.prems(1) Cons q(2,3)]
    have keep: "pend ?t b = pend t b" "point (tw_at ?t b) = point (tw_at t b)" "skippable ?t = skippable t" "rq ?t = es" for b
      using q by (auto simp: pend_def skippable_def fun_eq_iff rq_def)
    show ?thesis
    proof (cases "skippable t e")
      case True
      have inv': "tk_inv L ?t" using inv True by (simp add: put_tw_def)
      have fuel: "length (rq ?t) < fuel" "\<not> stopped (readyQueue ?t)" using Suc.prems(2) Cons keep(4) q(4) by auto
      have "ready_pop (Suc fuel) t = ready_pop fuel ?t" using q pop_first [OF Suc.prems(1) Cons] True by simp
      moreover have "first_ready ?t = first_ready t" unfolding first_ready_def keep(3,4) by (simp add: Cons True)
      ultimately show ?thesis using Suc.IH [OF inv' fuel] Cons True keep by auto
    next
      case False
      then have "ready_pop (Suc fuel) t = (Got (rd_write e), ?t)" using q pop_first [OF Suc.prems(1) Cons] by simp
      then show ?thesis using inv False Cons keep q(4) by (auto simp: first_ready_def)
    qed
  qed
qed simp


section \<open>Order of acknowledgements\<close>

lemma findTrackedWrite_ack_at [simp]: "findTrackedWrite (ack_at a offs t) l = findTrackedWrite t l"
  by (simp add: findTrackedWrite_def wq_Find_def lsn_at_def)

lemma lsn_at_ack_at [simp]: "lsn_at (ack_at a offs t) b = lsn_at t b"
  by (simp add: lsn_at_def)

definition settle :: "u32 list \<Rightarrow> 't trackedWriteRequest \<Rightarrow> 't trackedWriteRequest" where
  "settle offs tw = (let tw1 = snd (tw_ack tw offs) in if pending tw1 = {} then snd (snd (tw_release tw1)) else tw1)"

definition settle_frees :: "u32 list \<Rightarrow> 't trackedWriteRequest \<Rightarrow> bool" where
  "settle_frees offs tw \<longleftrightarrow> pending tw \<subseteq> set offs \<and> \<not> released tw"

definition gives_queued :: "u32 list \<Rightarrow> 't trackedWriteRequest \<Rightarrow> int" where
  "gives_queued offs tw = (if settle_frees offs tw then int (length (queued tw)) else 0)"

definition gives_entries :: "u32 list \<Rightarrow> 't trackedWriteRequest \<Rightarrow> nat" where
  "gives_entries offs tw = (if settle_frees offs tw \<and> tw_write tw \<noteq> None then 1 else 0)"

lemma ack_at_settle:
  "ack_at a offs t = t\<lparr>store := (store t)(a \<mapsto> settle offs (tw_at t a)),
     writeQueueLen := writeQueueLen t - gives_queued offs (tw_at t a),
     releasedTimes := (releasedTimes t)(a := releasedTimes t a + gives_entries offs (tw_at t a))\<rparr>"
  by (auto simp: ack_at_def settle_def settle_frees_def gives_queued_def gives_entries_def tw_ack_def release_at_def
      tw_release_def put_tw_def tw_at_def Let_def)

lemma settle_commute: "settle o1 (settle o2 tw) = settle o2 (settle o1 tw)"
proof -
  have "pending tw - set o1 - set o2 = pending tw - set o2 - set o1" by auto
  then show ?thesis by (auto simp: settle_def tw_ack_def tw_release_def Let_def)
qed

lemma settle_frees_settle:
  "settle_frees o1 (settle o2 tw) \<longleftrightarrow> pending tw \<subseteq> set o1 \<union> set o2 \<and> \<not> released tw \<and> \<not> pending tw \<subseteq> set o2"
  by (auto simp: settle_def settle_frees_def tw_ack_def tw_release_def Let_def)

lemma settle_keeps:
  "\<not> settle_frees o2 tw \<Longrightarrow> queued (settle o2 tw) = queued tw \<and> tw_write (settle o2 tw) = tw_write tw"
  by (auto simp: settle_def settle_frees_def tw_ack_def tw_release_def Let_def)

text \<open>What a full acknowledgement gives back is given back by exactly one of two in a row.\<close>

lemma gives_once:
  "gives_queued o2 tw + gives_queued o1 (settle o2 tw) = gives_queued o1 tw + gives_queued o2 (settle o1 tw)"
  "gives_entries o2 tw + gives_entries o1 (settle o2 tw) = gives_entries o1 tw + gives_entries o2 (settle o1 tw)"
proof -
  have u: "pending tw \<subseteq> set o2 \<union> set o1 \<longleftrightarrow> pending tw \<subseteq> set o1 \<union> set o2" by (simp add: Un_commute)
  have p: "pending tw \<subseteq> set o1 \<Longrightarrow> pending tw \<subseteq> set o1 \<union> set o2" "pending tw \<subseteq> set o2 \<Longrightarrow> pending tw \<subseteq> set o1 \<union> set o2" by auto
  note k = settle_keeps [of o1 tw, unfolded settle_frees_def] settle_keeps [of o2 tw, unfolded settle_frees_def]
  show "gives_queued o2 tw + gives_queued o1 (settle o2 tw) = gives_queued o1 tw + gives_queued o2 (settle o1 tw)"
    unfolding gives_queued_def settle_frees_settle u using k p
    by (cases "pending tw \<subseteq> set o1"; cases "pending tw \<subseteq> set o2"; simp add: settle_frees_def)
  show "gives_entries o2 tw + gives_entries o1 (settle o2 tw) = gives_entries o1 tw + gives_entries o2 (settle o1 tw)"
    unfolding gives_entries_def settle_frees_settle u using k p
    by (cases "pending tw \<subseteq> set o1"; cases "pending tw \<subseteq> set o2"; simp add: settle_frees_def)
qed

lemma ack_at_same: "ack_at a o1 (ack_at a o2 t) = ack_at a o2 (ack_at a o1 t)"
proof -
  let ?tw = "tw_at t a"
  have at: "tw_at (ack_at a x t) a = settle x ?tw" for x by (simp add: ack_at_settle tw_at_def)
  have two: "ack_at a y (ack_at a x t) = t\<lparr>store := (store t)(a \<mapsto> settle y (settle x ?tw)),
     writeQueueLen := writeQueueLen t - (gives_queued x ?tw + gives_queued y (settle x ?tw)),
     releasedTimes := (releasedTimes t)(a := releasedTimes t a + (gives_entries x ?tw + gives_entries y (settle x ?tw)))\<rparr>" for x y
    unfolding ack_at_settle [of a y "ack_at a x t"] at by (simp add: ack_at_settle diff_diff_eq add.assoc)
  show ?thesis unfolding two gives_once [of o2 ?tw o1] by (simp add: settle_commute [of o1 o2])
qed

lemma ack_at_other: "a \<noteq> b \<Longrightarrow> ack_at a o1 (ack_at b o2 t) = ack_at b o2 (ack_at a o1 t)"
  by (simp add: ack_at_settle tw_at_def fun_upd_twist)

lemma ack_commute: "ack c1 o1 (ack c2 o2 t) = ack c2 o2 (ack c1 o1 t)"
proof -
  have "ack c x (ack_at b y t) = (case findTrackedWrite t (cp_LSN c) of None \<Rightarrow> ack_at b y t | Some a \<Rightarrow> ack_at a x (ack_at b y t))" for c x b y
    by (simp add: ack_ack_at)
  then show ?thesis unfolding ack_ack_at [of c1 o1 t] ack_ack_at [of c2 o2 t]
    by (auto split: option.split simp: ack_ack_at) (metis ack_at_same ack_at_other)
qed

lemma ack_all_perm: "mset m = mset m' \<Longrightarrow> ack_all m t = ack_all m' t"
  unfolding ack_all_def
  by (rule arg_cong [where f = "\<lambda>f. f t"], rule fold_multiset_equiv) (auto simp: fun_eq_iff ack_commute)

end
