(* ===== verification/Lsnretry.thy ===== *)
theory Lsnretry
  imports Lsnsafety
begin

text \<open>
  What the tracker does with a failed write: which entries \<open>processErrorResponse\<close> gives up,
  which it retries, and that it forgets none.
\<close>

section \<open>Errors\<close>

definition ack_offs :: "ackMap \<Rightarrow> (LSN \<times> u32) set" where
  "ack_offs m = {(cp_LSN cp, off) | cp offs off. (cp, offs) \<in> set m \<and> off \<in> set offs}"

lemma ack_offs_simps [simp]:
  "ack_offs [] = {}" "ack_offs ((cp, offs) # m) = {cp_LSN cp} \<times> set offs \<union> ack_offs m"
  by (auto simp: ack_offs_def)

lemma ack_offs_update:
  "ack_offs (AList.update cp ((case map_of m cp of None \<Rightarrow> [] | Some offs \<Rightarrow> offs) @ [off]) m) = insert (cp_LSN cp, off) (ack_offs m)"
  by (induction m) auto

lemma ack_offs_add [simp]: "ack_offs (addToAckMap cp off m) = insert (cp_LSN cp, off) (ack_offs m)"
  by (simp add: addToAckMap_def ack_offs_update)

definition resp_offs :: "ResponseEntry list \<Rightarrow> (LSN \<times> u32) set" where
  "resp_offs es = (\<lambda>e. (re_LSN e, re_Offset e)) ` set es"

lemma ack_offs_fold:
  "ack_offs (fold (\<lambda>e m. addToAckMap (entry_cp e) (re_Offset e) m) es m) = resp_offs es \<union> ack_offs m"
  by (induction es arbitrary: m) (auto simp: resp_offs_def entry_cp_def)

text \<open>The parts of the state a section may leave alone, and the lookups that follow.\<close>

definition same_view :: "'t tracker \<Rightarrow> 't tracker \<Rightarrow> bool" where
  "same_view t t' \<longleftrightarrow> trackingQueue t' = trackingQueue t \<and> readyQueue t' = readyQueue t \<and> nextAddr t' = nextAddr t \<and>
     maxAcknowledged t' = maxAcknowledged t \<and> stopCtx t' = stopCtx t \<and> wheel t' = wheel t \<and> retryConfig t' = retryConfig t \<and>
     (\<forall>b. point (tw_at t' b) = point (tw_at t b) \<and> pending (tw_at t' b) = pending (tw_at t b) \<and>
          tw_write (tw_at t' b) = tw_write (tw_at t b) \<and> queued (tw_at t' b) = queued (tw_at t b))"

lemma same_view_refl [simp]: "same_view t t"
  by (simp add: same_view_def)

lemma same_view_trans: "same_view t t1 \<Longrightarrow> same_view t1 t2 \<Longrightarrow> same_view t t2"
  by (simp add: same_view_def)

lemma same_view_lsn: "same_view t t' \<Longrightarrow> lsn_at t' = lsn_at t \<and> tq t' = tq t \<and> pend t' = pend t \<and> rq t' = rq t"
  by (simp add: same_view_def lsn_at_def tq_def rq_def pend_def fun_eq_iff)

lemma same_view_find: "same_view t t' \<Longrightarrow> findTrackedWrite t' l = findTrackedWrite t l"
  using same_view_lsn [of t t'] by (simp add: findTrackedWrite_def same_view_def)

lemma getFailedEntry_keeps:
  assumes "getFailedEntry now tw off r = (fe, tw')"
  shows "point tw' = point tw" "pending tw' = pending tw" "tw_write tw' = tw_write tw" "queued tw' = queued tw" "released tw' = released tw"
  using assms by (auto simp: getFailedEntry_def Let_def)

lemma tw_ok_failed: "getFailedEntry now tw off r = (fe, tw') \<Longrightarrow> tw_ok tw \<Longrightarrow> tw_ok tw'"
  using getFailedEntry_keeps [of now tw off r fe tw'] by (simp add: tw_ok_def)

lemma process_one:
  assumes "tracker_inv t" "findTrackedWrite t l = Some a" "getFailedEntry now (tw_at t a) off r = (fe, tw)"
  shows "tracker_inv (put_tw a tw t)" "same_view t (put_tw a tw t)"
proof -
  note k = getFailedEntry_keeps [OF assms(3)]
  have a: "a < nextAddr t" using assms(1) findTrackedWrite_Some [OF assms(2)] tk_inv_addr by (auto simp: tracker_inv_def)
  then have ok: "tw_ok tw" using tw_ok_failed [OF assms(3)] tk_inv_tw_ok assms(1) by (auto simp: tracker_inv_def)
  have "tk_inv (tq t) (put_tw a tw t)" using tk_inv_put [of "tq t" t a tw] a k ok assms(1) by (simp add: tracker_inv_def)
  then show "tracker_inv (put_tw a tw t)" using assms(1) by (simp add: tracker_inv_def tq_def)
  show "same_view t (put_tw a tw t)" using k by (simp add: same_view_def)
qed

text \<open>A retry entry is well formed when it resends one pending entry of its tracked write.\<close>

definition retry_ok :: "'t tracker \<Rightarrow> 't retryEntry \<Rightarrow> bool" where
  "retry_ok t r \<longleftrightarrow> rt_tracked r < nextAddr t \<and> wr_LSN (rt_write r) = lsn_at t (rt_tracked r)"

text \<open>
  Why an entry may be given up: its error cannot be retried, or it has failed as often as the
  configuration allows.
\<close>

definition failed_times :: "'t tracker \<Rightarrow> LSN \<Rightarrow> u32 \<Rightarrow> nat" where
  "failed_times t l off =
     (case findTrackedWrite t l of None \<Rightarrow> 0
      | Some a \<Rightarrow> (case map_of (failures (tw_at t a)) off of None \<Rightarrow> 0 | Some fe \<Rightarrow> retries fe))"

lemma process_entries_inv:
  assumes "process_entries now backoff es m rs t = (r, t')" "tracker_inv t"
  shows "tracker_inv t' \<and> same_view t t'"
  using assms
proof (induction es arbitrary: m rs t)
  case (Cons e es)
  show ?case
  proof (cases "findTrackedWrite t (re_LSN (ee_Entry e))")
    case None
    then show ?thesis using Cons by (auto split: if_splits)
  next
    case (Some a)
    obtain fe tw where g: "getFailedEntry now (tw_at t a) (re_Offset (ee_Entry e)) (ee_Reason e) = (fe, tw)" by fastforce
    note one = process_one [OF Cons.prems(2) Some g]
    show ?thesis
      using Cons.prems(1) Cons.IH [OF _ Cons.prems(2)] Cons.IH [OF _ one(1)] one same_view_trans [OF one(2)] Some g
      by (auto simp: Let_def split: if_splits)
  qed
qed simp

lemma failed_times_put:
  assumes "findTrackedWrite t l = Some a" "getFailedEntry now (tw_at t a) off r = (fe, tw)" "tracker_inv t"
  shows "failed_times t l' off' \<le> failed_times (put_tw a tw t) l' off'" "failed_times (put_tw a tw t) l off = retries fe"
proof -
  have f: "findTrackedWrite (put_tw a tw t) x = findTrackedWrite t x" for x
    using same_view_find [OF process_one(2) [OF assms(3,1,2)]] by simp
  show "failed_times t l' off' \<le> failed_times (put_tw a tw t) l' off'"
    using assms(2) by (auto simp: failed_times_def f getFailedEntry_def Let_def map_of_map update_conv' split: option.splits if_splits)
  show "failed_times (put_tw a tw t) l off = retries fe"
    using assms(1,2) by (auto simp: failed_times_def f getFailedEntry_def Let_def update_conv')
qed

lemma process_entries_failed_mono:
  assumes "process_entries now backoff es m rs t = (r, t')" "tracker_inv t"
  shows "failed_times t l off \<le> failed_times t' l off"
  using assms
proof (induction es arbitrary: m rs t)
  case (Cons e es)
  show ?case
  proof (cases "findTrackedWrite t (re_LSN (ee_Entry e))")
    case None
    then show ?thesis using Cons by (auto split: if_splits)
  next
    case (Some a)
    obtain fe tw where g: "getFailedEntry now (tw_at t a) (re_Offset (ee_Entry e)) (ee_Reason e) = (fe, tw)" by fastforce
    note one = process_one [OF Cons.prems(2) Some g]
    show ?thesis
      using Cons.prems(1) Cons.IH [OF _ Cons.prems(2)] order_trans [OF failed_times_put(1) [OF Some g Cons.prems(2)] Cons.IH [OF _ one(1)]]
        failed_times_put(1) [OF Some g Cons.prems(2)] Some g
      by (auto simp: Let_def split: if_splits)
  qed
qed simp

text \<open>The policy for one failed entry of a write that is still tracked.\<close>

definition gives_up :: "'t tracker \<Rightarrow> ErrorResponseEntry \<Rightarrow> bool" where
  "gives_up t e \<longleftrightarrow> \<not> IsRetryable (ee_Reason e) \<or>
     MaxRetries (retryConfig t) \<le> int (failed_times t (re_LSN (ee_Entry e)) (re_Offset (ee_Entry e)))"

lemma process_entries_cons:
  assumes "process_entries now backoff (e # es) m rs t = (Inr (m', rs'), t')" "tracker_inv t"
  obtains (skip) "process_entries now backoff es m rs t = (Inr (m', rs'), t')"
      "\<And>a. findTrackedWrite t (re_LSN (ee_Entry e)) = Some a \<Longrightarrow> pend t a = {}"
  | (drop) a t1 where "findTrackedWrite t (re_LSN (ee_Entry e)) = Some a" "pend t a \<noteq> {}" "tracker_inv t1" "same_view t t1" "gives_up t1 e"
      "process_entries now backoff es (addToAckMap (entry_cp (ee_Entry e)) (re_Offset (ee_Entry e)) m) rs t1 = (Inr (m', rs'), t')"
  | (retry) a t1 b where "findTrackedWrite t (re_LSN (ee_Entry e)) = Some a" "pend t a \<noteq> {}" "tracker_inv t1" "same_view t t1"
      "process_entries now backoff es m (rs @ (if 0 < MaxBackoff (retryConfig t)
         then opt_list (buildRetryEntry now b t1 a e) else [])) t1 = (Inr (m', rs'), t')"
proof (cases "findTrackedWrite t (re_LSN (ee_Entry e))")
  case None
  then show thesis using skip assms(1) by (auto split: if_splits)
next
  case (Some a)
  obtain fe tw where g: "getFailedEntry now (tw_at t a) (re_Offset (ee_Entry e)) (ee_Reason e) = (fe, tw)" by fastforce
  note one = process_one [OF assms(2) Some g]
  have up: "gives_up (put_tw a tw t) e \<longleftrightarrow> MaxRetries (retryConfig t) \<le> int (retries fe) \<or> \<not> IsRetryable (ee_Reason e)"
    using failed_times_put(2) [OF Some g assms(2)] by (auto simp: gives_up_def)
  show thesis
  proof (cases "pend t a = {}")
    case True
    then show thesis using skip assms(1) Some by (simp add: tw_isAcknowledged_def pend_def)
  next
    case False
    then have acked: "\<not> tw_isAcknowledged (tw_at t a)" by (simp add: tw_isAcknowledged_def pend_def)
    show thesis
    proof (cases "gives_up (put_tw a tw t) e")
      case True
      then have "process_entries now backoff es (addToAckMap (entry_cp (ee_Entry e)) (re_Offset (ee_Entry e)) m) rs (put_tw a tw t) = (Inr (m', rs'), t')"
        using assms(1) Some g acked up by (simp add: Let_def split: if_splits)
      then show thesis using drop [OF Some False one True] by blast
    next
      case False
      then have "process_entries now backoff es m (rs @ (if 0 < MaxBackoff (retryConfig t)
         then opt_list (buildRetryEntry now (backoff (retries fe)) (put_tw a tw t) a e) else [])) (put_tw a tw t) = (Inr (m', rs'), t')"
        using assms(1) Some g acked up by (simp add: Let_def split: if_splits)
      then show thesis using retry [OF Some \<open>pend t a \<noteq> {}\<close> one] by blast
    qed
  qed
qed


text \<open>Nothing that was collected before is lost on the way.\<close>

lemma process_entries_grows:
  assumes "process_entries now backoff es m rs t = (Inr (m', rs'), t')" "tracker_inv t"
  shows "ack_offs m \<subseteq> ack_offs m' \<and> set rs \<subseteq> set rs'"
  using assms
proof (induction es arbitrary: m rs t)
  case (Cons e es)
  from Cons.prems show ?case
  proof (cases rule: process_entries_cons)
    case skip
    then show ?thesis using Cons.IH [OF skip(1) Cons.prems(2)] by simp
  next
    case (drop a t1)
    then show ?thesis using Cons.IH [OF drop(6,3)] by simp
  next
    case (retry a t1 b)
    show ?thesis using Cons.IH [OF retry(5,3)] by simp
  qed
qed simp

text \<open>What is acknowledged without delivery was given up for one of the two reasons.\<close>

lemma process_entries_policy:
  assumes "process_entries now backoff es m rs t = (Inr (m', rs'), t')" "tracker_inv t" "(l, off) \<in> ack_offs m'" "(l, off) \<notin> ack_offs m"
  shows "\<exists>e \<in> set es. re_LSN (ee_Entry e) = l \<and> re_Offset (ee_Entry e) = off \<and> gives_up t' e"
  using assms
proof (induction es arbitrary: m rs t)
  case (Cons e es)
  from Cons.prems(1,2) show ?case
  proof (cases rule: process_entries_cons)
    case (drop a t1)
    show ?thesis
    proof (cases "(l, off) = (re_LSN (ee_Entry e), re_Offset (ee_Entry e))")
      case True
      have "retryConfig t' = retryConfig t1" using process_entries_inv [OF drop(6,3)] by (simp add: same_view_def)
      then have "gives_up t' e" using drop(5) process_entries_failed_mono [OF drop(6,3), of "re_LSN (ee_Entry e)" "re_Offset (ee_Entry e)"]
        by (auto simp: gives_up_def)
      then show ?thesis using True by auto
    next
      case False
      then show ?thesis using Cons.IH [OF drop(6,3) Cons.prems(3)] Cons.prems(4) by (auto simp: entry_cp_def)
    qed
  qed (use Cons in auto)
qed simp

text \<open>Every retry resends one pending entry of a tracked write, and only with a backoff configured.\<close>

lemma buildRetryEntry_Some:
  assumes "buildRetryEntry now b t a e = Some r"
  shows "rt_tracked r = a" "\<exists>w. tw_write (tw_at t a) = Some w \<and> wr_LSN (rt_write r) = wr_LSN w \<and> wr_offsets (rt_write r) \<subseteq> wr_offsets w"
    "wr_offsets (rt_write r) = {re_Offset (ee_Entry e)}" "re_Offset (ee_Entry e) \<in> pend t a"
  using assms by (auto simp: buildRetryEntry_def retryWrite_def pend_def wr_offsets_def
      dest!: GetEntryByOffset_Some split: option.splits if_splits)

lemma process_entries_retries:
  assumes "process_entries now backoff es m rs t = (Inr (m', rs'), t')" "tracker_inv t" "x \<in> set rs'" "x \<notin> set rs"
  shows "rt_tracked x \<in> set (tq t) \<and> (\<exists>w. tw_write (tw_at t (rt_tracked x)) = Some w \<and> wr_LSN (rt_write x) = wr_LSN w) \<and>
    (\<exists>e \<in> set es. wr_offsets (rt_write x) = {re_Offset (ee_Entry e)} \<and> re_LSN (ee_Entry e) = lsn_at t (rt_tracked x))"
  using assms
proof (induction es arbitrary: m rs t)
  case (Cons e es)
  from Cons.prems(1,2) show ?case
  proof (cases rule: process_entries_cons)
    case (drop a t1)
    then show ?thesis using Cons.IH [OF drop(6,3) Cons.prems(3,4)] same_view_lsn [OF drop(4)] by (auto simp: same_view_def)
  next
    case (retry a t1 b)
    show ?thesis
    proof (cases "buildRetryEntry now b t1 a e = Some x")
      case True
      note r = buildRetryEntry_Some [OF True] findTrackedWrite_Some [OF retry(1)]
      then show ?thesis using same_view_lsn [OF retry(4)] retry(4) by (auto simp: same_view_def)
    next
      case False
      define rs1 where "rs1 = rs @ (if 0 < MaxBackoff (retryConfig t)
         then opt_list (buildRetryEntry now b t1 a e) else [])"
      have "set rs1 \<subseteq> set rs \<union> {y. buildRetryEntry now b t1 a e = Some y}" unfolding rs1_def by auto
      then have "x \<notin> set rs1" using False Cons.prems(4) by blast
      then show ?thesis using Cons.IH [OF retry(5,3) Cons.prems(3), folded rs1_def] same_view_lsn [OF retry(4)] retry(4)
        by (auto simp: same_view_def)
    qed
  qed (use Cons in auto)
qed simp

text \<open>
  With a backoff configured no failed entry is forgotten: as long as its offset is pending it is
  given up or retried.
\<close>

lemma process_entries_complete:
  assumes "process_entries now backoff es m rs t = (Inr (m', rs'), t')" "tracker_inv t" "0 < MaxBackoff (retryConfig t)"
    and "e \<in> set es" "findTrackedWrite t (re_LSN (ee_Entry e)) = Some a" "re_Offset (ee_Entry e) \<in> pend t a"
    and "tw_write (tw_at t a) = Some w" "re_Offset (ee_Entry e) \<in> wr_offsets w"
  shows "(re_LSN (ee_Entry e), re_Offset (ee_Entry e)) \<in> ack_offs m' \<or>
    (\<exists>x \<in> set rs'. rt_tracked x = a \<and> re_Offset (ee_Entry e) \<in> wr_offsets (rt_write x))"
  using assms
proof (induction es arbitrary: m rs t)
  case (Cons e' es)
  from Cons.prems(1,2) show ?case
  proof (cases rule: process_entries_cons)
    case skip
    then show ?thesis using Cons.IH [OF skip(1) Cons.prems(2,3)] Cons.prems(4-8) by auto
  next
    case (drop a' t1)
    note v = drop(4) same_view_lsn [OF drop(4)] same_view_find [OF drop(4)]
    show ?thesis
    proof (cases "e = e'")
      case True
      then show ?thesis using process_entries_grows [OF drop(6,3)] by (auto simp: entry_cp_def)
    next
      case False
      then show ?thesis using Cons.IH [OF drop(6,3)] Cons.prems(3-8) v by (auto simp: same_view_def)
    qed
  next
    case (retry a' t1 b)
    note v = retry(4) same_view_lsn [OF retry(4)] same_view_find [OF retry(4)]
    show ?thesis
    proof (cases "e = e'")
      case True
      then have a: "a' = a" using retry(1) Cons.prems(5) by simp
      have "GetEntryByOffset w (re_Offset (ee_Entry e)) \<noteq> None" using Cons.prems(8) by (simp add: GetEntryByOffset_None)
      moreover have "tw_write (tw_at t1 a) = Some w" "re_Offset (ee_Entry e) \<in> pending (tw_at t1 a)"
        using v Cons.prems(6,7) by (auto simp: same_view_def pend_def)
      ultimately obtain x where x: "buildRetryEntry now b t1 a e = Some x"
        by (auto simp: buildRetryEntry_def retryWrite_def)
      then show ?thesis using process_entries_grows [OF retry(5,3)] buildRetryEntry_Some [OF x] Cons.prems(3) True a by auto
    next
      case False
      then show ?thesis using Cons.IH [OF retry(5,3)] Cons.prems(3-8) v by (auto simp: same_view_def)
    qed
  qed
qed simp

end
