(* ===== verification/Lsnsystem.thy ===== *)
theory Lsnsystem
  imports Lsnretry
begin

text \<open>
  The tracker in its environment: writes are added, writers answer with successes and errors,
  retry timers fire, the write pipeline takes ready writes, the replicator asks for the confirmed
  LSN, and the tracker is stopped. A step is a section that the code runs under a mutex, of the tracker
  or of one tracked write; the three sections of \<open>OnError\<close> are separate steps, so that other work may
  come between them. Three steps put several such sections together: \<open>timer\<close> (the write is queued in the tracked
  write, the gauge is raised, the entry is pushed to the ready queue), \<open>deliver\<close> (the entry is popped, the write is
  taken from the tracked write, the gauge is lowered) and \<open>stop\<close>. What could come between them changes the gauge
  \<open>writeQueueLen\<close>, a statistic that nothing reads, for a moment, and which of several retries of one write an entry stands
  for; pending offsets and the tracking queue, on which confirming rests, are not touched by these sections.
\<close>

section \<open>The system\<close>

text \<open>
  Beside the tracker the state holds the work that \<open>OnError\<close> has still to do, and what has
  happened so far: the offsets that were tracked, that a writer has reported as written, that were
  acknowledged without being written, and those handed to a writer that has not answered yet.
\<close>

record 't sys =
  tr :: "'t tracker"
  ackJobs :: "ackMap list"
  retryJobs :: "'t retryEntry list"
  tracked :: "(LSN \<times> u32) set"
  delivered :: "(LSN \<times> u32) set"
  dropped :: "(LSN \<times> u32) set"
  inflight :: "(LSN \<times> u32) set"

definition sys_init :: "RetryConfig \<Rightarrow> 't sys" where
  "sys_init cfg = \<lparr>tr = NewLSNTracker cfg, ackJobs = [], retryJobs = [], tracked = {}, delivered = {}, dropped = {}, inflight = {}\<rparr>"

definition newly_tracked :: "'t WriteRequest \<Rightarrow> 't tracker \<Rightarrow> bool" where
  "newly_tracked w t \<longleftrightarrow> \<not> stopCtx t \<and> \<not> isAcknowledged t (wr_LSN w) \<and> findTrackedWrite t (wr_LSN w) = None"

definition write_offs :: "'t WriteRequest \<Rightarrow> (LSN \<times> u32) set" where
  "write_offs w = {wr_LSN w} \<times> wr_offsets w"

definition fire_timer :: "u64 \<times> 't retryEntry \<times> int \<Rightarrow> 't tracker \<Rightarrow> 't tracker" where
  "fire_timer x t = onRetryTimer (fst (snd x)) (t\<lparr>wheel := remove1 x (wheel t)\<rparr>)"

text \<open>
  The timing wheel accepts every timer with a positive delay until it is stopped, which the
  tracker does together with cancelling its context.
\<close>

inductive step :: "'t sys \<Rightarrow> 't sys \<Rightarrow> bool" where
  add: "step s (s\<lparr>tr := snd (Add w (tr s)),
      tracked := tracked s \<union> (if newly_tracked w (tr s) then {wr_LSN w} \<times> pending (newTrackedWriteRequest w) else {})\<rparr>)"
| add_empty: "step s (s\<lparr>tr := AddEmpty l x (tr s), dropped := insert (l, 0) (dropped s)\<rparr>)"
| success: "step s (s\<lparr>tr := snd (OnSuccess es (tr s)), delivered := delivered s \<union> resp_offs es, inflight := inflight s - resp_offs es\<rparr>)"
| error: "processErrorResponse now backoff es (tr s) = (Inr (m, rs), t1) \<Longrightarrow>
    step s (s\<lparr>tr := t1, ackJobs := ackJobs s @ [m], retryJobs := retryJobs s @ rs,
       inflight := inflight s - resp_offs (map ee_Entry es)\<rparr>)"
| error_down: "processErrorResponse now backoff es (tr s) = (Inl (Error e), t1) \<Longrightarrow>
    step s (s\<lparr>tr := t1\<lparr>shutdownCh := shutdownCh t1 @ [e]\<rparr>, inflight := inflight s - resp_offs (map ee_Entry es)\<rparr>)"
| error_ack: "m \<in> set (ackJobs s) \<Longrightarrow>
    step s (s\<lparr>tr := ack_all m (tr s), ackJobs := remove1 m (ackJobs s), dropped := dropped s \<union> ack_offs m\<rparr>)"
| schedule: "r \<in> set (retryJobs s) \<Longrightarrow> wheelOk \<or> stopCtx (tr s) \<Longrightarrow>
    step s (s\<lparr>tr := scheduleRetry now wheelOk r (tr s), retryJobs := remove1 r (retryJobs s)\<rparr>)"
| timer: "x \<in> set (wheel (tr s)) \<Longrightarrow> step s (s\<lparr>tr := fire_timer x (tr s)\<rparr>)"
| deliver: "pipeline_pop (tr s) = (r, t1) \<Longrightarrow>
    step s (s\<lparr>tr := t1, inflight := inflight s \<union> (case r of Got w \<Rightarrow> write_offs w | _ \<Rightarrow> {})\<rparr>)"
| confirm: "step s (s\<lparr>tr := snd (MaxAcknowledged (tr s))\<rparr>)"
| stop: "step s (s\<lparr>tr := Stop (tr s)\<rparr>)"

inductive reachable :: "RetryConfig \<Rightarrow> 't sys \<Rightarrow> bool" for cfg where
  init: "reachable cfg (sys_init cfg)"
| step: "reachable cfg s \<Longrightarrow> step s s' \<Longrightarrow> reachable cfg s'"

section \<open>Invariants of every operation\<close>

text \<open>
  \<open>flags_ok\<close>: the three stop flags agree. \<open>moves t t'\<close>: what a section may do to the
  tracked writes; offsets leave \<open>pending\<close> only if they are in \<open>S\<close>, a write leaves the queue
  only when nothing of it is pending, and the confirmed LSN never decreases.
\<close>

definition flags_ok :: "'t tracker \<Rightarrow> bool" where
  "flags_ok t \<longleftrightarrow> stopped (trackingQueue t) = stopCtx t \<and> stopped (readyQueue t) = stopCtx t"

definition moves :: "(LSN \<times> u32) set \<Rightarrow> 't tracker \<Rightarrow> 't tracker \<Rightarrow> bool" where
  "moves S t t' \<longleftrightarrow> tracker_inv t' \<and> flags_ok t' \<and> nextAddr t \<le> nextAddr t' \<and>
     (\<forall>a < nextAddr t. lsn_at t' a = lsn_at t a) \<and>
     (\<forall>a \<in> set (tq t). \<forall>off \<in> pend t a. (lsn_at t a, off) \<in> S \<or> a \<in> set (tq t') \<and> off \<in> pend t' a) \<and>
     cp_LSN (maxAcknowledged t) \<le> cp_LSN (maxAcknowledged t')"

lemma moves_trans:
  assumes "moves S t t1" "moves S' t1 t2" "tracker_inv t"
  shows "moves (S \<union> S') t t2"
proof -
  have "a < nextAddr t" if "a \<in> set (tq t)" for a using assms(3) that tk_inv_addr by (auto simp: tracker_inv_def)
  then have "lsn_at t1 a = lsn_at t a" if "a \<in> set (tq t)" for a using assms(1) that by (auto simp: moves_def)
  then show ?thesis using assms(1,2) unfolding moves_def by (fastforce intro: order_trans)
qed

lemma moves_trans_keep: "moves S t t1 \<Longrightarrow> moves {} t1 t2 \<Longrightarrow> tracker_inv t \<Longrightarrow> moves S t t2"
  using moves_trans [of S t t1 "{}" t2] by simp

lemma moves_same_view: "same_view t t' \<Longrightarrow> tracker_inv t' \<Longrightarrow> flags_ok t \<Longrightarrow> moves S t t'"
  using same_view_lsn [of t t'] by (auto simp: moves_def same_view_def flags_ok_def)

lemma moves_ack_at:
  assumes "tracker_inv t" "flags_ok t" "a < nextAddr t"
  shows "moves ({lsn_at t a} \<times> set offs) t (ack_at a offs t)"
  using assms tk_inv_ack_at [of "tq t" t a offs]
  by (auto simp: moves_def flags_ok_def tracker_inv_def tq_def pend_ack_at)

lemma moves_ack:
  assumes "tracker_inv t" "flags_ok t"
  shows "moves ({cp_LSN cp} \<times> set offs) t (ack cp offs t)"
proof (cases "findTrackedWrite t (cp_LSN cp)")
  case None
  then show ?thesis using assms by (auto simp: ack_ack_at moves_def)
next
  case (Some a)
  then show ?thesis using moves_ack_at [OF assms, of a offs] findTrackedWrite_Some [OF Some] tk_inv_addr assms(1)
    by (auto simp: ack_ack_at tracker_inv_def)
qed

lemma moves_ack_all:
  assumes "tracker_inv t" "flags_ok t"
  shows "moves (ack_offs m) t (ack_all m t)"
  using assms
proof (induction m arbitrary: t)
  case Nil
  then show ?case by (simp add: ack_all_def moves_def)
next
  case (Cons c m)
  obtain cp offs where c: "c = (cp, offs)" by fastforce
  note one = moves_ack [OF Cons.prems, of cp offs]
  then have "tracker_inv (ack cp offs t)" "flags_ok (ack cp offs t)" by (simp_all add: moves_def)
  then have "moves (ack_offs m) (ack cp offs t) (ack_all m (ack cp offs t))" by (rule Cons.IH)
  then show ?case using moves_trans [OF one _ Cons.prems(1)] by (simp add: c ack_all_def)
qed

lemma max_le_queued:
  assumes "tracker_inv t" "a \<in> set (tq t)"
  shows "cp_LSN (maxAcknowledged t) \<le> lsn_at t a"
proof -
  have "\<not> isAcknowledged t (lsn_at t a)" using assms by (auto simp: tracker_inv_def tk_inv_def)
  then show ?thesis by (cases "cp_LSN (maxAcknowledged t) = 0") (auto simp: isAcknowledged_def word_gt_0)
qed

lemma dropWhile_keeps: "x \<in> set xs \<Longrightarrow> \<not> P x \<Longrightarrow> x \<in> set (dropWhile P xs)"
  by (induction xs) auto

lemma moves_advance:
  assumes "tracker_inv t" "flags_ok t"
  shows "moves {} t (advanceMaxAcknowledged t)"
proof (cases "stopped (trackingQueue t)")
  case True
  then show ?thesis using assms by (simp add: advance_stopped moves_def)
next
  case False
  note adv = advance_spec [OF assms(1) False]
  let ?P = "\<lambda>a. pend t a = {}"
  have "cp_LSN (maxAcknowledged t) \<le> cp_LSN (last_point (maxAcknowledged t) t (takeWhile ?P (tq t)))"
    using max_le_queued [OF assms(1)] set_takeWhileD [OF last_in_set [of "takeWhile ?P (tq t)"]]
    by (simp add: last_point_def lsn_at_def)
  moreover have "a \<in> set (dropWhile ?P (tq t))" if "a \<in> set (tq t)" "off \<in> pend t a" for a off
    using that by (intro dropWhile_keeps) auto
  moreover have "lsn_at (advanceMaxAcknowledged t) = lsn_at t" by (simp add: fun_eq_iff lsn_at_def adv(5))
  moreover have "flags_ok (advanceMaxAcknowledged t)" using assms(2) by (simp add: flags_ok_def adv(6,7,10))
  ultimately show ?thesis unfolding moves_def adv(2,3,4,9) using adv(1) by simp
qed


lemma moves_OnSuccess:
  assumes "tracker_inv t" "flags_ok t"
  shows "moves (resp_offs es) t (snd (OnSuccess es t))"
proof -
  let ?m = "fold (\<lambda>e m. addToAckMap (entry_cp e) (re_Offset e) m) es []"
  note a = moves_ack_all [OF assms, of ?m]
  then have "moves {} (ack_all ?m t) (advanceMaxAcknowledged (ack_all ?m t))" by (intro moves_advance) (simp_all add: moves_def)
  from moves_trans_keep [OF a this assms(1)] show ?thesis by (simp add: OnSuccess_def Let_def ack_offs_fold)
qed

lemma moves_enqueue:
  assumes "tracker_inv t" "flags_ok t" "a < nextAddr t"
  shows "moves {} t (snd (enqueueReadyWrite a w t))"
proof -
  let ?t = "snd (enqueueReadyWrite a w t)"
  have "tk_inv (tq ?t) ?t" using tk_inv_enqueue [of "tq t" t a w] assms by (simp add: tracker_inv_def tq_def)
  moreover have "stopped (readyQueue ?t) = stopped (readyQueue t)"
  proof (rule enqueue_cases [of a w t])
    fix q c assume push: "Push (\<lambda>e. wr_Size (rd_write e)) \<lparr>rd_tracked = a, rd_write = w\<rparr> (readyQueue t) = (c, q)"
      and e: "enqueueReadyWrite a w t =
        (c, (put_tw a ((tw_at t a)\<lparr>queued := queued (tw_at t a) @ [w]\<rparr>) t)\<lparr>writeQueueLen := writeQueueLen t + 1, readyQueue := q\<rparr>)"
    have "wq_inv (readyQueue t)" using assms(1) by (simp add: tracker_inv_def tk_inv_def)
    then have "stopped q = stopped (readyQueue t)"
      using Push_list [of "readyQueue t" "\<lambda>e. wr_Size (rd_write e)" "\<lparr>rd_tracked = a, rd_write = w\<rparr>"] push by (simp add: inserted_def)
    then show ?thesis by (simp add: e)
  qed simp
  ultimately show ?thesis using assms by (simp add: moves_def tracker_inv_def flags_ok_def tq_def lsn_at_def)
qed

text \<open>A write that was just allocated joins the queue; the writes already tracked stay as they are.\<close>

lemma moves_track:
  assumes "tracker_inv t" "flags_ok t" "\<not> stopCtx t" "\<not> isAcknowledged t l" "findTrackedWrite t l = None"
    and t1: "tk_inv (tq t) t1" "trackingQueue t1 = trackingQueue t" "readyQueue t1 = readyQueue t" "nextAddr t1 = Suc (nextAddr t)"
      "stopCtx t1 = stopCtx t" "maxAcknowledged t1 = maxAcknowledged t" "\<And>b. b \<noteq> nextAddr t \<Longrightarrow> tw_at t1 b = tw_at t b"
      "lsn_at t1 (nextAddr t) = l"
  shows "moves {} t (snd (pushTrackedWrite (nextAddr t) t1))"
    and "nextAddr t \<in> set (tq (snd (pushTrackedWrite (nextAddr t) t1)))"
    and "\<exists>q. snd (pushTrackedWrite (nextAddr t) t1) = t1\<lparr>trackingQueue := q\<rparr>"
proof -
  have old: "a < nextAddr t" if "a \<in> set (tq t)" for a using assms(1) that tk_inv_addr by (auto simp: tracker_inv_def)
  have "\<not> stopped (trackingQueue t)" using assms(2,3) by (simp add: flags_ok_def)
  then have "l \<notin> lsn_at t ` set (tq t)" using assms(5) findTrackedWrite_None by blast
  moreover have v: "lsn_at t1 a = lsn_at t a" if "a < nextAddr t" for a using t1(7) that by (simp add: lsn_at_def)
  ultimately have n: "lsn_at t1 (nextAddr t) \<notin> lsn_at t1 ` set (tq t1)"
    using old t1(2,8) by (auto simp: tq_def)
  note p = pushTrackedWrite_spec [of t1 "nextAddr t"]
  have q: "tracker_inv (snd (pushTrackedWrite (nextAddr t) t1)) \<and>
      set (tq (snd (pushTrackedWrite (nextAddr t) t1))) = insert (nextAddr t) (set (tq t1)) \<and>
      (\<exists>q. snd (pushTrackedWrite (nextAddr t) t1) = t1\<lparr>trackingQueue := q\<rparr> \<and> stopped q = stopped (trackingQueue t1))"
    using n assms(1,4) t1 by (intro p) (auto simp: tracker_inv_def tq_def isAcknowledged_def)
  have pe: "pend t1 a = pend t a" if "a \<in> set (tq t)" for a using old [OF that] t1(7) by (simp add: pend_def)
  from q show "moves {} t (snd (pushTrackedWrite (nextAddr t) t1))"
    using assms(2) t1(2-6) v pe old unfolding moves_def flags_ok_def by (auto simp: tq_def pend_def)
  from q show "nextAddr t \<in> set (tq (snd (pushTrackedWrite (nextAddr t) t1)))"
    "\<exists>q. snd (pushTrackedWrite (nextAddr t) t1) = t1\<lparr>trackingQueue := q\<rparr>" by auto
qed

lemma newTracked_simps [simp]:
  "released (newTrackedWriteRequest w) = False" "queued (newTrackedWriteRequest w) = []" "tw_write (newTrackedWriteRequest w) = Some w"
  "cp_LSN (point (newTrackedWriteRequest w)) = wr_LSN w"
  by (simp_all add: newTrackedWriteRequest_def)

lemma alloc_new_track:
  assumes "tracker_inv t" "flags_ok t" "newly_tracked w t"
  defines "t1 \<equiv> snd (alloc_tw (newTrackedWriteRequest w) t)"
  shows "moves {} t (snd (pushTrackedWrite (nextAddr t) t1))"
    and "nextAddr t \<in> set (tq (snd (pushTrackedWrite (nextAddr t) t1)))"
    and "\<exists>q. snd (pushTrackedWrite (nextAddr t) t1) = t1\<lparr>trackingQueue := q\<rparr>"
proof -
  have "tk_inv (tq t) t1" unfolding t1_def using assms(1) by (intro tk_inv_alloc) (simp_all add: tracker_inv_def)
  then show "moves {} t (snd (pushTrackedWrite (nextAddr t) t1))"
    "nextAddr t \<in> set (tq (snd (pushTrackedWrite (nextAddr t) t1)))"
    "\<exists>q. snd (pushTrackedWrite (nextAddr t) t1) = t1\<lparr>trackingQueue := q\<rparr>"
    using moves_track [OF assms(1,2), of "wr_LSN w" t1] assms(3) by (auto simp: newly_tracked_def t1_def lsn_at_def)
qed

lemma Add_new:
  assumes "newly_tracked w t"
  shows "snd (Add w t) = snd (enqueueReadyWrite (nextAddr t) w (snd (pushTrackedWrite (nextAddr t) (snd (alloc_tw (newTrackedWriteRequest w) t)))))"
  using assms by (simp add: Add_def newly_tracked_def case_prod_unfold Let_def)

lemma moves_Add:
  assumes "tracker_inv t" "flags_ok t"
  shows "moves {} t (snd (Add w t))"
    and "newly_tracked w t \<Longrightarrow> nextAddr t \<in> set (tq (snd (Add w t))) \<and> lsn_at (snd (Add w t)) (nextAddr t) = wr_LSN w \<and>
      pend (snd (Add w t)) (nextAddr t) = pending (newTrackedWriteRequest w)"
proof -
  let ?t1 = "snd (alloc_tw (newTrackedWriteRequest w) t)"
  let ?t2 = "snd (pushTrackedWrite (nextAddr t) ?t1)"
  have new: "moves {} t (snd (Add w t)) \<and> nextAddr t \<in> set (tq (snd (Add w t))) \<and> lsn_at (snd (Add w t)) (nextAddr t) = wr_LSN w \<and>
      pend (snd (Add w t)) (nextAddr t) = pending (newTrackedWriteRequest w)" if n: "newly_tracked w t"
  proof -
    note a = alloc_new_track [OF assms n]
    obtain q where q: "?t2 = ?t1\<lparr>trackingQueue := q\<rparr>" using a(3) by blast
    have "moves {} ?t2 (snd (enqueueReadyWrite (nextAddr t) w ?t2))"
      using a(1) q by (intro moves_enqueue) (auto simp: moves_def)
    then show ?thesis using moves_trans [OF a(1) _ assms(1)] a(2) unfolding Add_new [OF n]
      by (simp add: tq_def lsn_at_def) (simp add: q pend_def)
  qed
  then show "newly_tracked w t \<Longrightarrow> nextAddr t \<in> set (tq (snd (Add w t))) \<and> lsn_at (snd (Add w t)) (nextAddr t) = wr_LSN w \<and>
      pend (snd (Add w t)) (nextAddr t) = pending (newTrackedWriteRequest w)" by blast
  show "moves {} t (snd (Add w t))"
  proof (cases "newly_tracked w t")
    case False
    have refl: "moves {} t t" using assms by (simp add: moves_def)
    show ?thesis
    proof (cases "findTrackedWrite t (wr_LSN w)")
      case None
      then show ?thesis using False refl by (auto simp: Add_def newly_tracked_def)
    next
      case (Some a)
      then have "a < nextAddr t" using findTrackedWrite_Some [OF Some] tk_inv_addr assms(1) by (auto simp: tracker_inv_def)
      then show ?thesis using Some refl moves_enqueue [OF assms] by (simp add: Add_def Let_def split: option.split)
    qed
  qed (use new in blast)
qed


lemma moves_AddEmpty:
  assumes "tracker_inv t" "flags_ok t"
  shows "moves {(l, 0)} t (AddEmpty l x t)"
proof (cases "stopCtx t \<or> isAcknowledged t l")
  case True
  then show ?thesis using assms by (auto simp: AddEmpty_def moves_def)
next
  case False
  show ?thesis
  proof (cases "findTrackedWrite t l")
    case (Some a)
    then have a: "a < nextAddr t" "lsn_at t a = l"
      using findTrackedWrite_Some [OF Some] tk_inv_addr assms(1) by (auto simp: tracker_inv_def)
    have "AddEmpty l x t = ack_at a [0] t" using False Some by (simp add: AddEmpty_def ack_at_def)
    then show ?thesis using moves_ack_at [OF assms a(1), of "[0]"] a(2) by simp
  next
    case None
    let ?w = "\<lparr>wr_Entries = [], wr_LSN = l, wr_XID = x, wr_CommitTime = 0, wr_isSnapshot = False\<rparr> :: 'a WriteRequest"
    let ?tw = "snd (tw_ack (clearQueued (newTrackedWriteRequest ?w)) [0])"
    let ?t1 = "release_at (nextAddr t) (snd (alloc_tw ?tw t))"
    have tw: "\<not> released ?tw" "queued ?tw = []" "tw_write ?tw \<noteq> None" "cp_LSN (point ?tw) = l"
      by (simp_all add: tw_ack_def clearQueued_def Let_def)
    have "tk_inv (tq t) (snd (alloc_tw ?tw t))" using assms(1) tw by (intro tk_inv_alloc) (simp_all add: tracker_inv_def)
    then have "tk_inv (tq t) ?t1" by (rule tk_inv_release) simp
    then have "moves {} t (snd (pushTrackedWrite (nextAddr t) ?t1))"
      using moves_track(1) [OF assms, of l ?t1] False None tw(4) by (simp add: lsn_at_def)
    moreover have "AddEmpty l x t = snd (pushTrackedWrite (nextAddr t) ?t1)"
      using False None by (simp add: AddEmpty_def case_prod_unfold Let_def)
    ultimately show ?thesis by (auto simp: moves_def)
  qed
qed

lemma tk_inv_other_fields:
  "tk_inv L (t\<lparr>shutdownCh := c\<rparr>) \<longleftrightarrow> tk_inv L t" "tk_inv L (t\<lparr>retrySeq := n\<rparr>) \<longleftrightarrow> tk_inv L t"
  "tk_inv L (t\<lparr>stopCtx := b\<rparr>) \<longleftrightarrow> tk_inv L t" "tk_inv L (t\<lparr>trackingQueue := q\<rparr>) \<longleftrightarrow> tk_inv L t"
  by (simp_all add: tk_inv_def rq_def isAcknowledged_def)

lemma moves_shutdown [simp]: "moves S t (t'\<lparr>shutdownCh := c\<rparr>) \<longleftrightarrow> moves S t t'"
  by (simp add: moves_def tracker_inv_def tk_inv_other_fields flags_ok_def tq_def pend_def)

lemma moves_processError:
  assumes "tracker_inv t" "flags_ok t" "processErrorResponse now backoff es t = (r, t1)"
  shows "moves {} t t1"
  using assms process_entries_inv [of now backoff es "[]" "[]" t r t1] moves_same_view [of t t1 "{}"]
  by (auto simp: processErrorResponse_def moves_def split: if_splits)

lemma tk_inv_wheel:
  assumes "tk_inv L t" "\<forall>(k, e, d) \<in> set ws. rt_tracked e < nextAddr t" "n = int (length ws)"
  shows "tk_inv L (t\<lparr>wheel := ws, retryQueueLen := n\<rparr>)"
  using assms by (simp add: tk_inv_def rq_def isAcknowledged_def)

lemma moves_wheel:
  assumes "tracker_inv t" "flags_ok t" "\<forall>(k, e, d) \<in> set ws. rt_tracked e < nextAddr t" "n = int (length ws)"
  shows "moves {} t (t\<lparr>wheel := ws, retryQueueLen := n\<rparr>)"
  using assms tk_inv_wheel [of "tq t" t ws n] by (simp add: moves_def tracker_inv_def flags_ok_def tq_def pend_def)

lemma tk_inv_wheel_len: "tk_inv L t \<Longrightarrow> retryQueueLen t = int (length (wheel t)) \<and> (\<forall>(k, e, d) \<in> set (wheel t). rt_tracked e < nextAddr t)"
  by (simp add: tk_inv_def)

lemma moves_scheduleRetry:
  assumes "tracker_inv t" "flags_ok t" "rt_tracked r < nextAddr t"
  shows "moves {} t (scheduleRetry now ok r t)"
proof -
  let ?x = "(retrySeq t + 1, r, roundRetryDelay (waitUntil r - now) (retryInterval t))"
  let ?t = "t\<lparr>wheel := wheel t @ [?x], retryQueueLen := retryQueueLen t + 1\<rparr>"
  have "moves {} t ?t" using tk_inv_wheel_len [of "tq t" t] assms by (intro moves_wheel) (auto simp: tracker_inv_def)
  moreover have "moves {} t (t'\<lparr>retrySeq := n\<rparr>) \<longleftrightarrow> moves {} t t'" for t' n
    by (simp add: moves_def tracker_inv_def tk_inv_other_fields flags_ok_def tq_def pend_def)
  moreover have "scheduleRetry now ok r t = (if stopCtx t then t else if \<not> ok then t\<lparr>retrySeq := retrySeq t + 1\<rparr> else ?t\<lparr>retrySeq := retrySeq t + 1\<rparr>)"
    by (simp add: scheduleRetry_def Let_def)
  moreover have "moves {} t t" using assms by (simp add: moves_def)
  ultimately show ?thesis by simp
qed

lemma length_remove1_Suc: "x \<in> set xs \<Longrightarrow> length xs = Suc (length (remove1 x xs))"
  by (induction xs) auto

lemma moves_fire:
  assumes "tracker_inv t" "flags_ok t" "x \<in> set (wheel t)"
  shows "moves {} t (fire_timer x t)"
proof -
  let ?t = "t\<lparr>wheel := remove1 x (wheel t), retryQueueLen := retryQueueLen t - 1\<rparr>"
  note w = tk_inv_wheel_len [of "tq t" t]
  have "int (length (wheel t)) - 1 = int (length (remove1 x (wheel t)))" using length_remove1_Suc [OF assms(3)] by simp
  moreover have "\<forall>(k, e, d) \<in> set (remove1 x (wheel t)). rt_tracked e < nextAddr t"
    using w assms(1) set_remove1_subset [of x "wheel t"] unfolding tracker_inv_def by blast
  ultimately have m: "moves {} t ?t" using w assms by (intro moves_wheel) (auto simp: tracker_inv_def)
  have a: "rt_tracked (fst (snd x)) < nextAddr ?t" using w assms(1,3) by (cases x) (auto simp: tracker_inv_def)
  have "moves {} ?t (snd (enqueueReadyWrite (rt_tracked (fst (snd x))) (rt_write (fst (snd x))) ?t))"
    using m a by (intro moves_enqueue) (auto simp: moves_def)
  then show ?thesis using m moves_trans_keep [OF m _ assms(1)] by (simp add: fire_timer_def onRetryTimer_def Let_def)
qed

lemma moves_Stop: "tracker_inv t \<Longrightarrow> flags_ok t \<Longrightarrow> moves {} t (Stop t)"
  by (simp add: moves_def Stop_def tracker_inv_def tk_inv_def flags_ok_def tq_def pend_def rq_def isAcknowledged_def)


lemma pipeline_pop_spec:
  assumes "tracker_inv t" "flags_ok t" "\<not> stopCtx t"
  shows "\<exists>t'. pipeline_pop t = (first_ready t, t') \<and> tk_inv (tq t) t' \<and> rq t' = tl (dropWhile (skippable t) (rq t)) \<and>
    trackingQueue t' = trackingQueue t \<and> maxAcknowledged t' = maxAcknowledged t \<and> stopCtx t' = stopCtx t \<and>
    (\<forall>b. pend t' b = pend t b \<and> point (tw_at t' b) = point (tw_at t b)) \<and> wheel t' = wheel t \<and> nextAddr t' = nextAddr t \<and>
    \<not> stopped (readyQueue t')"
proof -
  have r: "\<not> stopped (readyQueue t)" "tk_inv (tq t) t" using assms by (auto simp: flags_ok_def tracker_inv_def)
  obtain t1 where t1: "readyQueue_Pop t = (first_ready t, t1)"
    "tk_inv (tq t) (t1\<lparr>writeQueueLen := writeQueueLen t1 - (if first_ready t = Blocked then 0 else 1)\<rparr>)"
    "rq t1 = tl (dropWhile (skippable t) (rq t))" "trackingQueue t1 = trackingQueue t" "maxAcknowledged t1 = maxAcknowledged t"
    "\<And>b. pend t1 b = pend t b \<and> point (tw_at t1 b) = point (tw_at t b)" "stopCtx t1 = stopCtx t" "wheel t1 = wheel t" "nextAddr t1 = nextAddr t"
    "\<not> stopped (readyQueue t1)"
    using ready_pop_spec [OF r(2) _ r(1), of "Suc (length (rq t))"] by (auto simp: readyQueue_Pop_def rq_def)
  then show ?thesis
    by (cases "first_ready t") (auto simp: pipeline_pop_def rq_def pend_def first_ready_def split: list.splits)
qed


lemma pipeline_pop_stopped: "tracker_inv t \<Longrightarrow> flags_ok t \<Longrightarrow> stopCtx t \<Longrightarrow> pipeline_pop t = (Halted, t)"
  by (simp add: pipeline_pop_def readyQueue_Pop_def flags_ok_def Pop_stopped)

lemma moves_deliver:
  assumes "tracker_inv t" "flags_ok t" "pipeline_pop t = (r, t1)"
  shows "moves {} t t1"
proof (cases "stopCtx t")
  case True
  then show ?thesis using pipeline_pop_stopped [OF assms(1,2)] assms by (simp add: moves_def)
next
  case False
  have "trackingQueue t1 = trackingQueue t" "tk_inv (tq t) t1" "maxAcknowledged t1 = maxAcknowledged t" "stopCtx t1 = stopCtx t"
    "\<And>b. pend t1 b = pend t b" "\<And>b. point (tw_at t1 b) = point (tw_at t b)" "nextAddr t1 = nextAddr t" "\<not> stopped (readyQueue t1)"
    using pipeline_pop_spec [OF assms(1,2) False] assms(3) by auto
  then show ?thesis using assms False by (auto simp: moves_def tracker_inv_def flags_ok_def tq_def lsn_at_def)
qed

section \<open>Safety\<close>

text \<open>
  Every step moves the tracker without losing an offset: what was tracked is delivered, was
  acknowledged without delivery, or is still pending in the queue under its LSN.
\<close>

definition accounted :: "'t sys \<Rightarrow> bool" where
  "accounted s \<longleftrightarrow> (\<forall>(l, off) \<in> tracked s. (l, off) \<in> delivered s \<union> dropped s \<or>
     (\<exists>a \<in> set (tq (tr s)). lsn_at (tr s) a = l \<and> off \<in> pend (tr s) a))"

definition sys_inv :: "'t sys \<Rightarrow> bool" where
  "sys_inv s \<longleftrightarrow> tracker_inv (tr s) \<and> flags_ok (tr s) \<and> accounted s \<and> (\<forall>r \<in> set (retryJobs s). rt_tracked r < nextAddr (tr s))"

lemma sys_invI:
  assumes "sys_inv s" "moves S (tr s) (tr s')" "delivered s \<union> dropped s \<union> S \<subseteq> delivered s' \<union> dropped s'"
    and "\<And>l off. (l, off) \<in> tracked s' \<Longrightarrow> (l, off) \<notin> tracked s \<Longrightarrow> \<exists>a \<in> set (tq (tr s')). lsn_at (tr s') a = l \<and> off \<in> pend (tr s') a"
    and "\<And>r. r \<in> set (retryJobs s') \<Longrightarrow> r \<in> set (retryJobs s) \<or> rt_tracked r < nextAddr (tr s')"
  shows "sys_inv s'"
proof -
  have "tk_inv (tq (tr s)) (tr s)" using assms(1) by (simp add: sys_inv_def tracker_inv_def)
  then have old: "\<forall>a \<in> set (tq (tr s)). lsn_at (tr s') a = lsn_at (tr s) a"
    using assms(2) tk_inv_addr by (auto simp: moves_def)
  have "(l, off) \<in> delivered s' \<union> dropped s' \<or> (\<exists>a \<in> set (tq (tr s')). lsn_at (tr s') a = l \<and> off \<in> pend (tr s') a)"
    if "(l, off) \<in> tracked s'" for l off
  proof (cases "(l, off) \<in> tracked s \<and> (l, off) \<notin> delivered s \<union> dropped s")
    case True
    then obtain a where a: "a \<in> set (tq (tr s))" "lsn_at (tr s) a = l" "off \<in> pend (tr s) a"
      using assms(1) by (auto simp: sys_inv_def accounted_def)
    then have "(l, off) \<in> S \<or> a \<in> set (tq (tr s')) \<and> off \<in> pend (tr s') a" using assms(2) by (auto simp: moves_def)
    then show ?thesis using assms(3) a old by blast
  next
    case False
    then show ?thesis using assms(3,4) that by blast
  qed
  then have "accounted s'" by (auto simp: accounted_def)
  moreover have "rt_tracked r < nextAddr (tr s')" if "r \<in> set (retryJobs s')" for r
    using assms(1,2) assms(5) [OF that] by (auto simp: sys_inv_def moves_def intro: order_less_le_trans)
  ultimately show ?thesis using assms(2) by (simp add: sys_inv_def moves_def)
qed

lemma error_retry_addr:
  assumes "processErrorResponse now backoff es t = (Inr (m, rs), t1)" "tracker_inv t" "r \<in> set rs"
  shows "rt_tracked r < nextAddr t1"
proof (cases "stopCtx t")
  case False
  then have p: "process_entries now backoff es [] [] t = (Inr (m, rs), t1)" using assms(1) by (simp add: processErrorResponse_def)
  then have "rt_tracked r \<in> set (tq t)" using process_entries_retries [OF p assms(2,3)] by simp
  moreover have "nextAddr t1 = nextAddr t" using process_entries_inv [OF p assms(2)] by (simp add: same_view_def)
  ultimately show ?thesis using assms(2) tk_inv_addr by (auto simp: tracker_inv_def)
qed (use assms in \<open>simp add: processErrorResponse_def\<close>)

lemma step_moves:
  assumes "step s s'" "sys_inv s"
  shows "\<exists>S. moves S (tr s) (tr s') \<and> delivered s \<union> dropped s \<union> S \<subseteq> delivered s' \<union> dropped s'"
proof -
  have inv: "tracker_inv (tr s)" "flags_ok (tr s)" "\<And>r. r \<in> set (retryJobs s) \<Longrightarrow> rt_tracked r < nextAddr (tr s)"
    using assms(2) by (auto simp: sys_inv_def)
  from assms(1) show ?thesis
  proof cases
    case (add w) then show ?thesis using moves_Add(1) [OF inv(1,2), of w] by auto
  next
    case (add_empty l x) then show ?thesis using moves_AddEmpty [OF inv(1,2), of l x] by auto
  next
    case (success es) then show ?thesis using moves_OnSuccess [OF inv(1,2), of es] by auto
  next
    case (error now backoff es m rs t1) then show ?thesis using moves_processError [OF inv(1,2) error(2)] by auto
  next
    case (error_down now backoff es e t1) then show ?thesis using moves_processError [OF inv(1,2) error_down(2)] by auto
  next
    case (error_ack m) then show ?thesis using moves_ack_all [OF inv(1,2), of m] by auto
  next
    case (schedule r wheelOk now) then show ?thesis using moves_scheduleRetry [OF inv(1,2) inv(3)] by auto
  next
    case (timer x) then show ?thesis using moves_fire [OF inv(1,2) timer(2)] by auto
  next
    case (deliver r t1) then show ?thesis using moves_deliver [OF inv(1,2) deliver(2)] by auto
  next
    case confirm then show ?thesis using moves_advance [OF inv(1,2)] by (auto simp: MaxAcknowledged_def Let_def)
  next
    case stop then show ?thesis using moves_Stop [OF inv(1,2)] by auto
  qed
qed


lemma sys_inv_step:
  assumes "step s s'" "sys_inv s"
  shows "sys_inv s'"
proof -
  obtain S where S: "moves S (tr s) (tr s')" "delivered s \<union> dropped s \<union> S \<subseteq> delivered s' \<union> dropped s'"
    using step_moves [OF assms] by blast
  have inv: "tracker_inv (tr s)" "flags_ok (tr s)" using assms(2) by (auto simp: sys_inv_def)
  have new: "\<exists>a \<in> set (tq (tr s')). lsn_at (tr s') a = l \<and> off \<in> pend (tr s') a"
    if "(l, off) \<in> tracked s'" "(l, off) \<notin> tracked s" for l off
    using assms(1)
  proof cases
    case (add w)
    then have n: "newly_tracked w (tr s)" "l = wr_LSN w" "off \<in> pending (newTrackedWriteRequest w)" using that by (auto split: if_splits)
    then show ?thesis using moves_Add(2) [OF inv n(1)] add by auto
  qed (use that in auto)
  have rs: "r \<in> set (retryJobs s) \<or> rt_tracked r < nextAddr (tr s')" if "r \<in> set (retryJobs s')" for r
    using assms(1)
  proof cases
    case (error now backoff es m rs t1)
    then show ?thesis using error_retry_addr [OF error(2) inv(1)] that by auto
  qed (use that in \<open>auto dest: set_remove1_subset [THEN subsetD]\<close>)
  show ?thesis by (rule sys_invI [OF assms(2) S new rs])
qed

lemma tracker_inv_New [simp]: "tracker_inv (NewLSNTracker cfg)" "flags_ok (NewLSNTracker cfg)" "tq (NewLSNTracker cfg) = []"
  using tk_inv_New [of cfg] by (simp_all add: tracker_inv_def tq_def flags_ok_def NewLSNTracker_def)

lemma reachable_inv: "reachable cfg s \<Longrightarrow> sys_inv s"
proof (induction rule: reachable.induct)
  case init
  show ?case by (simp add: sys_inv_def sys_init_def accounted_def)
next
  case (step s s')
  then show ?case using sys_inv_step by blast
qed


section \<open>Properties\<close>

text \<open>A concrete run: a write of two entries is added, handed to the writer and reported as written.\<close>

definition sample_table :: TableName where
  "sample_table = \<lparr>tn_Schema = ''public'', tn_Name = ''t'', tn_FullName = ''public.t''\<rparr>"

definition sample_write :: "LSN \<Rightarrow> nat WriteRequest" where
  "sample_write l = \<lparr>wr_Entries =
     [\<lparr>we_Tuple = Tup 1, we_PrevTuple = NoTuple, we_PK = ''1'', we_Kind = Insert, we_Table = sample_table, we_Offset = 0\<rparr>,
      \<lparr>we_Tuple = Tup 2, we_PrevTuple = NoTuple, we_PK = ''2'', we_Kind = Insert, we_Table = sample_table, we_Offset = 1\<rparr>],
     wr_LSN = l, wr_XID = 7, wr_CommitTime = 0, wr_isSnapshot = False\<rparr>"

definition sample_resp :: "LSN \<Rightarrow> u32 \<Rightarrow> ResponseEntry" where
  "sample_resp l off = \<lparr>re_PK = ''1'', re_Table = sample_table, re_LSN = l, re_XID = 7, re_Offset = off\<rparr>"

definition sample_added :: "nat sys" where
  "sample_added = (sys_init sample_cfg)\<lparr>tr := snd (Add (sample_write 10) (NewLSNTracker sample_cfg)), tracked := {(10, 0), (10, 1)}\<rparr>"

definition sample_sent :: "nat sys" where
  "sample_sent = sample_added\<lparr>tr := snd (pipeline_pop (tr sample_added)), inflight := {(10, 0), (10, 1)}\<rparr>"

definition sample_done :: "nat sys" where
  "sample_done = sample_sent\<lparr>tr := snd (OnSuccess [sample_resp 10 0, sample_resp 10 1] (tr sample_sent)),
     delivered := {(10, 0), (10, 1)}, inflight := {}\<rparr>"

lemma sample_pop: "fst (pipeline_pop (tr sample_added)) = Got (sample_write 10)"
  by code_simp

lemma sample_max: "cp_LSN (fst (MaxAcknowledged (tr sample_done))) = 10"
  by code_simp

lemma sample_reachable: "reachable sample_cfg sample_added" "reachable sample_cfg sample_sent" "reachable sample_cfg sample_done"
proof -
  have new: "newly_tracked (sample_write 10) (tr (sys_init sample_cfg))" by code_simp
  have off: "{wr_LSN (sample_write 10)} \<times> pending (newTrackedWriteRequest (sample_write 10)) = {(10, 0), (10, 1)}"
    by (auto simp: newTrackedWriteRequest_def sample_write_def)
  have "step (sys_init sample_cfg) sample_added"
    using step.add [of "sys_init sample_cfg" "sample_write 10"] new off
    by (simp add: sample_added_def sys_init_def)
  then show a: "reachable sample_cfg sample_added" by (rule reachable.step [OF reachable.init])
  have "pipeline_pop (tr sample_added) = (Got (sample_write 10), snd (pipeline_pop (tr sample_added)))"
    using sample_pop by (metis prod.collapse)
  from step.deliver [OF this] have "step sample_added sample_sent"
    by (simp add: sample_sent_def) (simp add: sample_added_def sys_init_def write_offs_def wr_offsets_def sample_write_def insert_commute)
  then show b: "reachable sample_cfg sample_sent" by (rule reachable.step [OF a])
  have "step sample_sent sample_done"
    using step.success [of sample_sent "[sample_resp 10 0, sample_resp 10 1]"]
    by (simp add: sample_done_def) (simp add: sample_sent_def sample_added_def sys_init_def resp_offs_def sample_resp_def)
  then show "reachable sample_cfg sample_done" by (rule reachable.step [OF b])
qed

lemma acknowledged_is_settled:
  assumes "sys_inv s" "(l, off) \<in> tracked s" "isAcknowledged (tr s) l"
  shows "(l, off) \<in> delivered s \<union> dropped s"
proof -
  have "accounted s" "\<forall>a \<in> set (tq (tr s)). \<not> isAcknowledged (tr s) (lsn_at (tr s) a)"
    using assms(1) by (auto simp: sys_inv_def tracker_inv_def tk_inv_def)
  then show ?thesis using assms(2,3) by (fastforce simp: accounted_def)
qed

text \<open>
  (C2) The tracker never confirms what is not settled. In every reachable state, if
  \<open>MaxAcknowledged\<close> answers with an LSN, every entry that was tracked at or below that LSN has
  been reported as written by a writer, or was acknowledged without delivery (given up after an
  error, or added as an empty write). This is what allows Postgres to discard the WAL up to it.
\<close>

theorem confirmed_is_settled:
  assumes "reachable cfg s" "(l, off) \<in> tracked s" "0 < cp_LSN (fst (MaxAcknowledged (tr s)))" "l \<le> cp_LSN (fst (MaxAcknowledged (tr s)))"
  shows "(l, off) \<in> delivered s \<union> dropped s"
proof -
  let ?s = "s\<lparr>tr := snd (MaxAcknowledged (tr s))\<rparr>"
  have "sys_inv ?s" using reachable_inv [OF assms(1)] sys_inv_step [OF step.confirm] by blast
  moreover have "isAcknowledged (tr ?s) l" using assms(3,4) by (simp add: isAcknowledged_def MaxAcknowledged_def Let_def)
  ultimately show ?thesis using acknowledged_is_settled [of ?s l off] assms(2) by simp
qed

theorem confirmed_is_settled_witness:
  "reachable sample_cfg sample_done \<and> (10, 1) \<in> tracked sample_done \<and> cp_LSN (fst (MaxAcknowledged (tr sample_done))) = 10 \<and>
   (10, 1) \<in> delivered sample_done \<union> dropped sample_done"
proof -
  have t: "(10, 1) \<in> tracked sample_done" by (simp add: sample_done_def sample_sent_def sample_added_def)
  show ?thesis using confirmed_is_settled [OF sample_reachable(3) t] sample_reachable(3) t sample_max by simp
qed

text \<open>
  (C3) The confirmed LSN never goes back: no step of the tracker, its writers, its timers or its
  shutdown lowers it.
\<close>

theorem confirmed_monotone:
  assumes "reachable cfg s" "step s s'"
  shows "cp_LSN (maxAcknowledged (tr s)) \<le> cp_LSN (maxAcknowledged (tr s'))"
  using step_moves [OF assms(2) reachable_inv [OF assms(1)]] by (auto simp: moves_def)

theorem confirmed_monotone_witness:
  "reachable sample_cfg sample_done \<and>
   cp_LSN (maxAcknowledged (tr sample_done)) \<le> cp_LSN (maxAcknowledged (tr (sample_done\<lparr>tr := Stop (tr sample_done)\<rparr>)))"
  using confirmed_monotone [OF sample_reachable(3) step.stop] sample_reachable(3) by blast

text \<open>
  (C4) \<open>MaxAcknowledged\<close> confirms as much as it may: it removes exactly the longest prefix of
  writes with nothing pending from the queue ordered by LSN, answers with the point of the last
  of them, and the first write that stays has something pending.
\<close>

theorem confirm_is_maximal:
  assumes "reachable cfg s" "\<not> stopCtx (tr s)"
  shows "tq (snd (MaxAcknowledged (tr s))) = dropWhile (\<lambda>a. pend (tr s) a = {}) (tq (tr s)) \<and>
    fst (MaxAcknowledged (tr s)) = last_point (maxAcknowledged (tr s)) (tr s) (takeWhile (\<lambda>a. pend (tr s) a = {}) (tq (tr s))) \<and>
    sorted_wrt (<) (map (lsn_at (tr s)) (tq (tr s))) \<and>
    (tq (snd (MaxAcknowledged (tr s))) \<noteq> [] \<longrightarrow> pend (snd (MaxAcknowledged (tr s))) (hd (tq (snd (MaxAcknowledged (tr s))))) \<noteq> {})"
proof -
  have inv: "tracker_inv (tr s)" "\<not> stopped (trackingQueue (tr s))"
    using reachable_inv [OF assms(1)] assms(2) by (auto simp: sys_inv_def flags_ok_def)
  note adv = advance_spec [OF inv]
  have "sorted_wrt (<) (map (lsn_at (tr s)) (tq (tr s)))" using inv(1) by (simp add: tracker_inv_def tk_inv_def)
  then show ?thesis using hd_dropWhile [of "\<lambda>a. pend (tr s) a = {}" "tq (tr s)"]
    unfolding MaxAcknowledged_def Let_def fst_conv snd_conv adv(2,3,4) by blast
qed

theorem confirm_is_maximal_witness:
  "reachable sample_cfg sample_sent \<and> \<not> stopCtx (tr sample_sent) \<and> tq (snd (MaxAcknowledged (tr sample_sent))) = [0]"
proof -
  have r: "\<not> stopCtx (tr sample_sent)" by code_simp
  have "dropWhile (\<lambda>a. pend (tr sample_sent) a = {}) (tq (tr sample_sent)) = [0]" by code_simp
  then show ?thesis using confirm_is_maximal [OF sample_reachable(2) r] sample_reachable(2) r by simp
qed

text \<open>
  (C5) The entries of a tracked write go back to the pool once and not too early. In every reachable state a write was
  released once or never, as its flag says; a released write has no pending offset and no write left in its queue, one that is
  not released still holds its request; and as long as a released write is tracked, every offset tracked under
  its LSN was reported as written or given up.
\<close>

theorem released_once_when_settled:
  assumes "reachable cfg s" "a < nextAddr (tr s)"
  shows "releasedTimes (tr s) a = (if released (tw_at (tr s) a) then 1 else 0) \<and>
    (if released (tw_at (tr s) a) then pend (tr s) a = {} \<and> queued (tw_at (tr s) a) = [] else tw_write (tw_at (tr s) a) \<noteq> None) \<and>
    (\<forall>off. released (tw_at (tr s) a) \<and> a \<in> set (tq (tr s)) \<and> (lsn_at (tr s) a, off) \<in> tracked s \<longrightarrow>
      (lsn_at (tr s) a, off) \<in> delivered s \<union> dropped s)"
proof -
  have inv: "tk_inv (tq (tr s)) (tr s)" "accounted s" using reachable_inv [OF assms(1)] by (simp_all add: sys_inv_def tracker_inv_def)
  have ok: "releasedTimes (tr s) a = (if released (tw_at (tr s) a) then 1 else 0)" "tw_ok (tw_at (tr s) a)"
    using inv(1) assms(2) by (auto simp: tk_inv_def)
  have "(lsn_at (tr s) a, off) \<in> delivered s \<union> dropped s"
    if r: "released (tw_at (tr s) a)" "a \<in> set (tq (tr s))" "(lsn_at (tr s) a, off) \<in> tracked s" for off
  proof (rule ccontr)
    assume "(lsn_at (tr s) a, off) \<notin> delivered s \<union> dropped s"
    then obtain b where b: "b \<in> set (tq (tr s))" "lsn_at (tr s) b = lsn_at (tr s) a" "off \<in> pend (tr s) b"
      using inv(2) r(3) by (fastforce simp: accounted_def)
    then have "b = a" using tk_inv_unique [OF inv(1) b(1) r(2)] by simp
    then show False using b(3) ok(2) r(1) by (simp add: tw_ok_def pend_def)
  qed
  then show ?thesis using ok by (auto simp: tw_ok_def pend_def)
qed

theorem released_once_when_settled_witness:
  "reachable sample_cfg sample_done \<and> releasedTimes (tr sample_done) 0 = 1 \<and> pend (tr sample_done) 0 = {}"
proof -
  have "0 < nextAddr (tr sample_done)" "released (tw_at (tr sample_done) 0)" by code_simp+
  then show ?thesis using released_once_when_settled [OF sample_reachable(3), of 0] sample_reachable(3) by simp
qed

text \<open>
  (C6) The write pipeline gets the writes in the order they became ready, skipping exactly the
  ready entries of writes that are already released; it never hands out a write whose entries
  were given back, and \<open>Pop\<close> always returns.
\<close>

theorem pipeline_delivers_in_order:
  assumes "reachable cfg s" "\<not> stopCtx (tr s)"
  shows "fst (pipeline_pop (tr s)) =
      (case dropWhile (skippable (tr s)) (rq (tr s)) of [] \<Rightarrow> Blocked | e # _ \<Rightarrow> Got (rd_write e)) \<and>
    rq (snd (pipeline_pop (tr s))) = tl (dropWhile (skippable (tr s)) (rq (tr s)))"
proof -
  have "tracker_inv (tr s)" "flags_ok (tr s)" using reachable_inv [OF assms(1)] by (auto simp: sys_inv_def)
  from pipeline_pop_spec [OF this assms(2)] show ?thesis by (auto simp: first_ready_def)
qed

theorem pipeline_delivers_in_order_witness:
  "reachable sample_cfg sample_added \<and> \<not> stopCtx (tr sample_added) \<and> fst (pipeline_pop (tr sample_added)) = Got (sample_write 10)"
proof -
  have r: "\<not> stopCtx (tr sample_added)" by code_simp
  have "dropWhile (skippable (tr sample_added)) (rq (tr sample_added)) = [\<lparr>rd_tracked = 0, rd_write = sample_write 10\<rparr>]" by code_simp
  then show ?thesis using pipeline_delivers_in_order [OF sample_reachable(1) r] sample_reachable(1) r by simp
qed


text \<open>
  (C7) Failed entries: an entry is acknowledged without delivery only if its error cannot be
  retried or its failure counter has reached \<open>MaxRetries\<close>, every retry resends exactly one
  entry of a tracked write, and with a backoff configured no failed entry is forgotten - while
  its offset is pending it is given up or a retry for it is scheduled.
\<close>

theorem error_response_policy:
  assumes "reachable cfg s" "\<not> stopCtx (tr s)" "processErrorResponse now backoff es (tr s) = (Inr (m, rs), t1)"
  shows "(\<forall>(l, off) \<in> ack_offs m. \<exists>e \<in> set es. re_LSN (ee_Entry e) = l \<and> re_Offset (ee_Entry e) = off \<and> gives_up t1 e) \<and>
    (\<forall>x \<in> set rs. rt_tracked x \<in> set (tq (tr s)) \<and> (\<exists>e \<in> set es. wr_offsets (rt_write x) = {re_Offset (ee_Entry e)} \<and>
       re_LSN (ee_Entry e) = lsn_at (tr s) (rt_tracked x))) \<and>
    (0 < MaxBackoff (retryConfig (tr s)) \<longrightarrow> (\<forall>e \<in> set es. \<forall>a w.
       findTrackedWrite (tr s) (re_LSN (ee_Entry e)) = Some a \<and> re_Offset (ee_Entry e) \<in> pend (tr s) a \<and>
       tw_write (tw_at (tr s) a) = Some w \<and> re_Offset (ee_Entry e) \<in> wr_offsets w \<longrightarrow>
       (re_LSN (ee_Entry e), re_Offset (ee_Entry e)) \<in> ack_offs m \<or>
       (\<exists>x \<in> set rs. rt_tracked x = a \<and> re_Offset (ee_Entry e) \<in> wr_offsets (rt_write x))))"
proof -
  have inv: "tracker_inv (tr s)" using reachable_inv [OF assms(1)] by (simp add: sys_inv_def)
  have p: "process_entries now backoff es [] [] (tr s) = (Inr (m, rs), t1)" using assms(2,3) by (simp add: processErrorResponse_def)
  show ?thesis using process_entries_policy [OF p inv] process_entries_retries [OF p inv] process_entries_complete [OF p inv] by auto
qed

definition sample_errors :: "ErrorResponseEntry list" where
  "sample_errors =
     [\<lparr>ee_Entry = sample_resp 10 0, ee_Reason = \<lparr>err_Error = ''bad value'', IsRetryable = False, IsDownStreamDown = False\<rparr>\<rparr>,
      \<lparr>ee_Entry = sample_resp 10 1, ee_Reason = \<lparr>err_Error = ''timeout'', IsRetryable = True, IsDownStreamDown = False\<rparr>\<rparr>]"

theorem error_response_policy_witness:
  "\<exists>m rs t1 e. processErrorResponse 0 (\<lambda>_. 5) sample_errors (tr sample_sent) = (Inr (m, rs), t1) \<and>
     m = [(\<lparr>cp_LSN = 10, cp_XID = 7\<rparr>, [0])] \<and> e \<in> set sample_errors \<and> gives_up t1 e"
proof -
  let ?r = "processErrorResponse 0 (\<lambda>_. 5) sample_errors (tr sample_sent)"
  have "map_sum (\<lambda>_. ()) fst (fst ?r) = Inr [(\<lparr>cp_LSN = 10, cp_XID = 7\<rparr>, [0])]" by code_simp
  then obtain rs t1 where r: "?r = (Inr ([(\<lparr>cp_LSN = 10, cp_XID = 7\<rparr>, [0])], rs), t1)"
    by (cases "fst ?r"; cases ?r) auto
  have run: "\<not> stopCtx (tr sample_sent)" by code_simp
  have "(10, 0) \<in> ack_offs [(\<lparr>cp_LSN = 10, cp_XID = 7\<rparr>, [0])]" by (simp add: ack_offs_def)
  with error_response_policy [OF sample_reachable(2) run r] obtain e where "e \<in> set sample_errors" "gives_up t1 e" by blast
  with r show ?thesis by blast
qed

end
