(* ===== verification/Replsystem.thy ===== *)
theory Replsystem
  imports Replicator Lsnsystem
begin

text \<open>
  The replicator on top of the listener and the tracker, with writers and timers working in between:
  what is reported to Postgres is settled. The tracker's contract is a locale; the reporting client is
  verified in it once, as an abstract machine that the code's rounds refine.
\<close>

section \<open>Timeouts\<close>

lemma wrap64_id: "- (2 ^ 63) \<le> x \<Longrightarrow> x < 2 ^ 63 \<Longrightarrow> wrap64 x = x"
  by (simp add: wrap64_def sint_sbintrunc' signed_take_bit_int_eq_self)

text \<open>
  (C28) The timeouts fit: for standby timeouts below \<open>2 ^ 63 / 100\<close> nanoseconds, about three years, the
  products do not wrap, the receive timeout is below the standby timeout, and the threshold leaves
  room for a receive: a round that waits for a message for the whole receive timeout still starts
  the next one before the standby deadline. From two nanoseconds on the receive timeout is positive.
\<close>

theorem NewOptions_timeouts:
  assumes "standBy < 2 ^ 63 div 100" "opts = NewOptions slot pub standBy receive stats maxQueue"
  shows "0 < StandByTimeout opts \<and> 0 \<le> standbyThreshold opts \<and> standbyThreshold opts < StandByTimeout opts \<and>
    0 \<le> ReceiveMsgTimeout opts \<and> ReceiveMsgTimeout opts < StandByTimeout opts \<and>
    (2 \<le> StandByTimeout opts \<longrightarrow> 0 < ReceiveMsgTimeout opts) \<and>
    (StandByTimeout opts \<le> receive \<longrightarrow> ReceiveMsgTimeout opts + standbyThreshold opts \<le> StandByTimeout opts)"
proof -
  define s where "s = (if 0 < standBy then standBy else 10 * 1000000000)"
  define r where "r = (if 0 < receive then receive else 8 * 1000000000)"
  have s: "0 < s" "s < 2 ^ 63 div 100" using assms(1) by (auto simp: s_def)
  have "wrap64 (s * 15) = s * 15" "wrap64 (s * (100 - 15)) = s * 85" using s wrap64_id [of "s * 85"] by (auto intro!: wrap64_id)
  then have opts: "StandByTimeout opts = s" "standbyThreshold opts = s * 15 div 100"
      "ReceiveMsgTimeout opts = (if s \<le> r then s * 85 div 100 else r)"
    using s(1) unfolding assms(2) NewOptions_def Let_def s_def [symmetric] r_def [symmetric]
    by (simp_all only: Options.select_convs) (simp_all add: signed_divide_int_def)
  have "0 < r" by (simp add: r_def)
  moreover have "s * 15 div 100 < s" "s * 85 div 100 < s" "0 \<le> s * 15 div 100" "0 \<le> s * 85 div 100"
      "2 \<le> s \<Longrightarrow> 0 < s * 85 div 100" "s * 85 div 100 + s * 15 div 100 \<le> s"
    using s(1) div_mult_mod_eq [of "s * 15" 100] div_mult_mod_eq [of "s * 85" 100]
      pos_mod_bound [of 100 "s * 15"] pos_mod_bound [of 100 "s * 85"] pos_mod_sign [of 100 "s * 15"] pos_mod_sign [of 100 "s * 85"]
    by linarith+
  moreover have "s \<le> receive \<Longrightarrow> s \<le> r" using s(1) by (simp add: r_def)
  ultimately show ?thesis unfolding opts by auto
qed

theorem NewOptions_timeouts_witness:
  "ReceiveMsgTimeout (NewOptions ''s'' ''p'' 5000000000 0 0 0) < StandByTimeout (NewOptions ''s'' ''p'' 5000000000 0 0 0)"
  using NewOptions_timeouts [OF _ refl, of 5000000000 "''s''" "''p''" 0 0 0] by simp

section \<open>The contract of a confirmed position\<close>

text \<open>
  A source of confirmed positions evolves by itself; its confirmed position never goes back, and what
  is at or below it stays settled. The client below polls the position, keeps the largest and reports it.
\<close>

inductive reports :: "('s \<Rightarrow> 's \<Rightarrow> bool) \<Rightarrow> ('s \<Rightarrow> LSN) \<Rightarrow> 's \<Rightarrow> LSN \<Rightarrow> 's \<Rightarrow> LSN \<Rightarrow> LSN list \<Rightarrow> bool"
  for evolves confirmed init start where
  initial: "reports evolves confirmed init start init start []"
| evolve: "reports evolves confirmed init start s p sent \<Longrightarrow> evolves s s' \<Longrightarrow> reports evolves confirmed init start s' p sent"
| poll: "reports evolves confirmed init start s p sent \<Longrightarrow> p < confirmed s \<Longrightarrow> reports evolves confirmed init start s (confirmed s) sent"
| send: "reports evolves confirmed init start s p sent \<Longrightarrow> reports evolves confirmed init start s p (sent @ [p + 1])"

locale confirmed_source =
  fixes good :: "'s \<Rightarrow> bool"
    and evolves :: "'s \<Rightarrow> 's \<Rightarrow> bool"
    and confirmed :: "'s \<Rightarrow> LSN"
    and settled :: "'s \<Rightarrow> LSN \<Rightarrow> bool"
  assumes evolves_good: "good s \<Longrightarrow> evolves s s' \<Longrightarrow> good s'"
    and evolves_mono: "good s \<Longrightarrow> evolves s s' \<Longrightarrow> confirmed s \<le> confirmed s'"
    and confirmed_settled: "good s \<Longrightarrow> 0 < confirmed s \<Longrightarrow> l \<le> confirmed s \<Longrightarrow> settled s l"
begin

lemma reports_inv:
  assumes "good init" "reports evolves confirmed init start s p sent"
  shows "good s \<and> start \<le> p \<and> (p = start \<or> 0 < p \<and> p \<le> confirmed s) \<and>
    (\<forall>q \<in> set sent. \<exists>c. q = c + 1 \<and> c \<le> p \<and> (c = start \<or> 0 < c \<and> c \<le> confirmed s))"
  using assms(2)
proof induction
  case initial
  then show ?case using assms(1) by simp
next
  case (evolve s p sent s')
  then show ?case using evolves_good evolves_mono by (meson order_trans)
next
  case (poll s p sent)
  then have "0 < confirmed s" by (metis le_less_trans word_zero_le)
  with poll show ?case by (meson less_imp_le order_refl order_trans)
qed auto

text \<open>A report beyond the start covers settled positions only.\<close>

lemma reports_settled:
  assumes "good init" "reports evolves confirmed init start s p sent" "q \<in> set sent" "q \<noteq> start + 1" "l < q"
  shows "settled s l"
proof -
  obtain c where c: "q = c + 1" "c = start \<or> 0 < c \<and> c \<le> confirmed s" and g: "good s"
    using reports_inv [OF assms(1,2)] assms(3) by blast
  have "c \<le> confirmed s" "0 < confirmed s" using c assms(4) by auto
  moreover have "l \<le> c" using assms(5) c(1) by (metis inc_le le_less_linear not_less)
  ultimately show ?thesis using confirmed_settled [OF g] by simp
qed

end

text \<open>The tracker with its writers and timers is such a source.\<close>

definition sys_confirmed :: "'t sys \<Rightarrow> LSN" where
  "sys_confirmed s = cp_LSN (maxAcknowledged (tr s))"

definition sys_settled :: "'t sys \<Rightarrow> LSN \<Rightarrow> bool" where
  "sys_settled s l \<longleftrightarrow> (\<forall>off. (l, off) \<in> tracked s \<longrightarrow> (l, off) \<in> delivered s \<union> dropped s)"

interpretation tracker_source: confirmed_source sys_inv step sys_confirmed sys_settled
proof unfold_locales
  show "sys_inv s \<Longrightarrow> step s s' \<Longrightarrow> sys_inv s'" for s s' :: "'a sys" by (rule sys_inv_step)
  show "sys_inv s \<Longrightarrow> step s s' \<Longrightarrow> sys_confirmed s \<le> sys_confirmed s'" for s s' :: "'a sys"
    using step_moves [of s s'] by (auto simp: moves_def sys_confirmed_def)
  show "sys_settled s l" if "sys_inv s" "0 < sys_confirmed s" "l \<le> sys_confirmed s" for s :: "'a sys" and l
    using acknowledged_is_settled [OF that(1)] that(2,3) by (auto simp: sys_settled_def sys_confirmed_def isAcknowledged_def)
qed

section \<open>The replicator on the tracker\<close>

text \<open>
  The state: the replicator, the listener, the tracker with what happened to it, and the positions
  sent to Postgres. The tracker of the listener is the tracker of the system. Writers, timers and the
  write pipeline work between any two steps of the replicator.
\<close>

record 'x rsys =
  rs_repl :: PGReplicator
  rs_lst :: "'x listener"
  rs_sys :: "'x row sys"
  rs_sent :: "LSN list"

definition rsys_init :: "Options \<Rightarrow> LSN \<Rightarrow> ListenerOptions \<Rightarrow> (string \<times> TableConfig) list \<Rightarrow> RetryConfig \<Rightarrow> Arena \<Rightarrow> 'x rsys" where
  "rsys_init opts lsn lopts tables cfg arena =
     \<lparr>rs_repl = set_start lsn (MustCreate opts), rs_lst = NewListener lopts tables cfg arena, rs_sys = sys_init cfg, rs_sent = []\<rparr>"

inductive rstep :: "'x repl_host \<Rightarrow> 'x rsys \<Rightarrow> 'x rsys \<Rightarrow> bool" for h where
  work: "step (rs_sys s) y \<Longrightarrow> rstep h s (s\<lparr>rs_sys := y, rs_lst := (rs_lst s)\<lparr>lsnTracker := tr y\<rparr>\<rparr>)"
| connect: "rstep h s (s\<lparr>rs_repl := read_start now (rs_repl s)\<rparr>)"
| send: "sendStandBy now later sendErr (rs_repl s) = Inr (sent, r) \<Longrightarrow>
    rstep h s (s\<lparr>rs_repl := r, rs_sent := rs_sent s @ opt_list sent\<rparr>)"
| receive: "receiveAndProcessMsg h pubTables recv (rs_repl s, rs_lst s) = (res, r, l) \<Longrightarrow>
    step\<^sup>=\<^sup>= (rs_sys s) y \<Longrightarrow> tr y = lsnTracker l \<Longrightarrow> rstep h s (s\<lparr>rs_repl := r, rs_lst := l, rs_sys := y\<rparr>)"
| poll: "take_commit_pos (rs_repl s, rs_lst s) = (r, l) \<Longrightarrow>
    rstep h s (s\<lparr>rs_repl := r, rs_lst := l, rs_sys := (rs_sys s)\<lparr>tr := lsnTracker l\<rparr>\<rparr>)"

abbreviation rsteps :: "'x repl_host \<Rightarrow> 'x rsys \<Rightarrow> 'x rsys \<Rightarrow> bool" where
  "rsteps h \<equiv> (rstep h)\<^sup>*\<^sup>*"

subsection \<open>What a message does to the tracker\<close>

lemma sendToLSNTracker_tracker:
  "sendToLSNTracker txl lsn xid t l = Inr l' \<Longrightarrow> \<exists>w. lsnTracker l' = snd (Add w (lsnTracker l))"
  by (auto simp: sendToLSNTracker_def sendWALRequestToLSNTracker_def Let_def split: if_splits)

lemma appendToTxCache_tracker: "appendToTxCache fmt xid rel kind d prev l = Inr l' \<Longrightarrow> lsnTracker l' = lsnTracker l"
  by (auto simp: appendToTxCache_def Let_def)

lemma OnRelation_tracker: "OnRelation pt tx msg l = Inr l' \<Longrightarrow> lsnTracker l' = lsnTracker l"
  by (auto simp: OnRelation_def LoadPubTables_def mergeConfigAndPubTables_def Let_def split: sum.splits option.splits if_splits)

lemma dispatch_tracker:
  assumes "dispatch h pt msg l = Inr l'"
  shows "lsnTracker l' = lsnTracker l \<or> (\<exists>w. lsnTracker l' = snd (Add w (lsnTracker l)))"
proof (cases msg)
  case (CommitMessage e t)
  then show ?thesis using assms sendToLSNTracker_tracker
    by (fastforce simp: dispatch_def OnTxCommit_def split: if_splits)
next
  case (LogicalDecodingMessageV2 tx msgPrefix content lsn)
  then show ?thesis using assms
    by (simp add: dispatch_def OnLogicalDecodingMessage_def sendWALRequestToLSNTracker_def split: if_splits) (metis listener.select_convs(8) listener.update_convs(8) listener.surjective)+
next
  case (StreamCommitMessageV2 xid lsn t)
  then show ?thesis using assms sendToLSNTracker_tracker by (fastforce simp: dispatch_def OnStreamCommit_def)
qed (use assms in \<open>auto simp: dispatch_def OnInsert_def OnUpdate_def OnDelete_def OnTruncate_def OnStreamStart_def OnStreamStop_def
       OnStreamAbort_def OnTxBegin_def OnLogicalDecodingMessage_def sendWALRequestToLSNTracker_def
       dest!: OnRelation_tracker appendToTxCache_tracker split: option.splits\<close>)

lemma note_message_pos [simp]: "pos (note_message msg st) = pos st"
  by (cases msg) (simp_all add: note_message_def)

lemma receive_effect:
  assumes "receiveAndProcessMsg h pt recv (r, l) = (res, r', l')"
  shows "pos (rp_state r') = pos (rp_state r) \<and>
    (lsnTracker l' = lsnTracker l \<or> (\<exists>w. lsnTracker l' = snd (Add w (lsnTracker l))))"
  using assms dispatch_tracker [of h pt _ l l']
  by (auto simp: receiveAndProcessMsg_def processMsg_def processXLogData_def processV2_def processPrimaryKeepAlive_def Let_def
      split: received.splits list.splits if_splits sum.splits)

text \<open>A message can always be processed: the tracker takes at most one step.\<close>

lemma receive_enabled:
  assumes "tr (rs_sys s) = lsnTracker (rs_lst s)" "receiveAndProcessMsg h pt recv (rs_repl s, rs_lst s) = (res, r, l)"
  obtains y where "step\<^sup>=\<^sup>= (rs_sys s) y" "tr y = lsnTracker l"
proof -
  consider "lsnTracker l = tr (rs_sys s)" | w where "lsnTracker l = snd (Add w (tr (rs_sys s)))"
    using receive_effect [OF assms(2)] assms(1) by auto
  then show ?thesis
  proof cases
    case 1
    then show ?thesis using that [of "rs_sys s"] by simp
  next
    case (2 w)
    have "step\<^sup>=\<^sup>= (rs_sys s) y" if "step (rs_sys s) y" for y using that by blast
    from that [OF this [OF step.add [of "rs_sys s" w]]] show ?thesis using 2 by simp
  qed
qed

subsection \<open>The steps refine the reporting client\<close>

definition repl_pos :: "'x rsys \<Rightarrow> LSN" where
  "repl_pos s = cp_LSN (pos (rp_state (rs_repl s)))"

definition follows :: "'x row sys \<Rightarrow> LSN \<Rightarrow> 'x rsys \<Rightarrow> bool" where
  "follows y0 p0 s \<longleftrightarrow> reports step sys_confirmed y0 p0 (rs_sys s) (repl_pos s) (rs_sent s) \<and> tr (rs_sys s) = lsnTracker (rs_lst s)"

lemma follows_step:
  assumes "follows y0 p0 s" "rstep h s s'"
  shows "follows y0 p0 s'"
  using assms(2)
proof cases
  case (work y)
  then show ?thesis using assms(1) by (auto simp: follows_def repl_pos_def intro: reports.evolve)
next
  case (connect now)
  then show ?thesis using assms(1) by (simp add: follows_def repl_pos_def read_start_def)
next
  case (send now later sendErr sent r)
  then show ?thesis using assms(1) reports.send
    by (fastforce simp: follows_def repl_pos_def sendStandBy_def Let_def split: if_splits option.splits)
next
  case (receive pubTables recv res r l y)
  then show ?thesis using assms(1) receive_effect [OF receive(2)] by (auto simp: follows_def repl_pos_def intro: reports.evolve)
next
  case (poll r l)
  let ?y = "(rs_sys s)\<lparr>tr := snd (MaxAcknowledged (tr (rs_sys s)))\<rparr>"
  have tr: "tr (rs_sys s) = lsnTracker (rs_lst s)" using assms(1) by (simp add: follows_def)
  then have y: "(rs_sys s)\<lparr>tr := lsnTracker l\<rparr> = ?y" and c: "sys_confirmed ?y = cp_LSN (fst (CommitPos (rs_lst s)))"
    using poll(2) by (auto simp: take_commit_pos_def CommitPos_def MaxAcknowledged_def sys_confirmed_def Let_def split: prod.splits)
  have "reports step sys_confirmed y0 p0 (rs_sys s) (repl_pos s) (rs_sent s)" using assms(1) by (simp add: follows_def)
  from reports.evolve [where s' = ?y, OF this step.confirm] have "reports step sys_confirmed y0 p0 ?y (repl_pos s) (rs_sent s)" .
  then have "reports step sys_confirmed y0 p0 ?y (max (repl_pos s) (sys_confirmed ?y)) (rs_sent s)"
    using reports.poll by (fastforce simp: max_def)
  moreover have "cp_LSN (pos (rp_state r)) = max (repl_pos s) (sys_confirmed ?y)"
    using poll(2) unfolding c by (auto simp: take_commit_pos_def repl_pos_def Let_def split: prod.splits if_splits)
  ultimately have "reports step sys_confirmed y0 p0 ((rs_sys s)\<lparr>tr := lsnTracker l\<rparr>) (cp_LSN (pos (rp_state r))) (rs_sent s)"
    by (simp only: y)
  then show ?thesis using poll(1) by (simp add: follows_def repl_pos_def)
qed

lemma follows_steps: "rsteps h s s' \<Longrightarrow> follows y0 p0 s \<Longrightarrow> follows y0 p0 s'"
  by (induction rule: rtranclp_induct) (auto dest: follows_step)

lemma follows_init: "follows (sys_init cfg) (if 0 < lsn then lsn - 1 else 0) (rsys_init opts lsn lopts tables cfg arena)"
  by (simp add: follows_def rsys_init_def repl_pos_def set_start_def MustCreate_def NewListener_def sys_init_def reports.initial)

lemma sys_inv_init: "sys_inv (sys_init cfg)"
  by (rule reachable_inv [OF reachable.init])

text \<open>
  (C1) What Postgres may discard is settled. In every state that replicator, listener, tracker, writers
  and timers can reach, in any interleaving, a position sent to Postgres beyond the start position
  covers settled entries only: every entry tracked below it was reported as written by a writer,
  or was acknowledged without delivery. Entries that arrive later do not break this.
\<close>

theorem reported_is_settled:
  assumes "rsteps h (rsys_init opts lsn lopts tables cfg arena) s" "p \<in> set (rs_sent s)"
    and "p \<noteq> (if 0 < lsn then lsn else 1)" "(l, off) \<in> tracked (rs_sys s)" "l < p"
  shows "(l, off) \<in> delivered (rs_sys s) \<union> dropped (rs_sys s)"
proof -
  let ?p0 = "if 0 < lsn then lsn - 1 else 0"
  have "?p0 + 1 = (if 0 < lsn then lsn else 1)" by simp
  then have "sys_settled (rs_sys s) l"
    using tracker_source.reports_settled [OF sys_inv_init, of cfg ?p0 "rs_sys s" "repl_pos s" "rs_sent s" p l]
      follows_steps [OF assms(1) follows_init] assms(2,3,5) by (simp add: follows_def)
  then show ?thesis using assms(4) by (auto simp: sys_settled_def)
qed

definition row_write :: "nat row WriteRequest" where
  "row_write = \<lparr>wr_Entries =
     [\<lparr>we_Tuple = NoTuple, we_PrevTuple = NoTuple, we_PK = ''1'', we_Kind = Insert, we_Table = sample_table, we_Offset = 0\<rparr>],
     wr_LSN = 10, wr_XID = 7, wr_CommitTime = 0, wr_isSnapshot = False\<rparr>"

definition row_init :: "nat rsys" where
  "row_init = rsys_init (NewOptions ''slot'' ''pub'' 0 0 0 0) 5 (NewListenerOptions ''pub'' PgNumericModeFloat ''app'') [] sample_cfg NewArena"

lemma row_run:
  "\<exists>s. rsteps h row_init s \<and> 11 \<in> set (rs_sent s) \<and> (10, 0) \<in> tracked (rs_sys s)"
proof -
  define t1 where "t1 = snd (Add row_write (NewLSNTracker sample_cfg))"
  define t2 where "t2 = snd (OnSuccess [sample_resp 10 0] t1)"
  define y1 where "y1 = (sys_init sample_cfg)\<lparr>tr := t1, tracked := {(10, 0)}\<rparr>"
  define y2 where "y2 = y1\<lparr>tr := t2, delivered := {(10, 0)}\<rparr>"
  have "newly_tracked row_write (tr (sys_init sample_cfg))" by code_simp
  moreover have "{wr_LSN row_write} \<times> pending (newTrackedWriteRequest row_write) = {(10, 0)}"
    by (auto simp: newTrackedWriteRequest_def row_write_def)
  ultimately have y1: "step (rs_sys row_init) y1"
    using step.add [of "sys_init sample_cfg" row_write] by (simp add: y1_def t1_def row_init_def rsys_init_def sys_init_def)
  have y2: "step y1 y2"
    using step.success [of y1 "[sample_resp 10 0]"] by (simp add: y2_def t2_def y1_def sys_init_def resp_offs_def sample_resp_def)
  define s2 where "s2 = row_init\<lparr>rs_sys := y2, rs_lst := (rs_lst row_init)\<lparr>lsnTracker := t2\<rparr>\<rparr>"
  have s2: "rsteps h row_init s2"
  proof -
    let ?s1 = "row_init\<lparr>rs_sys := y1, rs_lst := (rs_lst row_init)\<lparr>lsnTracker := tr y1\<rparr>\<rparr>"
    have "rstep h row_init ?s1" by (rule rstep.work [OF y1])
    moreover have "rstep h ?s1 s2" using rstep.work [of ?s1 y2 h] y2 by (simp add: s2_def y2_def)
    ultimately show ?thesis by simp
  qed
  have max: "cp_LSN (fst (MaxAcknowledged t2)) = 10" unfolding t2_def t1_def by code_simp
  obtain r l where p: "take_commit_pos (rs_repl s2, rs_lst s2) = (r, l)" by fastforce
  have r: "cp_LSN (pos (rp_state r)) = 10" "nextStandBy (rp_state r) = None"
    using p max by (auto simp: take_commit_pos_def CommitPos_def s2_def row_init_def rsys_init_def set_start_def MustCreate_def Let_def split: prod.splits if_splits)
  let ?s3 = "s2\<lparr>rs_repl := r, rs_lst := l, rs_sys := (rs_sys s2)\<lparr>tr := lsnTracker l\<rparr>\<rparr>"
  obtain r' where send: "sendStandBy 0 0 None r = Inr (Some 11, r')"
    using r by (simp add: sendStandBy_def standby_due_def Let_def)
  let ?s4 = "?s3\<lparr>rs_repl := r', rs_sent := rs_sent ?s3 @ opt_list (Some 11)\<rparr>"
  have "rstep h s2 ?s3" by (rule rstep.poll [OF p])
  moreover have "rstep h ?s3 ?s4" using rstep.send [of 0 0 None ?s3 "Some 11" r' h] send by simp
  ultimately have "rsteps h row_init ?s4" using s2 by (meson rtranclp.rtrancl_into_rtrancl)
  moreover have "11 \<in> set (rs_sent ?s4) \<and> (10, 0) \<in> tracked (rs_sys ?s4)" by (simp add: s2_def y2_def y1_def)
  ultimately show ?thesis by blast
qed

theorem reported_is_settled_witness:
  "\<exists>h :: nat repl_host. \<exists>s. rsteps h row_init s \<and> 11 \<in> set (rs_sent s) \<and> (10, 0) \<in> tracked (rs_sys s) \<and>
     (10, 0) \<in> delivered (rs_sys s) \<union> dropped (rs_sys s)"
proof -
  fix h :: "nat repl_host"
  obtain s where s: "rsteps h row_init s" "11 \<in> set (rs_sent s)" "(10, 0) \<in> tracked (rs_sys s)" using row_run by blast
  then show ?thesis using reported_is_settled [OF s(1) [unfolded row_init_def] s(2) _ s(3)] by auto
qed

section \<open>Rounds of the read loop\<close>

text \<open>
  A round of the loop is a run of the steps above: report, receive at most one message, take the
  confirmed position. So what holds of all runs holds of the loop.
\<close>

lemma read_round_steps:
  assumes "read_round h i errs (rs_repl s, rs_lst s) = Inr res" "rr_state res = (r, l)" "tr (rs_sys s) = lsnTracker (rs_lst s)"
  shows "\<exists>y. rsteps h s (s\<lparr>rs_repl := r, rs_lst := l, rs_sys := y, rs_sent := rs_sent s @ opt_list (rr_sent res)\<rparr>) \<and> tr y = lsnTracker l"
proof (cases "sendStandBy (ri_now i) (ri_later i) (ri_sendErr i) (rs_repl s)")
  case (Inl e)
  then have "rr_sent res = None" "r = rs_repl s" "l = rs_lst s" using assms(1,2) by (auto simp: read_round_def split: go_error.splits)
  then show ?thesis using assms(3) by (intro exI [where x = "rs_sys s"]) simp
next
  case (Inr sr)
  obtain sent r1 where sr: "sr = (sent, r1)" by fastforce
  let ?s1 = "s\<lparr>rs_repl := r1, rs_sent := rs_sent s @ opt_list sent\<rparr>"
  have s1: "rstep h s ?s1" by (rule rstep.send [OF Inr [unfolded sr]])
  show ?thesis
  proof (cases "errs @ ri_shutdown i = []")
    case False
    then have "rr_sent res = sent" "r = r1" "l = rs_lst s" using assms(1,2) Inr by (auto simp: read_round_def sr Let_def)
    then show ?thesis using s1 assms(3) by (intro exI [where x = "rs_sys s"]) auto
  next
    case True
    obtain res1 r2 l2 where recv: "receiveAndProcessMsg h (ri_pubTables i) (ri_recv i) (r1, rs_lst s) = (res1, r2, l2)" by (metis prod_cases3)
    define rl2 where "rl2 = (if may_receive (r1, rs_lst s) then (r2, l2) else (r1, rs_lst s))"
    have fin: "rr_sent res = sent \<and> (r, l) = take_commit_pos rl2"
      using assms(1,2) Inr True recv
      by (auto simp: read_round_def sr rl2_def Let_def split: if_splits go_error.splits sum.splits)
    obtain y where y: "rsteps h ?s1 (?s1\<lparr>rs_repl := fst rl2, rs_lst := snd rl2, rs_sys := y\<rparr>)" "tr y = lsnTracker (snd rl2)"
    proof (cases "may_receive (r1, rs_lst s)")
      case m: True
      have t: "tr (rs_sys ?s1) = lsnTracker (rs_lst ?s1)"
        and rc: "receiveAndProcessMsg h (ri_pubTables i) (ri_recv i) (rs_repl ?s1, rs_lst ?s1) = (res1, r2, l2)"
        using recv assms(3) by simp_all
      obtain y where y: "step\<^sup>=\<^sup>= (rs_sys ?s1) y" "tr y = lsnTracker l2" by (rule receive_enabled [OF t rc])
      have "rstep h ?s1 (?s1\<lparr>rs_repl := r2, rs_lst := l2, rs_sys := y\<rparr>)" by (rule rstep.receive [OF rc y])
      then show ?thesis using that [of y] y(2) m by (simp add: rl2_def r_into_rtranclp)
    next
      case False
      then have "?s1\<lparr>rs_repl := fst rl2, rs_lst := snd rl2, rs_sys := rs_sys s\<rparr> = ?s1" by (cases s) (simp add: rl2_def)
      then have "rsteps h ?s1 (?s1\<lparr>rs_repl := fst rl2, rs_lst := snd rl2, rs_sys := rs_sys s\<rparr>)" by (simp only: rtranclp.rtrancl_refl)
      then show ?thesis using that [of "rs_sys s"] assms(3) False by (simp add: rl2_def)
    qed
    let ?s2 = "?s1\<lparr>rs_repl := fst rl2, rs_lst := snd rl2, rs_sys := y\<rparr>"
    let ?s3 = "?s2\<lparr>rs_repl := r, rs_lst := l, rs_sys := (rs_sys ?s2)\<lparr>tr := lsnTracker l\<rparr>\<rparr>"
    have "rstep h ?s2 ?s3" by (rule rstep.poll) (use fin in simp)
    then have run: "rsteps h s ?s3" using s1 y(1) by (meson converse_rtranclp_into_rtranclp rtranclp.rtrancl_into_rtrancl)
    have "?s3 = s\<lparr>rs_repl := r, rs_lst := l, rs_sys := y\<lparr>tr := lsnTracker l\<rparr>, rs_sent := rs_sent s @ opt_list (rr_sent res)\<rparr>"
      using fin by (cases s) simp
    with run have "rsteps h s (s\<lparr>rs_repl := r, rs_lst := l, rs_sys := y\<lparr>tr := lsnTracker l\<rparr>, rs_sent := rs_sent s @ opt_list (rr_sent res)\<rparr>)"
      by (simp only:)
    then show ?thesis by (intro exI [where x = "y\<lparr>tr := lsnTracker l\<rparr>"]) simp
  qed
qed

section \<open>What a lost connection leaves behind\<close>

text \<open>
  (C37) A connection lost inside a streamed block leaves the flag set: when the read fails with a network
  error after a stream start, replication is started again from the confirmed position, but the first
  message of the new connection is parsed as part of a stream, although the server begins outside of one.
\<close>

theorem reconnect_keeps_stream_flag:
  assumes "\<not> inStream (rp_state r)" "WatchXID (rp_Options r) = 0" "parseV2 h d False = Inr StreamStartMessageV2"
  shows "\<exists>r'. processV2 h pt d (r, l) = (Inr (), r', l) \<and>
    after_read NetOpError r' = Inr (cp_LSN (pos (rp_state r)), r') \<and>
    (\<forall>now. inStream (rp_state (read_start now r'))) \<and>
    (\<forall>now d' e. parseV2 h d' True = Inl e \<longrightarrow>
      fst (processV2 h pt d' (read_start now r', l)) = Inl (wrap_err ''failed to process WAL data: '' e))"
  using assms
  by (simp add: processV2_def dispatch_def note_message_def OnStreamStart_def after_read_def isErrRecoverable_def read_start_def)

definition stream_host :: "nat repl_host" where
  "stream_host = \<lparr>parseV2 = (\<lambda>d inStream. if inStream then Inl (Error ''short message'') else Inr StreamStartMessageV2),
     parseXLogData = Inr, parseKeepalive = (\<lambda>_. Inr False), rh_decoder = (\<lambda>_ _ _. Inr None), rh_fmt = (\<lambda>_. []),
     rh_txOpts = \<lparr>tx_Save = False, tx_Name = []\<rparr>\<rparr>"

theorem reconnect_keeps_stream_flag_witness:
  "\<exists>r'. processV2 stream_host (Inl (Error [])) ''S'' (MustCreate (NewOptions ''slot'' ''pub'' 0 0 0 0), rs_lst row_init) = (Inr (), r', rs_lst row_init) \<and>
     fst (processV2 stream_host (Inl (Error [])) ''B'' (read_start 0 r', rs_lst row_init)) = Inl (Error ''failed to process WAL data: short message'')"
proof -
  have "\<not> inStream (rp_state (MustCreate (NewOptions ''slot'' ''pub'' 0 0 0 0)))" "WatchXID (rp_Options (MustCreate (NewOptions ''slot'' ''pub'' 0 0 0 0))) = 0"
    "parseV2 stream_host ''S'' False = Inr StreamStartMessageV2" "parseV2 stream_host ''B'' True = Inl (Error ''short message'')"
    by (simp_all add: MustCreate_def NewOptions_def stream_host_def Let_def)
  from reconnect_keeps_stream_flag [OF this(1-3), where pt = "Inl (Error [])" and l = "rs_lst row_init"] this(4) show ?thesis
    by auto
qed

text \<open>
  A transaction that is streamed and then aborted leaves \<open>txActive\<close> set, so until the next commit the
  loop receives messages however full the write queue is.
\<close>

lemma abort_leaves_unthrottled:
  assumes "\<not> inStream (rp_state r)" "parseV2 h d1 False = Inr StreamStartMessageV2" "parseV2 h d2 True = Inr StreamStopMessageV2"
    and "parseV2 h d3 False = Inr (StreamAbortMessageV2 xid)"
  shows "may_receive (snd (processV2 h pt d3 (snd (processV2 h pt d2 (snd (processV2 h pt d1 (r, l)))))))"
  using assms
  by (simp add: processV2_def dispatch_def note_message_def may_receive_def canThrottlePgMessage_def OnStreamStart_def OnStreamStop_def)

end
