(* ===== verification/Snapshotstate.thy ===== *)
theory Snapshotstate
  imports Jsonparsing Pgschema Appconfig
begin

text \<open>
  \<open>snapshot/state.go\<close>, \<open>snapshot/checkpoint.go\<close> and the part of \<open>snapshot/manager.go\<close> that
  prepares the state of the tables: the state of a table's snapshot, and the table
  \<open>pgwalk.snapshot_state\<close> that survives a restart. The stored table is a map from its primary key
  (application, table) to the row; every statement of the state manager is the update of that map
  its SQL text states. Acquiring a connection and executing a statement may fail: their outcomes
  are arguments, and so are the clock readings of \<open>NOW()\<close>.
\<close>

section \<open>Table state\<close>

datatype SnapshotStatus = StatusPending | StatusInProgress | StatusCompleted | StatusFailed | StatusOther string

record TableState =
  ts_AppName :: string
  ts_TableName :: string
  ts_SnapshotLSN :: string
  ts_SnapshotType :: string
  ts_SnapshotQuery :: "string option"
  ts_TotalRows :: "int option"
  ts_ProcessedRows :: int
  ts_Status :: SnapshotStatus
  ts_StartedAt :: "int option"
  ts_UpdatedAt :: "int option"
  ts_SnapshotStart :: "int option"
  ts_SnapshotEnd :: "int option"
  ts_ErrorMessage :: "string option"
  ts_whereClause :: string

definition TotalRowsValue :: "TableState \<Rightarrow> int" where
  "TotalRowsValue t = (case ts_TotalRows t of None \<Rightarrow> 0 | Some n \<Rightarrow> n)"

text \<open>The zero value of the struct with the two names \<open>prepareTableState\<close> sets.\<close>

definition new_TableState :: "string \<Rightarrow> string \<Rightarrow> TableState" where
  "new_TableState appName tableName =
     \<lparr>ts_AppName = appName, ts_TableName = tableName, ts_SnapshotLSN = [], ts_SnapshotType = [], ts_SnapshotQuery = None,
      ts_TotalRows = None, ts_ProcessedRows = 0, ts_Status = StatusOther [], ts_StartedAt = None, ts_UpdatedAt = None,
      ts_SnapshotStart = None, ts_SnapshotEnd = None, ts_ErrorMessage = None, ts_whereClause = []\<rparr>"

section \<open>The state manager\<close>

type_synonym state_table = "string \<times> string \<rightharpoonup> TableState"

text \<open>The connection that is kept between calls: whether there is one, and whether it is closed.\<close>

record StateManager =
  sm_appName :: string
  sm_conn :: "bool option"

definition NewStateManager :: "string \<Rightarrow> StateManager" where
  "NewStateManager appName = \<lparr>sm_appName = appName, sm_conn = None\<rparr>"

definition connection :: "unit go_result \<Rightarrow> StateManager \<Rightarrow> unit go_result \<times> StateManager" where
  "connection acquire s =
     (if sm_conn s = Some False then (Inr (), s)
      else (case acquire of
          Inl e \<Rightarrow> (Inl (wrap_err ''failed to acquire primary connection: '' e), s)
        | Inr _ \<Rightarrow> (Inr (), s\<lparr>sm_conn := Some False\<rparr>)))"

definition withConnection ::
  "unit go_result \<Rightarrow> (state_table \<Rightarrow> 'a go_result \<times> state_table) \<Rightarrow> StateManager \<Rightarrow> state_table \<Rightarrow>
   'a go_result \<times> StateManager \<times> state_table" where
  "withConnection acquire f s db =
     (case connection acquire s of
        (Inl e, s1) \<Rightarrow> (Inl e, s1, db)
      | (Inr _, s1) \<Rightarrow> (case f db of (r, db1) \<Rightarrow> (r, s1, db1)))"

definition sm_Close :: "unit go_result \<Rightarrow> StateManager \<Rightarrow> unit go_result \<times> StateManager" where
  "sm_Close closed s = (if sm_conn s = None then (Inr (), s) else (closed, s\<lparr>sm_conn := None\<rparr>))"

text \<open>A statement takes effect when its execution succeeds, and not at all otherwise.\<close>

definition exec_stmt :: "unit go_result \<Rightarrow> (state_table \<Rightarrow> state_table) \<Rightarrow> state_table \<Rightarrow> unit go_result \<times> state_table" where
  "exec_stmt exec u db = (case exec of Inl e \<Rightarrow> (Inl e, db) | Inr _ \<Rightarrow> (Inr (), u db))"

definition update_row :: "string \<Rightarrow> string \<Rightarrow> (TableState \<Rightarrow> TableState) \<Rightarrow> state_table \<Rightarrow> state_table" where
  "update_row app table u db = (case db (app, table) of None \<Rightarrow> db | Some r \<Rightarrow> db((app, table) \<mapsto> u r))"

definition CreateSnapshotStateTableIfNotExists ::
  "unit go_result \<Rightarrow> unit go_result \<Rightarrow> StateManager \<Rightarrow> state_table \<Rightarrow> unit go_result \<times> StateManager \<times> state_table" where
  "CreateSnapshotStateTableIfNotExists acquire exec s db = withConnection acquire (exec_stmt exec (\<lambda>db. db)) s db"

text \<open>
  \<open>LoadTablesState\<close>: the rows of the application by table name, the where clause (which is not
  stored) empty. \<open>query\<close> is the outcome of running and scanning the query.
\<close>

definition LoadTablesState ::
  "unit go_result \<Rightarrow> unit go_result \<Rightarrow> StateManager \<Rightarrow> state_table \<Rightarrow>
   (string \<rightharpoonup> TableState) go_result \<times> StateManager \<times> state_table" where
  "LoadTablesState acquire query s db =
     withConnection acquire (\<lambda>db. (bind_result query (\<lambda>_. Inr (\<lambda>name.
       map_option (\<lambda>r. r\<lparr>ts_AppName := sm_appName s, ts_whereClause := []\<rparr>) (db (sm_appName s, name)))), db)) s db"

definition upsert_row :: "int \<Rightarrow> string \<Rightarrow> TableState \<Rightarrow> state_table \<Rightarrow> state_table" where
  "upsert_row now app st db =
     (let base = (case db (app, ts_TableName st) of
                    None \<Rightarrow> (new_TableState app (ts_TableName st))
                  | Some r \<Rightarrow> r\<lparr>ts_SnapshotStart := None, ts_SnapshotEnd := None\<rparr>)
      in db((app, ts_TableName st) \<mapsto> base\<lparr>ts_SnapshotLSN := ts_SnapshotLSN st, ts_SnapshotType := ts_SnapshotType st,
           ts_SnapshotQuery := ts_SnapshotQuery st, ts_TotalRows := ts_TotalRows st, ts_ProcessedRows := ts_ProcessedRows st,
           ts_Status := ts_Status st, ts_UpdatedAt := Some now\<rparr>))"

definition UpsertTableState ::
  "unit go_result \<Rightarrow> unit go_result \<Rightarrow> int \<Rightarrow> TableState \<Rightarrow> StateManager \<Rightarrow> state_table \<Rightarrow> unit go_result \<times> StateManager \<times> state_table" where
  "UpsertTableState acquire exec now st s db =
     withConnection acquire (exec_stmt exec (upsert_row now (sm_appName s) st)) s db"

text \<open>The four statements of \<open>progressUpdateStatement\<close> as updates of a row; no statement is \<open>None\<close>.\<close>

definition progressUpdateStatement ::
  "int \<Rightarrow> int \<Rightarrow> SnapshotStatus \<Rightarrow> string option \<Rightarrow> (TableState \<Rightarrow> TableState) option" where
  "progressUpdateStatement now processedRows status errorMessage =
     (if status = StatusInProgress \<and> 0 < processedRows
      then Some (\<lambda>r. r\<lparr>ts_ProcessedRows := processedRows, ts_Status := status, ts_UpdatedAt := Some now\<rparr>)
      else if status = StatusCompleted \<and> 0 < processedRows
      then Some (\<lambda>r. r\<lparr>ts_ProcessedRows := processedRows, ts_Status := status, ts_ErrorMessage := errorMessage,
                       ts_SnapshotEnd := Some now, ts_UpdatedAt := Some now\<rparr>)
      else if status = StatusCompleted
      then Some (\<lambda>r. r\<lparr>ts_Status := status, ts_ErrorMessage := errorMessage, ts_SnapshotEnd := Some now, ts_UpdatedAt := Some now\<rparr>)
      else if status = StatusFailed
      then Some (\<lambda>r. r\<lparr>ts_Status := status, ts_ErrorMessage := errorMessage, ts_UpdatedAt := Some now\<rparr>)
      else None)"

definition UpdateProgress ::
  "unit go_result \<Rightarrow> unit go_result \<Rightarrow> int \<Rightarrow> string \<Rightarrow> int \<Rightarrow> SnapshotStatus \<Rightarrow> string option \<Rightarrow> StateManager \<Rightarrow> state_table \<Rightarrow>
   unit go_result \<times> StateManager \<times> state_table" where
  "UpdateProgress acquire exec now tableName processedRows status errorMessage s db =
     withConnection acquire (\<lambda>db.
       case progressUpdateStatement now processedRows status errorMessage of
         None \<Rightarrow> (Inr (), db)
       | Some u \<Rightarrow> exec_stmt exec (update_row (sm_appName s) tableName u) db) s db"

definition SetInProgress ::
  "unit go_result \<Rightarrow> unit go_result \<Rightarrow> int \<Rightarrow> string \<Rightarrow> int \<Rightarrow> StateManager \<Rightarrow> state_table \<Rightarrow>
   unit go_result \<times> StateManager \<times> state_table" where
  "SetInProgress acquire exec now tableName totalRows s db =
     withConnection acquire (exec_stmt exec (update_row (sm_appName s) tableName
       (\<lambda>r. r\<lparr>ts_Status := StatusInProgress, ts_TotalRows := Some totalRows, ts_StartedAt := Some now,
              ts_SnapshotStart := Some now, ts_SnapshotEnd := None, ts_UpdatedAt := Some now\<rparr>))) s db"

end
