(* ===== verification/Snapshotplan.thy ===== *)
theory Snapshotplan
  imports Snapshotstate Keymap "HOL-Library.Signed_Division"
begin

text \<open>
  \<open>snapshot/query_builder.go\<close> and the planning half of \<open>snapshot/manager.go\<close>: the queries of a
  snapshot, the columns they select, and how a table is cut into ranges of heap blocks. The
  answers of Postgres (the size estimates, the planner's row estimate, the smallest and the largest
  \<open>ctid\<close> of a query) are arguments. Block numbers and row counts are \<open>int64\<close>, with their
  wrap-around; a loop that would not end, and only that, has no result.
\<close>

section \<open>Queries\<close>

fun join_sep :: "string \<Rightarrow> string list \<Rightarrow> string" where
  "join_sep sep [] = []"
| "join_sep sep [x] = x"
| "join_sep sep (x # y # xs) = x @ sep @ join_sep sep (y # xs)"

definition BuildSelectQuery :: "string \<Rightarrow> string list \<Rightarrow> string \<Rightarrow> string" where
  "BuildSelectQuery tableName columns whereClause =
     ''SELECT '' @ (if columns = [] then ''*'' else join_sep '', '' columns) @ '' FROM '' @ tableName @
     (if whereClause \<noteq> [] then '' WHERE '' @ whereClause else [])"

definition BuildBatchQuery :: "string \<Rightarrow> bool \<Rightarrow> string" where
  "BuildBatchQuery baseQuery hasWhereClause =
     baseQuery @ (if hasWhereClause then '' AND '' else '' WHERE '') @ ''ctid >= $1 AND ctid <= $2'' @ '' ORDER BY ctid''"

definition buildCtidBoundsQuery :: "string \<Rightarrow> string \<Rightarrow> string" where
  "buildCtidBoundsQuery tableName whereClause =
     ''SELECT min(ctid), max(ctid)'' @ '' FROM '' @ tableName @ (if whereClause \<noteq> [] then '' WHERE '' @ whereClause else [])"

section \<open>Columns\<close>

definition snapshotColumnNames :: "Table option \<Rightarrow> string list" where
  "snapshotColumnNames table =
     (case table of None \<Rightarrow> []
      | Some t \<Rightarrow> map col_Name (sort_key (\<lambda>c. (Position c, col_Name c)) (map snd (Columns t))))"

definition snapshotQueryColumns :: "Table option \<Rightarrow> string list" where
  "snapshotQueryColumns table = (if table \<noteq> None \<and> HasAllPhysicalColumns table then [] else snapshotColumnNames table)"

text \<open>The method: \<open>get\<close> is the listener's \<open>GetTable\<close>, absent when the listener is nil.\<close>

definition m_snapshotQueryColumns :: "(TableName \<Rightarrow> Table option) option \<Rightarrow> string \<Rightarrow> string list" where
  "m_snapshotQueryColumns get tableName =
     (case get of None \<Rightarrow> []
      | Some g \<Rightarrow> (case g (ParseTableName tableName) of None \<Rightarrow> [] | Some t \<Rightarrow> snapshotQueryColumns (Some t)))"

definition snapshotKeyMap :: "string list \<Rightarrow> TxCommitTimeOptions \<Rightarrow> KeyMap" where
  "snapshotKeyMap columns txOpts =
     km_New (if tx_Save txOpts \<and> tx_Name txOpts \<notin> set columns then columns @ [tx_Name txOpts] else columns)"

section \<open>Tuple identifiers and ranges\<close>

definition i64 :: "int \<Rightarrow> int" where
  "i64 x = signed_take_bit 63 x"

record TID =
  BlockNumber :: u32
  OffsetNumber :: "16 word"
  tid_Valid :: bool

record ctidRange =
  r_min :: TID
  r_max :: TID

record ctidBounds =
  b_min :: TID
  b_max :: TID

record tableEstimate =
  estimatedRows :: int
  baseEstimatedRows :: int
  totalBlocks :: int

record snapshotTablePlan =
  pl_query :: string
  pl_ranges :: "ctidRange list"
  usesCtidRanges :: bool
  strategy :: string
  pl_blocksPerBatch :: int

definition makeTID :: "int \<Rightarrow> 16 word \<Rightarrow> TID" where
  "makeTID blockNumber offsetNumber = \<lparr>BlockNumber = word_of_int blockNumber, OffsetNumber = offsetNumber, tid_Valid = True\<rparr>"

definition ceilDiv :: "int \<Rightarrow> int \<Rightarrow> int" where
  "ceilDiv a b = (if b \<le> 0 then 0 else i64 (i64 (a + b) - 1) sdiv b)"

definition blocksPerBatch :: "tableEstimate \<Rightarrow> int \<Rightarrow> int" where
  "blocksPerBatch estimate batchSize =
     (if totalBlocks estimate \<le> 0 then 0
      else if batchSize \<le> 0 \<or> estimatedRows estimate \<le> 0 then 1
      else let blocks = ceilDiv (i64 (batchSize * totalBlocks estimate)) (estimatedRows estimate)
           in if blocks \<le> 0 then 1 else blocks)"

text \<open>\<open>make([]ctidRange, 0, c)\<close>: a range takes 16 bytes of an address space of \<open>2 ^ 48\<close>.\<close>

definition makeslice :: "int \<Rightarrow> unit go_result" where
  "makeslice c = (if c < 0 \<or> 2 ^ 48 < 16 * c then Inl (Panic ''runtime error: makeslice: cap out of range'') else Inr ())"

partial_function (option) split_loop :: "int \<Rightarrow> int \<Rightarrow> int \<Rightarrow> ctidRange list option" where
  "split_loop tot per blockStart =
     (if blockStart < tot
      then let blockEnd = i64 (min (i64 (blockStart + per)) tot - 1) in
           Option.bind (split_loop tot per (i64 (blockStart + per))) (\<lambda>rs.
             Some (\<lparr>r_min = makeTID blockStart 0, r_max = makeTID blockEnd 65535\<rparr> # rs))
      else Some [])"

definition splitCtidRange :: "int \<Rightarrow> int \<Rightarrow> ctidRange list go_result option" where
  "splitCtidRange tot per =
     (if tot \<le> 0 \<or> per \<le> 0 then Some (Inr [])
      else (case makeslice (i64 (i64 (tot + per) - 1) sdiv per) of
          Inl e \<Rightarrow> Some (Inl e)
        | Inr _ \<Rightarrow> map_option Inr (split_loop tot per 0)))"

definition invalid_bounds :: go_error where
  "invalid_bounds = Error ''invalid ctid bounds: min is greater than max''"

partial_function (option) between_loop :: "int \<Rightarrow> int \<Rightarrow> int \<Rightarrow> ctidRange list option" where
  "between_loop maxBlock per blockStart =
     (if blockStart \<le> maxBlock
      then let blockEnd = min (i64 (i64 (blockStart + per) - 1)) maxBlock in
           Option.bind (between_loop maxBlock per (i64 (blockStart + per))) (\<lambda>rs.
             Some (\<lparr>r_min = makeTID blockStart 0, r_max = makeTID blockEnd 65535\<rparr> # rs))
      else Some [])"

definition min_block :: "ctidBounds \<Rightarrow> int" where
  "min_block b = uint (BlockNumber (b_min b))"

definition max_block :: "ctidBounds \<Rightarrow> int" where
  "max_block b = uint (BlockNumber (b_max b))"

definition splitCtidRangeBetween :: "ctidBounds \<Rightarrow> int \<Rightarrow> ctidRange list go_result option" where
  "splitCtidRangeBetween bounds per =
     (if max_block bounds < min_block bounds then Some (Inl invalid_bounds)
      else if per \<le> 0 then Some (Inr [])
      else (case makeslice (i64 (max_block bounds - min_block bounds + per) sdiv per) of
          Inl e \<Rightarrow> Some (Inl e)
        | Inr _ \<Rightarrow> map_option Inr (between_loop (max_block bounds) per (min_block bounds))))"

definition ctidBoundsBlockWidth :: "ctidBounds \<Rightarrow> int go_result" where
  "ctidBoundsBlockWidth bounds =
     (if max_block bounds < min_block bounds then Inl invalid_bounds else Inr (max_block bounds - min_block bounds + 1))"

section \<open>Estimates\<close>

text \<open>\<open>base\<close> and \<open>filtered\<close> are the outcomes of \<open>getBaseTableEstimate\<close> and \<open>getQueryEstimatedRows\<close>.\<close>

definition getTableEstimate :: "(int \<times> int) go_result \<Rightarrow> (string \<Rightarrow> int go_result) \<Rightarrow> TableState \<Rightarrow> tableEstimate go_result" where
  "getTableEstimate base filtered st =
     bind_result base (\<lambda>(rows, blocks).
       let estimate = \<lparr>estimatedRows = rows, baseEstimatedRows = rows, totalBlocks = blocks\<rparr> in
       if ts_whereClause st = [] then Inr estimate
       else (case ts_SnapshotQuery st of
           None \<Rightarrow> Inl nil_panic
         | Some q \<Rightarrow> bind_result (filtered q) (\<lambda>n. Inr (estimate\<lparr>estimatedRows := n\<rparr>))))"

text \<open>
  \<open>getQueryEstimatedRows\<close>: the query text is handed to Postgres, \<open>raw\<close> is the outcome of the
  \<open>EXPLAIN\<close>, and \<open>unmarshal\<close> decodes the rows of its plans.
\<close>

definition getQueryEstimatedRows :: "(string \<Rightarrow> string go_result) \<Rightarrow> (string \<Rightarrow> int list go_result) \<Rightarrow> string \<Rightarrow> int go_result" where
  "getQueryEstimatedRows explain unmarshal selectQuery =
     bind_result (explain (''EXPLAIN (FORMAT JSON) '' @ selectQuery)) (\<lambda>raw.
       bind_result (unmarshal raw) (\<lambda>plans.
         case plans of [] \<Rightarrow> Inl (Error ''empty explain output'') | p # _ \<Rightarrow> Inr p))"

definition shouldRunQuerySnapshotAsSingleTask :: "SnapshotConfig \<Rightarrow> tableEstimate \<Rightarrow> int \<Rightarrow> bool" where
  "shouldRunQuerySnapshotAsSingleTask cfg estimate maxWorkers =
     (if estimatedRows estimate \<le> 0 then False
      else let threshold = i64 (sn_BatchSize cfg * maxWorkers) in
           if threshold \<le> 0 then False else estimatedRows estimate \<le> threshold)"

definition shouldProbeSparseQueryBounds :: "tableEstimate \<Rightarrow> bool" where
  "shouldProbeSparseQueryBounds estimate =
     (if estimatedRows estimate \<le> 0 \<or> baseEstimatedRows estimate \<le> 0 then False
      else i64 (estimatedRows estimate * 100) < i64 (baseEstimatedRows estimate * 10))"

section \<open>The plan of a table\<close>

text \<open>\<open>snapshotQueryContext\<close>: the timeout to apply, \<open>None\<close> when there is none.\<close>

definition snapshotQueryContext :: "(string \<Rightarrow> int option) \<Rightarrow> SnapshotConfig option \<Rightarrow> int option go_result" where
  "snapshotQueryContext parse_dur cfg =
     (case cfg of None \<Rightarrow> Inr None
      | Some c \<Rightarrow> if sn_QueryTimeout c = [] then Inr None
                  else (case parse_dur (sn_QueryTimeout c) of
                      None \<Rightarrow> Inl (Error ''invalid snapshot query timeout'')
                    | Some d \<Rightarrow> Inr (Some d)))"

text \<open>
  \<open>getQueryCtidBounds\<close>: the steps that may fail, in order: the timeout, the connection, the
  transaction, setting its snapshot, and the query, whose outcome has the two identifiers.
\<close>

record bounds_env =
  be_acquire :: "unit go_result"
  be_begin :: "unit go_result"
  be_set :: "string \<Rightarrow> unit go_result"
  be_query :: "string \<Rightarrow> (TID \<times> TID) go_result"

definition getQueryCtidBounds ::
  "bounds_env \<Rightarrow> (string \<Rightarrow> int option) \<Rightarrow> SnapshotConfig \<Rightarrow> TableState \<Rightarrow> string \<Rightarrow> ctidBounds option go_result" where
  "getQueryCtidBounds env parse_dur cfg st snapshotID =
     bind_result (snapshotQueryContext parse_dur (Some cfg)) (\<lambda>_.
     case be_acquire env of Inl e \<Rightarrow> Inl (wrap_err ''failed to acquire primary connection: '' e) | Inr _ \<Rightarrow>
     (case be_begin env of Inl e \<Rightarrow> Inl (wrap_err ''failed to begin transaction: '' e) | Inr _ \<Rightarrow>
     (case (if snapshotID \<noteq> [] then be_set env snapshotID else Inr ()) of
        Inl e \<Rightarrow> Inl (wrap_err ''failed to set transaction snapshot: '' e) | Inr _ \<Rightarrow>
     (case be_query env (buildCtidBoundsQuery (ts_TableName st) (ts_whereClause st)) of
        Inl e \<Rightarrow> Inl (wrap_err ''failed to read query ctid bounds: '' e)
      | Inr (minCtid, maxCtid) \<Rightarrow>
          if \<not> tid_Valid minCtid \<or> \<not> tid_Valid maxCtid then Inr None
          else Inr (Some \<lparr>b_min = minCtid, b_max = maxCtid\<rparr>)))))"

definition planCtidRanges :: "SnapshotConfig \<Rightarrow> string \<Rightarrow> bool \<Rightarrow> tableEstimate \<Rightarrow> string \<Rightarrow> snapshotTablePlan go_result option" where
  "planCtidRanges cfg baseQuery hasWhereClause estimate strat =
     (let per = blocksPerBatch estimate (sn_BatchSize cfg) in
      map_option (\<lambda>r. bind_result r (\<lambda>ranges.
        Inr \<lparr>pl_query = BuildBatchQuery baseQuery hasWhereClause, pl_ranges = ranges, usesCtidRanges = True,
             strategy = strat, pl_blocksPerBatch = per\<rparr>))
        (splitCtidRange (totalBlocks estimate) per))"

definition planQuerySnapshotFromBounds ::
  "SnapshotConfig \<Rightarrow> ctidBounds option go_result \<Rightarrow> string \<Rightarrow> tableEstimate \<Rightarrow> string \<Rightarrow> snapshotTablePlan go_result option" where
  "planQuerySnapshotFromBounds cfg bounds query estimate strat =
     (case bounds of
        Inl e \<Rightarrow> Some (Inl e)
      | Inr None \<Rightarrow> Some (Inr \<lparr>pl_query = [], pl_ranges = [], usesCtidRanges = False, strategy = strat @ ''_none'', pl_blocksPerBatch = 0\<rparr>)
      | Inr (Some b) \<Rightarrow>
         (case (if estimatedRows estimate \<le> 0 then ctidBoundsBlockWidth b else Inr (blocksPerBatch estimate (sn_BatchSize cfg))) of
            Inl e \<Rightarrow> Some (Inl e)
          | Inr per \<Rightarrow>
             map_option (\<lambda>r. bind_result r (\<lambda>ranges.
               Inr \<lparr>pl_query = BuildBatchQuery query True, pl_ranges = ranges, usesCtidRanges = True,
                    strategy = strat, pl_blocksPerBatch = per\<rparr>))
               (splitCtidRangeBetween b per)))"

definition planSnapshotTable ::
  "SnapshotConfig \<Rightarrow> ctidBounds option go_result \<Rightarrow> TableState \<Rightarrow> tableEstimate \<Rightarrow> int \<Rightarrow> snapshotTablePlan go_result option" where
  "planSnapshotTable cfg bounds st estimate maxWorkers =
     (case ts_SnapshotQuery st of
        None \<Rightarrow> Some (Inl (Error (''snapshot query for table '' @ ts_TableName st @ '' is not set'')))
      | Some query \<Rightarrow>
         if ts_whereClause st = [] then planCtidRanges cfg query False estimate ''ctid_range''
         else if estimatedRows estimate = 0 then planQuerySnapshotFromBounds cfg bounds query estimate ''empty_query_bounds''
         else if shouldRunQuerySnapshotAsSingleTask cfg estimate maxWorkers
         then Some (Inr \<lparr>pl_query = query, pl_ranges = [], usesCtidRanges = False, strategy = ''single_query'', pl_blocksPerBatch = 0\<rparr>)
         else if shouldProbeSparseQueryBounds estimate
         then (case planQuerySnapshotFromBounds cfg bounds query estimate ''sparse_query_bounds'' of
                 Some (Inl (Error e)) \<Rightarrow> planCtidRanges cfg query True estimate ''ctid_range''
               | p \<Rightarrow> p)
         else planCtidRanges cfg query True estimate ''ctid_range'')"

text \<open>The tasks the dispatching loop sends for a plan: the query with its two arguments, if any.\<close>

definition plan_tasks :: "snapshotTablePlan \<Rightarrow> (string \<times> (TID \<times> TID) option) list" where
  "plan_tasks plan =
     (if usesCtidRanges plan \<and> pl_ranges plan \<noteq> [] then map (\<lambda>r. (pl_query plan, Some (r_min r, r_max r))) (pl_ranges plan)
      else if \<not> usesCtidRanges plan \<and> pl_query plan \<noteq> [] then [(pl_query plan, None)]
      else [])"

end
