(* ===== verification/Snapshotprogress.thy ===== *)
theory Snapshotprogress
  imports Complex_Main Snapshotplan Writequeue
begin

text \<open>
  \<open>snapshot/progress_tracker.go\<close> and the progress half of \<open>snapshot/manager.go\<close>: the reports that
  workers, the dispatching loop and the acknowledgement handler send, the reporter that queues
  them, and the tracker that decides from them when a table is completed. The states of the tables
  are objects shared by the tracker and the manager: they are kept in a list, and the tracker's
  entries hold positions in it. \<open>upd\<close> is the method \<open>UpdateProgress\<close> of the state store interface.
\<close>

section \<open>Reports\<close>

datatype progressReportKind =
  reportKindMaxLSN | reportKindTaskDone | reportKindRangeDone | reportKindLSNAck | reportKindTableStarted |
  reportKindTableDispatched | reportKindStop

record progressReport =
  pr_kind :: progressReportKind
  pr_tableName :: string
  pr_rowsProcessed :: int
  pr_totalRows :: int
  pr_maxLSN :: LSN
  pr_tasksCount :: int

definition report_of :: "progressReportKind \<Rightarrow> string \<Rightarrow> progressReport" where
  "report_of kind tableName =
     \<lparr>pr_kind = kind, pr_tableName = tableName, pr_rowsProcessed = 0, pr_totalRows = 0, pr_maxLSN = 0, pr_tasksCount = 0\<rparr>"

definition pr_Size :: "progressReport \<Rightarrow> u32" where
  "pr_Size r = 1"

text \<open>
  The reporter: \<open>rp_ch\<close> is the buffered channel with its capacity, \<open>rp_chClosed\<close> whether
  \<open>dispatch\<close> has closed it.
\<close>

record snapshotProgressReporter =
  rp_ch :: "progressReport list"
  rp_cap :: nat
  rp_chClosed :: bool
  rp_queue :: "progressReport WriteQueue"
  rp_closed :: bool

definition newSnapshotProgressReporter :: "nat \<Rightarrow> snapshotProgressReporter" where
  "newSnapshotProgressReporter bufferSize =
     \<lparr>rp_ch = [], rp_cap = bufferSize, rp_chClosed = False, rp_queue = wq_New, rp_closed = False\<rparr>"

definition Report :: "go_error option \<Rightarrow> progressReport \<Rightarrow> snapshotProgressReporter \<Rightarrow> unit go_result \<times> snapshotProgressReporter" where
  "Report ctxErr progress r =
     (case ctxErr of
        Some e \<Rightarrow> (Inl e, r)
      | None \<Rightarrow> if rp_closed r then (Inr (), r) else (Inr (), r\<lparr>rp_queue := snd (Push pr_Size progress (rp_queue r))\<rparr>))"

definition rp_Close :: "snapshotProgressReporter \<Rightarrow> snapshotProgressReporter" where
  "rp_Close r =
     (if rp_closed r then r
      else r\<lparr>rp_closed := True, rp_queue := snd (Push pr_Size (report_of reportKindStop []) (rp_queue r))\<rparr>)"

text \<open>
  One step of \<open>dispatch\<close>, with the report it holds between the pop and the send: it waits (no change) for a
  report on an empty queue, and with a report in hand for room in the channel.
\<close>

fun dispatch_round :: "bool \<Rightarrow> progressReport option \<times> snapshotProgressReporter \<Rightarrow> progressReport option \<times> snapshotProgressReporter" where
  "dispatch_round cancelled (None, r) =
     (if rp_chClosed r then (None, r)
      else (case Pop pr_Size (rp_queue r) of
          (Blocked, q) \<Rightarrow> (None, r)
        | (Halted, q) \<Rightarrow> (None, r\<lparr>rp_queue := q, rp_chClosed := True\<rparr>)
        | (Got progress, q) \<Rightarrow>
            if pr_kind progress = reportKindStop \<or> cancelled then (None, r\<lparr>rp_queue := q, rp_chClosed := True\<rparr>)
            else (Some progress, r\<lparr>rp_queue := q\<rparr>)))"
| "dispatch_round cancelled (Some progress, r) =
     (if length (rp_ch r) < rp_cap r then (None, r\<lparr>rp_ch := rp_ch r @ [progress]\<rparr>) else (Some progress, r))"

text \<open>Receiving from \<open>Reports()\<close>.\<close>

definition receive_report :: "snapshotProgressReporter \<Rightarrow> progressReport waited \<times> snapshotProgressReporter" where
  "receive_report r =
     (case rp_ch r of
        p # ps \<Rightarrow> (Got p, r\<lparr>rp_ch := ps\<rparr>)
      | [] \<Rightarrow> (if rp_chClosed r then Halted else Blocked, r))"

section \<open>The tracker\<close>

record snapshotTableProgress =
  tp_processedRows :: int
  tp_processedSinceLastReport :: int
  tp_tableState :: nat
  tp_dispatched :: bool
  tp_tasksCount :: int
  tp_doneTasks :: int
  tp_totalRows :: int
  tp_maxLSN :: LSN

definition isDone :: "LSN \<Rightarrow> snapshotTableProgress \<Rightarrow> bool" where
  "isDone maxAck table \<longleftrightarrow>
     tp_doneTasks table = tp_tasksCount table \<and> tp_dispatched table \<and> tp_maxLSN table \<le> maxAck \<and> 0 < tp_maxLSN table"

record snapshotProgressTracker =
  pt_tables :: "(string \<times> snapshotTableProgress) list"
  pt_reportEvery :: int
  pt_ackedLSN :: LSN
  pt_states :: "TableState list"

definition new_progress :: "nat \<Rightarrow> TableState \<Rightarrow> snapshotTableProgress" where
  "new_progress i st =
     \<lparr>tp_processedRows = ts_ProcessedRows st, tp_processedSinceLastReport = 0, tp_tableState = i, tp_dispatched = False,
      tp_tasksCount = 0, tp_doneTasks = 0, tp_totalRows = TotalRowsValue st, tp_maxLSN = 0\<rparr>"

definition newSnapshotProgressTracker :: "TableState list \<Rightarrow> int \<Rightarrow> snapshotProgressTracker" where
  "newSnapshotProgressTracker tableStates reportEvery =
     \<lparr>pt_tables = fold (\<lambda>(i, st) m. AList.update (ts_TableName st) (new_progress i st) m) (zip [0..<length tableStates] tableStates) [],
      pt_reportEvery = reportEvery, pt_ackedLSN = 0, pt_states = tableStates\<rparr>"

definition put_progress :: "string \<Rightarrow> snapshotTableProgress \<Rightarrow> snapshotProgressTracker \<Rightarrow> snapshotProgressTracker" where
  "put_progress name p t = t\<lparr>pt_tables := AList.update name p (pt_tables t)\<rparr>"

text \<open>Writing through the pointer \<open>table.tableState\<close>.\<close>

definition on_state :: "nat \<Rightarrow> (TableState \<Rightarrow> TableState) \<Rightarrow> snapshotProgressTracker \<Rightarrow> snapshotProgressTracker" where
  "on_state i f t = t\<lparr>pt_states := (pt_states t)[i := f (pt_states t ! i)]\<rparr>"

definition complete_if_done :: "snapshotTableProgress \<Rightarrow> snapshotProgressTracker \<Rightarrow> bool \<times> snapshotProgressTracker" where
  "complete_if_done p t =
     (if isDone (pt_ackedLSN t) p then (True, on_state (tp_tableState p) (\<lambda>st. st\<lparr>ts_Status := StatusCompleted\<rparr>) t) else (False, t))"

text \<open>The loop of \<open>Ack\<close> over the tables; the names of those that it completes.\<close>

fun ack_loop :: "(string \<times> snapshotTableProgress) list \<Rightarrow> snapshotProgressTracker \<Rightarrow> string list \<times> snapshotProgressTracker" where
  "ack_loop [] t = ([], t)"
| "ack_loop ((name, p) # rest) t =
     (if isDone (pt_ackedLSN t) p \<and> ts_Status (pt_states t ! tp_tableState p) \<noteq> StatusCompleted
      then (let (ns, t') = ack_loop rest (on_state (tp_tableState p) (\<lambda>st. st\<lparr>ts_Status := StatusCompleted\<rparr>) t)
            in (ts_TableName (pt_states t ! tp_tableState p) # ns, t'))
      else ack_loop rest t)"

definition pt_Ack :: "LSN \<Rightarrow> snapshotProgressTracker \<Rightarrow> string list \<times> snapshotProgressTracker" where
  "pt_Ack lsn t =
     (if lsn \<le> pt_ackedLSN t then ([], t)
      else ack_loop (pt_tables t) (t\<lparr>pt_ackedLSN := lsn\<rparr>))"

definition MarkStarted :: "string \<Rightarrow> int \<Rightarrow> snapshotProgressTracker \<Rightarrow> snapshotProgressTracker" where
  "MarkStarted tableName totalRows t =
     (case map_of (pt_tables t) tableName of None \<Rightarrow> t
      | Some p \<Rightarrow> on_state (tp_tableState p) (\<lambda>st. st\<lparr>ts_TotalRows := Some totalRows, ts_Status := StatusInProgress\<rparr>)
                    (put_progress tableName (p\<lparr>tp_totalRows := totalRows\<rparr>) t))"

text \<open>The result of an operation on a table: rows processed, rows estimated, and whether it is done.\<close>

type_synonym progress_result = "int \<times> int \<times> bool"

definition update_progress ::
  "string \<Rightarrow> (snapshotTableProgress \<Rightarrow> snapshotTableProgress) \<Rightarrow> snapshotProgressTracker \<Rightarrow> progress_result \<times> snapshotProgressTracker" where
  "update_progress tableName f t =
     (case map_of (pt_tables t) tableName of None \<Rightarrow> ((0, 0, False), t)
      | Some p0 \<Rightarrow>
         let p = f p0; (finished, t') = complete_if_done p (put_progress tableName p t)
         in ((tp_processedRows p, tp_totalRows p, finished), t'))"

definition CompleteTask :: "string \<Rightarrow> snapshotProgressTracker \<Rightarrow> progress_result \<times> snapshotProgressTracker" where
  "CompleteTask tableName t = update_progress tableName (\<lambda>p. p\<lparr>tp_doneTasks := tp_doneTasks p + 1\<rparr>) t"

definition MarkDispatched :: "string \<Rightarrow> int \<Rightarrow> snapshotProgressTracker \<Rightarrow> progress_result \<times> snapshotProgressTracker" where
  "MarkDispatched tableName tasksCount t =
     update_progress tableName (\<lambda>p. p\<lparr>tp_dispatched := True, tp_tasksCount := tasksCount\<rparr>) t"

definition AddMaxLSN :: "string \<Rightarrow> LSN \<Rightarrow> snapshotProgressTracker \<Rightarrow> progress_result \<times> snapshotProgressTracker" where
  "AddMaxLSN tableName maxLSN t =
     update_progress tableName (\<lambda>p. if tp_maxLSN p < maxLSN then p\<lparr>tp_maxLSN := maxLSN\<rparr> else p) t"

text \<open>\<open>Add\<close>; the flag in the middle of its results says whether to log the progress.\<close>

definition add_rows :: "int \<Rightarrow> int \<Rightarrow> snapshotTableProgress \<Rightarrow> bool \<times> snapshotTableProgress" where
  "add_rows reportEvery rowsProcessed p0 =
     (let p = p0\<lparr>tp_processedRows := i64 (tp_processedRows p0 + rowsProcessed)\<rparr>; estRows = tp_totalRows p in
      if 0 < estRows \<and> 0 < reportEvery \<and> reportEvery < 100
      then let since = i64 (tp_processedSinceLastReport p + rowsProcessed);
               reportThreshold = i64 (estRows * reportEvery) sdiv 100
           in if reportThreshold \<le> since then (True, p\<lparr>tp_processedSinceLastReport := 0\<rparr>)
              else (False, p\<lparr>tp_processedSinceLastReport := since\<rparr>)
      else (True, p))"

definition pt_Add :: "string \<Rightarrow> int \<Rightarrow> snapshotProgressTracker \<Rightarrow> (int \<times> int \<times> bool \<times> bool) \<times> snapshotProgressTracker" where
  "pt_Add tableName rowsProcessed t =
     (case map_of (pt_tables t) tableName of None \<Rightarrow> ((0, 0, False, False), t)
      | Some p0 \<Rightarrow>
         let (logIt, p) = add_rows (pt_reportEvery t) rowsProcessed p0;
             t1 = on_state (tp_tableState p) (\<lambda>st. st\<lparr>ts_ProcessedRows := tp_processedRows p\<rparr>) (put_progress tableName p t);
             (finished, t2) = complete_if_done p t1
         in ((tp_processedRows p, tp_totalRows p, logIt, finished), t2))"

text \<open>\<open>Stats\<close>; the percentage is the exact quotient that the code rounds to a \<open>float64\<close>.\<close>

record snapshotProgressStats =
  tablesTotal :: int
  tablesPending :: int
  tablesInProgress :: int
  tablesCompleted :: int
  tablesFailed :: int
  rowsProcessed :: int
  rowsTotalEstimated :: int
  rowsRemaining :: int
  progressPercent :: rat
  st_ackedLSN :: LSN

definition count_status :: "SnapshotStatus \<Rightarrow> snapshotProgressStats \<Rightarrow> snapshotProgressStats" where
  "count_status status s =
     (case status of
        StatusInProgress \<Rightarrow> s\<lparr>tablesInProgress := tablesInProgress s + 1\<rparr>
      | StatusCompleted \<Rightarrow> s\<lparr>tablesCompleted := tablesCompleted s + 1\<rparr>
      | StatusFailed \<Rightarrow> s\<lparr>tablesFailed := tablesFailed s + 1\<rparr>
      | _ \<Rightarrow> s\<lparr>tablesPending := tablesPending s + 1\<rparr>)"

definition stats_table :: "TableState list \<Rightarrow> snapshotTableProgress \<Rightarrow> snapshotProgressStats \<Rightarrow> snapshotProgressStats" where
  "stats_table states p s0 =
     (let s = count_status (ts_Status (states ! tp_tableState p)) s0;
          s1 = s\<lparr>rowsProcessed := i64 (rowsProcessed s + tp_processedRows p),
                 rowsTotalEstimated := i64 (rowsTotalEstimated s + tp_totalRows p)\<rparr>
      in if tp_processedRows p < tp_totalRows p
         then s1\<lparr>rowsRemaining := i64 (rowsRemaining s1 + i64 (tp_totalRows p - tp_processedRows p))\<rparr> else s1)"

definition Stats :: "snapshotProgressTracker \<Rightarrow> snapshotProgressStats" where
  "Stats t =
     (let s0 = \<lparr>tablesTotal = int (length (pt_tables t)), tablesPending = 0, tablesInProgress = 0, tablesCompleted = 0, tablesFailed = 0,
                rowsProcessed = 0, rowsTotalEstimated = 0, rowsRemaining = 0, progressPercent = 0, st_ackedLSN = pt_ackedLSN t\<rparr>;
          s = fold (stats_table (pt_states t)) (map snd (pt_tables t)) s0
      in if 0 < rowsTotalEstimated s
         then s\<lparr>progressPercent := of_int (rowsProcessed s) * 100 / of_int (rowsTotalEstimated s)\<rparr> else s)"

definition snapshotStatsInterval :: "int \<Rightarrow> int" where
  "snapshotStatsInterval statsInterval = (if 0 < statsInterval then statsInterval else 60000000000)"

section \<open>Tracking the reports\<close>

type_synonym 'd updater = "string \<Rightarrow> int \<Rightarrow> SnapshotStatus \<Rightarrow> string option \<Rightarrow> 'd \<Rightarrow> unit go_result \<times> 'd"

text \<open>\<open>setTableCompleted\<close>: a failed update is logged only.\<close>

definition setTableCompleted :: "'d updater \<Rightarrow> string \<Rightarrow> int \<Rightarrow> 'd \<Rightarrow> 'd" where
  "setTableCompleted upd tableName processedRows db = snd (upd tableName processedRows StatusCompleted None db)"

text \<open>One round of \<open>trackProgress\<close>.\<close>

definition track_report :: "'d updater \<Rightarrow> progressReport \<Rightarrow> snapshotProgressTracker \<times> 'd \<Rightarrow> snapshotProgressTracker \<times> 'd" where
  "track_report upd r s =
     (let (t, db) = s; name = pr_tableName r in
      case pr_kind r of
        reportKindTableStarted \<Rightarrow> (MarkStarted name (pr_totalRows r) t, db)
      | reportKindTableDispatched \<Rightarrow>
          (let ((rows, est, finished), t1) = MarkDispatched name (pr_tasksCount r) t
           in (t1, if pr_tasksCount r = 0 \<or> finished then setTableCompleted upd name rows db else db))
      | reportKindMaxLSN \<Rightarrow>
          (let ((rows, est, finished), t1) = AddMaxLSN name (pr_maxLSN r) t
           in (t1, if finished then setTableCompleted upd name rows db else db))
      | reportKindTaskDone \<Rightarrow>
          (let ((rows, est, finished), t1) = CompleteTask name t
           in (t1, if finished then setTableCompleted upd name rows db else db))
      | reportKindLSNAck \<Rightarrow>
          (let (names, t1) = pt_Ack (pr_maxLSN r) t
           in (t1, fold (\<lambda>n. setTableCompleted upd n 0) names db))
      | reportKindRangeDone \<Rightarrow>
          (let ((rows, est, logIt, finished), t1) = pt_Add name (pr_rowsProcessed r) t;
               (res, db1) = upd name rows StatusInProgress None db
           in (t1, case res of Inl e \<Rightarrow> db1 | Inr _ \<Rightarrow> if finished then setTableCompleted upd name rows db1 else db1))
      | reportKindStop \<Rightarrow> (t, db))"

definition trackProgress :: "'d updater \<Rightarrow> TableState list \<Rightarrow> progressReport list \<Rightarrow> 'd \<Rightarrow> snapshotProgressTracker \<times> 'd" where
  "trackProgress upd tableStates reports db = fold (track_report upd) reports (newSnapshotProgressTracker tableStates 10, db)"

text \<open>
  \<open>reportSnapshotAckProgress\<close>, the acknowledgement handler. The tables of the response are reported
  in the order of their first entry, where the code walks a map. A failed report is logged only.
\<close>

definition rows_by_table :: "ResponseEntry option list \<Rightarrow> (string \<times> int) list" where
  "rows_by_table entries =
     fold (\<lambda>entry m. case entry of None \<Rightarrow> m
        | Some e \<Rightarrow> let name = tn_FullName (re_Table e) in
            if name = [] then m else AList.update name ((case map_of m name of None \<Rightarrow> 0 | Some n \<Rightarrow> n) + 1) m) entries []"

definition reportSnapshotAckProgress ::
  "go_error option \<Rightarrow> ResponseEntry option list option \<Rightarrow> CommitPoint \<Rightarrow> snapshotProgressReporter \<Rightarrow> snapshotProgressReporter" where
  "reportSnapshotAckProgress ctxErr resp maxAcked r =
     (case resp of None \<Rightarrow> r
      | Some entries \<Rightarrow>
         let r1 = fold (\<lambda>(name, rows) r. snd (Report ctxErr ((report_of reportKindRangeDone name)\<lparr>pr_rowsProcessed := rows\<rparr>) r))
                    (rows_by_table entries) r
         in if 0 < cp_LSN maxAcked
            then snd (Report ctxErr ((report_of reportKindLSNAck [])\<lparr>pr_maxLSN := cp_LSN maxAcked\<rparr>) r1) else r1)"

end
