(* ===== verification/Snapshotranges.thy ===== *)
theory Snapshotranges
  imports Snapshotplan
begin

text \<open>
  The ranges of a plan read the table once: the loops of \<open>splitCtidRange\<close> and
  \<open>splitCtidRangeBetween\<close> are a reference function that cuts an interval of blocks, which is shown
  to be a partition; and the tasks of every plan together read every row the query selects exactly
  once. What the batch query means in Postgres (\<open>ctid >= $1 AND ctid <= $2 ORDER BY ctid\<close>) is
  \<open>select_ctid\<close> on the visible rows of the table.
\<close>

section \<open>The reference cut\<close>

lemma i64_id [simp]: "- (2 ^ 63) \<le> x \<Longrightarrow> x < 2 ^ 63 \<Longrightarrow> i64 x = x"
  unfolding i64_def by (rule signed_take_bit_int_eq_self) simp_all

lemma i64_bounds: "- (2 ^ 63) \<le> i64 x" "i64 x < 2 ^ 63"
  unfolding i64_def by (rule signed_take_bit_int_greater_eq_minus_exp, rule signed_take_bit_int_less_exp)

lemma i64_overflow: "2 ^ 63 \<le> x \<Longrightarrow> x < 2 ^ 64 \<Longrightarrow> i64 x = x - 2 ^ 64"
proof -
  assume a: "2 ^ 63 \<le> x" "x < 2 ^ 64"
  have "i64 x = i64 (x - 2 ^ 64)"
    unfolding i64_def signed_take_bit_eq_iff_take_bit_eq by (simp add: take_bit_eq_mod)
  also have "\<dots> = x - 2 ^ 64" using a by (intro i64_id) simp_all
  finally show ?thesis .
qed

function block_ranges :: "int \<Rightarrow> int \<Rightarrow> int \<Rightarrow> (int \<times> int) list" where
  "block_ranges per a b = (if a < b \<and> 0 < per then (a, min (a + per) b - 1) # block_ranges per (a + per) b else [])"
  by pat_completeness auto
termination by (relation "measure (\<lambda>(per, a, b). nat (b - a))") auto

declare block_ranges.simps [simp del]

definition mk_range :: "int \<times> int \<Rightarrow> ctidRange" where
  "mk_range se = \<lparr>r_min = makeTID (fst se) 0, r_max = makeTID (snd se) 65535\<rparr>"

lemma split_loop_ranges:
  assumes "0 \<le> a" "0 < per" "0 \<le> b" "b + per \<le> 2 ^ 63"
  shows "split_loop b per a = Some (map mk_range (block_ranges per a b))"
  using assms
proof (induction per a b rule: block_ranges.induct)
  case (1 per a b)
  show ?case
  proof (cases "a < b")
    case True
    then have ids: "i64 (a + per) = a + per" "i64 (min (a + per) b - 1) = min (a + per) b - 1" using "1.prems" by simp_all
    have "split_loop b per (a + per) = Some (map mk_range (block_ranges per (a + per) b))"
      using 1 True by simp
    then show ?thesis using True ids "1.prems"
      by (subst split_loop.simps, subst block_ranges.simps) (simp add: mk_range_def)
  next
    case False
    then show ?thesis by (subst split_loop.simps, subst block_ranges.simps) simp
  qed
qed

lemma between_loop_ranges:
  assumes "0 \<le> a" "0 < per" "0 \<le> m" "m + per < 2 ^ 63"
  shows "between_loop m per a = Some (map mk_range (block_ranges per a (m + 1)))"
  using assms
proof (induction per a "m + 1" rule: block_ranges.induct)
  case (1 per a)
  show ?case
  proof (cases "a \<le> m")
    case True
    then have ids: "i64 (a + per) = a + per" "i64 (a + per - 1) = a + per - 1" "min (a + per - 1) m = min (a + per) (m + 1) - 1"
      using "1.prems" by simp_all
    have "between_loop m per (a + per) = Some (map mk_range (block_ranges per (a + per) (m + 1)))"
      using 1 True by simp
    then show ?thesis using True ids "1.prems"
      by (subst between_loop.simps, subst block_ranges.simps) (simp add: mk_range_def)
  next
    case False
    then show ?thesis by (subst between_loop.simps, subst block_ranges.simps) simp
  qed
qed

lemma block_ranges_bounds: "(s, e) \<in> set (block_ranges per a b) \<Longrightarrow> a \<le> s \<and> s \<le> e \<and> e < b \<and> e < s + per"
proof (induction per a b rule: block_ranges.induct)
  case (1 per a b)
  show ?case
  proof (cases "a < b \<and> 0 < per")
    case True
    then have "(s, e) = (a, min (a + per) b - 1) \<or> (s, e) \<in> set (block_ranges per (a + per) b)"
      using "1.prems" by (simp add: block_ranges.simps [of per a b])
    then show ?thesis using "1.IH" [OF True] True by auto
  next
    case False
    then show ?thesis using "1.prems" by (simp add: block_ranges.simps [of per a b])
  qed
qed

text \<open>Reading a list ordered by block interval by interval reads the list.\<close>

lemma filter_sorted_split:
  fixes key :: "'x \<Rightarrow> 'k::linorder"
  shows "sorted (map key xs) \<Longrightarrow> filter (\<lambda>x. key x < c) xs @ filter (\<lambda>x. c \<le> key x) xs = xs"
proof (induction xs)
  case (Cons x xs)
  show ?case
  proof (cases "key x < c")
    case False
    then have "\<forall>y \<in> set xs. c \<le> key y" using Cons.prems by force
    then show ?thesis using False by (auto simp: not_less filter_empty_conv)
  qed (use Cons in auto)
qed simp

lemma block_ranges_partition:
  assumes "0 < per" "sorted (map key xs)" "\<forall>x \<in> set xs. a \<le> key x \<and> key x < b"
  shows "concat (map (\<lambda>(s, e). filter (\<lambda>x. s \<le> key x \<and> key x \<le> e) xs) (block_ranges per a b)) = xs"
  using assms
proof (induction per a b arbitrary: xs rule: block_ranges.induct)
  case (1 per a b)
  show ?case
  proof (cases "a < b")
    case True
    let ?later = "filter (\<lambda>x. a + per \<le> key x) xs"
    have first: "filter (\<lambda>x. a \<le> key x \<and> key x < a + per \<and> key x < b) xs = filter (\<lambda>x. key x < a + per) xs"
      by (rule filter_cong [OF refl]) (use "1.prems" in auto)
    have rest: "filter (\<lambda>x. s \<le> key x \<and> key x \<le> e) xs = filter (\<lambda>x. s \<le> key x \<and> key x \<le> e) ?later"
      if "(s, e) \<in> set (block_ranges per (a + per) b)" for s e
      using block_ranges_bounds [OF that] by (auto simp: filter_filter intro!: filter_cong)
    have "concat (map (\<lambda>(s, e). filter (\<lambda>x. s \<le> key x \<and> key x \<le> e) xs) (block_ranges per (a + per) b)) =
        concat (map (\<lambda>(s, e). filter (\<lambda>x. s \<le> key x \<and> key x \<le> e) ?later) (block_ranges per (a + per) b))"
      by (rule arg_cong [where f = concat], rule map_cong) (use rest in auto)
    also have "\<dots> = ?later"
      using "1.prems" True by (intro "1.IH") (auto simp: sorted_filter)
    finally show ?thesis
      using True "1.prems" filter_sorted_split [of key xs "a + per"]
      by (simp add: block_ranges.simps [of per a b] first)
  next
    case False
    then have "xs = []" using "1.prems" by (cases xs) auto
    then show ?thesis by (simp add: block_ranges.simps [of per a b])
  qed
qed

section \<open>Reading rows by \<open>ctid\<close>\<close>

definition tid_key :: "TID \<Rightarrow> u32 \<times> 16 word" where
  "tid_key t = (BlockNumber t, OffsetNumber t)"

definition select_ctid :: "(TID \<times> 'r) list \<Rightarrow> ('r \<Rightarrow> bool) \<Rightarrow> TID \<Rightarrow> TID \<Rightarrow> (TID \<times> 'r) list" where
  "select_ctid heap P lo hi =
     filter (\<lambda>x. P (snd x) \<and> tid_key lo \<le> tid_key (fst x) \<and> tid_key (fst x) \<le> tid_key hi) (sort_key (\<lambda>x. tid_key (fst x)) heap)"

definition task_rows :: "(TID \<times> 'r) list \<Rightarrow> ('r \<Rightarrow> bool) \<Rightarrow> string \<times> (TID \<times> TID) option \<Rightarrow> (TID \<times> 'r) list" where
  "task_rows heap P task =
     (case snd task of None \<Rightarrow> filter (\<lambda>x. P (snd x)) heap | Some (lo, hi) \<Rightarrow> select_ctid heap P lo hi)"

definition block :: "TID \<times> 'r \<Rightarrow> int" where
  "block x = uint (BlockNumber (fst x))"

lemma in_block_range:
  assumes "0 \<le> s" "s < 2 ^ 32" "0 \<le> e" "e < 2 ^ 32"
  shows "tid_key (r_min (mk_range (s, e))) \<le> tid_key t \<and> tid_key t \<le> tid_key (r_max (mk_range (s, e))) \<longleftrightarrow>
    s \<le> uint (BlockNumber t) \<and> uint (BlockNumber t) \<le> e"
proof -
  have "OffsetNumber t \<le> 65535" using unsigned_less [of "OffsetNumber t", where 'a = nat] by (simp add: word_le_nat_alt)
  moreover have "uint (word_of_int s :: u32) = s" "uint (word_of_int e :: u32) = e"
    using assms by (simp_all add: uint_word_of_int_eq take_bit_int_eq_self_iff)
  ultimately show ?thesis
    by (auto simp: tid_key_def mk_range_def makeTID_def less_eq_prod_def word_le_def word_less_def word_uint_eq_iff)
qed

lemma sorted_blocks: "sorted (map block (filter Q (sort_key (\<lambda>x. tid_key (fst x)) heap)))"
proof -
  have "sorted_wrt (\<lambda>x y. tid_key (fst x) \<le> tid_key (fst y)) (sort_key (\<lambda>x. tid_key (fst x)) heap)"
    using sorted_sort_key [of "\<lambda>x. tid_key (fst x)" heap] by (simp only: sorted_map)
  then have "sorted_wrt (\<lambda>x y. block x \<le> block y) (sort_key (\<lambda>x. tid_key (fst x)) heap)"
    by (rule sorted_wrt_mono_rel [rotated]) (auto simp: tid_key_def block_def less_eq_prod_def word_le_def word_less_def)
  then show ?thesis using sorted_wrt_filter by (simp only: sorted_map)
qed

lemma ranges_read_rows:
  assumes "0 < per" "0 \<le> a" "b \<le> 2 ^ 32" "\<And>x. x \<in> set heap \<Longrightarrow> P (snd x) \<Longrightarrow> a \<le> block x \<and> block x < b"
  shows "concat (map (\<lambda>r. select_ctid heap P (r_min r) (r_max r)) (map mk_range (block_ranges per a b))) =
    filter (\<lambda>x. P (snd x)) (sort_key (\<lambda>x. tid_key (fst x)) heap)"
proof -
  let ?sorted = "sort_key (\<lambda>x. tid_key (fst x)) heap"
  let ?xs = "filter (\<lambda>x. P (snd x)) ?sorted"
  have "select_ctid heap P (r_min (mk_range se)) (r_max (mk_range se)) = (\<lambda>(s, e). filter (\<lambda>x. s \<le> block x \<and> block x \<le> e) ?xs) se"
    if se: "se \<in> set (block_ranges per a b)" for se
  proof -
    obtain s e where [simp]: "se = (s, e)" by (cases se)
    have "0 \<le> s" "s < 2 ^ 32" "0 \<le> e" "e < 2 ^ 32" using block_ranges_bounds [of s e per a b] se assms(2,3) by simp_all
    then show ?thesis unfolding select_ctid_def using in_block_range [of s e]
      by (auto simp: filter_filter block_def intro!: filter_cong)
  qed
  then have eq: "map (\<lambda>r. select_ctid heap P (r_min r) (r_max r)) (map mk_range (block_ranges per a b)) =
      map (\<lambda>(s, e). filter (\<lambda>x. s \<le> block x \<and> block x \<le> e) ?xs) (block_ranges per a b)" by simp
  have "\<forall>x \<in> set ?xs. a \<le> block x \<and> block x < b" using assms(4) by simp
  then show ?thesis unfolding eq by (rule block_ranges_partition [OF assms(1) sorted_blocks])
qed

section \<open>Sizes of the ranges\<close>

lemma sdiv_pos: "0 \<le> a \<Longrightarrow> 0 < b \<Longrightarrow> a sdiv b = (a :: int) div b"
  by (cases "a = 0") (simp_all add: signed_divide_int_def)

lemma sdiv_neg: "a < 0 \<Longrightarrow> 0 < b \<Longrightarrow> a sdiv b \<le> (0 :: int)"
  by (simp add: signed_divide_int_def sgn_if pos_imp_zdiv_nonneg_iff)

lemma ceil_le:
  fixes a b :: int
  assumes "1 \<le> a" "1 \<le> b"
  shows "(a + b - 1) div b \<le> a"
proof -
  have "0 \<le> (a - 1) * (b - 1)" using assms by simp
  then have "a + b - 1 \<le> a * b" by (simp add: algebra_simps)
  then have "(a + b - 1) div b \<le> (a * b) div b" using assms by (intro zdiv_mono1) simp_all
  then show ?thesis using assms by simp
qed

lemma ceilDiv_le:
  assumes "1 \<le> a" "a \<le> 2 ^ 62" "0 < b" "b < 2 ^ 63"
  shows "ceilDiv a b \<le> 2 ^ 62"
proof -
  have s: "i64 (i64 (a + b) - 1) = i64 (a + b - 1)"
  proof (cases "a + b < 2 ^ 63")
    case False
    then have o: "i64 (a + b) = a + b - 2 ^ 64" using assms by (intro i64_overflow) simp_all
    show ?thesis
    proof (cases "a + b = 2 ^ 63")
      case True
      then show ?thesis by (simp add: o) (simp add: i64_def)
    next
      case neq: False
      then have "i64 (a + b - 1) = a + b - 1 - 2 ^ 64" using assms False by (intro i64_overflow) simp_all
      moreover have "i64 (a + b - 2 ^ 64 - 1) = a + b - 2 ^ 64 - 1" using assms False neq by (intro i64_id) simp_all
      ultimately show ?thesis by (simp add: o)
    qed
  qed (use assms in simp)
  show ?thesis
  proof (cases "a + b - 1 < 2 ^ 63")
    case True
    then have "ceilDiv a b = (a + b - 1) div b" using assms s sdiv_pos [of "a + b - 1" b] by (simp add: ceilDiv_def)
    also have "\<dots> \<le> a" using assms by (intro ceil_le) simp_all
    finally show ?thesis using assms by simp
  next
    case False
    then have "i64 (a + b - 1) = a + b - 1 - 2 ^ 64" using assms by (intro i64_overflow) simp_all
    then show ?thesis using sdiv_neg [of "a + b - 1 - 2 ^ 64" b] assms s by (simp add: ceilDiv_def)
  qed
qed

text \<open>What Postgres guarantees of the estimates and what the configuration bounds.\<close>

definition plan_sizes :: "SnapshotConfig \<Rightarrow> tableEstimate \<Rightarrow> bool" where
  "plan_sizes cfg est \<longleftrightarrow> sn_BatchSize cfg \<le> 2 ^ 30 \<and> totalBlocks est \<le> 2 ^ 32 \<and> estimatedRows est < 2 ^ 63"

lemma blocksPerBatch_range:
  assumes "plan_sizes cfg est" "0 < totalBlocks est"
  shows "0 < blocksPerBatch est (sn_BatchSize cfg)" "blocksPerBatch est (sn_BatchSize cfg) \<le> 2 ^ 62"
proof -
  let ?p = "sn_BatchSize cfg * totalBlocks est"
  have "blocksPerBatch est (sn_BatchSize cfg) \<le> 2 ^ 62 \<and> 0 < blocksPerBatch est (sn_BatchSize cfg)"
  proof (cases "sn_BatchSize cfg \<le> 0 \<or> estimatedRows est \<le> 0")
    case False
    then have "1 \<le> ?p" using assms by (simp add: int_one_le_iff_zero_less)
    moreover have "?p \<le> 2 ^ 30 * 2 ^ 32" using False assms by (intro mult_mono) (simp_all add: plan_sizes_def)
    ultimately show ?thesis using ceilDiv_le [of ?p "estimatedRows est"] False assms
      by (simp add: blocksPerBatch_def Let_def plan_sizes_def)
  qed (use assms in \<open>auto simp: blocksPerBatch_def\<close>)
  then show "0 < blocksPerBatch est (sn_BatchSize cfg)" "blocksPerBatch est (sn_BatchSize cfg) \<le> 2 ^ 62" by auto
qed

lemma makeslice_ok:
  assumes "1 \<le> n" "n \<le> 2 ^ 32" "0 < per" "per \<le> 2 ^ 62"
  shows "makeslice ((n + per - 1) sdiv per) = Inr ()"
proof -
  have "(n + per - 1) sdiv per = (n + per - 1) div per" using assms by (intro sdiv_pos) simp_all
  moreover have "0 \<le> (n + per - 1) div per" using assms by (simp add: pos_imp_zdiv_nonneg_iff)
  moreover have "(n + per - 1) div per \<le> n" using assms by (intro ceil_le) simp_all
  ultimately show ?thesis using assms by (simp add: makeslice_def)
qed

lemma splitCtidRange_ranges:
  assumes "0 < n" "n \<le> 2 ^ 32" "0 < per" "per \<le> 2 ^ 62"
  shows "splitCtidRange n per = Some (Inr (map mk_range (block_ranges per 0 n)))"
  using makeslice_ok [of n per] split_loop_ranges [of 0 per n] assms by (simp add: splitCtidRange_def)

lemma splitCtidRangeBetween_ranges:
  assumes "min_block b \<le> max_block b" "0 < per" "per \<le> 2 ^ 62"
  shows "splitCtidRangeBetween b per = Some (Inr (map mk_range (block_ranges per (min_block b) (max_block b + 1))))"
proof -
  have r: "0 \<le> min_block b" "max_block b < 2 ^ 32" using unsigned_less [of "BlockNumber (b_max b)", where 'a = int]
    by (simp_all add: min_block_def max_block_def)
  have "makeslice (i64 (max_block b - min_block b + per) sdiv per) = Inr ()"
    using makeslice_ok [of "max_block b - min_block b + 1" per] assms r by (simp add: algebra_simps)
  then show ?thesis using between_loop_ranges [of "min_block b" per "max_block b"] assms r
    by (simp add: splitCtidRangeBetween_def)
qed

section \<open>Every plan reads the table once\<close>

text \<open>The answer of \<open>SELECT min(ctid), max(ctid)\<close> for the rows the query selects.\<close>

definition bounds_answer :: "(TID \<times> 'r) list \<Rightarrow> ('r \<Rightarrow> bool) \<Rightarrow> ctidBounds option \<Rightarrow> bool" where
  "bounds_answer heap P b =
     (case b of None \<Rightarrow> \<not> list_ex (\<lambda>x. P (snd x)) heap
      | Some b \<Rightarrow> list_ex (\<lambda>x. P (snd x) \<and> fst x = b_min b) heap \<and> list_ex (\<lambda>x. P (snd x) \<and> fst x = b_max b) heap \<and>
          list_all (\<lambda>x. P (snd x) \<longrightarrow> tid_key (b_min b) \<le> tid_key (fst x) \<and> tid_key (fst x) \<le> tid_key (b_max b)) heap)"

definition plan_rows :: "(TID \<times> 'r) list \<Rightarrow> ('r \<Rightarrow> bool) \<Rightarrow> snapshotTablePlan \<Rightarrow> (TID \<times> 'r) list" where
  "plan_rows heap P plan = concat (map (task_rows heap P) (plan_tasks plan))"

definition reads_once :: "(TID \<times> 'r) list \<Rightarrow> ('r \<Rightarrow> bool) \<Rightarrow> snapshotTablePlan \<Rightarrow> bool" where
  "reads_once heap P plan \<longleftrightarrow> mset (plan_rows heap P plan) = mset (filter (\<lambda>x. P (snd x)) heap) \<and>
     (usesCtidRanges plan \<longrightarrow> plan_rows heap P plan = filter (\<lambda>x. P (snd x)) (sort_key (\<lambda>x. tid_key (fst x)) heap))"

lemma block_lt: "block x < 2 ^ 32"
  using unsigned_less [of "BlockNumber (fst x)", where 'a = int] by (simp add: block_def)

lemma reads_once_ranges:
  assumes "usesCtidRanges plan" "pl_ranges plan = map mk_range (block_ranges per a b)" "0 < per" "0 \<le> a" "b \<le> 2 ^ 32"
    and "\<And>x. x \<in> set heap \<Longrightarrow> P (snd x) \<Longrightarrow> a \<le> block x \<and> block x < b"
  shows "reads_once heap P plan"
proof -
  have "plan_rows heap P plan = concat (map (\<lambda>r. select_ctid heap P (r_min r) (r_max r)) (pl_ranges plan))"
    using assms(1) by (simp add: plan_rows_def plan_tasks_def task_rows_def comp_def)
  then have "plan_rows heap P plan = filter (\<lambda>x. P (snd x)) (sort_key (\<lambda>x. tid_key (fst x)) heap)"
    using ranges_read_rows [OF assms(3-6)] assms(2) by simp
  then show ?thesis by (simp add: reads_once_def)
qed

lemma reads_once_none: "\<not> usesCtidRanges plan \<Longrightarrow> pl_query plan = [] \<Longrightarrow> \<not> list_ex (\<lambda>x. P (snd x)) heap \<Longrightarrow> reads_once heap P plan"
  by (auto simp: reads_once_def plan_rows_def plan_tasks_def list_ex_iff)

lemma planCtidRanges_reads:
  assumes "plan_sizes cfg est" "\<And>x. x \<in> set heap \<Longrightarrow> block x < totalBlocks est"
  shows "\<exists>plan. planCtidRanges cfg q w est str = Some (Inr plan) \<and> reads_once heap P plan"
proof (cases "0 < totalBlocks est")
  case True
  then show ?thesis
    using splitCtidRange_ranges [of "totalBlocks est"] blocksPerBatch_range [OF assms(1)] assms
    by (auto simp: planCtidRanges_def Let_def plan_sizes_def block_def
        intro!: reads_once_ranges [where per = "blocksPerBatch est (sn_BatchSize cfg)" and a = 0 and b = "totalBlocks est"])
next
  case False
  have "heap = []"
  proof (cases heap)
    case (Cons x xs)
    then show ?thesis using assms(2) [of x] False by (simp add: block_def not_le [symmetric]) (metis order.trans uint_ge_0)
  qed
  then show ?thesis using False by (simp add: planCtidRanges_def splitCtidRange_def reads_once_def plan_rows_def plan_tasks_def)
qed

lemma bounds_blocks:
  assumes "bounds_answer heap P (Some b)"
  shows "min_block b \<le> max_block b" "\<And>x. x \<in> set heap \<Longrightarrow> P (snd x) \<Longrightarrow> min_block b \<le> block x \<and> block x < max_block b + 1"
    "\<exists>x \<in> set heap. P (snd x)"
proof -
  obtain x where x: "x \<in> set heap" "P (snd x)" using assms by (auto simp: bounds_answer_def list_ex_iff)
  then show "\<exists>x \<in> set heap. P (snd x)" by blast
  have le: "min_block b \<le> block y \<and> block y \<le> max_block b" if "y \<in> set heap" "P (snd y)" for y
    using assms that by (auto simp: bounds_answer_def list_all_iff tid_key_def min_block_def max_block_def block_def less_eq_prod_def
        word_le_def word_less_def)
  then show "\<And>x. x \<in> set heap \<Longrightarrow> P (snd x) \<Longrightarrow> min_block b \<le> block x \<and> block x < max_block b + 1" by fastforce
  show "min_block b \<le> max_block b" using le [OF x] by simp
qed

lemma planFromBounds_reads:
  assumes "plan_sizes cfg est" "\<And>x. x \<in> set heap \<Longrightarrow> block x < totalBlocks est" "bounds_answer heap P b"
  shows "\<exists>plan. planQuerySnapshotFromBounds cfg (Inr b) q est str = Some (Inr plan) \<and> reads_once heap P plan"
proof (cases b)
  case None
  then show ?thesis using assms(3) by (auto simp: planQuerySnapshotFromBounds_def bounds_answer_def intro: reads_once_none)
next
  case (Some bs)
  note bb = bounds_blocks [OF assms(3) [unfolded Some]]
  obtain x where "x \<in> set heap" using bb(3) by blast
  then have pos: "0 < totalBlocks est" using assms(2) [of x] by (metis block_def le_less_trans uint_ge_0)
  have top: "max_block bs < 2 ^ 32" "0 \<le> min_block bs"
    using unsigned_less [of "BlockNumber (b_max bs)", where 'a = int] by (simp_all add: max_block_def min_block_def)
  define per where "per = (if estimatedRows est \<le> 0 then max_block bs - min_block bs + 1 else blocksPerBatch est (sn_BatchSize cfg))"
  have per: "0 < per" "per \<le> 2 ^ 62" using blocksPerBatch_range [OF assms(1) pos] bb(1) top by (auto simp: per_def)
  have "(if estimatedRows est \<le> 0 then ctidBoundsBlockWidth bs else Inr (blocksPerBatch est (sn_BatchSize cfg))) = Inr per"
    using bb(1) by (simp add: per_def ctidBoundsBlockWidth_def)
  then show ?thesis using splitCtidRangeBetween_ranges [OF bb(1) per] Some per top bb(2)
    by (auto simp: planQuerySnapshotFromBounds_def intro!: reads_once_ranges [where per = per and a = "min_block bs" and b = "max_block bs + 1"])
qed

text \<open>
  (C11) The plan of a table is equivalent to reading the table: whatever strategy
  \<open>planSnapshotTable\<close> picks, it returns a plan whose tasks together read exactly the rows the query
  selects, each once, and range by range in \<open>ctid\<close> order, as one scan of the whole table would.
  It fails only with the error of the query for the bounds. This needs that the visible rows lie
  below the number of blocks reported, as they do for an ordinary table, and that the bounds are
  the smallest and the largest \<open>ctid\<close> of the rows selected.
\<close>

theorem planSnapshotTable_reads_once:
  assumes "ts_SnapshotQuery st = Some q" "q \<noteq> []" "plan_sizes cfg est"
    and "\<And>x. x \<in> set heap \<Longrightarrow> block x < totalBlocks est"
    and "\<And>b. bounds = Inr b \<Longrightarrow> bounds_answer heap P b"
  shows "(\<exists>plan. planSnapshotTable cfg bounds st est w = Some (Inr plan) \<and> reads_once heap P plan) \<or>
    (\<exists>e. bounds = Inl e \<and> planSnapshotTable cfg bounds st est w = Some (Inl e))"
proof -
  have whole: "\<exists>plan. planCtidRanges cfg q h est str = Some (Inr plan) \<and> reads_once heap P plan" for h str
    using planCtidRanges_reads [OF assms(3,4)] by blast
  have probe: "(\<exists>plan. planQuerySnapshotFromBounds cfg bounds q est str = Some (Inr plan) \<and> reads_once heap P plan) \<or>
      (\<exists>e. bounds = Inl e \<and> planQuerySnapshotFromBounds cfg bounds q est str = Some (Inl e))" for str
    using planFromBounds_reads [OF assms(3,4) assms(5)] by (cases bounds) (auto simp: planQuerySnapshotFromBounds_def)
  have single: "reads_once heap P \<lparr>pl_query = q, pl_ranges = [], usesCtidRanges = False, strategy = str, pl_blocksPerBatch = 0\<rparr>" for str
    using assms(2) by (simp add: reads_once_def plan_rows_def plan_tasks_def task_rows_def)
  show ?thesis
    using whole [of False "''ctid_range''"] whole [of True "''ctid_range''"] probe [of "''empty_query_bounds''"]
      probe [of "''sparse_query_bounds''"] single [of "''single_query''"] assms(1)
    by (auto simp: planSnapshotTable_def split: go_error.split sum.split)
qed

text \<open>A query on a table of three blocks whose rows lie in the first and in the last.\<close>

definition plan_cfg :: SnapshotConfig where
  "plan_cfg = \<lparr>sn_Mode = ModeOneTime, sn_Config = [], sn_BatchSize = 2, sn_ParallelWorkers = 1, sn_AbortOnError = True,
     sn_QueryTimeout = [], sn_MaxWriteQueueSize = 0\<rparr>"

definition plan_state :: TableState where
  "plan_state = (new_TableState ''app'' ''public.t'')\<lparr>ts_SnapshotQuery := Some ''SELECT * FROM public.t WHERE  ( n > 1 ) '',
     ts_whereClause := '' ( n > 1 ) ''\<rparr>"

definition plan_heap :: "(TID \<times> nat) list" where
  "plan_heap = [(makeTID 2 1, 5), (makeTID 0 2, 3), (makeTID 1 1, 0), (makeTID 0 1, 2)]"

definition plan_estimate :: tableEstimate where
  "plan_estimate = \<lparr>estimatedRows = 5, baseEstimatedRows = 1000, totalBlocks = 3\<rparr>"

theorem planSnapshotTable_reads_once_witness:
  "\<exists>plan. planSnapshotTable plan_cfg (Inr (Some \<lparr>b_min = makeTID 0 1, b_max = makeTID 2 1\<rparr>)) plan_state plan_estimate 1 = Some (Inr plan) \<and>
     reads_once plan_heap (\<lambda>n. 1 < n) plan"
proof -
  let ?b = "\<lparr>b_min = makeTID 0 1, b_max = makeTID 2 1\<rparr>"
  have "plan_sizes plan_cfg plan_estimate" by (simp add: plan_sizes_def plan_cfg_def plan_estimate_def)
  moreover have "block x < totalBlocks plan_estimate" if "x \<in> set plan_heap" for x
    using that by (auto simp: plan_heap_def plan_estimate_def block_def makeTID_def)
  moreover have "bounds_answer plan_heap (\<lambda>n. 1 < n) (Some ?b)"
    by (simp add: bounds_answer_def plan_heap_def tid_key_def makeTID_def)
  ultimately show ?thesis
    using planSnapshotTable_reads_once [of plan_state "''SELECT * FROM public.t WHERE  ( n > 1 ) ''" plan_cfg plan_estimate plan_heap
        "Inr (Some ?b)" "\<lambda>n. 1 < n" 1]
    by (simp add: plan_state_def new_TableState_def)
qed

text \<open>
  A table whose relation reports no blocks gets no task, whatever rows a query on it would return:
  this is the answer of \<open>pg_relation_size\<close> for the parent of a partitioned table.
\<close>

theorem no_blocks_no_tasks:
  assumes "ts_SnapshotQuery st = Some q" "ts_whereClause st = []" "totalBlocks est \<le> 0"
  shows "\<exists>plan. planSnapshotTable cfg bounds st est w = Some (Inr plan) \<and> plan_tasks plan = []"
  using assms by (simp add: planSnapshotTable_def planCtidRanges_def splitCtidRange_def plan_tasks_def)

section \<open>Columns\<close>

lemma set_snapshotColumnNames: "set (snapshotColumnNames (Some t)) = (\<lambda>x. col_Name (snd x)) ` set (Columns t)"
  by (simp add: snapshotColumnNames_def image_image)

lemma Keys_snapshotKeyMap: "set (Keys (snapshotKeyMap cols opts)) = set cols \<union> (if tx_Save opts then {tx_Name opts} else {})"
  by (auto simp: snapshotKeyMap_def)

lemma snapshotKeyMap_covers: "c \<in> set cols \<Longrightarrow> 0 \<le> GetIndex (snapshotKeyMap cols opts) c"
  using GetIndex_neg_iff [of "snapshotKeyMap cols opts" c] Keys_snapshotKeyMap [of cols opts]
  by (simp add: snapshotKeyMap_def split: if_splits)

end
