(* ===== verification/Snapshotworker.thy ===== *)
theory Snapshotworker
  imports Snapshotprogress Snapshotranges Entrypool
begin

text \<open>
  \<open>snapshot/worker.go\<close>: the LSNs of a snapshot, and a worker that reads the ranges it is given and
  hands the rows to the listener in batches. The database, the listener (\<open>OnSnapshotBatch\<close>), the
  choices of \<open>sync.Pool\<close>, \<open>Sprintf("%v")\<close> (\<open>fmt\<close>) and the context are arguments. Several workers
  share the LSN tracker, the pool and the reporter; the atomic operations on them are the
  definitions below, and the interleavings are the subject of \<open>Snapshotsystem\<close>.
\<close>

section \<open>LSNs of the snapshot\<close>

record snapshotLSNTracker =
  lt_nextLSN :: u64
  lt_maxSubmitted :: u64

definition NextLSN :: "snapshotLSNTracker \<Rightarrow> LSN \<times> snapshotLSNTracker" where
  "NextLSN t = (lt_nextLSN t + 1, t\<lparr>lt_nextLSN := lt_nextLSN t + 1\<rparr>)"

definition MaxLSN :: "snapshotLSNTracker \<Rightarrow> LSN" where
  "MaxLSN t = lt_nextLSN t"

text \<open>
  The compare-and-swap loop of \<open>MarkSubmitted\<close>: \<open>seen\<close> lists the values other workers have stored
  between a load and the swap of each failed round.
\<close>

fun MarkSubmitted :: "LSN \<Rightarrow> u64 list \<Rightarrow> snapshotLSNTracker \<Rightarrow> snapshotLSNTracker" where
  "MarkSubmitted lsn [] t = (if lsn \<le> lt_maxSubmitted t then t else t\<lparr>lt_maxSubmitted := lsn\<rparr>)"
| "MarkSubmitted lsn (v # seen) t =
     (if lsn \<le> lt_maxSubmitted t then t
      else if v = lt_maxSubmitted t then t\<lparr>lt_maxSubmitted := lsn\<rparr>
      else MarkSubmitted lsn seen (t\<lparr>lt_maxSubmitted := v\<rparr>))"

definition MaxSubmitted :: "snapshotLSNTracker \<Rightarrow> LSN" where
  "MaxSubmitted t = lt_maxSubmitted t"

section \<open>Reading one range\<close>

text \<open>
  The answer to a query: the names of the fields, for each row the outcome of \<open>rows.Values()\<close>, and
  the error \<open>rows.Err()\<close> reports at the end, if any.
\<close>

record 'v query_result =
  qr_fields :: "string list"
  qr_rows :: "'v option list go_result list"
  qr_err :: "go_error option"

record 'v range_env =
  rn_begin :: "unit go_result"
  rn_set :: "string \<Rightarrow> unit go_result"
  rn_query :: "string \<Rightarrow> (TID \<times> TID) option \<Rightarrow> 'v query_result go_result"

record snapshotTask =
  task_state :: string
  task_table :: Table
  task_keyMap :: "KeyMap option"
  task_query :: string
  task_args :: "(TID \<times> TID) option"

record ('v, 'l) worker_state =
  ws_listener :: 'l
  ws_lsn :: snapshotLSNTracker
  ws_reporter :: snapshotProgressReporter
  ws_pool :: "'v EntryTuplePool"

record Worker =
  wk_batchSize :: int
  wk_snapshotID :: string
  wk_txOpts :: TxCommitTimeOptions

type_synonym 'v entry = "'v pooledOrderedMap WriteEntry"

type_synonym ('v, 'l) on_batch = "'v pooledOrderedMap WriteRequest \<Rightarrow> 'l \<Rightarrow> unit go_result \<times> 'l"

definition snapshotKeyMapFromFields :: "string list \<Rightarrow> TxCommitTimeOptions \<Rightarrow> KeyMap" where
  "snapshotKeyMapFromFields cols txOpts = snapshotKeyMap cols txOpts"

text \<open>
  \<open>sendBatch\<close>. The context's error at the time of the report is \<open>ctx\<close> of the LSN, and no other
  worker comes between the load and the swap of \<open>MarkSubmitted\<close> here.
\<close>

definition sendBatch ::
  "('v, 'l) on_batch \<Rightarrow> (LSN \<Rightarrow> go_error option) \<Rightarrow> Table \<Rightarrow> 'v entry list \<Rightarrow> ('v, 'l) worker_state \<Rightarrow>
   unit go_result \<times> ('v, 'l) worker_state" where
  "sendBatch onBatch ctx table entries s =
     (let (lsn, lt) = NextLSN (ws_lsn s);
          s1 = s\<lparr>ws_lsn := lt\<rparr>;
          (res, l) = onBatch (NewSnapshotRequest lsn entries) (ws_listener s1);
          s2 = s1\<lparr>ws_listener := l\<rparr>
      in case res of
           Inl e \<Rightarrow> (Inl (wrap_err ''listener failed to process row: '' e), s2)
         | Inr _ \<Rightarrow>
            (case Report (ctx lsn) ((report_of reportKindMaxLSN (FullName table))\<lparr>pr_maxLSN := lsn\<rparr>) (ws_reporter s2) of
               (Inl e, r) \<Rightarrow> (Inl (wrap_err ''failed to report progress max_lsn: '' e), s2\<lparr>ws_reporter := r\<rparr>)
             | (Inr _, r) \<Rightarrow> (Inr (), s2\<lparr>ws_reporter := r, ws_lsn := MarkSubmitted lsn [] (ws_lsn s2)\<rparr>)))"

text \<open>
  The fields of a row and its values; a value missing at an index is the panic of the slice access
  \<open>values[i]\<close>.
\<close>

definition row_fields :: "string list \<Rightarrow> 'v option list \<Rightarrow> (string \<times> 'v option) list go_result" where
  "row_fields cols vals = (if length cols \<le> length vals then Inr (zip cols vals) else Inl index_panic)"

text \<open>One row: a tuple of the pool, filled, as an entry at the offset it has in its batch.\<close>

definition row_entry ::
  "('v option \<Rightarrow> string) \<Rightarrow> nat \<Rightarrow> Table \<Rightarrow> KeyMap \<Rightarrow> string list \<Rightarrow> 'v option list \<Rightarrow> u32 \<Rightarrow> 'v EntryTuplePool \<Rightarrow>
   ('v entry \<times> 'v EntryTuplePool) go_result" where
  "row_entry fmt choice table km cols vals offset pool =
     (let (t, pool') = pool_Get pool choice (FullName table) ''1'' km in
      bind_result (row_fields cols vals) (\<lambda>kvs.
      bind_result (set_all pom_Set t kvs) (\<lambda>rowMap.
        Inr (\<lparr>we_Tuple = Tup rowMap, we_PrevTuple = NoTuple,
              we_PK = CreatePK fmt table (\<lambda>name. case pom_Get rowMap name of Inl _ \<Rightarrow> None | Inr (v, _) \<Rightarrow> v),
              we_Kind = SnapshotRead, we_Table = tbl_Name table, we_Offset = offset\<rparr>, pool'))))"

text \<open>The loop over the rows; \<open>choice\<close> is what \<open>sync.Pool\<close> picks for the row with that number.\<close>

fun process_rows ::
  "('v, 'l) on_batch \<Rightarrow> (LSN \<Rightarrow> go_error option) \<Rightarrow> ('v option \<Rightarrow> string) \<Rightarrow> (nat \<Rightarrow> nat) \<Rightarrow> u32 \<Rightarrow> Table \<Rightarrow> KeyMap \<Rightarrow> string list \<Rightarrow>
   'v option list go_result list \<Rightarrow> 'v entry list \<Rightarrow> u32 \<Rightarrow> ('v, 'l) worker_state \<Rightarrow>
   ('v entry list \<times> u32) go_result \<times> ('v, 'l) worker_state" where
  "process_rows onBatch ctx fmt choice batch table km cols [] entries batchCount s = (Inr (entries, batchCount), s)"
| "process_rows onBatch ctx fmt choice batch table km cols (row # rows) entries batchCount s =
     (case row of
        Inl e \<Rightarrow> (Inl (wrap_err ''failed to scan row: '' e), s)
      | Inr vals \<Rightarrow>
         (case row_entry fmt (choice (length rows)) table km cols vals batchCount (ws_pool s) of
            Inl e \<Rightarrow> (Inl e, s)
          | Inr (entry, pool) \<Rightarrow>
             let s1 = s\<lparr>ws_pool := pool\<rparr>; entries1 = entries @ [entry]; batchCount1 = batchCount + 1 in
             if batch \<le> batchCount1
             then (case sendBatch onBatch ctx table entries1 s1 of
                     (Inl e, s2) \<Rightarrow> (Inl e, s2)
                   | (Inr _, s2) \<Rightarrow> process_rows onBatch ctx fmt choice batch table km cols rows [] 0 s2)
             else process_rows onBatch ctx fmt choice batch table km cols rows entries1 batchCount1 s1))"

definition processTableRange ::
  "('v, 'l) on_batch \<Rightarrow> (LSN \<Rightarrow> go_error option) \<Rightarrow> ('v option \<Rightarrow> string) \<Rightarrow> (nat \<Rightarrow> nat) \<Rightarrow> 'v range_env \<Rightarrow> Worker \<Rightarrow>
   snapshotTask \<Rightarrow> ('v, 'l) worker_state \<Rightarrow> unit go_result \<times> ('v, 'l) worker_state" where
  "processTableRange onBatch ctx fmt choice env w task s =
     (case rn_begin env of Inl e \<Rightarrow> (Inl (wrap_err ''failed to begin transaction: '' e), s) | Inr _ \<Rightarrow>
     (case (if wk_snapshotID w \<noteq> [] then rn_set env (wk_snapshotID w) else Inr ()) of
        Inl e \<Rightarrow> (Inl (wrap_err ''failed to set transaction snapshot: '' e), s) | Inr _ \<Rightarrow>
     (case rn_query env (task_query task) (task_args task) of
        Inl e \<Rightarrow> (Inl (wrap_err ''failed to execute query: '' e), s)
      | Inr q \<Rightarrow>
         let km = (case task_keyMap task of None \<Rightarrow> snapshotKeyMapFromFields (qr_fields q) (wk_txOpts w) | Some k \<Rightarrow> k) in
         if list_ex (\<lambda>name. GetIndex km name < 0) (qr_fields q)
         then (Inl (Error (''snapshot keymap for table '' @ FullName (task_table task) @ '' is missing query column'')), s)
         else (case process_rows onBatch ctx fmt choice (word_of_int (wk_batchSize w)) (task_table task) km (qr_fields q) (qr_rows q) [] 0 s of
                 (Inl e, s1) \<Rightarrow> (Inl e, s1)
               | (Inr (entries, batchCount), s1) \<Rightarrow>
                  (case qr_err q of
                     Some e \<Rightarrow> (Inl (wrap_err ''failed to read rows: '' e), s1)
                   | None \<Rightarrow> if 0 < batchCount then sendBatch onBatch ctx (task_table task) entries s1 else (Inr (), s1))))))"

text \<open>
  One round of \<open>Process\<close> with a task received: \<open>acquire\<close> is the outcome of connecting, which only
  the first task needs. The result says whether the worker goes on; the error it puts on the error
  channel names the table (a panic, which ends the process, stays a panic).
\<close>

definition process_task ::
  "('v, 'l) on_batch \<Rightarrow> (LSN \<Rightarrow> go_error option) \<Rightarrow> go_error option \<Rightarrow> ('v option \<Rightarrow> string) \<Rightarrow> (nat \<Rightarrow> nat) \<Rightarrow> unit go_result \<Rightarrow>
   'v range_env \<Rightarrow> Worker \<Rightarrow> bool \<Rightarrow> snapshotTask \<Rightarrow> ('v, 'l) worker_state \<Rightarrow>
   ((string \<times> go_error) option \<times> bool) \<times> ('v, 'l) worker_state" where
  "process_task onBatch ctx ctxDone fmt choice acquire env w hasConn task s =
     (case (if hasConn then Inr () else acquire) of
        Inl e \<Rightarrow> ((Some (task_state task,
          wrap_err ''snapshot: process table range failed: failed to acquire primary connection: '' e), False), s)
      | Inr _ \<Rightarrow>
         (case processTableRange onBatch ctx fmt choice env w task s of
            (Inl e, s1) \<Rightarrow> ((Some (task_state task, wrap_err ''snapshot: process table range failed: '' e), False), s1)
          | (Inr _, s1) \<Rightarrow>
             (case Report ctxDone (report_of reportKindTaskDone (FullName (task_table task))) (ws_reporter s1) of
                (Inl e, r) \<Rightarrow> ((Some (FullName (task_table task),
                  wrap_err ''snapshot: process table range failed: failed to report progress: '' e), False), s1\<lparr>ws_reporter := r\<rparr>)
              | (Inr _, r) \<Rightarrow> ((None, True), s1\<lparr>ws_reporter := r\<rparr>))))"

end
