(* ===== verification/Snapshotbatches.thy ===== *)
theory Snapshotbatches
  imports Snapshotworker
begin

text \<open>
  What a worker hands to the listener for one range: the rows of the query cut into batches of the
  configured size, in order, each row once, under consecutive LSNs.
\<close>

section \<open>The reference cut of the rows\<close>

function batches :: "nat \<Rightarrow> 'a list \<Rightarrow> 'a list list" where
  "batches k xs = (if xs = [] \<or> k = 0 then [] else take k xs # batches k (drop k xs))"
  by pat_completeness auto
termination by (relation "measure (\<lambda>(k, xs). length xs)") auto

declare batches.simps [simp del]

lemma batches_Nil [simp]: "batches k [] = []"
  by (simp add: batches.simps)

lemma batches_full: "length ys = k \<Longrightarrow> 0 < k \<Longrightarrow> batches k (ys @ xs) = ys # batches k xs"
  by (subst batches.simps) auto

lemma batches_short: "xs \<noteq> [] \<Longrightarrow> length xs < k \<Longrightarrow> batches k xs = [xs]"
  by (subst batches.simps) simp

lemma concat_batches: "0 < k \<Longrightarrow> concat (batches k xs) = xs"
  by (induction k xs rule: batches.induct) (simp add: batches.simps)

lemma batches_sizes: "ys \<in> set (batches k xs) \<Longrightarrow> ys \<noteq> [] \<and> length ys \<le> k"
proof (induction k xs rule: batches.induct)
  case (1 k xs)
  then show ?case by (cases "xs = [] \<or> k = 0") (auto simp: batches.simps [of k xs])
qed

section \<open>One row\<close>

definition content :: "'v entry \<Rightarrow> string \<rightharpoonup> 'v option" where
  "content e = (case we_Tuple e of Tup t \<Rightarrow> om_lookup (pom t) | _ \<Rightarrow> Map.empty)"

definition row_map :: "string list \<Rightarrow> 'v option list \<Rightarrow> string \<rightharpoonup> 'v option" where
  "row_map cols vals = map_of (zip cols vals)"

text \<open>What the pool must hold for a table: its tuples have the key map of the task.\<close>

definition pool_ready :: "Table \<Rightarrow> KeyMap \<Rightarrow> 'v EntryTuplePool \<Rightarrow> bool" where
  "pool_ready table km pool \<longleftrightarrow> pools_wf pool \<and> km_wf km \<and> Len km < 2 ^ 32 \<and> pool_keyMap pool (pool_key (FullName table) ''1'') km = km"

lemma row_entry_ok:
  assumes "pool_ready table km pool" "set cols \<subseteq> set (Keys km)" "distinct cols" "length cols \<le> length vals"
  shows "\<exists>e pool'. row_entry fmt choice table km cols vals off pool = Inr (e, pool') \<and> content e = row_map cols vals \<and>
    we_Offset e = off \<and> we_Kind e = SnapshotRead \<and> we_Table e = tbl_Name table \<and> pool_ready table km pool'"
proof -
  obtain t pool' where g: "pool_Get pool choice (FullName table) ''1'' km = (t, pool')" by fastforce
  have ready: "pools_wf pool" "km_wf km" "Len km < 2 ^ 32" "pool_keyMap pool (pool_key (FullName table) ''1'') km = km"
    using assms(1) by (auto simp: pool_ready_def)
  have t: "pom t = om_New km" "pool_ready table km pool'"
    using pool_Get_fresh [OF ready(1-3) g] ready by (auto simp: pool_ready_def)
  have "om_wf (pom t)" "fst ` set (zip cols vals) \<subseteq> set (Keys (om_keyMap (pom t)))"
    using t ready assms(2) by (auto dest: set_zip_leftD)
  then obtain rm where rm: "set_all pom_Set t (zip cols vals) = Inr rm"
    "om_lookup (pom rm) = om_lookup (pom t) ++ map_of (rev (zip cols vals))"
    using pom.set_all_ok [of t "zip cols vals"] by blast
  have d: "distinct (map fst (zip cols vals))" using assms(3) by (simp add: distinct_map map_fst_zip_take)
  have "map_of (rev (zip cols vals)) = map_of (zip cols vals)"
    using d map_of_inject_set [of "rev (zip cols vals)" "zip cols vals"] by (simp add: rev_map [symmetric])
  moreover have "om_lookup (pom t) = Map.empty" using t ready by (simp add: fun_eq_iff)
  ultimately have "om_lookup (pom rm) = row_map cols vals" using rm(2) by (simp add: row_map_def)
  then show ?thesis using g rm(1) assms(4) t(2) by (simp add: row_entry_def row_fields_def content_def)
qed

section \<open>One range\<close>

definition lsns_from :: "LSN \<Rightarrow> nat \<Rightarrow> LSN list" where
  "lsns_from l n = map (\<lambda>i. l + of_nat (Suc i)) [0..<n]"

lemma lsns_from_add: "lsns_from l (m + n) = lsns_from l m @ lsns_from (l + of_nat m) n"
  by (induction n) (simp_all add: lsns_from_def algebra_simps)

text \<open>The listener, the LSNs and the reports after a list of requests has been sent.\<close>

definition sent :: "('v, 'l) on_batch \<Rightarrow> Table \<Rightarrow> 'v pooledOrderedMap WriteRequest list \<Rightarrow> ('v, 'l) worker_state \<Rightarrow> ('v, 'l) worker_state \<Rightarrow> bool" where
  "sent onBatch table reqs s s' \<longleftrightarrow>
     ws_listener s' = fold (\<lambda>r l. snd (onBatch r l)) reqs (ws_listener s) \<and>
     lt_nextLSN (ws_lsn s') = lt_nextLSN (ws_lsn s) + of_nat (length reqs) \<and>
     lt_maxSubmitted (ws_lsn s') = fold max (map wr_LSN reqs) (lt_maxSubmitted (ws_lsn s)) \<and>
     map wr_LSN reqs = lsns_from (lt_nextLSN (ws_lsn s)) (length reqs) \<and> list_all IsSnapshot reqs \<and>
     wq_list (rp_queue (ws_reporter s')) = wq_list (rp_queue (ws_reporter s)) @
       map (\<lambda>r. (report_of reportKindMaxLSN (FullName table))\<lparr>pr_maxLSN := wr_LSN r\<rparr>) reqs"

definition reporter_open :: "('v, 'l) worker_state \<Rightarrow> bool" where
  "reporter_open s \<longleftrightarrow> wq_inv (rp_queue (ws_reporter s)) \<and> \<not> rp_closed (ws_reporter s)"

lemma sent_Nil: "ws_listener s' = ws_listener s \<Longrightarrow> ws_lsn s' = ws_lsn s \<Longrightarrow> ws_reporter s' = ws_reporter s \<Longrightarrow> sent onBatch table [] s s'"
  by (simp add: sent_def lsns_from_def)

lemma sent_pool [simp]: "sent onBatch table reqs (s\<lparr>ws_pool := p\<rparr>) s' = sent onBatch table reqs s s'"
  by (simp add: sent_def)

lemma sent_append: "sent onBatch table rs s s1 \<Longrightarrow> sent onBatch table rs' s1 s2 \<Longrightarrow> sent onBatch table (rs @ rs') s s2"
  by (simp add: sent_def lsns_from_add add.assoc)

lemma wr_LSN_New [simp]: "wr_LSN (NewSnapshotRequest l es) = l" "wr_Entries (NewSnapshotRequest l es) = es" "IsSnapshot (NewSnapshotRequest l es)"
  by (simp_all add: NewSnapshotRequest_def IsSnapshot_def)

lemma sendBatch_ok:
  assumes "\<And>r l. fst (onBatch r l) = Inr ()" "\<And>l. ctx l = None" "reporter_open s"
  shows "\<exists>s'. sendBatch onBatch ctx table es s = (Inr (), s') \<and>
    sent onBatch table [NewSnapshotRequest (lt_nextLSN (ws_lsn s) + 1) es] s s' \<and> reporter_open s' \<and> ws_pool s' = ws_pool s"
proof -
  let ?lsn = "lt_nextLSN (ws_lsn s) + 1"
  let ?rep = "(report_of reportKindMaxLSN (FullName table))\<lparr>pr_maxLSN := ?lsn\<rparr>"
  have q: "wq_inv (snd (Push pr_Size ?rep (rp_queue (ws_reporter s))))"
    "wq_list (snd (Push pr_Size ?rep (rp_queue (ws_reporter s)))) = wq_list (rp_queue (ws_reporter s)) @ [?rep]"
    using Push_list [of "rp_queue (ws_reporter s)" pr_Size ?rep] assms(3) by (auto simp: reporter_open_def inserted_def)
  obtain l' where l: "onBatch (NewSnapshotRequest ?lsn es) (ws_listener s) = (Inr (), l')"
    using assms(1) by (metis prod.collapse)
  show ?thesis using assms(2,3) q l
    by (auto simp: sendBatch_def NextLSN_def Report_def reporter_open_def sent_def lsns_from_def max_def Let_def not_le)
qed

text \<open>The entries of a request carry the offsets of their positions.\<close>

definition numbered :: "'t WriteEntry list \<Rightarrow> bool" where
  "numbered es \<longleftrightarrow> map we_Offset es = map of_nat [0..<length es]"

definition cut_into :: "nat \<Rightarrow> string list \<Rightarrow> 'v option list list \<Rightarrow> 'v pooledOrderedMap WriteRequest list \<Rightarrow> bool" where
  "cut_into k cols vals reqs \<longleftrightarrow>
     map (\<lambda>r. map content (wr_Entries r)) reqs = batches k (map (row_map cols) vals) \<and> list_all (\<lambda>r. numbered (wr_Entries r)) reqs"

lemma numbered_snoc: "numbered es \<Longrightarrow> we_Offset e = of_nat (length es) \<Longrightarrow> numbered (es @ [e])"
  by (simp add: numbered_def)

lemma unat_of_nat_u32: "n < 2 ^ 32 \<Longrightarrow> unat (of_nat n :: u32) = n"
  by (simp add: unsigned_of_nat take_bit_nat_eq_self_iff)

lemma process_rows_batches:
  assumes ok: "\<And>r l. fst (onBatch r l) = Inr ()" "\<And>l. ctx l = None"
    and cols: "set cols \<subseteq> set (Keys km)" "distinct cols" and k: "0 < k" "k < 2 ^ 32"
  shows "list_all (\<lambda>v. length cols \<le> length v) vals \<Longrightarrow> pool_ready table km (ws_pool s) \<Longrightarrow> reporter_open s \<Longrightarrow>
    numbered es \<Longrightarrow> length es < k \<Longrightarrow>
    \<exists>es' reqs s'. process_rows onBatch ctx fmt choice (of_nat k) table km cols (map Inr vals) es (of_nat (length es)) s =
        (Inr (es', of_nat (length es')), s') \<and> sent onBatch table reqs s s' \<and> reporter_open s' \<and> numbered es' \<and> length es' < k \<and>
      list_all (\<lambda>r. numbered (wr_Entries r)) reqs \<and>
      batches k (map content es @ map (row_map cols) vals) = map (\<lambda>r. map content (wr_Entries r)) reqs @ (if es' = [] then [] else [map content es'])"
proof (induction vals arbitrary: es s)
  case Nil
  have "batches k (map content es) = (if es = [] then [] else [map content es])"
    using Nil.prems(5) batches_short [of "map content es" k] by simp
  then have "process_rows onBatch ctx fmt choice (of_nat k) table km cols (map Inr []) es (of_nat (length es)) s =
      (Inr (es, of_nat (length es)), s) \<and> sent onBatch table [] s s \<and> reporter_open s \<and> numbered es \<and> length es < k \<and>
      list_all (\<lambda>r. numbered (wr_Entries r)) [] \<and>
      batches k (map content es @ map (row_map cols) []) = map (\<lambda>r. map content (wr_Entries r)) [] @ (if es = [] then [] else [map content es])"
    using Nil.prems by (simp add: sent_Nil)
  then show ?case by blast
next
  case (Cons v vals)
  obtain e pool' where e: "row_entry fmt (choice (length vals)) table km cols v (of_nat (length es)) (ws_pool s) = Inr (e, pool')"
    "content e = row_map cols v" "we_Offset e = of_nat (length es)" "pool_ready table km pool'"
    using row_entry_ok [OF Cons.prems(2) cols, of v fmt "choice (length vals)" "of_nat (length es)"] Cons.prems(1) by auto
  let ?s = "s\<lparr>ws_pool := pool'\<rparr>" let ?es = "es @ [e]"
  have open1: "reporter_open ?s" "numbered ?es" using Cons.prems(3,4) numbered_snoc [OF Cons.prems(4) e(3)] by (simp_all add: reporter_open_def)
  have count: "of_nat (length es) + 1 = (of_nat (length ?es) :: u32)" by simp
  have le: "(of_nat k :: u32) \<le> of_nat (length ?es) \<longleftrightarrow> k \<le> length ?es"
    using k(2) Cons.prems(5) by (subst word_le_nat_alt, subst (1 2) unat_of_nat_u32) simp_all
  show ?case
  proof (cases "length ?es = k")
    case True
    obtain s2 where s2: "sendBatch onBatch ctx table ?es ?s = (Inr (), s2)"
      "sent onBatch table [NewSnapshotRequest (lt_nextLSN (ws_lsn ?s) + 1) ?es] ?s s2" "reporter_open s2" "ws_pool s2 = ws_pool ?s"
      using sendBatch_ok [where onBatch = onBatch and ctx = ctx, OF ok open1(1)] by blast
    obtain es' reqs s' where IH: "process_rows onBatch ctx fmt choice (of_nat k) table km cols (map Inr vals) [] 0 s2 =
        (Inr (es', of_nat (length es')), s')" "sent onBatch table reqs s2 s'" "reporter_open s'" "numbered es'" "length es' < k"
      "list_all (\<lambda>r. numbered (wr_Entries r)) reqs"
      "batches k (map (row_map cols) vals) = map (\<lambda>r. map content (wr_Entries r)) reqs @ (if es' = [] then [] else [map content es'])"
      using Cons.IH [of s2 "[]"] Cons.prems(1) s2(3,4) e(4) k(1) by (auto simp: numbered_def)
    let ?req = "NewSnapshotRequest (lt_nextLSN (ws_lsn s) + 1) ?es"
    have "sent onBatch table [?req] s s2" using s2(2) by simp
    then have "sent onBatch table (?req # reqs) s s'" using sent_append [where rs = "[?req]"] IH(2) by fastforce
    moreover have "process_rows onBatch ctx fmt choice (of_nat k) table km cols (map Inr (v # vals)) es (of_nat (length es)) s =
        (Inr (es', of_nat (length es')), s')"
      using e(1) s2(1) IH(1) le True by (simp add: count del: of_nat_Suc length_append)
    moreover have "batches k (map content es @ map (row_map cols) (v # vals)) =
        map (\<lambda>r. map content (wr_Entries r)) (?req # reqs) @ (if es' = [] then [] else [map content es'])"
      using batches_full [of "map content ?es" k "map (row_map cols) vals"] True k(1) e(2) IH(7) by simp
    moreover have "list_all (\<lambda>r. numbered (wr_Entries r)) (?req # reqs)" using IH(6) open1(2) by simp
    ultimately show ?thesis using IH(3-5) by blast
  next
    case False
    then have short: "length ?es < k" using Cons.prems(5) by simp
    have "process_rows onBatch ctx fmt choice (of_nat k) table km cols (map Inr (v # vals)) es (of_nat (length es)) s =
        process_rows onBatch ctx fmt choice (of_nat k) table km cols (map Inr vals) ?es (of_nat (length ?es)) ?s"
      using e(1) le short by (simp add: count del: of_nat_Suc length_append)
    then show ?thesis using Cons.IH [of ?s ?es] Cons.prems(1) open1 short e(2,4) by simp
  qed
qed

text \<open>
  A range whose query Postgres answers with the rows \<open>vals\<close>, for a task with a key map that covers
  its columns, while the pool holds tuples of that key map and the reporter is open.
\<close>

definition range_ready ::
  "'v range_env \<Rightarrow> Worker \<Rightarrow> snapshotTask \<Rightarrow> 'v query_result \<Rightarrow> 'v option list list \<Rightarrow> KeyMap \<Rightarrow> ('v, 'l) worker_state \<Rightarrow> bool" where
  "range_ready env w task q vals km s \<longleftrightarrow>
     rn_begin env = Inr () \<and> (\<forall>id. rn_set env id = Inr ()) \<and> rn_query env (task_query task) (task_args task) = Inr q \<and>
     qr_rows q = map Inr vals \<and> qr_err q = None \<and> list_all (\<lambda>v. length (qr_fields q) \<le> length v) vals \<and>
     task_keyMap task = Some km \<and> set (qr_fields q) \<subseteq> set (Keys km) \<and> distinct (qr_fields q) \<and>
     pool_ready (task_table task) km (ws_pool s) \<and> reporter_open s \<and> 0 < wk_batchSize w \<and> wk_batchSize w < 2 ^ 32"

lemma processTableRange_batches:
  assumes ok: "\<And>r l. fst (onBatch r l) = Inr ()" "\<And>l. ctx l = None" and ready: "range_ready env w task q vals km s"
  shows "\<exists>reqs s'. processTableRange onBatch ctx fmt choice env w task s = (Inr (), s') \<and>
    sent onBatch (task_table task) reqs s s' \<and> cut_into (nat (wk_batchSize w)) (qr_fields q) vals reqs \<and>
    concat (map (\<lambda>r. map content (wr_Entries r)) reqs) = map (row_map (qr_fields q)) vals"
proof -
  let ?k = "nat (wk_batchSize w)"
  have env: "rn_begin env = Inr ()" "\<And>id. rn_set env id = Inr ()" "rn_query env (task_query task) (task_args task) = Inr q"
    "qr_rows q = map Inr vals" "qr_err q = None" "task_keyMap task = Some km"
    and rows: "list_all (\<lambda>v. length (qr_fields q) \<le> length v) vals" "set (qr_fields q) \<subseteq> set (Keys km)" "distinct (qr_fields q)"
    and st: "pool_ready (task_table task) km (ws_pool s)" "reporter_open s" and size: "0 < wk_batchSize w" "wk_batchSize w < 2 ^ 32"
    using ready by (simp_all add: range_ready_def)
  have k: "0 < ?k" "?k < 2 ^ 32" "(word_of_int (wk_batchSize w) :: u32) = of_nat ?k" using size by simp_all
  obtain es' reqs s1 where p: "process_rows onBatch ctx fmt choice (of_nat ?k) (task_table task) km (qr_fields q) (map Inr vals) [] 0 s =
        (Inr (es', of_nat (length es')), s1)" "sent onBatch (task_table task) reqs s s1" "reporter_open s1" "numbered es'" "length es' < ?k"
      "list_all (\<lambda>r. numbered (wr_Entries r)) reqs"
      "batches ?k (map (row_map (qr_fields q)) vals) = map (\<lambda>r. map content (wr_Entries r)) reqs @ (if es' = [] then [] else [map content es'])"
    using process_rows_batches [where onBatch = onBatch and ctx = ctx and es = "[]" and fmt = fmt and choice = choice,
        OF ok rows(2,3) k(1,2) rows(1) st] k(1) that
    by (simp add: numbered_def del: of_nat_nat) blast
  have "km_wf km" using st(1) by (simp add: pool_ready_def)
  then have keys: "\<not> list_ex (\<lambda>name. GetIndex km name < 0) (qr_fields q)" using rows(2) by (auto simp: list_ex_iff GetIndex_neg_iff)
  have "0 < (of_nat (length es') :: u32) \<longleftrightarrow> es' \<noteq> []"
    using p(5) k(2) unat_of_nat_u32 [of "length es'"] by (auto simp: word_gt_0 word_of_nat_eq_0_iff word_unat_eq_iff)
  then have run: "processTableRange onBatch ctx fmt choice env w task s =
      (if es' \<noteq> [] then sendBatch onBatch ctx (task_table task) es' s1 else (Inr (), s1))"
    using env keys p(1) by (simp add: processTableRange_def k(3))
  show ?thesis
  proof (cases "es' = []")
    case True
    then show ?thesis using run p concat_batches [OF k(1), of "map (row_map (qr_fields q)) vals"]
      by (intro exI [of _ reqs] exI [of _ s1]) (simp add: cut_into_def)
  next
    case False
    let ?last = "NewSnapshotRequest (lt_nextLSN (ws_lsn s1) + 1) es'"
    obtain s2 where s2: "sendBatch onBatch ctx (task_table task) es' s1 = (Inr (), s2)" "sent onBatch (task_table task) [?last] s1 s2"
      using sendBatch_ok [where onBatch = onBatch and ctx = ctx, OF ok p(3)] by blast
    have "sent onBatch (task_table task) (reqs @ [?last]) s s2" by (rule sent_append [OF p(2) s2(2)])
    then show ?thesis using run s2(1) False p(4,6,7) concat_batches [OF k(1), of "map (row_map (qr_fields q)) vals"]
      by (intro exI [of _ "reqs @ [?last]"] exI [of _ s2]) (simp add: cut_into_def)
  qed
qed

text \<open>
  (C13) \<open>processTableRange\<close> is equivalent to cutting the rows of its query into batches: when the
  database answers and the listener accepts, it hands the listener exactly the rows the query
  returned, in that order and each once, in batches of the configured size of which only the last
  may be shorter, the offsets of a batch being the positions of its rows; the batches carry
  consecutive LSNs, each is reported to the progress tracker, and the largest LSN is the one
  \<open>MaxSubmitted\<close> remembers.
\<close>

theorem processTableRange_cuts_rows:
  assumes ok: "\<And>r l. fst (onBatch r l) = Inr ()" "\<And>l. ctx l = None" and ready: "range_ready env w task q vals km s"
  shows "\<exists>reqs s'. processTableRange onBatch ctx fmt choice env w task s = (Inr (), s') \<and>
    sent onBatch (task_table task) reqs s s' \<and> cut_into (nat (wk_batchSize w)) (qr_fields q) vals reqs \<and>
    concat (map (\<lambda>r. map content (wr_Entries r)) reqs) = map (row_map (qr_fields q)) vals"
  by (rule processTableRange_batches [where onBatch = onBatch and ctx = ctx, OF ok ready])

text \<open>Three rows, in batches of two, for a listener that keeps the requests.\<close>

definition keep_requests :: "(nat, nat pooledOrderedMap WriteRequest list) on_batch" where
  "keep_requests r l = (Inr (), l @ [r])"

definition demo_columns :: "string list" where
  "demo_columns = [''id'', ''n'']"

definition demo_env :: "nat range_env" where
  "demo_env = \<lparr>rn_begin = Inr (), rn_set = (\<lambda>_. Inr ()), rn_query = (\<lambda>_ _. Inr \<lparr>qr_fields = demo_columns,
     qr_rows = map Inr [[Some 1, Some 10], [Some 2, None], [Some 3, Some 30]], qr_err = None\<rparr>)\<rparr>"

definition demo_task :: snapshotTask where
  "demo_task = \<lparr>task_state = ''public.t'', task_table = NewTable ''public'' ''t'',
     task_keyMap = Some (snapshotKeyMap demo_columns \<lparr>tx_Save = False, tx_Name = []\<rparr>), task_query = ''SELECT * FROM public.t'', task_args = None\<rparr>"

definition demo_worker :: Worker where
  "demo_worker = \<lparr>wk_batchSize = 2, wk_snapshotID = ''1-1'', wk_txOpts = \<lparr>tx_Save = False, tx_Name = []\<rparr>\<rparr>"

definition demo_start :: "(nat, nat pooledOrderedMap WriteRequest list) worker_state" where
  "demo_start = \<lparr>ws_listener = [], ws_lsn = \<lparr>lt_nextLSN = 0, lt_maxSubmitted = 0\<rparr>, ws_reporter = newSnapshotProgressReporter 100, ws_pool = NewPool\<rparr>"

lemma keep_requests_fold: "fold (\<lambda>r l. snd (keep_requests r l)) reqs l = l @ reqs"
  by (induction reqs arbitrary: l) (simp_all add: keep_requests_def)

theorem processTableRange_cuts_rows_witness:
  "\<exists>s'. processTableRange keep_requests (\<lambda>_. None) (\<lambda>_. []) (\<lambda>_. 0) demo_env demo_worker demo_task demo_start = (Inr (), s') \<and>
     map (\<lambda>r. length (wr_Entries r)) (ws_listener s') = [2, 1] \<and> map wr_LSN (ws_listener s') = [1, 2]"
proof -
  let ?km = "snapshotKeyMap demo_columns \<lparr>tx_Save = False, tx_Name = []\<rparr>"
  let ?vals = "[[Some 1, Some 10], [Some 2, None], [Some 3, Some 30]] :: nat option list list"
  let ?q = "\<lparr>qr_fields = demo_columns, qr_rows = map Inr ?vals, qr_err = None\<rparr>"
  have km: "?km = km_New demo_columns" by (simp add: snapshotKeyMap_def)
  have "pool_ready (task_table demo_task) ?km (ws_pool demo_start)"
    by (simp add: pool_ready_def demo_start_def km pool_keyMap_def NewPool_def pools_wf_def) (simp add: demo_columns_def)
  moreover have "reporter_open demo_start" by (simp add: reporter_open_def demo_start_def newSnapshotProgressReporter_def)
  moreover have "set demo_columns \<subseteq> set (Keys ?km)" "distinct demo_columns" by (simp add: km) (simp add: demo_columns_def)
  ultimately have ready: "range_ready demo_env demo_worker demo_task ?q ?vals ?km demo_start"
    by (simp add: range_ready_def demo_env_def demo_task_def demo_worker_def) (simp add: demo_columns_def)
  obtain reqs s' where r: "processTableRange keep_requests (\<lambda>_. None) (\<lambda>_. []) (\<lambda>_. 0) demo_env demo_worker demo_task demo_start = (Inr (), s')"
    "sent keep_requests (task_table demo_task) reqs demo_start s'" "cut_into (nat (wk_batchSize demo_worker)) (qr_fields ?q) ?vals reqs"
    using processTableRange_cuts_rows [where onBatch = keep_requests and ctx = "\<lambda>_. None" and fmt = "\<lambda>_. []" and choice = "\<lambda>_. 0",
        OF _ _ ready] by (auto simp: keep_requests_def)
  have l: "ws_listener s' = reqs" using r(2) keep_requests_fold [of reqs "[]"] by (simp add: sent_def demo_start_def)
  have "map (\<lambda>r. map content (wr_Entries r)) reqs = batches 2 (map (row_map demo_columns) ?vals)"
    using r(3) by (simp add: cut_into_def demo_worker_def)
  moreover have "batches 2 [a, b, c] = [[a, b], [c]]" for a b c :: "string \<rightharpoonup> nat option"
    using batches_full [of "[a, b]" 2 "[c]"] batches_short [of "[c]" 2] by simp
  ultimately have "map length (map (\<lambda>r. map content (wr_Entries r)) reqs) = [2, 1]" by simp
  then have len: "map (\<lambda>r. length (wr_Entries r)) reqs = [2, 1]" by (simp add: comp_def)
  then have "length reqs = 2" by (metis length_Cons length_map list.size(3) numeral_2_eq_2)
  then have lsns: "map wr_LSN reqs = [1, 2]" using r(2) by (simp add: sent_def demo_start_def lsns_from_def upt_rec)
  show ?thesis by (rule exI [of _ s'], simp only: r(1) l len lsns simp_thms)
qed

end
