(* ===== verification/Snapshothistory.thy ===== *)
theory Snapshothistory
  imports Snapshotprogress
begin

text \<open>
  What the progress tracker promises, stated on the history of reports it has received: a table is
  completed once it is dispatched, all its tasks are done, and every LSN reported for it is covered
  by the acknowledged LSN. \<open>reflects\<close> is the simulation between the tracker's fields and the
  history; the locale \<open>state_store\<close> is what the tracker relies on of the state store, and
  \<open>UpdateProgress\<close> on \<open>pgwalk.snapshot_state\<close> provides it.
\<close>

section \<open>The history of reports\<close>

definition of_table :: "progressReportKind \<Rightarrow> string \<Rightarrow> progressReport list \<Rightarrow> progressReport list" where
  "of_table k n h = filter (\<lambda>r. pr_kind r = k \<and> pr_tableName r = n) h"

definition hist_done :: "string \<Rightarrow> progressReport list \<Rightarrow> int" where
  "hist_done n h = int (length (of_table reportKindTaskDone n h))"

definition hist_dispatched :: "string \<Rightarrow> progressReport list \<Rightarrow> bool" where
  "hist_dispatched n h \<longleftrightarrow> of_table reportKindTableDispatched n h \<noteq> []"

definition hist_tasks :: "string \<Rightarrow> progressReport list \<Rightarrow> int" where
  "hist_tasks n h = (let d = of_table reportKindTableDispatched n h in if d = [] then 0 else pr_tasksCount (last d))"

definition hist_max :: "string \<Rightarrow> progressReport list \<Rightarrow> LSN" where
  "hist_max n h = fold max (map pr_maxLSN (of_table reportKindMaxLSN n h)) 0"

definition hist_acked :: "progressReport list \<Rightarrow> LSN" where
  "hist_acked h = fold max (map pr_maxLSN (filter (\<lambda>r. pr_kind r = reportKindLSNAck) h)) 0"

definition settled :: "string \<Rightarrow> progressReport list \<Rightarrow> bool" where
  "settled n h \<longleftrightarrow> hist_dispatched n h \<and> hist_done n h = hist_tasks n h \<and> hist_max n h \<le> hist_acked h \<and> 0 < hist_max n h"

text \<open>
  The order the senders keep: a table is dispatched once, with at least one task, and starts
  before; while a batch of it is reported, one of its tasks is still running.
\<close>

definition all_done :: "string \<Rightarrow> progressReport list \<Rightarrow> bool" where
  "all_done n h \<longleftrightarrow> hist_dispatched n h \<and> hist_done n h = hist_tasks n h"

definition allowed :: "string \<Rightarrow> progressReport list \<Rightarrow> progressReport \<Rightarrow> bool" where
  "allowed n h r \<longleftrightarrow> (if pr_tableName r \<noteq> n then True else
     case pr_kind r of
       reportKindTableStarted \<Rightarrow> \<not> hist_dispatched n h
     | reportKindTableDispatched \<Rightarrow> \<not> hist_dispatched n h \<and> pr_tasksCount r \<noteq> 0
     | reportKindMaxLSN \<Rightarrow> \<not> all_done n h
     | reportKindTaskDone \<Rightarrow> \<not> all_done n h
     | _ \<Rightarrow> True)"

definition ordered_reports :: "string \<Rightarrow> progressReport list \<Rightarrow> bool" where
  "ordered_reports n h \<longleftrightarrow> list_all (\<lambda>i. allowed n (take i h) (h ! i)) [0..<length h]"

lemma ordered_snoc: "ordered_reports n (h @ [r]) \<longleftrightarrow> ordered_reports n h \<and> allowed n h r"
  by (auto simp: ordered_reports_def list_all_iff nth_append)

lemma of_table_snoc: "of_table k n (h @ [r]) = of_table k n h @ (if pr_kind r = k \<and> pr_tableName r = n then [r] else [])"
  by (simp add: of_table_def)

lemma hist_snoc:
  "hist_done n (h @ [r]) = (if pr_kind r = reportKindTaskDone \<and> pr_tableName r = n then hist_done n h + 1 else hist_done n h)"
  "hist_dispatched n (h @ [r]) = (pr_kind r = reportKindTableDispatched \<and> pr_tableName r = n \<or> hist_dispatched n h)"
  "hist_tasks n (h @ [r]) = (if pr_kind r = reportKindTableDispatched \<and> pr_tableName r = n then pr_tasksCount r else hist_tasks n h)"
  "hist_max n (h @ [r]) = (if pr_kind r = reportKindMaxLSN \<and> pr_tableName r = n then max (pr_maxLSN r) (hist_max n h) else hist_max n h)"
  "hist_acked (h @ [r]) = (if pr_kind r = reportKindLSNAck then max (pr_maxLSN r) (hist_acked h) else hist_acked h)"
  by (auto simp: hist_done_def hist_dispatched_def hist_tasks_def hist_max_def hist_acked_def of_table_snoc Let_def)

lemma hist_Nil: "hist_done n [] = 0" "\<not> hist_dispatched n []" "hist_tasks n [] = 0" "hist_max n [] = 0" "hist_acked [] = 0"
  by (simp_all add: hist_done_def hist_dispatched_def hist_tasks_def hist_max_def hist_acked_def of_table_def)

lemma settled_stable: "settled n h \<Longrightarrow> allowed n h r \<Longrightarrow> settled n (h @ [r])"
  by (cases "pr_kind r") (auto simp: settled_def hist_snoc allowed_def all_done_def le_max_iff_disj)

section \<open>The tracker reflects the history\<close>

text \<open>What one report does to the progress of a table.\<close>

definition step_p :: "int \<Rightarrow> progressReport \<Rightarrow> string \<Rightarrow> snapshotTableProgress \<Rightarrow> snapshotTableProgress" where
  "step_p every r n p =
     (if pr_tableName r \<noteq> n then p else
      case pr_kind r of
        reportKindTableStarted \<Rightarrow> p\<lparr>tp_totalRows := pr_totalRows r\<rparr>
      | reportKindTableDispatched \<Rightarrow> p\<lparr>tp_dispatched := True, tp_tasksCount := pr_tasksCount r\<rparr>
      | reportKindMaxLSN \<Rightarrow> if tp_maxLSN p < pr_maxLSN r then p\<lparr>tp_maxLSN := pr_maxLSN r\<rparr> else p
      | reportKindTaskDone \<Rightarrow> p\<lparr>tp_doneTasks := tp_doneTasks p + 1\<rparr>
      | reportKindRangeDone \<Rightarrow> snd (add_rows every (pr_rowsProcessed r) p)
      | _ \<Rightarrow> p)"

definition mem :: "snapshotProgressTracker \<Rightarrow> nat \<Rightarrow> SnapshotStatus" where
  "mem t i = ts_Status (pt_states t ! i)"

definition names :: "snapshotProgressTracker \<Rightarrow> string list" where
  "names t = map ts_TableName (pt_states t)"

lemma on_state_simps [simp]:
  "pt_tables (on_state i f t) = pt_tables t" "pt_ackedLSN (on_state i f t) = pt_ackedLSN t"
  "pt_reportEvery (on_state i f t) = pt_reportEvery t"
  "(\<And>st. ts_TableName (f st) = ts_TableName st) \<Longrightarrow> names (on_state i f t) = names t"
  by (auto simp: on_state_def names_def map_update list_update_beyond intro: nth_equalityI)
    (metis list_update_beyond list_update_id nth_map not_less length_map)

lemma mem_on_state: "i < length (names t) \<Longrightarrow> mem (on_state i f t) j = (if j = i then ts_Status (f (pt_states t ! i)) else mem t j)"
  by (simp add: mem_def on_state_def names_def nth_list_update)

lemma put_progress_simps [simp]:
  "map_of (pt_tables (put_progress n p t)) = (map_of (pt_tables t))(n \<mapsto> p)"
  "pt_ackedLSN (put_progress n p t) = pt_ackedLSN t" "pt_states (put_progress n p t) = pt_states t"
  "pt_reportEvery (put_progress n p t) = pt_reportEvery t" "names (put_progress n p t) = names t" "mem (put_progress n p t) = mem t"
  by (simp_all add: put_progress_def update_conv' names_def mem_def fun_eq_iff)

lemma put_progress_keys: "n \<in> fst ` set (pt_tables t) \<Longrightarrow> map fst (pt_tables (put_progress n p t)) = map fst (pt_tables t)"
  by (simp add: put_progress_def update_keys)

definition pt_wf :: "snapshotProgressTracker \<Rightarrow> bool" where
  "pt_wf t \<longleftrightarrow> distinct (map fst (pt_tables t)) \<and> distinct (names t) \<and>
     (\<forall>n p. (n, p) \<in> set (pt_tables t) \<longrightarrow> tp_tableState p < length (names t) \<and> names t ! tp_tableState p = n)"

lemma pt_wf_lookup: "pt_wf t \<Longrightarrow> map_of (pt_tables t) n = Some p \<Longrightarrow> tp_tableState p < length (names t) \<and> names t ! tp_tableState p = n"
  by (auto simp: pt_wf_def dest: map_of_SomeD)

lemma pt_wf_index_inj:
  "pt_wf t \<Longrightarrow> map_of (pt_tables t) n = Some p \<Longrightarrow> map_of (pt_tables t) m = Some q \<Longrightarrow> tp_tableState p = tp_tableState q \<longleftrightarrow> n = m"
  by (metis option.inject pt_wf_lookup)

lemma pt_wf_put: "pt_wf t \<Longrightarrow> map_of (pt_tables t) n = Some p0 \<Longrightarrow> tp_tableState p = tp_tableState p0 \<Longrightarrow> pt_wf (put_progress n p t)"
proof -
  assume a: "pt_wf t" "map_of (pt_tables t) n = Some p0" "tp_tableState p = tp_tableState p0"
  then have n: "n \<in> fst ` set (pt_tables t)" by (metis map_of_SomeD fst_conv image_eqI)
  have "tp_tableState q < length (names t) \<and> names t ! tp_tableState q = m" if "(m, q) \<in> set (pt_tables (put_progress n p t))" for m q
  proof -
    have "distinct (map fst (pt_tables (put_progress n p t)))" using a(1) n by (simp add: pt_wf_def put_progress_keys)
    then have "map_of (pt_tables (put_progress n p t)) m = Some q" using that by (intro map_of_is_SomeI)
    then show ?thesis using pt_wf_lookup [OF a(1)] a(2,3) by (auto split: if_splits)
  qed
  then show ?thesis using a(1) n by (simp add: pt_wf_def put_progress_keys)
qed

lemma pt_wf_on_state: "(\<And>st. ts_TableName (f st) = ts_TableName st) \<Longrightarrow> pt_wf (on_state i f t) = pt_wf t"
  by (simp add: pt_wf_def)

lemma step_p_index [simp]: "tp_tableState (step_p e r n p) = tp_tableState p"
  by (auto simp: step_p_def add_rows_def Let_def split: progressReportKind.split)

definition acked_to :: "(string \<times> snapshotTableProgress) list \<Rightarrow> snapshotProgressTracker \<Rightarrow> string list \<Rightarrow> snapshotProgressTracker \<Rightarrow> bool" where
  "acked_to ts t ns t' \<longleftrightarrow>
    pt_tables t' = pt_tables t \<and> pt_ackedLSN t' = pt_ackedLSN t \<and> pt_reportEvery t' = pt_reportEvery t \<and> names t' = names t \<and>
    (\<forall>i. mem t' i = (if \<exists>n p. (n, p) \<in> set ts \<and> tp_tableState p = i \<and> isDone (pt_ackedLSN t) p then StatusCompleted else mem t i)) \<and>
    set ns = {n. \<exists>p. (n, p) \<in> set ts \<and> isDone (pt_ackedLSN t) p \<and> mem t (tp_tableState p) \<noteq> StatusCompleted}"

lemma step_p_other: "n \<noteq> pr_tableName r \<Longrightarrow> map_option (step_p e r n) x = x"
  by (cases x) (simp_all add: step_p_def)

lemma ack_loop_spec:
  assumes "\<And>n p. (n, p) \<in> set ts \<Longrightarrow> tp_tableState p < length (names t) \<and> names t ! tp_tableState p = n"
    and "distinct (map fst ts)" "ack_loop ts t = (ns, t')"
  shows "acked_to ts t ns t'"
  using assms
proof (induction ts arbitrary: t ns t')
  case (Cons np ts)
  obtain n p where [simp]: "np = (n, p)" by (cases np)
  have idx: "tp_tableState p < length (names t)" "names t ! tp_tableState p = n" using Cons.prems(1) [of n p] by auto
  have other: "tp_tableState q \<noteq> tp_tableState p" if "(m, q) \<in> set ts" for m q
    using Cons.prems(1) [of m q] Cons.prems(2) that idx by force
  let ?c = "\<lambda>st. st\<lparr>ts_Status := StatusCompleted\<rparr>"
  show ?case
  proof (cases "isDone (pt_ackedLSN t) p \<and> mem t (tp_tableState p) \<noteq> StatusCompleted")
    case True
    let ?t = "on_state (tp_tableState p) ?c t"
    obtain ns1 where r: "ack_loop ts ?t = (ns1, t')" "ns = n # ns1"
      using Cons.prems(3) True idx by (auto simp: mem_def names_def split: prod.splits)
    have IH: "acked_to ts ?t ns1 t'" using Cons.prems by (intro Cons.IH [OF _ _ r(1)]) auto
    have m: "mem ?t j = (if j = tp_tableState p then StatusCompleted else mem t j)" for j using mem_on_state [OF idx(1), of ?c j] by simp
    show ?thesis using IH True other unfolding acked_to_def by (auto simp: m r(2))
  next
    case False
    then have r: "ack_loop ts t = (ns, t')" using Cons.prems(3) by (auto simp: mem_def)
    have IH: "acked_to ts t ns t'" using Cons.prems by (intro Cons.IH [OF _ _ r]) auto
    show ?thesis using IH False other unfolding acked_to_def by auto
  qed
qed (simp add: acked_to_def)

lemma acked_fields [simp]: "names (t\<lparr>pt_ackedLSN := l\<rparr>) = names t" "mem (t\<lparr>pt_ackedLSN := l\<rparr>) = mem t"
  by (simp_all add: names_def mem_def fun_eq_iff)

lemma pt_Ack_spec:
  assumes "pt_wf t" "pt_Ack lsn t = (ns, t')"
  shows "if lsn \<le> pt_ackedLSN t then ns = [] \<and> t' = t else acked_to (pt_tables t) (t\<lparr>pt_ackedLSN := lsn\<rparr>) ns t'"
proof (cases "lsn \<le> pt_ackedLSN t")
  case False
  then have r: "ack_loop (pt_tables t) (t\<lparr>pt_ackedLSN := lsn\<rparr>) = (ns, t')" using assms(2) by (simp add: pt_Ack_def)
  have "acked_to (pt_tables t) (t\<lparr>pt_ackedLSN := lsn\<rparr>) ns t'"
    by (rule ack_loop_spec [OF _ _ r]) (use assms(1) in \<open>auto simp: pt_wf_def\<close>)
  then show ?thesis using False by simp
qed (use assms in \<open>simp add: pt_Ack_def\<close>)

text \<open>The kinds of report that change the progress of their table and then ask whether it is done.\<close>

definition asks_done :: "progressReportKind \<Rightarrow> bool" where
  "asks_done k \<longleftrightarrow> k = reportKindTableDispatched \<or> k = reportKindMaxLSN \<or> k = reportKindTaskDone \<or> k = reportKindRangeDone"

definition acked_after :: "progressReport \<Rightarrow> snapshotProgressTracker \<Rightarrow> LSN" where
  "acked_after r t = (if pr_kind r = reportKindLSNAck then max (pr_maxLSN r) (pt_ackedLSN t) else pt_ackedLSN t)"

definition tracked_to :: "progressReport \<Rightarrow> snapshotProgressTracker \<Rightarrow> snapshotProgressTracker \<Rightarrow> bool" where
  "tracked_to r t t' \<longleftrightarrow> pt_wf t' \<and> names t' = names t \<and> pt_reportEvery t' = pt_reportEvery t \<and> pt_ackedLSN t' = acked_after r t \<and>
     (\<forall>n. map_of (pt_tables t') n = map_option (step_p (pt_reportEvery t) r n) (map_of (pt_tables t) n)) \<and>
     (\<forall>n p. map_of (pt_tables t) n = Some p \<longrightarrow> mem t' (tp_tableState p) =
       (if pr_tableName r = n \<and> pr_kind r = reportKindTableStarted then StatusInProgress
        else if (pr_tableName r = n \<and> asks_done (pr_kind r) \<or> pr_kind r = reportKindLSNAck \<and> pt_ackedLSN t < pr_maxLSN r) \<and>
          isDone (acked_after r t) (step_p (pt_reportEvery t) r n p) then StatusCompleted
        else mem t (tp_tableState p)))"

lemma update_progress_unknown: "map_of (pt_tables t) n = None \<Longrightarrow> update_progress n f t = ((0, 0, False), t)"
  by (simp add: update_progress_def)

lemma complete_if_done_spec:
  assumes "tp_tableState p < length (names t)" "complete_if_done p t = (b, t')"
  shows "b = isDone (pt_ackedLSN t) p \<and> pt_tables t' = pt_tables t \<and> pt_ackedLSN t' = pt_ackedLSN t \<and> pt_reportEvery t' = pt_reportEvery t \<and>
    names t' = names t \<and> pt_wf t' = pt_wf t \<and>
    (\<forall>i. mem t' i = (if i = tp_tableState p \<and> isDone (pt_ackedLSN t) p then StatusCompleted else mem t i))"
  using assms by (auto simp: complete_if_done_def mem_on_state pt_wf_on_state split: if_splits)

lemma update_progress_known:
  assumes "pt_wf t" "map_of (pt_tables t) n = Some p0" "tp_tableState (f p0) = tp_tableState p0"
    and "update_progress n f t = ((rows, est, b), t')"
  shows "b = isDone (pt_ackedLSN t) (f p0) \<and> pt_wf t' \<and> names t' = names t \<and> pt_reportEvery t' = pt_reportEvery t \<and>
    pt_ackedLSN t' = pt_ackedLSN t \<and> map_of (pt_tables t') = (map_of (pt_tables t))(n \<mapsto> f p0) \<and>
    (\<forall>i. mem t' i = (if i = tp_tableState p0 \<and> isDone (pt_ackedLSN t) (f p0) then StatusCompleted else mem t i))"
proof -
  let ?t = "put_progress n (f p0) t"
  obtain b' t2 where c: "complete_if_done (f p0) ?t = (b', t2)" by fastforce
  then have eq: "b = b'" "t' = t2" using assms(2,4) by (simp_all add: update_progress_def Let_def)
  have i: "tp_tableState (f p0) < length (names ?t)" using pt_wf_lookup [OF assms(1,2)] assms(3) by simp
  show ?thesis using complete_if_done_spec [OF i c] pt_wf_put [OF assms(1-3)] assms(3) by (simp add: eq)
qed

lemma tracked_to_update:
  assumes "pt_wf t" "update_progress (pr_tableName r) f t = ((rows, est, b), t')" "asks_done (pr_kind r)"
    and f: "\<And>p. f p = step_p (pt_reportEvery t) r (pr_tableName r) p"
  shows "tracked_to r t t' \<and> (\<forall>p. map_of (pt_tables t) (pr_tableName r) = Some p \<longrightarrow> b = isDone (pt_ackedLSN t) (f p)) \<and>
    (map_of (pt_tables t) (pr_tableName r) = None \<longrightarrow> \<not> b)"
proof (cases "map_of (pt_tables t) (pr_tableName r)")
  case None
  have "map_of (pt_tables t) n = map_option (step_p (pt_reportEvery t) r n) (map_of (pt_tables t) n)" for n
    using None by (cases "n = pr_tableName r") (simp_all add: step_p_other)
  moreover have "t' = t" "\<not> b" using update_progress_unknown [OF None, of f] assms(2) by simp_all
  ultimately show ?thesis using None assms(1,3) by (auto simp: tracked_to_def acked_after_def asks_done_def)
next
  case (Some p0)
  have idx: "tp_tableState (f p0) = tp_tableState p0" by (simp add: f)
  note k = update_progress_known [where f = f, OF assms(1) Some idx assms(2)]
  have "acked_after r t = pt_ackedLSN t" using assms(3) by (auto simp: acked_after_def asks_done_def)
  moreover have "pr_kind r \<noteq> reportKindTableStarted" "pr_kind r \<noteq> reportKindLSNAck" using assms(3) by (auto simp: asks_done_def)
  moreover have "map_of (pt_tables t') n = map_option (step_p (pt_reportEvery t) r n) (map_of (pt_tables t) n)" for n
    using k Some f by (cases "n = pr_tableName r") (simp_all add: step_p_other)
  moreover have "tp_tableState p = tp_tableState p0 \<longleftrightarrow> n = pr_tableName r" if "map_of (pt_tables t) n = Some p" for n p
    using pt_wf_index_inj [OF assms(1) that Some] .
  ultimately show ?thesis using k Some f assms(3) by (auto simp: tracked_to_def)
qed

lemma tracked_to_started:
  assumes "pt_wf t" "pr_kind r = reportKindTableStarted"
  shows "tracked_to r t (MarkStarted (pr_tableName r) (pr_totalRows r) t)"
proof (cases "map_of (pt_tables t) (pr_tableName r)")
  case None
  then have "map_option (step_p e r n) (map_of (pt_tables t) n) = map_of (pt_tables t) n" for e n
    by (cases "n = pr_tableName r") (simp_all add: step_p_other)
  then show ?thesis using None assms by (auto simp: tracked_to_def MarkStarted_def acked_after_def asks_done_def)
next
  case (Some p0)
  let ?f = "\<lambda>st. st\<lparr>ts_TotalRows := Some (pr_totalRows r), ts_Status := StatusInProgress\<rparr>"
  let ?t = "put_progress (pr_tableName r) (p0\<lparr>tp_totalRows := pr_totalRows r\<rparr>) t"
  have idx: "tp_tableState p0 < length (names ?t)" using pt_wf_lookup [OF assms(1) Some] by simp
  have e: "MarkStarted (pr_tableName r) (pr_totalRows r) t = on_state (tp_tableState p0) ?f ?t" using Some by (simp add: MarkStarted_def)
  have m: "mem (on_state (tp_tableState p0) ?f ?t) j = (if j = tp_tableState p0 then StatusInProgress else mem t j)" for j
    using mem_on_state [OF idx, of ?f j] by simp
  have "step_p e r (pr_tableName r) p0 = p0\<lparr>tp_totalRows := pr_totalRows r\<rparr>" for e using assms(2) by (simp add: step_p_def)
  then have "(map_of (pt_tables ?t)) n = map_option (step_p e r n) (map_of (pt_tables t) n)" for e n
    using Some by (cases "n = pr_tableName r") (simp_all add: step_p_other)
  moreover have "tp_tableState p = tp_tableState p0 \<longleftrightarrow> n = pr_tableName r" if "map_of (pt_tables t) n = Some p" for n p
    using pt_wf_index_inj [OF assms(1) that Some] .
  moreover have "pt_wf ?t" by (rule pt_wf_put [OF assms(1) Some]) simp
  ultimately show ?thesis using assms(2) unfolding e by (auto simp: tracked_to_def m acked_after_def asks_done_def pt_wf_on_state)
qed

lemma pt_Add_known:
  assumes "pt_wf t" "map_of (pt_tables t) n = Some p0" "add_rows (pt_reportEvery t) k p0 = (l, p)"
    and "pt_Add n k t = ((rows, est, l', b), t')"
  shows "b = isDone (pt_ackedLSN t) p \<and> pt_wf t' \<and> names t' = names t \<and> pt_reportEvery t' = pt_reportEvery t \<and>
    pt_ackedLSN t' = pt_ackedLSN t \<and> map_of (pt_tables t') = (map_of (pt_tables t))(n \<mapsto> p) \<and>
    (\<forall>i. mem t' i = (if i = tp_tableState p0 \<and> isDone (pt_ackedLSN t) p then StatusCompleted else mem t i))"
proof -
  let ?f = "\<lambda>st. st\<lparr>ts_ProcessedRows := tp_processedRows p\<rparr>"
  let ?t = "on_state (tp_tableState p) ?f (put_progress n p t)"
  have idx: "tp_tableState p = tp_tableState p0" using assms(3) by (auto simp: add_rows_def Let_def split: if_splits)
  then have i: "tp_tableState p < length (names (put_progress n p t))" "tp_tableState p < length (names ?t)"
    using pt_wf_lookup [OF assms(1,2)] by simp_all
  obtain b' t2 where c: "complete_if_done p ?t = (b', t2)" by fastforce
  then have eq: "b = b'" "t' = t2" using assms(2-4) by (simp_all add: pt_Add_def Let_def)
  have m: "mem ?t = mem t" using mem_on_state [OF i(1), of ?f] i(1) by (auto simp: fun_eq_iff mem_def names_def)
  have w: "pt_wf ?t" using pt_wf_put [OF assms(1,2) idx] by (simp add: pt_wf_on_state)
  show ?thesis using complete_if_done_spec [OF i(2) c] w m idx by (simp add: eq)
qed

lemma tracked_to_rows:
  assumes "pt_wf t" "pt_Add (pr_tableName r) (pr_rowsProcessed r) t = ((rows, est, l, b), t')" "pr_kind r = reportKindRangeDone"
  shows "tracked_to r t t' \<and> (\<forall>p. map_of (pt_tables t) (pr_tableName r) = Some p \<longrightarrow>
      b = isDone (pt_ackedLSN t) (step_p (pt_reportEvery t) r (pr_tableName r) p)) \<and>
    (map_of (pt_tables t) (pr_tableName r) = None \<longrightarrow> \<not> b)"
proof (cases "map_of (pt_tables t) (pr_tableName r)")
  case None
  then have "map_option (step_p e r n) (map_of (pt_tables t) n) = map_of (pt_tables t) n" for e n
    by (cases "n = pr_tableName r") (simp_all add: step_p_other)
  moreover have "t' = t" "\<not> b" using None assms(2) by (simp_all add: pt_Add_def)
  ultimately show ?thesis using None assms by (auto simp: tracked_to_def acked_after_def asks_done_def)
next
  case (Some p0)
  obtain l' p where a: "add_rows (pt_reportEvery t) (pr_rowsProcessed r) p0 = (l', p)" by fastforce
  have sp: "step_p (pt_reportEvery t) r (pr_tableName r) p0 = p" using a assms(3) by (simp add: step_p_def)
  note k = pt_Add_known [OF assms(1) Some a assms(2)]
  have "map_of (pt_tables t') n = map_option (step_p (pt_reportEvery t) r n) (map_of (pt_tables t) n)" for n
    using k Some sp by (cases "n = pr_tableName r") (simp_all add: step_p_other)
  moreover have "tp_tableState p = tp_tableState p0 \<longleftrightarrow> n = pr_tableName r" if "map_of (pt_tables t) n = Some p" for n p
    using pt_wf_index_inj [OF assms(1) that Some] .
  ultimately show ?thesis using k Some sp assms(3) by (auto simp: tracked_to_def acked_after_def asks_done_def)
qed

lemma tracked_to_ack:
  assumes "pt_wf t" "pr_kind r = reportKindLSNAck" "pt_Ack (pr_maxLSN r) t = (ns, t')"
  shows "tracked_to r t t' \<and> set ns = {n. \<exists>p. map_of (pt_tables t) n = Some p \<and> pt_ackedLSN t < pr_maxLSN r \<and>
    isDone (pr_maxLSN r) p \<and> mem t (tp_tableState p) \<noteq> StatusCompleted}"
proof -
  have [simp]: "step_p e r n = (\<lambda>p. p)" for e n using assms(2) by (auto simp: step_p_def)
  have in_tables: "(n, p) \<in> set (pt_tables t) \<longleftrightarrow> map_of (pt_tables t) n = Some p" for n p
    using assms(1) by (auto simp: pt_wf_def dest: map_of_SomeD)
  show ?thesis
  proof (cases "pr_maxLSN r \<le> pt_ackedLSN t")
    case True
    then show ?thesis using pt_Ack_spec [OF assms(1,3)] assms(1,2)
      by (auto simp: tracked_to_def acked_after_def asks_done_def max_def option.map_ident)
  next
    case False
    then have k: "acked_to (pt_tables t) (t\<lparr>pt_ackedLSN := pr_maxLSN r\<rparr>) ns t'" using pt_Ack_spec [OF assms(1,3)] by simp
    have "pt_wf t'" using k assms(1) by (simp add: acked_to_def pt_wf_def)
    moreover have "(\<exists>m q. (m, q) \<in> set (pt_tables t) \<and> tp_tableState q = tp_tableState p \<and> isDone l q) \<longleftrightarrow> isDone l p"
      if "map_of (pt_tables t) n = Some p" for n p l
      using pt_wf_index_inj [OF assms(1) that] that in_tables by (metis option.inject)
    ultimately show ?thesis using k False assms(2)
      by (auto simp: tracked_to_def acked_to_def acked_after_def asks_done_def max_def option.map_ident in_tables)
  qed
qed

lemma tracked_to_none: "pt_wf t \<Longrightarrow> pr_kind r = reportKindStop \<Longrightarrow> tracked_to r t t"
proof -
  assume "pt_wf t" "pr_kind r = reportKindStop"
  moreover from this have "step_p e r n = (\<lambda>p. p)" for e n by (auto simp: step_p_def)
  ultimately show ?thesis by (auto simp: tracked_to_def acked_after_def asks_done_def option.map_ident)
qed

text \<open>The three reports that count or mark something go through \<open>update_progress\<close>.\<close>

lemma track_report_update:
  assumes "pr_kind r = reportKindTableDispatched \<or> pr_kind r = reportKindMaxLSN \<or> pr_kind r = reportKindTaskDone"
    and "update_progress (pr_tableName r) (step_p (pt_reportEvery t) r (pr_tableName r)) t = ((rows, est, b), t')"
  shows "track_report upd r (t, db) =
    (t', if b \<or> pr_kind r = reportKindTableDispatched \<and> pr_tasksCount r = 0 then setTableCompleted upd (pr_tableName r) rows db else db)"
proof -
  have "step_p e r (pr_tableName r) = (\<lambda>p. case pr_kind r of
      reportKindTableDispatched \<Rightarrow> p\<lparr>tp_dispatched := True, tp_tasksCount := pr_tasksCount r\<rparr>
    | reportKindMaxLSN \<Rightarrow> if tp_maxLSN p < pr_maxLSN r then p\<lparr>tp_maxLSN := pr_maxLSN r\<rparr> else p
    | _ \<Rightarrow> p\<lparr>tp_doneTasks := tp_doneTasks p + 1\<rparr>)" for e
    using assms(1) by (auto simp: step_p_def fun_eq_iff)
  with assms(2) have u: "update_progress (pr_tableName r) (\<lambda>p. case pr_kind r of
      reportKindTableDispatched \<Rightarrow> p\<lparr>tp_dispatched := True, tp_tasksCount := pr_tasksCount r\<rparr>
    | reportKindMaxLSN \<Rightarrow> if tp_maxLSN p < pr_maxLSN r then p\<lparr>tp_maxLSN := pr_maxLSN r\<rparr> else p
    | _ \<Rightarrow> p\<lparr>tp_doneTasks := tp_doneTasks p + 1\<rparr>) t = ((rows, est, b), t')" by simp
  from assms(1) show ?thesis
  proof (elim disjE)
    assume k: "pr_kind r = reportKindTableDispatched"
    with u show ?thesis by (simp add: track_report_def MarkDispatched_def disj_commute)
  next
    assume k: "pr_kind r = reportKindMaxLSN"
    with u show ?thesis by (simp add: track_report_def AddMaxLSN_def)
  next
    assume k: "pr_kind r = reportKindTaskDone"
    with u show ?thesis by (simp add: track_report_def CompleteTask_def)
  qed
qed

lemma kinds_cases:
  obtains (updating) "pr_kind r = reportKindTableDispatched \<or> pr_kind r = reportKindMaxLSN \<or> pr_kind r = reportKindTaskDone"
  | (rows) "pr_kind r = reportKindRangeDone" | (ack) "pr_kind r = reportKindLSNAck"
  | (started) "pr_kind r = reportKindTableStarted" | (stop) "pr_kind r = reportKindStop"
  by (cases "pr_kind r") auto

lemma track_report_tracked:
  assumes "pt_wf t"
  shows "tracked_to r t (fst (track_report upd r (t, db)))"
proof (cases r rule: kinds_cases)
  case updating
  obtain rows est b t' where a: "update_progress (pr_tableName r) (step_p (pt_reportEvery t) r (pr_tableName r)) t = ((rows, est, b), t')"
    by (metis prod.exhaust)
  have "asks_done (pr_kind r)" using updating by (auto simp: asks_done_def)
  then show ?thesis using tracked_to_update [OF assms a] by (simp add: track_report_update [OF updating a])
next
  case rows
  obtain k est l b t' where a: "pt_Add (pr_tableName r) (pr_rowsProcessed r) t = ((k, est, l, b), t')" by (metis prod.exhaust)
  then have "fst (track_report upd r (t, db)) = t'" using rows by (simp add: track_report_def case_prod_unfold Let_def)
  then show ?thesis using tracked_to_rows [OF assms a rows] by simp
next
  case ack
  obtain ns t' where a: "pt_Ack (pr_maxLSN r) t = (ns, t')" by fastforce
  then have "fst (track_report upd r (t, db)) = t'" using ack by (simp add: track_report_def)
  then show ?thesis using tracked_to_ack [OF assms ack a] by simp
next
  case started
  then show ?thesis using tracked_to_started [OF assms started] by (simp add: track_report_def)
next
  case stop
  then show ?thesis using tracked_to_none [OF assms stop] by (simp add: track_report_def)
qed

section \<open>The state store\<close>

locale state_store =
  fixes upd :: "'d updater" and status :: "'d \<Rightarrow> string \<Rightarrow> SnapshotStatus option"
  assumes upd_ok: "fst (upd n k st e db) = Inr ()"
    and upd_other: "m \<noteq> n \<Longrightarrow> status (snd (upd n k st e db)) m = status db m"
    and upd_completed: "status db n \<noteq> None \<Longrightarrow> status (snd (upd n k StatusCompleted e db)) n = Some StatusCompleted"
    and upd_progress: "status db n \<noteq> None \<Longrightarrow>
      status (snd (upd n k StatusInProgress e db)) n = Some StatusInProgress \<or> status (snd (upd n k StatusInProgress e db)) n = status db n"
    and upd_failed: "status db n \<noteq> None \<Longrightarrow> status (snd (upd n k StatusFailed e db)) n = Some StatusFailed"
begin

lemma completed_status: "status db n \<noteq> None \<Longrightarrow> status (setTableCompleted upd m k db) n = (if m = n then Some StatusCompleted else status db n)"
  using upd_completed upd_other [of n m] by (auto simp: setTableCompleted_def)

lemma completed_all_status:
  "status db n \<noteq> None \<Longrightarrow> status (fold (\<lambda>m. setTableCompleted upd m 0) ns db) n = (if n \<in> set ns then Some StatusCompleted else status db n)"
  by (induction ns arbitrary: db) (auto simp: completed_status)

lemma track_report_stored:
  fixes r :: progressReport
  assumes wf: "pt_wf t" and p: "map_of (pt_tables t) n = Some p" and st: "status db n \<noteq> None"
  defines "finished \<equiv> isDone (acked_after r t) (step_p (pt_reportEvery t) r n p)"
    and "now \<equiv> status (snd (track_report upd r (t, db))) n"
  shows "if pr_kind r = reportKindLSNAck
      then now = (if pt_ackedLSN t < pr_maxLSN r \<and> finished \<and> mem t (tp_tableState p) \<noteq> StatusCompleted then Some StatusCompleted else status db n)
    else if pr_tableName r = n \<and> asks_done (pr_kind r)
      then (if finished \<or> pr_kind r = reportKindTableDispatched \<and> pr_tasksCount r = 0 then now = Some StatusCompleted
            else now = status db n \<or> now = Some StatusInProgress)
    else now = status db n"
proof (cases r rule: kinds_cases)
  case ack
  obtain ns t' where a: "pt_Ack (pr_maxLSN r) t = (ns, t')" by fastforce
  have "step_p e r n p = p" for e using ack by (simp add: step_p_def)
  then have "n \<in> set ns \<longleftrightarrow> pt_ackedLSN t < pr_maxLSN r \<and> finished \<and> mem t (tp_tableState p) \<noteq> StatusCompleted"
    using tracked_to_ack [OF wf ack a] p ack by (auto simp: finished_def acked_after_def max_def)
  then show ?thesis using completed_all_status [OF st, of ns] ack a by (simp add: now_def track_report_def)
next
  case updating
  obtain rows est b t' where a: "update_progress (pr_tableName r) (step_p (pt_reportEvery t) r (pr_tableName r)) t = ((rows, est, b), t')"
    by (metis prod.exhaust)
  have k: "asks_done (pr_kind r)" "pr_kind r \<noteq> reportKindLSNAck" using updating by (auto simp: asks_done_def)
  have "b = finished" if "pr_tableName r = n"
    using tracked_to_update [OF wf a k(1)] k that p by (auto simp: finished_def acked_after_def)
  then show ?thesis using completed_status [OF st, of "pr_tableName r" rows] k unfolding now_def track_report_update [OF updating a] by auto
next
  case rows
  obtain k est l b t' where a: "pt_Add (pr_tableName r) (pr_rowsProcessed r) t = ((k, est, l, b), t')" by (metis prod.exhaust)
  let ?db = "snd (upd (pr_tableName r) k StatusInProgress None db)"
  obtain db1 where u: "upd (pr_tableName r) k StatusInProgress None db = (Inr (), db1)"
    using upd_ok [of "pr_tableName r" k StatusInProgress None db] by (metis prod.collapse)
  then have e: "snd (track_report upd r (t, db)) = (if b then setTableCompleted upd (pr_tableName r) k ?db else ?db)"
    using rows a by (simp add: track_report_def)
  have db: "status ?db n \<noteq> None" "pr_tableName r \<noteq> n \<Longrightarrow> status ?db n = status db n"
    "pr_tableName r = n \<Longrightarrow> status ?db n = Some StatusInProgress \<or> status ?db n = status db n"
    using upd_progress [of db n k None] upd_other [of n "pr_tableName r" k StatusInProgress None db] st
    by (cases "pr_tableName r = n"; force)+
  have "b = finished" if "pr_tableName r = n"
    using tracked_to_rows [OF wf a rows] that p rows by (auto simp: finished_def acked_after_def)
  then show ?thesis using completed_status [OF db(1), of "pr_tableName r" k] db rows unfolding now_def e
    by (auto simp: asks_done_def)
qed (simp_all add: now_def track_report_def asks_done_def)

end

section \<open>Completed exactly when everything is acknowledged\<close>

definition reflects :: "string \<Rightarrow> progressReport list \<Rightarrow> snapshotTableProgress \<Rightarrow> bool" where
  "reflects n h p \<longleftrightarrow> tp_doneTasks p = hist_done n h \<and> tp_dispatched p = hist_dispatched n h \<and> tp_tasksCount p = hist_tasks n h \<and>
     tp_maxLSN p = hist_max n h"

lemma reflects_step: "reflects n h p \<Longrightarrow> reflects n (h @ [r]) (step_p e r n p)"
  by (cases "pr_kind r") (auto simp: reflects_def step_p_def hist_snoc add_rows_def Let_def max_def)

lemma reflects_isDone: "reflects n h p \<Longrightarrow> isDone (hist_acked h) p = settled n h"
  by (auto simp: reflects_def isDone_def settled_def)

lemma settled_new:
  assumes "settled n (h @ [r])" "\<not> settled n h"
  shows "pr_tableName r = n \<and> asks_done (pr_kind r) \<or> pr_kind r = reportKindLSNAck \<and> hist_acked h < pr_maxLSN r"
  using assms by (cases "pr_kind r") (auto simp: settled_def hist_snoc asks_done_def max_def split: if_splits)

definition follows :: "string \<Rightarrow> nat \<Rightarrow> progressReport list \<Rightarrow> snapshotProgressTracker \<Rightarrow> bool" where
  "follows n i h t \<longleftrightarrow> pt_wf t \<and> pt_ackedLSN t = hist_acked h \<and>
     (\<exists>p. map_of (pt_tables t) n = Some p \<and> tp_tableState p = i \<and> reflects n h p) \<and> (mem t i = StatusCompleted \<longleftrightarrow> settled n h)"

lemma history_step:
  assumes "follows n i h t" "allowed n h r" "tracked_to r t t'"
  shows "follows n i (h @ [r]) t'"
proof -
  obtain p where p: "map_of (pt_tables t) n = Some p" "tp_tableState p = i" "reflects n h p" using assms(1) by (auto simp: follows_def)
  let ?p = "step_p (pt_reportEvery t) r n p"
  have ack: "acked_after r t = hist_acked (h @ [r])" using assms(1) by (simp add: follows_def acked_after_def hist_snoc)
  have d: "isDone (acked_after r t) ?p = settled n (h @ [r])" using reflects_isDone [OF reflects_step [OF p(3)]] by (simp add: ack)
  have m: "mem t' i = (if pr_tableName r = n \<and> pr_kind r = reportKindTableStarted then StatusInProgress
      else if (pr_tableName r = n \<and> asks_done (pr_kind r) \<or> pr_kind r = reportKindLSNAck \<and> hist_acked h < pr_maxLSN r) \<and>
        settled n (h @ [r]) then StatusCompleted else mem t i)"
    using assms(1,3) p(1,2) d by (auto simp: tracked_to_def follows_def)
  have "mem t' i = StatusCompleted \<longleftrightarrow> settled n (h @ [r])"
  proof (cases "settled n h")
    case True
    then have "\<not> (pr_tableName r = n \<and> pr_kind r = reportKindTableStarted)" using assms(2) by (auto simp: allowed_def settled_def)
    then show ?thesis using m settled_stable [OF True assms(2)] True assms(1) by (simp add: follows_def)
  next
    case False
    then show ?thesis using m settled_new [of n h r] assms(1) by (auto simp: follows_def asks_done_def)
  qed
  moreover have "map_of (pt_tables t') n = Some ?p" using assms(3) p(1) by (simp add: tracked_to_def)
  ultimately show ?thesis using assms(3) ack p(2) reflects_step [OF p(3)] unfolding follows_def tracked_to_def by auto
qed

context state_store
begin

lemma stored_step:
  assumes "follows n i h t" "allowed n h r" "status db n \<noteq> None" "status db n = Some StatusCompleted \<longleftrightarrow> settled n h"
  defines "now \<equiv> status (snd (track_report upd r (t, db))) n"
  shows "now \<noteq> None \<and> (now = Some StatusCompleted \<longleftrightarrow> settled n (h @ [r]))"
proof -
  obtain p where p: "map_of (pt_tables t) n = Some p" "tp_tableState p = i" "reflects n h p" using assms(1) by (auto simp: follows_def)
  have t: "pt_wf t" "pt_ackedLSN t = hist_acked h" "mem t i = StatusCompleted \<longleftrightarrow> settled n h" using assms(1) by (auto simp: follows_def)
  have ack: "acked_after r t = hist_acked (h @ [r])" using t(2) by (simp add: acked_after_def hist_snoc)
  have d: "isDone (acked_after r t) (step_p (pt_reportEvery t) r n p) = settled n (h @ [r])"
    using reflects_isDone [OF reflects_step [OF p(3)]] by (simp add: ack)
  have zero: "\<not> (pr_tableName r = n \<and> pr_kind r = reportKindTableDispatched \<and> pr_tasksCount r = 0)" using assms(2) by (auto simp: allowed_def)
  note s = track_report_stored [OF t(1) p(1) assms(3), of r, unfolded d, folded now_def]
  show ?thesis
  proof (cases "settled n h")
    case True
    then show ?thesis using s settled_stable [OF True assms(2)] t(3) p(2) assms(4) by (auto split: if_splits)
  next
    case False
    then show ?thesis using s settled_new [of n h r] zero t(2,3) p(2) assms(3,4) by (auto simp: asks_done_def split: if_splits)
  qed
qed

lemma tracked_history:
  assumes "follows n i [] t0" "status db0 n \<noteq> None" "status db0 n \<noteq> Some StatusCompleted" "ordered_reports n h"
    and "fold (track_report upd) h (t0, db0) = (t, db)"
  shows "follows n i h t \<and> status db n \<noteq> None \<and> (status db n = Some StatusCompleted \<longleftrightarrow> settled n h)"
  using assms(4,5)
proof (induction h arbitrary: t db rule: rev_induct)
  case Nil
  have "\<not> settled n []" by (simp add: settled_def hist_Nil)
  then show ?case using assms(1-3) Nil by simp
next
  case (snoc r h)
  obtain t1 db1 where f: "fold (track_report upd) h (t0, db0) = (t1, db1)" by fastforce
  have IH: "follows n i h t1" "status db1 n \<noteq> None" "status db1 n = Some StatusCompleted \<longleftrightarrow> settled n h" "allowed n h r"
    using snoc.IH [OF _ f] snoc.prems(1) by (auto simp: ordered_snoc)
  have r: "track_report upd r (t1, db1) = (t, db)" using snoc.prems(2) f by simp
  have "tracked_to r t1 t" using track_report_tracked [of t1 r upd db1] IH(1) r by (simp add: follows_def)
  then show ?case using history_step [OF IH(1,4)] stored_step [OF IH(1,4,2,3)] r by simp
qed

end

section \<open>The stored table\<close>

text \<open>\<open>UpdateProgress\<close> while connections and statements succeed, and the status it stores.\<close>

definition store_upd :: "int \<Rightarrow> (StateManager \<times> state_table) updater" where
  "store_upd now tableName rows status err d =
     (case UpdateProgress (Inr ()) (Inr ()) now tableName rows status err (fst d) (snd d) of (r, s, db) \<Rightarrow> (r, s, db))"

definition stored_status :: "StateManager \<times> state_table \<Rightarrow> string \<Rightarrow> SnapshotStatus option" where
  "stored_status d n = map_option ts_Status (snd d (sm_appName (fst d), n))"

lemma withConnection_ok:
  "withConnection (Inr ()) f s db = (fst (f db), s\<lparr>sm_conn := Some False\<rparr>, snd (f db))"
  by (cases s) (auto simp: withConnection_def connection_def case_prod_unfold)

lemma store_upd_eq:
  "store_upd now n k st e d = (Inr (), (fst d)\<lparr>sm_conn := Some False\<rparr>,
     case progressUpdateStatement now k st e of None \<Rightarrow> snd d | Some u \<Rightarrow> update_row (sm_appName (fst d)) n u (snd d))"
  by (auto simp: store_upd_def UpdateProgress_def withConnection_ok exec_stmt_def split: option.split)

interpretation snapshot_state: state_store "store_upd now" stored_status for now
proof unfold_locales
  fix m n :: string and k st e and d :: "StateManager \<times> state_table"
  show "fst (store_upd now n k st e d) = Inr ()" by (simp add: store_upd_eq)
  show "stored_status (snd (store_upd now n k st e d)) m = stored_status d m" if "m \<noteq> n"
    using that by (auto simp: store_upd_eq stored_status_def update_row_def split: option.split)
  assume "stored_status d n \<noteq> None"
  then obtain r where r: "snd d (sm_appName (fst d), n) = Some r" by (auto simp: stored_status_def)
  show "stored_status (snd (store_upd now n k StatusCompleted e d)) n = Some StatusCompleted"
    using r by (auto simp: store_upd_eq stored_status_def progressUpdateStatement_def update_row_def)
  show "stored_status (snd (store_upd now n k StatusInProgress e d)) n = Some StatusInProgress \<or>
      stored_status (snd (store_upd now n k StatusInProgress e d)) n = stored_status d n"
    using r by (auto simp: store_upd_eq stored_status_def progressUpdateStatement_def update_row_def)
  show "stored_status (snd (store_upd now n k StatusFailed e d)) n = Some StatusFailed"
    using r by (auto simp: store_upd_eq stored_status_def progressUpdateStatement_def update_row_def)
qed

lemma map_of_fold_update:
  "map_of (fold (\<lambda>x m. AList.update (k x) (v x) m) xs m) = map_of m ++ map_of (rev (map (\<lambda>x. (k x, v x)) xs))"
  by (induction xs arbitrary: m) (simp_all add: update_conv' fun_eq_iff map_add_def split: option.split)

lemma distinct_fold_update: "distinct (map fst m) \<Longrightarrow> distinct (map fst (fold (\<lambda>x m. AList.update (k x) (v x) m) xs m))"
  by (induction xs arbitrary: m) (simp_all add: distinct_update)

lemma new_tracker_tables:
  assumes "distinct (map ts_TableName states)"
  shows "map_of (pt_tables (newSnapshotProgressTracker states e)) n = Some p \<longleftrightarrow>
    (\<exists>i < length states. ts_TableName (states ! i) = n \<and> p = new_progress i (states ! i))"
proof -
  let ?xs = "zip [0..<length states] states"
  let ?kvs = "map (\<lambda>x. (ts_TableName (snd x), new_progress (fst x) (snd x))) ?xs"
  have kvs: "?kvs = map (\<lambda>i. (ts_TableName (states ! i), new_progress i (states ! i))) [0..<length states]"
    by (rule nth_equalityI) simp_all
  have "map fst ?kvs = map ts_TableName (map snd ?xs)" by (simp only: map_map comp_def fst_conv)
  then have d: "distinct (map fst ?kvs)" using assms by simp
  have "map_of (pt_tables (newSnapshotProgressTracker states e)) = map_of (rev ?kvs)"
    using map_of_fold_update [of "\<lambda>x. ts_TableName (snd x)" "\<lambda>x. new_progress (fst x) (snd x)" ?xs "[]"]
    by (simp add: newSnapshotProgressTracker_def case_prod_unfold)
  then have "map_of (pt_tables (newSnapshotProgressTracker states e)) n = Some p \<longleftrightarrow> (n, p) \<in> set ?kvs"
    using map_of_eq_Some_iff [of "rev ?kvs" n p] d by (simp add: rev_map [symmetric])
  also have "\<dots> \<longleftrightarrow> (\<exists>i < length states. ts_TableName (states ! i) = n \<and> p = new_progress i (states ! i))"
    unfolding kvs by (auto simp: image_iff)
  finally show ?thesis .
qed

lemma new_tracker_follows:
  assumes "distinct (map ts_TableName states)" "i < length states" "ts_TableName (states ! i) = n" "ts_Status (states ! i) \<noteq> StatusCompleted"
  shows "follows n i [] (newSnapshotProgressTracker states e)"
proof -
  let ?t = "newSnapshotProgressTracker states e"
  have nm: "names ?t = map ts_TableName states" "mem ?t i = ts_Status (states ! i)" by (simp_all add: names_def mem_def newSnapshotProgressTracker_def)
  have dk: "distinct (map fst (pt_tables ?t))" using distinct_fold_update [of "[]"]
    by (simp add: newSnapshotProgressTracker_def case_prod_unfold)
  have "tp_tableState p < length (names ?t) \<and> names ?t ! tp_tableState p = m" if "(m, p) \<in> set (pt_tables ?t)" for m p
    using that new_tracker_tables [OF assms(1), of e m p] dk by (auto simp: nm new_progress_def)
  then have "pt_wf ?t" using assms(1) dk by (auto simp: pt_wf_def nm(1) simp del: nth_map)
  moreover have "map_of (pt_tables ?t) n = Some (new_progress i (states ! i))" using new_tracker_tables [OF assms(1)] assms(2,3) by blast
  ultimately show ?thesis using assms(4) by (simp add: follows_def nm reflects_def new_progress_def settled_def hist_Nil)
    (simp add: newSnapshotProgressTracker_def hist_Nil)
qed

text \<open>
  \<open>trackProgress\<close> marks a table completed in \<open>pgwalk.snapshot_state\<close> exactly when it may be
  skipped by the next run: for every order in which the reports of the concurrent workers, of the
  dispatching loop and of the acknowledgement handler arrive, the stored status is \<open>completed\<close> if
  and only if the table is dispatched, all its tasks are done, and the largest LSN among its batches
  is acknowledged; and the state in memory agrees with the stored one.
\<close>

theorem trackProgress_completes_when_acknowledged:
  assumes "distinct (map ts_TableName states)" "i < length states" "ts_TableName (states ! i) = n" "ts_Status (states ! i) \<noteq> StatusCompleted"
    and "stored_status d0 n \<noteq> None" "stored_status d0 n \<noteq> Some StatusCompleted" "ordered_reports n h"
    and "trackProgress (store_upd now) states h d0 = (t, d)"
  shows "(stored_status d n = Some StatusCompleted \<longleftrightarrow> settled n h) \<and> (ts_Status (pt_states t ! i) = StatusCompleted \<longleftrightarrow> settled n h)"
  using snapshot_state.tracked_history [OF new_tracker_follows [OF assms(1-4)] assms(5-7), of now 10 t d] assms(8)
  by (simp add: trackProgress_def follows_def mem_def)

definition one_table :: "TableState list" where
  "one_table = [(new_TableState ''app'' ''public.t'')\<lparr>ts_Status := StatusPending\<rparr>]"

definition one_table_reports :: "progressReport list" where
  "one_table_reports =
     [report_of reportKindTableStarted ''public.t'', (report_of reportKindMaxLSN ''public.t'')\<lparr>pr_maxLSN := 1\<rparr>,
      report_of reportKindTaskDone ''public.t'', (report_of reportKindTableDispatched ''public.t'')\<lparr>pr_tasksCount := 1\<rparr>,
      (report_of reportKindRangeDone ''public.t'')\<lparr>pr_rowsProcessed := 5\<rparr>, (report_of reportKindLSNAck [])\<lparr>pr_maxLSN := 1\<rparr>]"

definition one_table_store :: "StateManager \<times> state_table" where
  "one_table_store = (NewStateManager ''app'', [(''app'', ''public.t'') \<mapsto> hd one_table])"

theorem trackProgress_completes_when_acknowledged_witness:
  "stored_status (snd (trackProgress (store_upd 0) one_table one_table_reports one_table_store)) ''public.t'' = Some StatusCompleted"
proof -
  obtain t d where r: "trackProgress (store_upd 0) one_table one_table_reports one_table_store = (t, d)" by (rule prod.exhaust)
  have st: "stored_status one_table_store ''public.t'' = Some StatusPending"
    by (simp add: stored_status_def one_table_store_def one_table_def NewStateManager_def)
  have "ordered_reports ''public.t'' one_table_reports" "settled ''public.t'' one_table_reports" by code_simp+
  then show ?thesis using trackProgress_completes_when_acknowledged [OF _ _ _ _ _ _ _ r, of 0 "''public.t''"] st r
    by (simp add: one_table_def new_TableState_def)
qed

end
