(* ===== verification/Snapshotmanager.thy ===== *)
theory Snapshotmanager
  imports Snapshothistory Snapshotworker
begin

text \<open>
  \<open>snapshot/manager.go\<close>, \<open>snapshot/checkpoint.go\<close> and \<open>replicationslot/snapshot.go\<close>: running a snapshot. \<open>Execute\<close>
  decides whether there is anything to do, prepares the exported snapshot and the states of the
  tables, runs the workers, and saves the LSN. What runs concurrently (the dispatching loop, the
  workers, the tracking of progress) is one definition each; this theory has the dispatching loop and
  what \<open>runSnapshot\<close> does before and after them. The calls to Postgres and to the listener are
  arguments, and what they do outside is recorded as a list of events where the order matters.
\<close>

section \<open>Preparing\<close>

record slotSnapshot =
  sl_LSN :: LSN
  sl_SnapshotName :: string
  sl_closed :: bool
  sl_closeErr :: "go_error option"

definition slot_NewSnapshot :: "LSN \<Rightarrow> string \<Rightarrow> slotSnapshot" where
  "slot_NewSnapshot lsn name = \<lparr>sl_LSN = lsn, sl_SnapshotName = name, sl_closed = False, sl_closeErr = None\<rparr>"

text \<open>\<open>Close\<close>: \<open>closeFn\<close> is the outcome of the close function, \<open>None\<close> when there is none.\<close>

definition slot_Close :: "go_error option option \<Rightarrow> slotSnapshot option \<Rightarrow> go_error option \<times> slotSnapshot option" where
  "slot_Close closeFn s =
     (case s of None \<Rightarrow> (None, None)
      | Some sl \<Rightarrow>
         let sl1 = (if sl_closed sl then sl
                    else sl\<lparr>sl_closed := True, sl_closeErr := (case closeFn of None \<Rightarrow> sl_closeErr sl | Some r \<Rightarrow> r)\<rparr>)
         in (sl_closeErr sl1, Some sl1))"

text \<open>
  \<open>prepareSnapshot\<close>: the LSN, the snapshot's name, and whether a transaction stays open that
  \<open>cleanup\<close> has to end; with it, the commands sent to end a transaction on a failure.
\<close>

record prepare_env =
  pe_acquire :: "unit go_result"
  pe_begin :: "unit go_result"
  pe_export :: "string go_result"
  pe_walLSN :: "string go_result"

definition end_tx :: "bool \<Rightarrow> string" where
  "end_tx commit = (if commit then ''COMMIT'' else ''ROLLBACK'')"

definition prepareSnapshot ::
  "(LSN \<Rightarrow> string) \<Rightarrow> prepare_env \<Rightarrow> slotSnapshot option \<Rightarrow> (string \<times> string \<times> bool) go_result \<times> string list" where
  "prepareSnapshot lsn_string env slot =
     (let viaConnection =
        (case pe_acquire env of Inl e \<Rightarrow> (Inl (wrap_err ''failed to acquire primary connection: '' e), []) | Inr _ \<Rightarrow>
        (case pe_begin env of Inl e \<Rightarrow> (Inl (wrap_err ''failed to begin transaction: '' e), [end_tx False]) | Inr _ \<Rightarrow>
        (case pe_export env of Inl e \<Rightarrow> (Inl (wrap_err ''failed to export snapshot: '' e), [end_tx False]) | Inr snapshotID \<Rightarrow>
        (case pe_walLSN env of Inl e \<Rightarrow> (Inl (wrap_err ''failed to get current WAL LSN: '' e), [end_tx False])
         | Inr lsn \<Rightarrow> (Inr (lsn, snapshotID, True), [])))))
      in case slot of
           None \<Rightarrow> viaConnection
         | Some sl \<Rightarrow> if 0 < sl_LSN sl \<and> sl_SnapshotName sl \<noteq> [] then (Inr (lsn_string (sl_LSN sl), sl_SnapshotName sl, False), [])
                      else viaConnection)"

fun type_text :: "SnapshotTableType \<Rightarrow> string" where
  "type_text SnapshotTableFull = ''full''"
| "type_text SnapshotTableQuery = ''query''"
| "type_text (SnapshotTableOther s) = s"

definition prepareTableState ::
  "(TableName \<Rightarrow> Table option) option \<Rightarrow> string \<Rightarrow> string \<Rightarrow> SnapshotTableConfig \<Rightarrow> TableState option \<Rightarrow> string \<Rightarrow> TableState \<times> bool" where
  "prepareTableState get appName tableName tableCfg state snapshotLSN =
     (let fresh = (\<lambda>st :: TableState.
            let st1 = st\<lparr>ts_whereClause := (if st_Type tableCfg = SnapshotTableQuery then '' ( '' @ TrimSpace (st_Query tableCfg) @ '' ) '' else [])\<rparr>;
                snapshotQuery = BuildSelectQuery tableName (m_snapshotQueryColumns get tableName) (ts_whereClause st1)
            in (st1\<lparr>ts_SnapshotLSN := snapshotLSN, ts_SnapshotType := type_text (st_Type tableCfg), ts_SnapshotQuery := Some snapshotQuery,
                   ts_TotalRows := None, ts_ProcessedRows := 0, ts_Status := StatusPending, ts_ErrorMessage := None\<rparr>, True))
      in case state of
           None \<Rightarrow> fresh (new_TableState appName tableName)
         | Some st \<Rightarrow> if ts_Status st = StatusCompleted then (st, False) else fresh st)"

text \<open>\<open>load\<close> and \<open>upsert\<close> are the methods of the state store interface.\<close>

fun init_tables ::
  "(TableName \<Rightarrow> Table option) option \<Rightarrow> string \<Rightarrow> (TableState \<Rightarrow> 'd \<Rightarrow> unit go_result \<times> 'd) \<Rightarrow> (string \<rightharpoonup> TableState) \<Rightarrow> string \<Rightarrow>
   SnapshotTableConfig option list \<Rightarrow> 'd \<Rightarrow> TableState list go_result \<times> 'd" where
  "init_tables get appName upsert existing lsn [] db = (Inr [], db)"
| "init_tables get appName upsert existing lsn (None # cfgs) db = (Inl nil_panic, db)"
| "init_tables get appName upsert existing lsn (Some cfg # cfgs) db =
     (let (st, shouldUpsert) = prepareTableState get appName (st_Name cfg) cfg (existing (st_Name cfg)) lsn;
          (r, db1) = (if shouldUpsert then upsert st db else (Inr (), db))
      in case r of
           Inl e \<Rightarrow> (Inl e, db1)
         | Inr _ \<Rightarrow> (case init_tables get appName upsert existing lsn cfgs db1 of
               (Inl e, db2) \<Rightarrow> (Inl e, db2) | (Inr sts, db2) \<Rightarrow> (Inr (st # sts), db2)))"

definition initTablesState ::
  "(TableName \<Rightarrow> Table option) option \<Rightarrow> string \<Rightarrow> ('d \<Rightarrow> (string \<rightharpoonup> TableState) go_result \<times> 'd) \<Rightarrow> (TableState \<Rightarrow> 'd \<Rightarrow> unit go_result \<times> 'd) \<Rightarrow>
   SnapshotConfig \<Rightarrow> string \<Rightarrow> 'd \<Rightarrow> TableState list go_result \<times> 'd" where
  "initTablesState get appName load upsert cfg lsn db =
     (case load db of
        (Inl e, db1) \<Rightarrow> (Inl e, db1)
      | (Inr existing, db1) \<Rightarrow> init_tables get appName upsert existing lsn (sn_Config cfg) db1)"

section \<open>The dispatching loop\<close>

datatype loop_event = Task snapshotTask | Failed string go_error | Reported progressReport | SetStarted string int | Throttled

record loop_env =
  lv_ctx :: "string \<Rightarrow> go_error option"
  lv_get :: "TableName \<Rightarrow> Table option"
  lv_txOpts :: TxCommitTimeOptions
  lv_base :: "string \<Rightarrow> (int \<times> int) go_result"
  lv_filtered :: "string \<Rightarrow> int go_result"
  lv_setInProgress :: "string \<Rightarrow> unit go_result"
  lv_bounds :: "string \<Rightarrow> ctidBounds option go_result"
  lv_ctxStart :: "string \<Rightarrow> go_error option"
  lv_ctxDispatch :: "string \<Rightarrow> go_error option"
  lv_queueSize :: "string \<Rightarrow> nat \<Rightarrow> u64"

text \<open>
  The tasks of a table; before a range is sent, the loop sleeps while the write queue is above its
  limit. \<open>lv_queueSize\<close> is the size seen before the range with that number.
\<close>

definition table_tasks :: "loop_env \<Rightarrow> SnapshotConfig \<Rightarrow> TableState \<Rightarrow> Table \<Rightarrow> KeyMap \<Rightarrow> snapshotTablePlan \<Rightarrow> loop_event list" where
  "table_tasks env cfg st table km plan =
     concat (map (\<lambda>(i, (q, args)).
       (if usesCtidRanges plan \<and> 0 < sn_MaxWriteQueueSize cfg \<and> sn_MaxWriteQueueSize cfg < lv_queueSize env (ts_TableName st) i
        then [Throttled] else []) @
       [Task \<lparr>task_state = ts_TableName st, task_table = table, task_keyMap = Some km, task_query = q, task_args = args\<rparr>])
       (zip [0..<length (plan_tasks plan)] (plan_tasks plan)))"

text \<open>
  One table: the events, whether the loop goes on, and the state with its query set. \<open>None\<close> when the
  planning does not come back.
\<close>

definition loop_table :: "loop_env \<Rightarrow> SnapshotConfig \<Rightarrow> int \<Rightarrow> TableState \<Rightarrow> (loop_event list \<times> bool \<times> TableState) option" where
  "loop_table env cfg maxWorkers st =
     (if ts_Status st = StatusCompleted then Some ([], True, st)
      else if lv_ctx env (ts_TableName st) \<noteq> None then Some ([], False, st)
      else (case lv_get env (ParseTableName (ts_TableName st)) of
          None \<Rightarrow> Some ([Failed (ts_TableName st) (Error (''table '' @ ts_TableName st @ '' not found in listener''))], True, st)
        | Some table \<Rightarrow>
           let selectColumns = snapshotColumnNames (Some table) in
           if selectColumns = []
           then Some ([Failed (ts_TableName st) (Error (''table '' @ ts_TableName st @ '' has no snapshot columns''))], False, st)
           else
             let st1 = st\<lparr>ts_SnapshotQuery := Some (BuildSelectQuery (ts_TableName st) (snapshotQueryColumns (Some table)) (ts_whereClause st))\<rparr>;
                 km = snapshotKeyMap selectColumns (lv_txOpts env)
             in case getTableEstimate (lv_base env (ts_TableName st)) (lv_filtered env) st1 of
                  Inl e \<Rightarrow> Some ([Failed (ts_TableName st) e], False, st1)
                | Inr estimate \<Rightarrow>
                   (case (if ts_Status st1 = StatusPending then lv_setInProgress env (ts_TableName st) else Inr ()) of
                      Inl e \<Rightarrow> Some ([Failed (ts_TableName st) e], False, st1)
                    | Inr _ \<Rightarrow>
                       let started = (if ts_Status st1 = StatusPending then [SetStarted (ts_TableName st) (estimatedRows estimate)] else []) in
                       (case planSnapshotTable cfg (lv_bounds env (ts_TableName st)) st1 estimate maxWorkers of
                          None \<Rightarrow> None
                        | Some (Inl e) \<Rightarrow> Some (started @ [Failed (ts_TableName st) e], False, st1)
                        | Some (Inr plan) \<Rightarrow>
                           (case lv_ctxStart env (ts_TableName st) of
                              Some e \<Rightarrow> Some (started @ [Failed (ts_TableName st) (wrap_err ''failed to report table start: '' e)], False, st1)
                            | None \<Rightarrow>
                               let evs = started @
                                     [Reported ((report_of reportKindTableStarted (ts_TableName st))\<lparr>pr_totalRows := estimatedRows estimate\<rparr>)] @
                                     table_tasks env cfg st1 table km plan
                               in case lv_ctxDispatch env (ts_TableName st) of
                                    Some e \<Rightarrow> Some (evs @ [Failed (ts_TableName st) (wrap_err ''failed to report table dispatched: '' e)], False, st1)
                                  | None \<Rightarrow> Some (evs @ [Reported ((report_of reportKindTableDispatched (ts_TableName st))
                                      \<lparr>pr_tasksCount := int (length (plan_tasks plan))\<rparr>)], True, st1))))))"

fun runSnapshotLoop :: "loop_env \<Rightarrow> SnapshotConfig \<Rightarrow> int \<Rightarrow> TableState list \<Rightarrow> (loop_event list \<times> TableState list) option" where
  "runSnapshotLoop env cfg maxWorkers [] = Some ([], [])"
| "runSnapshotLoop env cfg maxWorkers (st # sts) =
     Option.bind (loop_table env cfg maxWorkers st) (\<lambda>(evs, goOn, st1).
       if \<not> goOn then Some (evs, st1 # sts)
       else map_option (\<lambda>(evs', sts'). (evs @ evs', st1 # sts')) (runSnapshotLoop env cfg maxWorkers sts))"

section \<open>Waiting and finishing\<close>

text \<open>
  \<open>waitForSnapshotAcks\<close>: each round sees a commit position and then either the end of the context or
  a tick. \<open>None\<close> is a wait that has not ended with the rounds given.
\<close>

datatype poll_event = Tick | CtxDone go_error

fun wait_rounds :: "LSN \<Rightarrow> (LSN \<times> poll_event) list \<Rightarrow> unit go_result option" where
  "wait_rounds targetLSN [] = None"
| "wait_rounds targetLSN ((commitPos, ev) # polls) =
     (if targetLSN \<le> commitPos then Some (Inr ())
      else (case ev of CtxDone e \<Rightarrow> Some (Inl e) | Tick \<Rightarrow> wait_rounds targetLSN polls))"

definition waitForSnapshotAcks :: "LSN \<Rightarrow> (LSN \<times> poll_event) list \<Rightarrow> unit go_result option" where
  "waitForSnapshotAcks targetLSN polls = (if targetLSN = 0 then Some (Inr ()) else wait_rounds targetLSN polls)"

fun set_failed :: "string \<Rightarrow> TableState list \<Rightarrow> TableState list" where
  "set_failed name [] = []"
| "set_failed name (st # sts) = (if ts_TableName st = name then st\<lparr>ts_Status := StatusFailed\<rparr> # sts else st # set_failed name sts)"

fun err_text :: "go_error \<Rightarrow> string" where
  "err_text (Error m) = m" | "err_text (Panic m) = m" | "err_text (Fatal m) = m"

text \<open>The map of errors by table, in the order of the first error of each; cancellations are left out.\<close>

definition collect_errors :: "(go_error \<Rightarrow> bool) \<Rightarrow> (string \<times> go_error) list \<Rightarrow> (string \<times> go_error list) list" where
  "collect_errors is_canceled errs =
     fold (\<lambda>(name, e) m. if is_canceled e then m
             else AList.update name ((case map_of m name of None \<Rightarrow> [] | Some es \<Rightarrow> es) @ [e]) m) errs []"

definition mark_failed :: "'d updater \<Rightarrow> string \<times> go_error list \<Rightarrow> TableState list \<times> 'd \<Rightarrow> TableState list \<times> 'd" where
  "mark_failed upd x s =
     (set_failed (fst x) (fst s), snd (upd (fst x) 0 StatusFailed (Some (join_sep [CHR 0x0A] (map err_text (snd x)))) (snd s)))"

definition mark_rest :: "'d updater \<Rightarrow> TableState \<Rightarrow> 'd \<Rightarrow> 'd" where
  "mark_rest upd st db =
     (if ts_Status st \<noteq> StatusCompleted \<and> ts_Status st \<noteq> StatusFailed
      then snd (upd (ts_TableName st) (ts_ProcessedRows st) StatusCompleted None db) else db)"

text \<open>
  What \<open>runSnapshot\<close> does once the workers have ended: \<open>acks\<close> is the outcome of the wait, \<open>states\<close>
  the states of the tables when the tracking of progress has ended.
\<close>

definition finish_run ::
  "'d updater \<Rightarrow> SnapshotConfig \<Rightarrow> unit go_result \<Rightarrow> (string \<times> go_error list) list \<Rightarrow> go_error option \<Rightarrow> TableState list \<Rightarrow> 'd \<Rightarrow>
   unit go_result \<times> TableState list \<times> 'd" where
  "finish_run upd cfg acks allErrors ctxErr states db =
     (case acks of
        Inl e \<Rightarrow> (Inl e, states, db)
      | Inr _ \<Rightarrow>
         let (states1, db1) = fold (mark_failed upd) allErrors (states, db) in
         if allErrors \<noteq> [] \<and> sn_AbortOnError cfg
         then (Inl (Error (''snapshot finished with errors for table(s): '' @ join_sep '', '' (map fst allErrors))), states1, db1)
         else (case ctxErr of
             Some e \<Rightarrow> (Inl e, states1, db1)
           | None \<Rightarrow> (Inr (), states1, fold (mark_rest upd) states1 db1)))"

text \<open>\<open>maxWorkers\<close> at the top of \<open>runSnapshot\<close>.\<close>

definition max_workers :: "SnapshotConfig \<Rightarrow> int" where
  "max_workers cfg = (if sn_ParallelWorkers cfg \<le> 0 then 1 else sn_ParallelWorkers cfg)"

section \<open>Execute\<close>

datatype exec_event = Shutdown | Cleanup bool | SaveLSN string | CloseStore | EndTx string

record 'd exec_env =
  ee_parse_dur :: "string \<Rightarrow> int option"
  ee_lsn_string :: "LSN \<Rightarrow> string"
  ee_parse_lsn :: "string \<Rightarrow> LSN option"
  ee_getLSN :: "string go_result"
  ee_create :: "'d \<Rightarrow> unit go_result \<times> 'd"
  ee_prepare :: prepare_env
  ee_init :: "SnapshotConfig \<Rightarrow> string \<Rightarrow> 'd \<Rightarrow> TableState list go_result \<times> 'd"
  ee_run :: "SnapshotConfig \<Rightarrow> TableState list \<Rightarrow> string \<Rightarrow> 'd \<Rightarrow> unit go_result \<times> 'd"

text \<open>The value of \<open>Execute\<close> is an LSN and an error; both are returned together.\<close>

definition already_done :: "'d exec_env \<Rightarrow> SnapshotConfig \<Rightarrow> LSN option" where
  "already_done env cfg =
     (case ee_getLSN env of
        Inl e \<Rightarrow> None
      | Inr lsnStr \<Rightarrow>
         if lsnStr = [] then None
         else (case ee_parse_lsn env lsnStr of
             None \<Rightarrow> None
           | Some lsn \<Rightarrow> if 0 < lsn \<and> sn_Mode cfg = ModeOneTime then Some lsn else None))"

definition execute_prepared ::
  "'d exec_env \<Rightarrow> SnapshotConfig \<Rightarrow> string \<Rightarrow> string \<Rightarrow> 'd \<Rightarrow> (LSN \<times> go_error option) \<times> exec_event list \<times> bool \<times> 'd" where
  "execute_prepared env cfg lsn snapshotID db =
     (case ee_parse_lsn env lsn of
        None \<Rightarrow> ((0, Some (Error ''failed to parse snapshot LSN'')), [], False, db)
      | Some parsedLSN \<Rightarrow>
         (case ee_init env cfg lsn db of
            (Inl e, db1) \<Rightarrow> ((0, Some e), [], False, db1)
          | (Inr tableStates, db1) \<Rightarrow>
             (case ee_run env cfg tableStates snapshotID db1 of
                (Inl e, db2) \<Rightarrow> ((parsedLSN, Some e), [], False, db2)
              | (Inr _, db2) \<Rightarrow> ((parsedLSN, None), [SaveLSN lsn], True, db2))))"

text \<open>The deferred calls, last one first.\<close>

definition closing :: "bool \<Rightarrow> bool \<Rightarrow> exec_event list" where
  "closing commit openTx = [Shutdown, Cleanup commit] @ (if openTx then [EndTx (end_tx commit)] else []) @ [CloseStore]"

definition Execute ::
  "'d exec_env \<Rightarrow> slotSnapshot option \<Rightarrow> SnapshotConfig option \<Rightarrow> 'd \<Rightarrow> (LSN \<times> go_error option) \<times> exec_event list \<times> 'd" where
  "Execute env slot config db =
     (case config of None \<Rightarrow> ((0, None), [], db) | Some cfg0 \<Rightarrow>
      if sn_Mode cfg0 = ModeNever then ((0, None), [], db)
      else (case SnapshotConfig_Validate (ee_parse_dur env) cfg0 of
          Inl e \<Rightarrow> ((0, Some (wrap_err ''invalid snapshot config: '' e)), [], db)
        | Inr cfg \<Rightarrow>
           (case already_done env cfg of Some lsn \<Rightarrow> ((lsn, None), [], db) | None \<Rightarrow>
           (case ee_create env db of
              (Inl e, db1) \<Rightarrow> ((0, Some (wrap_err ''failed to initialize state manager: '' e)), [CloseStore], db1)
            | (Inr _, db1) \<Rightarrow>
               (case prepareSnapshot (ee_lsn_string env) (ee_prepare env) slot of
                  (Inl e, cmds) \<Rightarrow> ((0, Some e), map EndTx cmds @ [CloseStore], db1)
                | (Inr (lsn, snapshotID, openTx), cmds) \<Rightarrow>
                   (let (r, evs, commit, db2) = execute_prepared env cfg lsn snapshotID db1
                    in (r, evs @ closing commit openTx, db2)))))))"

end
