(* ===== verification/Snapshotacks.thy ===== *)
theory Snapshotacks
  imports Snapshotbatches Snapshotmanager Lsnsystem Bufferedlistener
begin

text \<open>
  The snapshot and the LSN tracker of its listener together: whether the rows that workers hand over
  have been delivered when \<open>waitForSnapshotAcks\<close> returns. With one worker they have, however the
  delivery, the acknowledgements and the retries interleave with the reading; with several a batch
  can be lost.
\<close>

section \<open>The LSNs a tracker knows\<close>

definition bounded :: "LSN \<Rightarrow> 't tracker \<Rightarrow> bool" where
  "bounded n t \<longleftrightarrow> (\<forall>a < nextAddr t. lsn_at t a \<le> n) \<and> cp_LSN (maxAcknowledged t) \<le> n"

text \<open>A step of the listener that neither takes a new write nor stops it.\<close>

definition quiet :: "'t sys \<Rightarrow> 't sys \<Rightarrow> bool" where
  "quiet s s' \<longleftrightarrow> step s s' \<and> nextAddr (tr s') = nextAddr (tr s) \<and> stopCtx (tr s') = stopCtx (tr s)"

definition max_from :: "'t tracker \<Rightarrow> 't tracker \<Rightarrow> bool" where
  "max_from t t' \<longleftrightarrow> cp_LSN (maxAcknowledged t') \<in> insert (cp_LSN (maxAcknowledged t)) (lsn_at t ` {..<nextAddr t})"

lemma max_from_same: "maxAcknowledged t' = maxAcknowledged t \<Longrightarrow> max_from t t'"
  by (simp add: max_from_def)

lemma max_from_advance:
  assumes "tracker_inv t" "flags_ok t"
  shows "max_from t (advanceMaxAcknowledged t)"
proof (cases "stopped (trackingQueue t)")
  case True
  then show ?thesis by (simp add: advance_stopped max_from_def)
next
  case False
  let ?as = "takeWhile (\<lambda>a. pend t a = {}) (tq t)"
  have "maxAcknowledged (advanceMaxAcknowledged t) = last_point (maxAcknowledged t) t ?as"
    using advance_spec [of t] assms False by (simp add: tracker_inv_def)
  moreover have "last ?as < nextAddr t" if "?as \<noteq> []"
    using that assms(1) tk_inv_addr [of "tq t" t "last ?as"] set_takeWhileD [of "last ?as" "\<lambda>a. pend t a = {}" "tq t"]
    by (auto simp: tracker_inv_def)
  ultimately show ?thesis by (auto simp: max_from_def last_point_def lsn_at_def)
qed

lemma ack_all_fields: "maxAcknowledged (ack_all m t) = maxAcknowledged t" "nextAddr (ack_all m t) = nextAddr t" "stopCtx (ack_all m t) = stopCtx t"
  unfolding ack_all_def by (induction m arbitrary: t) (auto simp: case_prod_unfold)

lemma enqueue_max: "maxAcknowledged (snd (enqueueReadyWrite a w t)) = maxAcknowledged t"
  by (rule enqueue_cases [of a w t]) auto

lemma Add_max: "maxAcknowledged (snd (Add w t)) = maxAcknowledged t"
  by (auto simp: Add_def Let_def case_prod_unfold enqueue_max pushTrackedWrite_def alloc_tw_def split: option.split)

lemma AddEmpty_max: "maxAcknowledged (AddEmpty l x t) = maxAcknowledged t"
  by (auto simp: AddEmpty_def Let_def case_prod_unfold pushTrackedWrite_def alloc_tw_def split: option.split)

lemma max_from_OnSuccess:
  assumes "tracker_inv t" "flags_ok t"
  shows "max_from t (snd (OnSuccess es t))"
proof -
  let ?m = "fold (\<lambda>e m. addToAckMap (entry_cp e) (re_Offset e) m) es []"
  have m: "moves (ack_offs ?m) t (ack_all ?m t)" using moves_ack_all [OF assms] .
  then have "max_from (ack_all ?m t) (advanceMaxAcknowledged (ack_all ?m t))" by (intro max_from_advance) (simp_all add: moves_def)
  moreover have "lsn_at (ack_all ?m t) a = lsn_at t a" if "a < nextAddr t" for a using m that by (simp add: moves_def)
  ultimately show ?thesis by (auto simp: max_from_def OnSuccess_def Let_def ack_all_fields)
qed

lemma pipeline_pop_max:
  assumes "tracker_inv t" "flags_ok t" "pipeline_pop t = (r, t1)"
  shows "maxAcknowledged t1 = maxAcknowledged t"
proof (cases "stopCtx t")
  case True
  then show ?thesis using pipeline_pop_stopped [OF assms(1,2)] assms(3) by simp
next
  case False
  then show ?thesis using pipeline_pop_spec [OF assms(1,2)] assms(3) by auto
qed

lemma step_max:
  assumes "step s s'" "sys_inv s"
  shows "max_from (tr s) (tr s')"
proof -
  have inv: "tracker_inv (tr s)" "flags_ok (tr s)" using assms(2) by (auto simp: sys_inv_def)
  have err: "maxAcknowledged t1 = maxAcknowledged (tr s)" if "processErrorResponse now backoff es (tr s) = (r, t1)" for now backoff es r t1
    using that process_entries_inv [of now backoff es "[]" "[]" "tr s" r t1] inv(1)
    by (auto simp: processErrorResponse_def same_view_def split: if_splits)
  from assms(1) show ?thesis
  proof cases
    case (success es)
    then show ?thesis using max_from_OnSuccess [OF inv] by simp
  next
    case confirm
    then show ?thesis using max_from_advance [OF inv] by (simp add: MaxAcknowledged_def Let_def)
  next
    case (deliver r t1)
    then show ?thesis using pipeline_pop_max [OF inv] by (simp add: max_from_same)
  qed (auto intro!: max_from_same simp: Add_max AddEmpty_max ack_all_fields scheduleRetry_def Let_def fire_timer_def onRetryTimer_def
      enqueue_max Stop_def err)
qed

lemma quiet_keeps:
  assumes "quiet s s'" "sys_inv s" "bounded n (tr s)"
  shows "sys_inv s'" "bounded n (tr s')" "tracked s \<subseteq> tracked s'" "stopCtx (tr s') = stopCtx (tr s)"
proof -
  have st: "step s s'" "nextAddr (tr s') = nextAddr (tr s)" using assms(1) by (simp_all add: quiet_def)
  obtain S where "moves S (tr s) (tr s')" using step_moves [OF st(1) assms(2)] by blast
  then have "lsn_at (tr s') a = lsn_at (tr s) a" if "a < nextAddr (tr s)" for a using that by (simp add: moves_def)
  then show "bounded n (tr s')" using step_max [OF st(1) assms(2)] assms(3) st(2) by (auto simp: bounded_def max_from_def)
  show "sys_inv s'" using sys_inv_step [OF st(1) assms(2)] .
  show "tracked s \<subseteq> tracked s'" using st(1) by cases auto
  show "stopCtx (tr s') = stopCtx (tr s)" using assms(1) by (simp add: quiet_def)
qed

lemma quiets_keep:
  assumes "quiet\<^sup>*\<^sup>* s s'" "sys_inv s" "bounded n (tr s)"
  shows "sys_inv s' \<and> bounded n (tr s') \<and> tracked s \<subseteq> tracked s' \<and> stopCtx (tr s') = stopCtx (tr s)"
  using assms(1)
proof (induction rule: rtranclp_induct)
  case (step y z)
  then show ?case using quiet_keeps [of y z n] by auto
qed (use assms in auto)

section \<open>One worker\<close>

text \<open>
  The listener of the snapshot: whatever it does by itself in between (\<open>env\<close>), then the new batch is
  added to its tracker.
\<close>

definition add_write :: "'t WriteRequest \<Rightarrow> 't sys \<Rightarrow> 't sys" where
  "add_write w s = s\<lparr>tr := snd (Add w (tr s)),
     tracked := tracked s \<union> (if newly_tracked w (tr s) then {wr_LSN w} \<times> pending (newTrackedWriteRequest w) else {})\<rparr>"

definition listen :: "('t WriteRequest \<Rightarrow> 't sys \<Rightarrow> 't sys) \<Rightarrow> 't WriteRequest \<Rightarrow> 't sys \<Rightarrow> unit go_result \<times> 't sys" where
  "listen env w s = (Inr (), add_write w (env w s))"

text \<open>The same with a log of the requests that were handed over.\<close>

definition listen_log :: "('t WriteRequest \<Rightarrow> 't sys \<Rightarrow> 't sys) \<Rightarrow> 't WriteRequest \<Rightarrow> 't sys \<times> 't WriteRequest list \<Rightarrow>
  unit go_result \<times> 't sys \<times> 't WriteRequest list" where
  "listen_log env w l = (let (r, s) = listen env w (fst l) in (r, s, snd l @ [w]))"

lemma listen_log_fold:
  "fold (\<lambda>r l. snd (listen_log env r l)) reqs l = (fold (\<lambda>r l. snd (listen env r l)) reqs (fst l), snd l @ reqs)"
  by (induction reqs arbitrary: l) (simp_all add: listen_log_def case_prod_unfold Let_def)

lemma Add_fields:
  assumes "newly_tracked w t" "tracker_inv t" "flags_ok t"
  shows "nextAddr (snd (Add w t)) = Suc (nextAddr t)" "stopCtx (snd (Add w t)) = stopCtx t"
  using assms by (simp_all add: Add_new pushTrackedWrite_def case_prod_unfold Let_def)

lemma newly_tracked_above:
  assumes "sys_inv s" "bounded n (tr s)" "\<not> stopCtx (tr s)" "n < wr_LSN w"
  shows "newly_tracked w (tr s)"
proof -
  have tk: "tk_inv (tq (tr s)) (tr s)" using assms(1) by (simp add: sys_inv_def tracker_inv_def)
  have "lsn_at (tr s) a \<noteq> wr_LSN w" if "a \<in> set (tq (tr s))" for a
    using tk_inv_addr [OF tk that] assms(2,4) by (auto simp: bounded_def)
  then have "findTrackedWrite (tr s) (wr_LSN w) = None"
    by (auto simp: findTrackedWrite_def wq_Find_def tq_def find_None_iff)
  moreover have "\<not> isAcknowledged (tr s) (wr_LSN w)" using assms(2,4) by (auto simp: isAcknowledged_def bounded_def)
  ultimately show ?thesis using assms(3) by (simp add: newly_tracked_def)
qed

lemma add_write_keeps:
  assumes "sys_inv s" "bounded n (tr s)" "\<not> stopCtx (tr s)" "n < wr_LSN w"
  shows "sys_inv (add_write w s)" "bounded (wr_LSN w) (tr (add_write w s))" "\<not> stopCtx (tr (add_write w s))"
    "tracked (add_write w s) = tracked s \<union> {wr_LSN w} \<times> pending (newTrackedWriteRequest w)"
proof -
  note new = newly_tracked_above [OF assms]
  have st: "step s (add_write w s)" using step.add [of s w] by (simp add: add_write_def)
  have inv: "tracker_inv (tr s)" "flags_ok (tr s)" using assms(1) by (auto simp: sys_inv_def)
  note f = Add_fields [OF new inv]
  show "sys_inv (add_write w s)" using sys_inv_step [OF st assms(1)] .
  show "\<not> stopCtx (tr (add_write w s))" using f(2) assms(3) by (simp add: add_write_def)
  show "tracked (add_write w s) = tracked s \<union> {wr_LSN w} \<times> pending (newTrackedWriteRequest w)" using new by (simp add: add_write_def)
  have m: "moves {} (tr s) (snd (Add w (tr s)))" "lsn_at (snd (Add w (tr s))) (nextAddr (tr s)) = wr_LSN w"
    using moves_Add [OF inv] new by auto
  have "lsn_at (snd (Add w (tr s))) a \<le> wr_LSN w" if "a < Suc (nextAddr (tr s))" for a
  proof (cases "a = nextAddr (tr s)")
    case False
    then have "lsn_at (snd (Add w (tr s))) a \<le> n" using that m(1) assms(2) by (simp add: moves_def bounded_def)
    then show ?thesis using assms(4) by simp
  qed (simp add: m(2))
  then show "bounded (wr_LSN w) (tr (add_write w s))" using f(1) Add_max [of w "tr s"] assms(2,4)
    by (auto simp: bounded_def add_write_def)
qed

lemma listen_fold:
  assumes "\<And>w s. quiet\<^sup>*\<^sup>* s (env w s)"
  shows "sys_inv s \<Longrightarrow> bounded n (tr s) \<Longrightarrow> \<not> stopCtx (tr s) \<Longrightarrow> sorted_wrt (<) (n # map wr_LSN reqs) \<Longrightarrow>
    \<exists>n'. sys_inv (fold (\<lambda>r l. snd (listen env r l)) reqs s) \<and> bounded n' (tr (fold (\<lambda>r l. snd (listen env r l)) reqs s)) \<and>
      tracked s \<union> (\<Union>r \<in> set reqs. {wr_LSN r} \<times> pending (newTrackedWriteRequest r)) \<subseteq> tracked (fold (\<lambda>r l. snd (listen env r l)) reqs s)"
proof (induction reqs arbitrary: s n)
  case (Cons r reqs)
  have q: "sys_inv (env r s) \<and> bounded n (tr (env r s)) \<and> tracked s \<subseteq> tracked (env r s) \<and> stopCtx (tr (env r s)) = stopCtx (tr s)"
    using quiets_keep [OF assms(1) [of s r] Cons.prems(1,2)] .
  note k = add_write_keeps [of "env r s" n r]
  have "\<exists>n'. sys_inv (fold (\<lambda>r l. snd (listen env r l)) reqs (add_write r (env r s))) \<and>
      bounded n' (tr (fold (\<lambda>r l. snd (listen env r l)) reqs (add_write r (env r s)))) \<and>
      tracked (add_write r (env r s)) \<union> (\<Union>r \<in> set reqs. {wr_LSN r} \<times> pending (newTrackedWriteRequest r))
        \<subseteq> tracked (fold (\<lambda>r l. snd (listen env r l)) reqs (add_write r (env r s)))"
    using q k Cons.prems(3,4) by (intro Cons.IH [of _ "wr_LSN r"]) auto
  then show ?case using q k(4) Cons.prems(3,4) by (auto simp: listen_def)
qed auto

lemma lsns_from_sorted: "unat l + n < 2 ^ 64 \<Longrightarrow> sorted_wrt (<) (l # lsns_from l n)"
proof -
  assume a: "unat l + n < 2 ^ 64"
  have u: "unat (l + of_nat k) = unat l + k" if "k \<le> n" for k
    using a that by (simp add: unat_word_ariths unat_of_nat)
  have "l # lsns_from l n = map (\<lambda>k. l + of_nat k) [0..<Suc n]"
    by (simp add: lsns_from_def upt_conv_Cons map_Suc_upt [symmetric] comp_def del: upt_Suc)
  moreover have "sorted_wrt (<) (map (\<lambda>k. l + of_nat k) [0..<Suc n])"
    by (auto simp: sorted_wrt_map sorted_wrt_iff_nth_less word_less_nat_alt u simp del: upt_Suc)
  ultimately show ?thesis by simp
qed

lemma length_batches: "length (batches k xs) \<le> length xs"
proof (induction k xs rule: batches.induct)
  case (1 k xs)
  show ?case
  proof (cases "xs = [] \<or> k = 0")
    case False
    then have "length (batches k xs) \<le> Suc (length xs - k)" using 1 by (simp add: batches.simps [of k xs])
    also have "\<dots> \<le> length xs" using False by (cases xs) auto
    finally show ?thesis .
  qed (simp add: batches.simps [of k xs])
qed

lemma fold_max_ge: "x \<in> set xs \<or> x \<le> m \<Longrightarrow> x \<le> fold max xs (m :: 'a::linorder)"
  by (induction xs arbitrary: m) (auto simp: max.coboundedI1 max.coboundedI2)

lemma wait_reached: "wait_rounds target polls = Some (Inr ()) \<Longrightarrow> \<exists>p \<in> set polls. target \<le> fst p"
  by (induction target polls rule: wait_rounds.induct) (auto split: if_splits poll_event.splits)

text \<open>
  (C10) With one worker, a row that the snapshot has read is not lost. When \<open>processTableRange\<close> has read the range of a task, the
  requests it has handed to the listener hold together exactly the rows of the query, each once and in order; and when
  \<open>waitForSnapshotAcks\<close> then returns without error, every entry of every one of these requests has been delivered, or given
  up after the retries, in whatever order the listener delivers, receives responses, retries and confirms
  while the worker reads. That no other worker adds batches in between is necessary, as the last theorem of this theory shows.
\<close>

theorem snapshot_rows_settled:
  assumes env: "\<And>w s. quiet\<^sup>*\<^sup>* s (env w s)" and ctx: "\<And>l. ctx l = None" and ready: "range_ready renv w task q vals km s"
    and start: "reachable cfg (fst (ws_listener s))" "\<not> stopCtx (tr (fst (ws_listener s)))" "bounded (lt_nextLSN (ws_lsn s)) (tr (fst (ws_listener s)))"
      "unat (lt_nextLSN (ws_lsn s)) + length vals < 2 ^ 64" "snd (ws_listener s) = []"
    and run: "processTableRange (listen_log env) ctx fmt choice renv w task s = (r, s')" "quiet\<^sup>*\<^sup>* (fst (ws_listener s')) z"
    and wait: "waitForSnapshotAcks (MaxSubmitted (ws_lsn s')) polls = Some (Inr ())"
      "\<And>p. p \<in> set polls \<Longrightarrow> fst p \<le> cp_LSN (maxAcknowledged (tr z))"
  shows "r = Inr () \<and> concat (map (\<lambda>req. map content (wr_Entries req)) (snd (ws_listener s'))) = map (row_map (qr_fields q)) vals \<and>
    (\<forall>req \<in> set (snd (ws_listener s')). \<forall>e \<in> set (wr_Entries req). (wr_LSN req, we_Offset e) \<in> delivered z \<union> dropped z)"
proof -
  have ok: "fst (listen_log env u l) = Inr ()" for u l by (simp add: listen_log_def listen_def)
  obtain reqs where r: "r = Inr ()" "sent (listen_log env) (task_table task) reqs s s'" "cut_into (nat (wk_batchSize w)) (qr_fields q) vals reqs"
      "concat (map (\<lambda>req. map content (wr_Entries req)) reqs) = map (row_map (qr_fields q)) vals"
    using processTableRange_batches [where onBatch = "listen_log env" and ctx = ctx and fmt = fmt and choice = choice, OF ok ctx ready] run(1) by auto
  let ?n = "lt_nextLSN (ws_lsn s)"
  have snt: "ws_listener s' = fold (\<lambda>u l. snd (listen_log env u l)) reqs (ws_listener s)" "map wr_LSN reqs = lsns_from ?n (length reqs)"
    "lt_maxSubmitted (ws_lsn s') = fold max (map wr_LSN reqs) (lt_maxSubmitted (ws_lsn s))"
    using r(2) by (simp_all only: sent_def)
  have log: "fst (ws_listener s') = fold (\<lambda>u l. snd (listen env u l)) reqs (fst (ws_listener s))" "snd (ws_listener s') = reqs"
    unfolding snt(1) listen_log_fold using start(5) by simp_all
  have "length reqs \<le> length vals" using r(3) length_batches [of "nat (wk_batchSize w)" "map (row_map (qr_fields q)) vals"]
    by (metis cut_into_def length_map)
  then have ord: "sorted_wrt (<) (?n # map wr_LSN reqs)" unfolding snt(2) using start(4) by (intro lsns_from_sorted) simp
  obtain n' where l: "sys_inv (fst (ws_listener s'))" "bounded n' (tr (fst (ws_listener s')))"
      "(\<Union>u \<in> set reqs. {wr_LSN u} \<times> pending (newTrackedWriteRequest u)) \<subseteq> tracked (fst (ws_listener s'))"
    using listen_fold [where env = env, OF env reachable_inv [OF start(1)] start(3,2) ord] unfolding log(1) by auto
  have z: "sys_inv z" "tracked (fst (ws_listener s')) \<subseteq> tracked z" using quiets_keep [OF run(2) l(1,2)] by auto
  have "(wr_LSN req, we_Offset e) \<in> delivered z \<union> dropped z" if e: "req \<in> set reqs" "e \<in> set (wr_Entries req)" for req e
  proof (rule acknowledged_is_settled [OF z(1)])
    have "we_Offset e \<in> pending (newTrackedWriteRequest req)" using e(2) by (auto simp: newTrackedWriteRequest_def)
    then show "(wr_LSN req, we_Offset e) \<in> tracked z" using l(3) z(2) e(1) by auto
    have pos: "0 < wr_LSN req" using ord e(1) by (auto simp: word_gt_0)
    have le: "wr_LSN req \<le> MaxSubmitted (ws_lsn s')" unfolding MaxSubmitted_def snt(3) using e(1) by (intro fold_max_ge) simp
    then have "MaxSubmitted (ws_lsn s') \<noteq> 0" using pos by auto
    then obtain p where "p \<in> set polls" "MaxSubmitted (ws_lsn s') \<le> fst p" 
      using wait(1) wait_reached [of "MaxSubmitted (ws_lsn s')" polls] by (auto simp: waitForSnapshotAcks_def)
    then have "wr_LSN req \<le> cp_LSN (maxAcknowledged (tr z))" using le wait(2) by (meson order_trans)
    then show "isAcknowledged (tr z) (wr_LSN req)" using pos by (auto simp: isAcknowledged_def)
  qed
  then show ?thesis using r(1,4) log(2) by auto
qed

text \<open>One row, whose batch is acknowledged.\<close>

definition one_row_env :: "nat range_env" where
  "one_row_env = \<lparr>rn_begin = Inr (), rn_set = (\<lambda>_. Inr ()), rn_query = (\<lambda>_ _. Inr \<lparr>qr_fields = demo_columns,
     qr_rows = map Inr [[Some 1, Some 10]], qr_err = None\<rparr>)\<rparr>"

definition one_row_start :: "(nat, nat pooledOrderedMap sys \<times> nat pooledOrderedMap WriteRequest list) worker_state" where
  "one_row_start = \<lparr>ws_listener = (sys_init sample_cfg, []), ws_lsn = \<lparr>lt_nextLSN = 0, lt_maxSubmitted = 0\<rparr>,
     ws_reporter = newSnapshotProgressReporter 100, ws_pool = NewPool\<rparr>"

definition one_row_read :: "(nat, nat pooledOrderedMap sys \<times> nat pooledOrderedMap WriteRequest list) worker_state" where
  "one_row_read = snd (processTableRange (listen_log (\<lambda>w s. s)) (\<lambda>_. None) (\<lambda>_. []) (\<lambda>_. 0) one_row_env demo_worker demo_task one_row_start)"

definition one_row_acked :: "nat pooledOrderedMap sys" where
  "one_row_acked = (let s = fst (ws_listener one_row_read) in s\<lparr>tr := snd (OnSuccess [sample_resp 1 0] (tr s)),
     delivered := delivered s \<union> resp_offs [sample_resp 1 0], inflight := inflight s - resp_offs [sample_resp 1 0]\<rparr>)"

lemma one_row_facts:
  "nextAddr (tr one_row_acked) = nextAddr (tr (fst (ws_listener one_row_read)))" "stopCtx (tr one_row_acked) = stopCtx (tr (fst (ws_listener one_row_read)))"
  "cp_LSN (maxAcknowledged (tr one_row_acked)) = 1" "MaxSubmitted (ws_lsn one_row_read) = 1"
  "map wr_LSN (snd (ws_listener one_row_read)) = [1]" "map (map we_Offset \<circ> wr_Entries) (snd (ws_listener one_row_read)) = [[0]]"
  by code_simp+

theorem snapshot_rows_settled_witness:
  "concat (map (\<lambda>req. map content (wr_Entries req)) (snd (ws_listener one_row_read))) = [row_map demo_columns [Some 1, Some 10]] \<and>
     (1, 0) \<in> delivered one_row_acked \<union> dropped one_row_acked"
proof -
  let ?km = "snapshotKeyMap demo_columns \<lparr>tx_Save = False, tx_Name = []\<rparr>"
  let ?q = "\<lparr>qr_fields = demo_columns, qr_rows = map Inr [[Some 1, Some 10]], qr_err = None\<rparr> :: nat query_result"
  have km: "?km = km_New demo_columns" by (simp add: snapshotKeyMap_def)
  have "pool_ready (task_table demo_task) ?km (ws_pool one_row_start)"
    by (simp add: pool_ready_def one_row_start_def km pool_keyMap_def NewPool_def pools_wf_def) (simp add: demo_columns_def)
  moreover have "reporter_open one_row_start" by (simp add: reporter_open_def one_row_start_def newSnapshotProgressReporter_def)
  moreover have "set demo_columns \<subseteq> set (Keys ?km)" "distinct demo_columns" by (simp add: km) (simp add: demo_columns_def)
  ultimately have ready: "range_ready one_row_env demo_worker demo_task ?q [[Some 1, Some 10]] ?km one_row_start"
    by (simp add: range_ready_def one_row_env_def demo_task_def demo_worker_def) (simp add: demo_columns_def)
  have start: "reachable sample_cfg (fst (ws_listener one_row_start))" "\<not> stopCtx (tr (fst (ws_listener one_row_start)))"
    "bounded (lt_nextLSN (ws_lsn one_row_start)) (tr (fst (ws_listener one_row_start)))"
    using reachable.init by (simp_all add: one_row_start_def sys_init_def NewLSNTracker_def bounded_def)
  have run: "processTableRange (listen_log (\<lambda>w s. s)) (\<lambda>_. None) (\<lambda>_. []) (\<lambda>_. 0) one_row_env demo_worker demo_task one_row_start =
      (fst (processTableRange (listen_log (\<lambda>w s. s)) (\<lambda>_. None) (\<lambda>_. []) (\<lambda>_. 0) one_row_env demo_worker demo_task one_row_start), one_row_read)"
    by (simp add: one_row_read_def)
  have "quiet (fst (ws_listener one_row_read)) one_row_acked"
    using one_row_facts(1,2) step.success [of "fst (ws_listener one_row_read)" "[sample_resp 1 0]"] by (simp add: quiet_def one_row_acked_def Let_def)
  then have z: "quiet\<^sup>*\<^sup>* (fst (ws_listener one_row_read)) one_row_acked" by blast
  have wait: "waitForSnapshotAcks (MaxSubmitted (ws_lsn one_row_read)) [(1, Tick)] = Some (Inr ())"
    "\<And>p. p \<in> set [(1, Tick)] \<Longrightarrow> fst p \<le> cp_LSN (maxAcknowledged (tr one_row_acked))"
    using one_row_facts(3,4) by (auto simp: waitForSnapshotAcks_def)
  have reqs: "concat (map (\<lambda>req. map content (wr_Entries req)) (snd (ws_listener one_row_read))) = [row_map demo_columns [Some 1, Some 10]]"
    "\<forall>req \<in> set (snd (ws_listener one_row_read)). \<forall>e \<in> set (wr_Entries req). (wr_LSN req, we_Offset e) \<in> delivered one_row_acked \<union> dropped one_row_acked"
    using snapshot_rows_settled [where env = "\<lambda>w s. s" and ctx = "\<lambda>_. None", OF _ _ ready start _ _ run z wait]
    by (auto simp: one_row_start_def)
  obtain x e where "snd (ws_listener one_row_read) = [x]" "wr_LSN x = 1" "wr_Entries x = [e]" "we_Offset e = 0"
    using one_row_facts(5,6) by (auto simp: map_eq_Cons_conv)
  then show ?thesis using reqs by simp
qed

section \<open>Several workers\<close>

text \<open>
  (C39) With two workers a batch can be lost: a worker takes an LSN with \<open>NextLSN\<close> before it hands the
  batch over; if meanwhile another worker takes the next LSN, hands its batch over, and that batch is
  delivered and acknowledged, then \<open>OnSnapshotBatch\<close> of the first finds its LSN below the acknowledged
  one and leaves the listener as it is: the rows are never sent, the call returns no error, and the
  commit position already covers the LSN for which \<open>waitForSnapshotAcks\<close> waits.
\<close>

theorem late_snapshot_batch_lost:
  assumes "NextLSN lt = (l1, lt1)" "NextLSN lt1 = (l2, lt2)" "unat (lt_nextLSN lt) + 2 < 2 ^ 64" "\<not> stopCtx (lsnTracker rl)"
    and "l2 \<le> cp_LSN (maxAcknowledged (lsnTracker rl))"
  shows "OnSnapshotBatch (NewSnapshotRequest l1 entries) rl = rl \<and> l1 \<le> cp_LSN (maxAcknowledged (lsnTracker rl))"
proof -
  have l: "l1 = lt_nextLSN lt + 1" "l2 = lt_nextLSN lt + 1 + 1" using assms(1,2) by (auto simp: NextLSN_def)
  have u: "unat (lt_nextLSN lt + 1) = unat (lt_nextLSN lt) + 1" "unat (lt_nextLSN lt + 1 + 1) = unat (lt_nextLSN lt) + 2"
    using assms(3) by (simp_all add: unat_word_ariths)
  then have "0 < l2" "l1 \<le> l2" unfolding l by (simp_all add: word_less_nat_alt word_le_nat_alt)
  then have a: "isAcknowledged (lsnTracker rl) l1" "l1 \<le> cp_LSN (maxAcknowledged (lsnTracker rl))"
    using assms(5) by (auto simp: isAcknowledged_def)
  then show ?thesis using assms(4) by (simp add: OnSnapshotBatch_def sendWALRequestToLSNTracker_def Add_def)
qed

definition late_entry :: "nat row WriteEntry" where
  "late_entry = \<lparr>we_Tuple = Tup (om_New (km_New [''id''])), we_PrevTuple = NoTuple, we_PK = ''1'', we_Kind = SnapshotRead,
     we_Table = sample_table, we_Offset = 0\<rparr>"

definition overtaken :: "nat listener" where
  "overtaken = (let rl = OnSnapshotBatch (NewSnapshotRequest 2 [late_entry])
       (NewListener \<lparr>lo_Publication = ''p'', lo_NumericMode = NumericEncodingString, lo_AppName = ''app''\<rparr> [] sample_cfg NewArena)
     in rl\<lparr>lsnTracker := snd (OnSuccess [sample_resp 2 0] (lsnTracker rl))\<rparr>)"

lemma overtaken_acked: "cp_LSN (maxAcknowledged (lsnTracker overtaken)) = 2" "\<not> stopCtx (lsnTracker overtaken)"
  by code_simp+

theorem late_snapshot_batch_lost_witness:
  "OnSnapshotBatch (NewSnapshotRequest 1 [late_entry]) overtaken = overtaken"
  using late_snapshot_batch_lost [of "\<lparr>lt_nextLSN = 0, lt_maxSubmitted = 0\<rparr>" 1 "\<lparr>lt_nextLSN = 1, lt_maxSubmitted = 0\<rparr>" 2
      "\<lparr>lt_nextLSN = 2, lt_maxSubmitted = 0\<rparr>" overtaken "[late_entry]"] overtaken_acked
  by (simp add: NextLSN_def)

end
