(* ===== verification/Connector.thy ===== *)
theory Connector
  imports Appconfig Pgschema
begin

text \<open>
  \<open>pgschema/pgconnector\<close> with \<open>pgnode\<close>, and \<open>pgschema/pgcompatibility\<close>: the cn of a Postgres cluster, which of
  them is the primary, and running a query on it. The answers of the servers are \<open>node_env\<close>; a node holds its
  mutex over a whole operation, and the goroutines of \<open>Connect\<close> work on different nodes, so they
  are one map over them.
\<close>

section \<open>Nodes\<close>

record conn_config =
  cc_Host :: string
  cc_Port :: u16
  cc_RuntimeParams :: "string \<rightharpoonup> string"

record 'c PGNode =
  nd_isPrimary :: bool
  nd_replConfig :: conn_config
  nd_connConfig :: conn_config
  nd_hostPort :: string
  nd_conn :: "'c option"
  nd_version :: PGVersion

definition Unknown :: PGVersion where
  "Unknown = 0"

definition node_New :: "conn_config \<Rightarrow> conn_config \<Rightarrow> 'c PGNode" where
  "node_New replConfig connConfig =
     \<lparr>nd_isPrimary = False, nd_replConfig = replConfig, nd_connConfig = connConfig,
      nd_hostPort = cc_Host connConfig @ '':'' @ format_uint (unat (cc_Port connConfig)), nd_conn = None, nd_version = Unknown\<rparr>"

definition HasConn :: "'c PGNode \<Rightarrow> bool" where
  "HasConn n \<longleftrightarrow> nd_conn n \<noteq> None"

text \<open>\<open>Close\<close> forgets the connection before it is closed; \<open>close\<close> is the outcome of closing.\<close>

definition node_Close :: "('c \<Rightarrow> unit go_result) \<Rightarrow> 'c PGNode \<Rightarrow> unit go_result \<times> 'c PGNode" where
  "node_Close close n = (case nd_conn n of None \<Rightarrow> (Inr (), n) | Some c \<Rightarrow> (close c, n\<lparr>nd_conn := None\<rparr>))"

definition ErrNodeNotConnected :: "'c PGNode \<Rightarrow> go_error" where
  "ErrNodeNotConnected n = Error (''node is not connected: '' @ nd_hostPort n)"

definition WithConnection :: "('c \<Rightarrow> 's \<Rightarrow> 'a go_result \<times> 's) \<Rightarrow> 'c PGNode \<Rightarrow> 's \<Rightarrow> 'a go_result \<times> 's" where
  "WithConnection f n s = (case nd_conn n of None \<Rightarrow> (Inl (ErrNodeNotConnected n), s) | Some c \<Rightarrow> f c s)"

definition ConnectReplication :: "(conn_config \<Rightarrow> 'r go_result) \<Rightarrow> 'c PGNode \<Rightarrow> 'r go_result" where
  "ConnectReplication dial n =
     with_text ''failed to connect via replication connection: '' (dial (nd_replConfig n))"

text \<open>What a server answers while a node connects: the first and the second dial, pings, its state and version.\<close>

record 'c node_env =
  ne_dial :: "nat \<Rightarrow> 'c go_result"
  ne_ping :: "'c \<Rightarrow> unit go_result"
  ne_inRecovery :: "'c \<Rightarrow> bool go_result"
  ne_versionNum :: "'c \<Rightarrow> int go_result"

definition connectNew :: "nat \<Rightarrow> 'c node_env \<Rightarrow> 'c PGNode \<Rightarrow> 'c go_result \<times> 'c PGNode" where
  "connectNew i env n =
     (case ne_dial env i of
        Inl e \<Rightarrow> (Inl (wrap_err (''failed to connect to node '' @ nd_hostPort n @ '': '') e), n)
      | Inr c \<Rightarrow> (Inr c, n\<lparr>nd_conn := Some c\<rparr>))"

definition getConnOrConnect :: "'c node_env \<Rightarrow> 'c PGNode \<Rightarrow> 'c go_result \<times> 'c PGNode" where
  "getConnOrConnect env n = (case nd_conn n of Some c \<Rightarrow> (Inr c, n) | None \<Rightarrow> connectNew 0 env n)"

definition ReadPGVersion :: "int go_result \<Rightarrow> PGVersion go_result" where
  "ReadPGVersion num = bind_result (with_text ''pgschema: error reading server version: '' num) parsePGVersionNum"

text \<open>The second half of \<open>Connect\<close>, on a connection that answers pings.\<close>

definition read_status :: "'c node_env \<Rightarrow> 'c \<Rightarrow> 'c PGNode \<Rightarrow> unit go_result \<times> 'c PGNode" where
  "read_status env c n =
     (case ne_inRecovery env c of
        Inl e \<Rightarrow> (Inl (wrap_err (''failed to query status of node '' @ nd_hostPort n @ '': '') e), n)
      | Inr inRecovery \<Rightarrow>
         let n1 = n\<lparr>nd_isPrimary := \<not> inRecovery\<rparr> in
         (case ReadPGVersion (ne_versionNum env c) of
            Inl e \<Rightarrow> (Inl (wrap_err (''failed to read version of node '' @ nd_hostPort n @ '': '') e), n1)
          | Inr ver \<Rightarrow> (Inr (), n1\<lparr>nd_version := ver\<rparr>)))"

definition node_Connect :: "'c node_env \<Rightarrow> 'c PGNode \<Rightarrow> unit go_result \<times> 'c PGNode" where
  "node_Connect env n =
     (case getConnOrConnect env (n\<lparr>nd_isPrimary := False\<rparr>) of
        (Inl e, n1) \<Rightarrow> (Inl e, n1)
      | (Inr c, n1) \<Rightarrow>
         (case ne_ping env c of
            Inr _ \<Rightarrow> read_status env c n1
          | Inl _ \<Rightarrow>
             (case connectNew 1 env (n1\<lparr>nd_conn := None\<rparr>) of
                (Inl e, n2) \<Rightarrow> (Inl e, n2)
              | (Inr c2, n2) \<Rightarrow>
                 (case ne_ping env c2 of
                    Inl e \<Rightarrow> (Inl (wrap_err (''failed to ping node '' @ nd_hostPort n2 @ '': '') e), n2)
                  | Inr _ \<Rightarrow> read_status env c2 n2))))"

section \<open>The connector\<close>

text \<open>A connector is the list of its nodes. \<open>parse\<close> is the parser of connection strings of pgx.\<close>

definition createNode :: "(string \<Rightarrow> conn_config go_result) \<Rightarrow> string \<Rightarrow> string \<Rightarrow> 'c PGNode go_result" where
  "createNode parse connStr appName =
     (case parse connStr of
        Inl e \<Rightarrow> Inl (wrap_err ''connector: failed to parse connection string: '' e)
      | Inr cfg \<Rightarrow>
         let repl = (cc_RuntimeParams cfg)(''replication'' \<mapsto> ''database'');
             repl = (if appName \<noteq> [] then repl(''application_name'' \<mapsto> appName @ ''_repl'') else repl);
             params = (if appName \<noteq> [] then (cc_RuntimeParams cfg)(''application_name'' \<mapsto> appName) else cc_RuntimeParams cfg)
         in Inr (node_New (cfg\<lparr>cc_RuntimeParams := repl\<rparr>) (cfg\<lparr>cc_RuntimeParams := params\<rparr>)))"

fun create_nodes :: "(string \<Rightarrow> conn_config go_result) \<Rightarrow> (ConnectionOpts \<Rightarrow> string) \<Rightarrow> string \<Rightarrow> ConnectionOpts list \<Rightarrow> 'c PGNode list go_result" where
  "create_nodes parse connStr appName [] = Inr []"
| "create_nodes parse connStr appName (x # xs) =
     bind_result (createNode parse (connStr x) appName) (\<lambda>n. bind_result (create_nodes parse connStr appName xs) (\<lambda>ns. Inr (n # ns)))"

definition NewWithApp ::
  "(string \<Rightarrow> conn_config go_result) \<Rightarrow> (ConnectionOpts \<Rightarrow> string) \<Rightarrow> ConnectionOptsMany \<Rightarrow> string \<Rightarrow> 'c PGNode list go_result" where
  "NewWithApp parse connStr com appName =
     (case fst (AllOpts com) of
        Inl e \<Rightarrow> Inl (wrap_err ''connector: failed to parse options: '' e)
      | Inr allOpts \<Rightarrow> create_nodes parse connStr appName allOpts)"

definition ErrPrimNodeNotAvailable :: go_error where
  "ErrPrimNodeNotAvailable = Error ''primary node not available''"

definition ErrUnableToConnectToPrimNode :: go_error where
  "ErrUnableToConnectToPrimNode = Error ''unable to connect to primary node''"

definition conn_Close :: "('c \<Rightarrow> unit go_result) \<Rightarrow> 'c PGNode list \<Rightarrow> 'c PGNode list" where
  "conn_Close close cn = map (\<lambda>n. snd (node_Close close n)) cn"

definition conn_Connect :: "go_error option \<Rightarrow> (string \<Rightarrow> 'c node_env) \<Rightarrow> 'c PGNode list \<Rightarrow> unit go_result \<times> 'c PGNode list" where
  "conn_Connect ctxErr env cn =
     (case ctxErr of Some e \<Rightarrow> (Inl e, cn)
      | None \<Rightarrow>
         let nodes1 = map (\<lambda>n. snd (node_Connect (env (nd_hostPort n)) n)) cn in
         (if list_ex nd_isPrimary nodes1 then Inr () else Inl ErrUnableToConnectToPrimNode, nodes1))"

definition PrimaryNode :: "'c PGNode list \<Rightarrow> string go_result" where
  "PrimaryNode cn =
     (case List.find (\<lambda>n. nd_isPrimary n \<and> HasConn n) cn of None \<Rightarrow> Inl ErrPrimNodeNotAvailable | Some n \<Rightarrow> Inr (nd_hostPort n))"

definition ConnectPrimaryNode :: "go_error option \<Rightarrow> (string \<Rightarrow> 'c node_env) \<Rightarrow> 'c PGNode list \<Rightarrow> string go_result \<times> 'c PGNode list" where
  "ConnectPrimaryNode ctxErr env cn =
     (case conn_Connect ctxErr env cn of
        (Inl e, nodes1) \<Rightarrow> (Inl (wrap_err ''failed to connect to Postgres: '' e), nodes1)
      | (Inr _, nodes1) \<Rightarrow>
         (with_text ''failed to connect to primary node: '' (PrimaryNode nodes1), nodes1))"

definition on_primary :: "('c PGNode \<Rightarrow> 'a go_result \<times> 's) \<Rightarrow> 'c PGNode list \<Rightarrow> 's \<Rightarrow> 'a go_result \<times> 's" where
  "on_primary f cn s = (case List.find nd_isPrimary cn of None \<Rightarrow> (Inl ErrPrimNodeNotAvailable, s) | Some n \<Rightarrow> f n)"

definition PrimaryVersion :: "'c PGNode list \<Rightarrow> PGVersion go_result" where
  "PrimaryVersion cn = fst (on_primary (\<lambda>n. (Inr (nd_version n), ())) cn ())"

definition AcquirePrimary :: "(conn_config \<Rightarrow> 'c go_result) \<Rightarrow> 'c PGNode list \<Rightarrow> 'c go_result" where
  "AcquirePrimary dial cn = fst (on_primary (\<lambda>n. (dial (nd_connConfig n), ())) cn ())"

definition GetPrimaryReplConn :: "(conn_config \<Rightarrow> 'r go_result) \<Rightarrow> 'c PGNode list \<Rightarrow> 'r go_result" where
  "GetPrimaryReplConn dial cn = fst (on_primary (\<lambda>n. (ConnectReplication dial n, ())) cn ())"

definition ExecPrimary :: "('c \<Rightarrow> 's \<Rightarrow> 'a go_result \<times> 's) \<Rightarrow> 'c PGNode list \<Rightarrow> 's \<Rightarrow> 'a go_result \<times> 's" where
  "ExecPrimary f cn s = on_primary (\<lambda>n. WithConnection f n s) cn s"

definition ReplicasCount :: "'c PGNode list \<Rightarrow> nat" where
  "ReplicasCount cn = length (filter (\<lambda>n. \<not> nd_isPrimary n) cn)"

definition NodeVersions :: "'c PGNode list \<Rightarrow> (string \<times> PGVersion) list" where
  "NodeVersions cn = fold (\<lambda>n m. AList.update (nd_hostPort n) (nd_version n) m) cn []"

text \<open>The joined errors of the replicas; the value returned is always the zero value.\<close>

fun ExecReplica :: "('c \<Rightarrow> 's \<Rightarrow> 'a go_result \<times> 's) \<Rightarrow> 'a \<Rightarrow> 'c PGNode list \<Rightarrow> 's \<Rightarrow> ('a \<times> go_error list) \<times> 's" where
  "ExecReplica f zero [] s = ((zero, []), s)"
| "ExecReplica f zero (n # ns) s =
     (let (errs, s1) =
        (if nd_isPrimary n then ([], s)
         else if \<not> HasConn n then ([ErrNodeNotConnected n], s)
         else (case WithConnection f n s of
             (Inl e, s1) \<Rightarrow> ([wrap_err (''failed to execute query on replica node '' @ nd_hostPort n @ '': '') e], s1)
           | (Inr _, s1) \<Rightarrow> ([], s1)));
          ((t, errs'), s2) = ExecReplica f zero ns s1
      in ((t, errs @ errs'), s2))"

definition ErrTrackCommitTimestampDisabled :: go_error where
  "ErrTrackCommitTimestampDisabled = Error ''track commit timestamp is disabled''"

definition CheckTrackCommitTimestamp :: "string go_result \<Rightarrow> unit go_result" where
  "CheckTrackCommitTimestamp shown =
     bind_result shown (\<lambda>res. if res \<noteq> ''on'' then Inl ErrTrackCommitTimestampDisabled else Inr ())"

section \<open>The primary is found\<close>

text \<open>A node is primary after \<open>Connect\<close> only if its server says so on the connection that the node keeps.\<close>

lemma node_Connect_primary:
  assumes "node_Connect env n = (r, n')"
  shows "nd_hostPort n' = nd_hostPort n \<and>
    (nd_isPrimary n' \<longrightarrow> (\<exists>c. nd_conn n' = Some c \<and> ne_ping env c = Inr () \<and> ne_inRecovery env c = Inr False))"
  using assms
  by (auto simp: node_Connect_def getConnOrConnect_def connectNew_def read_status_def Let_def split: option.splits sum.splits prod.splits if_splits)

lemma find_map: "(\<And>x. P (f x) = Q x) \<Longrightarrow> List.find P (map f xs) = map_option f (List.find Q xs)"
  by (induction xs) auto

lemma find_Some_first: "List.find P xs = Some x \<Longrightarrow> x \<in> set xs \<and> P x"
  by (auto simp: find_Some_iff)

text \<open>
  After a successful \<open>Connect\<close> queries for the primary run: the first primary node is connected, its
  connection answered the ping and its server is not in recovery, and \<open>ExecPrimary\<close> runs its function on that
  connection, until the connector is closed; after a \<open>Connect\<close> that found no primary every
  call for the primary fails.
\<close>

theorem Connect_finds_primary:
  assumes "conn_Connect None env ns = (r, ns')"
  shows "(r = Inr () \<longrightarrow> (\<exists>n c. List.find nd_isPrimary ns' = Some n \<and> nd_conn n = Some c \<and> ne_ping (env (nd_hostPort n)) c = Inr () \<and>
        ne_inRecovery (env (nd_hostPort n)) c = Inr False \<and> PrimaryNode ns' = Inr (nd_hostPort n) \<and>
        (\<forall>f s. ExecPrimary f ns' s = f c (s :: 's)) \<and>
        (\<forall>f s. fst (ExecPrimary f (conn_Close close ns') (s :: 's)) = Inl (ErrNodeNotConnected n)))) \<and>
    (r \<noteq> Inr () \<longrightarrow> (\<forall>f s. ExecPrimary f ns' (s :: 's) = (Inl ErrPrimNodeNotAvailable, s)) \<and> PrimaryVersion ns' = Inl ErrPrimNodeNotAvailable \<and>
        (\<forall>dial. AcquirePrimary dial ns' = Inl ErrPrimNodeNotAvailable))"
proof (cases "List.find nd_isPrimary ns'")
  case None
  then have "\<not> list_ex nd_isPrimary ns'" by (auto simp: find_None_iff list_ex_iff)
  then show ?thesis using assms None
    by (auto simp: conn_Connect_def Let_def ExecPrimary_def on_primary_def PrimaryVersion_def AcquirePrimary_def split: if_splits)
next
  case (Some n)
  have ns': "ns' = map (\<lambda>n. snd (node_Connect (env (nd_hostPort n)) n)) ns" using assms by (simp add: conn_Connect_def Let_def)
  have n: "n \<in> set ns'" "nd_isPrimary n" using find_Some_first [OF Some] by auto
  then have r: "r = Inr ()" using assms ns' by (auto simp: conn_Connect_def Let_def list_ex_iff split: if_splits)
  have conn: "\<exists>c. nd_conn m = Some c \<and> ne_ping (env (nd_hostPort m)) c = Inr () \<and> ne_inRecovery (env (nd_hostPort m)) c = Inr False"
    if m: "m \<in> set ns'" "nd_isPrimary m" for m
  proof -
    obtain m0 where "m = snd (node_Connect (env (nd_hostPort m0)) m0)" using m(1) unfolding ns' by auto
    then show ?thesis using node_Connect_primary [of "env (nd_hostPort m0)" m0 "fst (node_Connect (env (nd_hostPort m0)) m0)" m] m(2) by auto
  qed
  have "List.find (\<lambda>m. nd_isPrimary m \<and> HasConn m) ns' = List.find nd_isPrimary ns'"
    by (rule find_cong) (auto simp: HasConn_def dest: conn)
  moreover have "List.find nd_isPrimary (conn_Close close ns') = Some (n\<lparr>nd_conn := None\<rparr>)"
    using find_map [of nd_isPrimary "\<lambda>m. snd (node_Close close m)" nd_isPrimary ns'] Some conn [OF n]
    by (auto simp: conn_Close_def node_Close_def split: option.split)
  ultimately show ?thesis using r Some conn [OF n] by (auto simp: PrimaryNode_def ExecPrimary_def on_primary_def WithConnection_def ErrNodeNotConnected_def)
qed

text \<open>Two nodes: the first is a replica, the second the primary, whose kept connection is dead and is replaced.\<close>

definition two_nodes :: "nat PGNode list" where
  "two_nodes = map (\<lambda>(h, c). (node_New \<lparr>cc_Host = h, cc_Port = 5432, cc_RuntimeParams = Map.empty\<rparr>
     \<lparr>cc_Host = h, cc_Port = 5432, cc_RuntimeParams = Map.empty\<rparr>)\<lparr>nd_hostPort := h, nd_conn := c\<rparr>) [(''a'', None), (''b'', Some 7)]"

definition two_servers :: "string \<Rightarrow> nat node_env" where
  "two_servers h = \<lparr>ne_dial = (\<lambda>i. Inr i), ne_ping = (\<lambda>c. if c = 7 then Inl (Error ''closed'') else Inr ()),
     ne_inRecovery = (\<lambda>_. Inr (h = ''a'')), ne_versionNum = (\<lambda>_. Inr 160004)\<rparr>"

theorem Connect_finds_primary_witness:
  "\<exists>ns'. conn_Connect None two_servers two_nodes = (Inr (), ns') \<and> PrimaryNode ns' = Inr ''b''"
proof -
  obtain r ns' where c: "conn_Connect None two_servers two_nodes = (r, ns')" by fastforce
  have r: "r = Inr ()" "List.find nd_isPrimary ns' = Some n \<Longrightarrow> nd_hostPort n = ''b''" for n
    using c by (auto simp: conn_Connect_def two_nodes_def two_servers_def node_Connect_def getConnOrConnect_def connectNew_def
      read_status_def ReadPGVersion_def parsePGVersionNum_def Let_def split: if_splits)
  then show ?thesis using Connect_finds_primary [OF c, where close = "\<lambda>_. Inr ()"] c by auto
qed

end
