(* ===== verification/Migrator.thy ===== *)
theory Migrator
  imports Connector Bufferedlistener Snapshotmanager
begin

text \<open>
  \<open>pgschema/migrator/pgpub_migrator.go\<close> and \<open>validateSchema\<close> of \<open>pg2runner/app_runner.go\<close>: the publication is
  created or altered to fit the configured tables, the slot is created with an exported snapshot. Statements
  sent to Postgres are recorded in order; their outcomes, and the outcome of creating the slot, are
  arguments. Maps are lists in their order of iteration.
\<close>

section \<open>Comparing the publication with the configuration\<close>

definition columnsDifferWithAllInConfig :: "Table \<Rightarrow> Table \<Rightarrow> bool" where
  "columnsDifferWithAllInConfig pubTable pubTableWithAllColumns =
     (if length (Columns pubTable) \<noteq> length (Columns pubTableWithAllColumns) then True
      else list_ex (\<lambda>(_, col1). map_of (Columns pubTableWithAllColumns) (col_Name col1) = None) (Columns pubTable))"

definition columnsDiffer :: "Table \<Rightarrow> Table \<Rightarrow> TableConfig \<Rightarrow> bool" where
  "columnsDiffer pubTable pubTableWithAllColumns configTable =
     (if AllColumns configTable then columnsDifferWithAllInConfig pubTable pubTableWithAllColumns
      else if length (Columns pubTable) \<noteq> length (cfg_Columns configTable) then True
      else list_ex (\<lambda>column. map_of (Columns pubTable) column = None) (cfg_Columns configTable))"

definition hasChanges :: "tables \<Rightarrow> tables \<Rightarrow> (string \<times> TableConfig) list \<Rightarrow> bool" where
  "hasChanges pubTables pubTablesWithAllColumns tableConfig =
     (list_ex (\<lambda>(tableName, tableInConfig).
        case map_of pubTables tableName of None \<Rightarrow> True
        | Some pubTable \<Rightarrow>
           (case map_of pubTablesWithAllColumns tableName of None \<Rightarrow> True
            | Some pubTableWithAllColumns \<Rightarrow> columnsDiffer pubTable pubTableWithAllColumns tableInConfig)) tableConfig \<or>
      list_ex (\<lambda>(k, _). map_of tableConfig k = None) pubTables)"

section \<open>The publication\<close>

fun createPubString :: "string \<Rightarrow> (string \<times> TableConfig) list \<Rightarrow> string" where
  "createPubString comma [] = []"
| "createPubString comma ((k, v) # tcs) =
     (let columns = (if \<not> AllColumns v \<and> cfg_Columns v \<noteq> [] then ''('' @ join_sep '','' (cfg_Columns v) @ '')'' else [])
      in comma @ '' '' @ k @ '' '' @ columns @ createPubString '','' tcs)"

definition alter_sql :: "string \<Rightarrow> (string \<times> TableConfig) list \<Rightarrow> string" where
  "alter_sql pubName tcs = ''ALTER PUBLICATION '' @ pubName @ '' SET TABLE'' @ [CHR 0x0A] @ createPubString [] tcs"

definition create_sql :: "string \<Rightarrow> PGVersion \<Rightarrow> (string \<times> TableConfig) list \<Rightarrow> string" where
  "create_sql pubName version tcs =
     ''CREATE PUBLICATION '' @ pubName @ '' FOR TABLE'' @ [CHR 0x0A] @ createPubString [] tcs @
     (if 13 \<le> version then '' WITH(publish_via_partition_root=true) '' else [])"

text \<open>\<open>exec\<close> is the outcome of a statement; the statements sent are returned.\<close>

definition alterPubSet :: "(string \<Rightarrow> unit go_result) \<Rightarrow> string \<Rightarrow> (string \<times> TableConfig) list \<Rightarrow> unit go_result \<times> string list" where
  "alterPubSet exec pubName tcs = (with_text ''alter publication error: '' (exec (alter_sql pubName tcs)), [alter_sql pubName tcs])"

definition createPub :: "(string \<Rightarrow> unit go_result) \<Rightarrow> string \<Rightarrow> PGVersion \<Rightarrow> (string \<times> TableConfig) list \<Rightarrow> unit go_result \<times> string list" where
  "createPub exec pubName version tcs =
     (with_text ''create publication error: '' (exec (create_sql pubName version tcs)), [create_sql pubName version tcs])"

text \<open>The answer of \<open>ReadPubTables\<close>: its error is \<open>ErrPubNotFound\<close> or another one.\<close>

datatype pub_read = PubNotFound | PubError go_error | PubTables PubTableRes

definition migrateWithConn ::
  "(string \<Rightarrow> unit go_result) \<Rightarrow> pub_read \<Rightarrow> string \<Rightarrow> PGVersion \<Rightarrow> (string \<times> TableConfig) list \<Rightarrow> unit go_result \<times> string list" where
  "migrateWithConn exec res pubName version tcs =
     (case res of
        PubError e \<Rightarrow> (Inl (wrap_err ''failed to read pub tables: '' e), [])
      | PubNotFound \<Rightarrow> createPub exec pubName version tcs
      | PubTables r \<Rightarrow>
         if \<not> hasChanges (res_Tables r) (TablesWithAllColumns r) tcs then (Inr (), []) else alterPubSet exec pubName tcs)"

section \<open>The slot\<close>

record PublicationMigrator =
  pm_pubName :: string
  pm_slotName :: string
  pm_slotFailover :: "bool option"
  pm_createdSlotSnapshot :: "slotSnapshot option"

definition NewPublicationMigrator :: "string \<Rightarrow> (string \<times> bool option) list \<Rightarrow> PublicationMigrator" where
  "NewPublicationMigrator pubName slotConfig =
     (let (name, failover) = (case slotConfig of [] \<Rightarrow> ([], None) | c # _ \<Rightarrow> c)
      in \<lparr>pm_pubName = pubName, pm_slotName = name, pm_slotFailover = failover, pm_createdSlotSnapshot = None\<rparr>)"

definition effectiveSlotFailover :: "bool option \<Rightarrow> PGVersion \<Rightarrow> bool go_result" where
  "effectiveSlotFailover slotFailover version =
     (case slotFailover of
        None \<Rightarrow> Inr (17 \<le> version)
      | Some f \<Rightarrow> if f \<and> version < 17
                  then Inl (Error ''replication slot failover is supported only in Postgres version >= 17'') else Inr f)"

definition createReplicationSlotSQL :: "string \<Rightarrow> bool \<Rightarrow> string" where
  "createReplicationSlotSQL slotName failover =
     (if failover then ''CREATE_REPLICATION_SLOT '' @ slotName @ '' LOGICAL pgoutput (SNAPSHOT 'export', FAILOVER 'true')''
      else ''CREATE_REPLICATION_SLOT '' @ slotName @ '' LOGICAL pgoutput EXPORT_SNAPSHOT'')"

text \<open>
  \<open>createSlot\<close>: \<open>dial\<close> opens the replication connection, \<open>create\<close> answers the command with the consistent point
  and the snapshot's name. The connection is closed on every error and kept with the snapshot otherwise;
  the result says whether it was closed.
\<close>

definition createSlot ::
  "unit go_result \<Rightarrow> (string \<Rightarrow> (string \<times> string) go_result) \<Rightarrow> (string \<Rightarrow> LSN option) \<Rightarrow> bool \<Rightarrow> PublicationMigrator \<Rightarrow>
   unit go_result \<times> bool \<times> PublicationMigrator" where
  "createSlot dial create parseLSN failover pm =
     (case dial of
        Inl e \<Rightarrow> (Inl (wrap_err ''failed to connect via replication connection: '' e), False, pm)
      | Inr _ \<Rightarrow>
         (case create (createReplicationSlotSQL (pm_slotName pm) failover) of
            Inl e \<Rightarrow> (Inl (wrap_err ''failed to create replication slot: '' e), True, pm)
          | Inr (consistentPoint, snapshotName) \<Rightarrow>
             (case parseLSN consistentPoint of
                None \<Rightarrow> (Inl (Error ''failed to parse replication slot consistent point''), True, pm)
              | Some lsn \<Rightarrow>
                 if snapshotName = [] then (Inl (Error ''replication slot was created without an exported snapshot name''), True, pm)
                 else (Inr (), False, pm\<lparr>pm_createdSlotSnapshot := Some (slot_NewSnapshot lsn snapshotName)\<rparr>))))"

text \<open>What the server answers during a migration.\<close>

record migrate_env =
  me_version :: "PGVersion go_result"
  me_pub :: pub_read
  me_exec :: "string \<Rightarrow> unit go_result"
  me_slotExists :: "bool go_result"
  me_dial :: "unit go_result"
  me_create :: "string \<Rightarrow> (string \<times> string) go_result"
  me_parseLSN :: "string \<Rightarrow> LSN option"

definition migrateSlot :: "migrate_env \<Rightarrow> PGVersion \<Rightarrow> PublicationMigrator \<Rightarrow> unit go_result \<times> PublicationMigrator" where
  "migrateSlot env version pm =
     (case effectiveSlotFailover (pm_slotFailover pm) version of
        Inl e \<Rightarrow> (Inl e, pm)
      | Inr slotFailover \<Rightarrow>
         (case me_slotExists env of
            Inl e \<Rightarrow> (Inl (wrap_err ''failed to check replication slot: '' e), pm)
          | Inr exists \<Rightarrow>
             if exists then (Inr (), pm)
             else (case createSlot (me_dial env) (me_create env) (me_parseLSN env) slotFailover pm of (r, _, pm1) \<Rightarrow> (r, pm1))))"

definition Migrate :: "migrate_env \<Rightarrow> (string \<times> TableConfig) list \<Rightarrow> PublicationMigrator \<Rightarrow> unit go_result \<times> string list \<times> PublicationMigrator" where
  "Migrate env tcs pm =
     (let pm0 = pm\<lparr>pm_createdSlotSnapshot := None\<rparr> in
      case me_version env of
        Inl e \<Rightarrow> (Inl (Error ''unsupported primary node version''), [], pm0)
      | Inr version \<Rightarrow>
         (case migrateWithConn (me_exec env) (me_pub env) (pm_pubName pm0) version tcs of
            (Inl e, sent) \<Rightarrow> (Inl (wrap_err ''migration error: '' e), sent, pm0)
          | (Inr _, sent) \<Rightarrow>
             if pm_slotName pm0 = [] then (Inr (), sent, pm0)
             else (case migrateSlot env version pm0 of (r, pm1) \<Rightarrow> (with_text ''slot migration error: '' r, sent, pm1))))"

section \<open>Validation\<close>

fun missing_column :: "Table \<Rightarrow> string list \<Rightarrow> string option" where
  "missing_column table [] = None"
| "missing_column table (col # cols) =
     (if col = ''all'' then missing_column table cols else if \<not> HasColumn table col then Some col else missing_column table cols)"

fun validateSchema :: "PubTableRes \<Rightarrow> string \<Rightarrow> (string \<times> TableConfig) list \<Rightarrow> unit go_result" where
  "validateSchema pubRes publication [] = Inr ()"
| "validateSchema pubRes publication ((name, tableConf) # tcs) =
     (case (case map_of (res_Tables pubRes) name of Some t \<Rightarrow> Some t | None \<Rightarrow> map_of (TablesWithAllColumns pubRes) name) of
        None \<Rightarrow> Inl (Error (''table '' @ name @ '' is not in publication '' @ publication))
      | Some table \<Rightarrow>
         (case missing_column table (cfg_Columns tableConf) of
            Some col \<Rightarrow> Inl (Error (''column '' @ col @ '' for table '' @ name @ '' is not in publication '' @ publication))
          | None \<Rightarrow> validateSchema pubRes publication tcs))"

section \<open>What a difference is\<close>

definition col_names :: "Table \<Rightarrow> string set" where
  "col_names t = fst ` set (Columns t)"

text \<open>A map of tables as it is read: keys once, every column under its own name.\<close>

definition table_maps :: "tables \<Rightarrow> bool" where
  "table_maps ts \<longleftrightarrow> distinct (map fst ts) \<and>
     (\<forall>(n, t) \<in> set ts. distinct (map fst (Columns t)) \<and> (\<forall>(k, col) \<in> set (Columns t). col_Name col = k))"

text \<open>The publication has exactly the configured tables, each with the configured columns or with all of them.\<close>

definition publishes :: "tables \<Rightarrow> tables \<Rightarrow> (string \<times> TableConfig) list \<Rightarrow> bool" where
  "publishes ts allTs tcs \<longleftrightarrow> fst ` set ts = fst ` set tcs \<and>
     (\<forall>(n, tc) \<in> set tcs. \<forall>t a. map_of ts n = Some t \<longrightarrow> map_of allTs n = Some a \<longrightarrow>
        col_names t = (if AllColumns tc then col_names a else set (cfg_Columns tc)))"

lemma same_card_subset: "finite B \<Longrightarrow> card A = card B \<Longrightarrow> A \<subseteq> B \<longleftrightarrow> A = B"
  using card_subset_eq by blast

lemma card_col_names: "distinct (map fst (Columns t)) \<Longrightarrow> card (col_names t) = length (Columns t)"
  using distinct_card [of "map fst (Columns t)"] by (simp add: col_names_def)

lemma lookup_None: "map_of m k = None \<longleftrightarrow> k \<notin> fst ` set m"
  by (simp add: map_of_eq_None_iff)

lemma column_lookup: "map_of (Columns t) k = None \<longleftrightarrow> k \<notin> col_names t"
  by (simp add: lookup_None col_names_def)

lemma some_other_column:
  assumes "\<forall>(k, col) \<in> set (Columns t). col_Name col = k"
  shows "list_ex (\<lambda>(_, col). map_of (Columns a) (col_Name col) = None) (Columns t) \<longleftrightarrow> \<not> col_names t \<subseteq> col_names a"
proof -
  have "(\<lambda>(_, col). map_of (Columns a) (col_Name col) = None) x \<longleftrightarrow> fst x \<notin> col_names a" if "x \<in> set (Columns t)" for x
    using assms that by (auto simp: column_lookup)
  then have "list_ex (\<lambda>(_, col). map_of (Columns a) (col_Name col) = None) (Columns t) \<longleftrightarrow> (\<exists>x \<in> set (Columns t). fst x \<notin> col_names a)"
    unfolding list_ex_iff by (rule bex_cong [OF refl])
  then show ?thesis by (auto simp: col_names_def)
qed

lemma columnsDiffer_iff:
  assumes t: "distinct (map fst (Columns t))" "\<forall>(k, col) \<in> set (Columns t). col_Name col = k" and a: "distinct (map fst (Columns a))"
    and tc: "distinct (cfg_Columns tc)"
  shows "columnsDiffer t a tc \<longleftrightarrow> col_names t \<noteq> (if AllColumns tc then col_names a else set (cfg_Columns tc))"
proof (cases "AllColumns tc")
  case True
  have "columnsDiffer t a tc \<longleftrightarrow> card (col_names t) \<noteq> card (col_names a) \<or> \<not> col_names t \<subseteq> col_names a"
    using True card_col_names [OF t(1)] card_col_names [OF a] t(2)
    by (simp add: columnsDiffer_def columnsDifferWithAllInConfig_def some_other_column)
  then show ?thesis using True same_card_subset [of "col_names a" "col_names t"] by (auto simp: col_names_def)
next
  case False
  have "columnsDiffer t a tc \<longleftrightarrow> card (set (cfg_Columns tc)) \<noteq> card (col_names t) \<or> \<not> set (cfg_Columns tc) \<subseteq> col_names t"
    using False card_col_names [OF t(1)] distinct_card [OF tc]
    by (auto simp: columnsDiffer_def list_ex_iff column_lookup)
  then show ?thesis using False same_card_subset [of "col_names t" "set (cfg_Columns tc)"] by (auto simp: col_names_def)
qed

lemma missing_column_None: "missing_column t cols = None \<longleftrightarrow> (\<forall>c \<in> set cols. c = ''all'' \<or> c \<in> col_names t)"
  by (induction cols) (auto simp: HasColumn_def lookup_None col_names_def)

lemma validateSchema_ok:
  "validateSchema r p tcs = Inr () \<longleftrightarrow>
     (\<forall>(n, tc) \<in> set tcs. \<exists>t. (map_of (res_Tables r) n = Some t \<or> map_of (res_Tables r) n = None \<and> map_of (TablesWithAllColumns r) n = Some t) \<and>
        missing_column t (cfg_Columns tc) = None)"
  by (induction r p tcs rule: validateSchema.induct) (auto split: option.splits)

text \<open>
  (C17) The comparison that decides whether the publication is altered is exact, for configurations that list each column
  of a table once: it finds no change if and only if the
  publication has exactly the configured tables with exactly the configured columns; and a publication
  without changes passes the validation at the start of the program, when a table that asks for all columns
  writes nothing or just \<open>all\<close>.
\<close>

theorem hasChanges_exact:
  assumes "table_maps (res_Tables r)" "table_maps (TablesWithAllColumns r)" "distinct (map fst tcs)"
    and "fst ` set (res_Tables r) = fst ` set (TablesWithAllColumns r)" "\<And>n tc. (n, tc) \<in> set tcs \<Longrightarrow> distinct (cfg_Columns tc)"
  shows "(\<not> hasChanges (res_Tables r) (TablesWithAllColumns r) tcs \<longleftrightarrow> publishes (res_Tables r) (TablesWithAllColumns r) tcs) \<and>
    (\<not> hasChanges (res_Tables r) (TablesWithAllColumns r) tcs \<and> (\<forall>(n, tc) \<in> set tcs. AllColumns tc \<longrightarrow> set (cfg_Columns tc) \<subseteq> {''all''}) \<longrightarrow>
      validateSchema r pub tcs = Inr ())"
proof -
  let ?ts = "res_Tables r" and ?as = "TablesWithAllColumns r"
  have differ: "columnsDiffer t a tc \<longleftrightarrow> col_names t \<noteq> (if AllColumns tc then col_names a else set (cfg_Columns tc))"
    if "map_of ?ts n = Some t" "map_of ?as n = Some a" "(n, tc) \<in> set tcs" for n t a tc
    using that assms(1,2,5) by (intro columnsDiffer_iff) (auto simp: table_maps_def dest!: map_of_SomeD)
  have look: "map_of ?as n = None \<longleftrightarrow> map_of ?ts n = None" for n using assms(4) by (simp add: lookup_None)
  have keys: "fst ` set ?ts = fst ` set tcs \<longleftrightarrow> (\<forall>(n, tc) \<in> set tcs. map_of ?ts n \<noteq> None) \<and> (\<forall>(n, t) \<in> set ?ts. map_of tcs n \<noteq> None)"
    by (force simp: lookup_None)
  define Q where "Q = (\<lambda>n tc. \<forall>t a. map_of ?ts n = Some t \<longrightarrow> map_of ?as n = Some a \<longrightarrow>
    col_names t = (if AllColumns tc then col_names a else set (cfg_Columns tc)))"
  have entry: "(\<lambda>(n, tc). case map_of ?ts n of None \<Rightarrow> True | Some t \<Rightarrow> (case map_of ?as n of None \<Rightarrow> True | Some a \<Rightarrow> columnsDiffer t a tc)) x \<longleftrightarrow>
      map_of ?ts (fst x) = None \<or> \<not> Q (fst x) (snd x)" if "x \<in> set tcs" for x
    using differ [of "fst x" _ _ "snd x"] look [of "fst x"] that unfolding Q_def
    by (cases x; cases "map_of ?ts (fst x)"; cases "map_of ?as (fst x)") simp_all
  have h: "hasChanges ?ts ?as tcs \<longleftrightarrow> (\<exists>x \<in> set tcs. map_of ?ts (fst x) = None \<or> \<not> Q (fst x) (snd x)) \<or> (\<exists>x \<in> set ?ts. map_of tcs (fst x) = None)"
    unfolding hasChanges_def list_ex_iff using bex_cong [OF refl entry, of "set tcs"] by (simp add: case_prod_unfold)
  have p: "publishes ?ts ?as tcs \<longleftrightarrow> (\<forall>x \<in> set tcs. map_of ?ts (fst x) \<noteq> None) \<and> (\<forall>x \<in> set ?ts. map_of tcs (fst x) \<noteq> None) \<and>
      (\<forall>x \<in> set tcs. Q (fst x) (snd x))"
    unfolding publishes_def keys Q_def by (simp add: case_prod_unfold)
  have iff: "\<not> hasChanges ?ts ?as tcs \<longleftrightarrow> publishes ?ts ?as tcs" unfolding h p by auto
  have valid: "validateSchema r pub tcs = Inr ()"
    if ok: "publishes ?ts ?as tcs" "\<forall>(n, tc) \<in> set tcs. AllColumns tc \<longrightarrow> set (cfg_Columns tc) \<subseteq> {''all''}"
  proof -
    have "\<exists>t. map_of ?ts n = Some t \<and> missing_column t (cfg_Columns tc) = None" if x: "(n, tc) \<in> set tcs" for n tc
    proof -
      have "n \<in> fst ` set tcs" using x by (metis fst_conv image_eqI)
      then have "n \<in> fst ` set ?ts" "n \<in> fst ` set ?as" using ok(1) assms(4) by (simp_all add: publishes_def)
      then obtain t a where ta: "map_of ?ts n = Some t" "map_of ?as n = Some a" by (metis lookup_None not_None_eq)
      have "Q n tc" using ok(1) x unfolding p by (metis fst_conv snd_conv)
      then have "col_names t = (if AllColumns tc then col_names a else set (cfg_Columns tc))" using ta by (simp add: Q_def)
      moreover have "AllColumns tc \<longrightarrow> set (cfg_Columns tc) \<subseteq> {''all''}" using ok(2) x by blast
      ultimately have "missing_column t (cfg_Columns tc) = None" unfolding missing_column_None by (cases "AllColumns tc") auto
      then show ?thesis using ta(1) by blast
    qed
    then show ?thesis by (auto simp: validateSchema_ok)
  qed
  show ?thesis using valid unfolding iff by blast
qed

definition pub_one :: PubTableRes where
  "pub_one = (let col = (\<lambda>n. (n, \<lparr>col_Name = n, TypeID = 23, IsPK = False, Position = 1\<rparr>));
      t = \<lparr>tbl_Name = MakeTableName ''public'' ''t'', Columns = [col ''id'', col ''n''], PK = [], PhysicalColumnsCount = 3\<rparr>
    in \<lparr>res_Tables = [(''public.t'', t)], TablesWithAllColumns = [(''public.t'', t\<lparr>Columns := Columns t @ [col ''x'']\<rparr>)]\<rparr>)"

theorem hasChanges_exact_witness:
  "\<not> hasChanges (res_Tables pub_one) (TablesWithAllColumns pub_one) [(''public.t'', \<lparr>cfg_Columns = [''n'', ''id''], cfg_Options = Map.empty\<rparr>)] \<and>
   publishes (res_Tables pub_one) (TablesWithAllColumns pub_one) [(''public.t'', \<lparr>cfg_Columns = [''n'', ''id''], cfg_Options = Map.empty\<rparr>)]"
proof -
  let ?tcs = "[(''public.t'', \<lparr>cfg_Columns = [''n'', ''id''], cfg_Options = Map.empty\<rparr>)]"
  have w: "table_maps (res_Tables pub_one)" "table_maps (TablesWithAllColumns pub_one)" "distinct (map fst ?tcs)"
      "fst ` set (res_Tables pub_one) = fst ` set (TablesWithAllColumns pub_one)" by (simp_all add: table_maps_def pub_one_def Let_def)
  have "\<not> hasChanges (res_Tables pub_one) (TablesWithAllColumns pub_one) ?tcs"
    by (simp add: hasChanges_def columnsDiffer_def AllColumns_def EqualFold_def fold_char_def pub_one_def Let_def)
  moreover have "\<And>n tc. (n, tc) \<in> set ?tcs \<Longrightarrow> distinct (cfg_Columns tc)" by auto
  ultimately show ?thesis using hasChanges_exact [OF w, of "[]"] by blast
qed

text \<open>
  A table that asks for all columns with another spelling of \<open>all\<close> is published with all columns and then
  rejected: the migration ignores case, the validation does not.
\<close>

lemma all_in_capitals_rejected:
  assumes "map_of (res_Tables r) n = Some t" "\<not> HasColumn t ''ALL''"
  shows "AllColumns \<lparr>cfg_Columns = [''ALL''], cfg_Options = Map.empty\<rparr> \<and>
    validateSchema r p [(n, \<lparr>cfg_Columns = [''ALL''], cfg_Options = Map.empty\<rparr>)] \<noteq> Inr ()"
proof -
  have "AllColumns \<lparr>cfg_Columns = [''ALL''], cfg_Options = Map.empty\<rparr>" by (simp add: AllColumns_def EqualFold_def) code_simp
  then show ?thesis using assms by simp
qed

end
