(* ===== verification/Licensing.thy ===== *)
theory Licensing
  imports Encodings Gostrings
begin

text \<open>
  The package \<open>licensemanager\<close> with \<open>licensemanager/base62\<close>: a licence is marshalled, encrypted, signed
  and printed as one base-62 number; at the start of a program it is read back from the environment, verified
  and compared with the date. Encryption and signatures are parameters (\<open>crypto\<close>). Times are seconds since
  1970 in UTC; byte slices are strings.
\<close>

section \<open>Integers as bytes\<close>

text \<open>\<open>binary.BigEndian\<close>, and \<open>SetBytes\<close> of \<open>big.Int\<close>.\<close>

fun put_be :: "nat \<Rightarrow> nat \<Rightarrow> string" where
  "put_be 0 n = []"
| "put_be (Suc k) n = put_be k (n div 256) @ [char_of n]"

definition get_be :: "string \<Rightarrow> nat" where
  "get_be s = foldl (\<lambda>a c. a * 256 + of_char c) 0 s"

text \<open>\<open>Bytes\<close> of \<open>big.Int\<close>: no leading zero byte.\<close>

fun big_bytes :: "nat \<Rightarrow> string" where
  "big_bytes n = (if n = 0 then [] else big_bytes (n div 256) @ [char_of n])"

declare big_bytes.simps [simp del]

section \<open>Base 62\<close>

definition alphabet62 :: string where
  "alphabet62 = ''0123456789abcdefghijklmnopqrstuvwxyzABCDEFGHIJKLMNOPQRSTUVWXYZ''"

text \<open>\<open>Text\<close> and \<open>SetString\<close> of \<open>big.Int\<close> in base 62; \<open>SetString\<close> takes a sign, \<open>Bytes\<close> drops it.\<close>

fun text62 :: "nat \<Rightarrow> string" where
  "text62 n = (if n < 62 then [alphabet62 ! n] else text62 (n div 62) @ [alphabet62 ! (n mod 62)])"

declare text62.simps [simp del]

definition strip_sign :: "string \<Rightarrow> string" where
  "strip_sign s = (case s of [] \<Rightarrow> [] | c # t \<Rightarrow> if c = CHR ''-'' \<or> c = CHR ''+'' then t else s)"

definition set_string62 :: "string \<Rightarrow> nat option" where
  "set_string62 s = (let t = strip_sign s in
     if t \<noteq> [] \<and> list_all (\<lambda>c. c \<in> set alphabet62) t then Some (foldl (\<lambda>a c. a * 62 + position c alphabet62) 0 t) else None)"

definition b62_EncodeToString :: "string \<Rightarrow> string go_result" where
  "b62_EncodeToString data = Inr (text62 (get_be data))"

definition b62_DecodeString :: "string \<Rightarrow> string go_result" where
  "b62_DecodeString s = (case set_string62 s of None \<Rightarrow> Inl (Error ''cannot parse base62'') | Some n \<Rightarrow> Inr (big_bytes n))"

section \<open>Licences\<close>

record License =
  lic_Version :: "16 word"
  lic_Product :: string
  lic_Customer :: string
  lic_Start :: u64
  lic_End :: u64

definition BinaryVersion :: "16 word" where "BinaryVersion = 1"

definition JSONVersion :: "16 word" where "JSONVersion = 2"

definition noLicense :: License where
  "noLicense = \<lparr>lic_Version = 0, lic_Product = ''no_license'', lic_Customer = ''no_customer'', lic_Start = 0, lic_End = 0\<rparr>"

text \<open>
  Marshalling writes into a buffer of fixed size behind a cursor; a write behind its end is a panic, and
  \<open>copy\<close> stops there.
\<close>

definition put_uint :: "nat \<Rightarrow> nat \<Rightarrow> nat \<times> string \<Rightarrow> (nat \<times> string) go_result" where
  "put_uint k n b = (if fst b + k \<le> length (snd b)
     then Inr (fst b + k, take (fst b) (snd b) @ put_be k n @ drop (fst b + k) (snd b)) else Inl index_panic)"

definition put_copy :: "string \<Rightarrow> nat \<Rightarrow> nat \<times> string \<Rightarrow> (nat \<times> string) go_result" where
  "put_copy s n b =
     (let part = take (length (snd b) - fst b) s in
      if fst b + n \<le> length (snd b)
      then Inr (fst b + n, take (fst b) (snd b) @ part @ drop (fst b + length part) (snd b)) else Inl index_panic)"

definition marshalBinary :: "License \<Rightarrow> string go_result" where
  "marshalBinary l =
     (let prodLen = of_nat (length (lic_Product l)) :: u32;
          custLen = of_nat (length (lic_Customer l)) :: u32;
          totalSize = 2 + 4 + 4 + prodLen + 4 + custLen + 8 + 8
      in bind_result (put_uint 2 (unat (lic_Version l)) (0, replicate (unat totalSize) (CHR 0x00))) (\<lambda>b.
         bind_result (put_uint 4 (unat totalSize) b) (\<lambda>b.
         bind_result (put_uint 4 (unat prodLen) b) (\<lambda>b.
         bind_result (put_copy (lic_Product l) (unat prodLen) b) (\<lambda>b.
         bind_result (put_uint 4 (unat custLen) b) (\<lambda>b.
         bind_result (put_copy (lic_Customer l) (unat custLen) b) (\<lambda>b.
         bind_result (put_uint 8 (unat (lic_Start l)) b) (\<lambda>b.
         bind_result (put_uint 8 (unat (lic_End l)) b) (\<lambda>b. Inr (snd b))))))))))"

definition marshalJSON :: "(License \<Rightarrow> string go_result) \<Rightarrow> License \<Rightarrow> string go_result" where
  "marshalJSON json l = bind_result (json l) (\<lambda>j. Inr (put_be 2 (unat (lic_Version l)) @ j))"

definition Marshal :: "(License \<Rightarrow> string go_result) \<Rightarrow> License \<Rightarrow> string go_result" where
  "Marshal json l =
     (if lic_Version l = BinaryVersion then marshalBinary l
      else if lic_Version l = JSONVersion then marshalJSON json l
      else Inl (Error ''license version is invalid''))"

text \<open>Reading \<open>data[:k]\<close> and going on with \<open>data[k:]\<close>.\<close>

definition take_bytes :: "nat \<Rightarrow> string \<Rightarrow> (string \<times> string) go_result" where
  "take_bytes k data = (if k \<le> length data then Inr (take k data, drop k data) else Inl index_panic)"

definition get_uint :: "nat \<Rightarrow> string \<Rightarrow> (nat \<times> string) go_result" where
  "get_uint k data = bind_result (take_bytes k data) (\<lambda>(x, rest). Inr (get_be x, rest))"

definition unmarshalBinaryLicense :: "string \<Rightarrow> License go_result" where
  "unmarshalBinaryLicense data =
     bind_result (get_uint 4 data) (\<lambda>(_, data).
     bind_result (get_uint 4 data) (\<lambda>(prodLen, data).
     bind_result (take_bytes prodLen data) (\<lambda>(product, data).
     bind_result (get_uint 4 data) (\<lambda>(custLen, data).
     bind_result (take_bytes custLen data) (\<lambda>(customer, data).
     bind_result (get_uint 8 data) (\<lambda>(start, data).
     bind_result (get_uint 8 data) (\<lambda>(end, data).
       Inr \<lparr>lic_Version = BinaryVersion, lic_Product = product, lic_Customer = customer,
            lic_Start = of_nat start, lic_End = of_nat end\<rparr>)))))))"

definition unmarshalJSONLicense :: "(string \<Rightarrow> License go_result) \<Rightarrow> string \<Rightarrow> License go_result" where
  "unmarshalJSONLicense json data = bind_result (json data) (\<lambda>l. Inr (l\<lparr>lic_Version := JSONVersion\<rparr>))"

definition UnmarshalLicense :: "(string \<Rightarrow> License go_result) \<Rightarrow> string \<Rightarrow> License go_result" where
  "UnmarshalLicense json data =
     bind_result (get_uint 2 data) (\<lambda>(version, data).
       if version = unat BinaryVersion then unmarshalBinaryLicense data
       else if version = unat JSONVersion then unmarshalJSONLicense json data
       else Inl (Error ''license version is invalid''))"

section \<open>Licence times\<close>

text \<open>The start of licence time, 2 April 2025, and the wrap of \<open>time.Duration\<close>.\<close>

definition epochStart :: int where
  "epochStart = 1743552000"

definition duration :: "int \<Rightarrow> int" where
  "duration ns = sint (word_of_int ns :: 64 word)"

definition AsDate :: "u64 \<Rightarrow> int" where
  "AsDate lt = (epochStart * 10 ^ 9 + duration (duration (uint lt) * 10 ^ 9)) div (86400 * 10 ^ 9) * 86400"

text \<open>\<open>Sub\<close> stops at the largest duration.\<close>

definition CalculateLicenseTime :: "int \<Rightarrow> u64 go_result" where
  "CalculateLicenseTime realTime =
     (if realTime < epochStart then Inl (Error ''time less than epoch start'')
      else Inr (word_of_int (min (realTime - epochStart) ((2 ^ 63 - 1) div 10 ^ 9))))"

section \<open>Signing and verifying\<close>

record crypto =
  cr_newCipher :: "string \<Rightarrow> unit go_result"
  cr_newGCM :: "string \<Rightarrow> unit go_result"
  cr_nonce :: "string go_result"
  cr_seal :: "string \<Rightarrow> string \<Rightarrow> string \<Rightarrow> string"
  cr_open :: "string \<Rightarrow> string \<Rightarrow> string \<Rightarrow> string go_result"
  cr_sign :: "string \<Rightarrow> string \<Rightarrow> string"
  cr_verify :: "string \<Rightarrow> string \<Rightarrow> string \<Rightarrow> bool"
  cr_toJSON :: "License \<Rightarrow> string go_result"
  cr_fromJSON :: "string \<Rightarrow> License go_result"

record Signer =
  sg_aesKey :: string
  sg_privateKey :: string

record Verifier =
  vf_aesKey :: string
  vf_publicKey :: string

definition encryptLicense :: "crypto \<Rightarrow> Signer \<Rightarrow> License \<Rightarrow> string go_result" where
  "encryptLicense c lm license =
     bind_result (Marshal (cr_toJSON c) license) (\<lambda>licenseData.
     bind_result (with_text ''encryption failed: newcipher failed: '' (cr_newCipher c (sg_aesKey lm))) (\<lambda>_.
     bind_result (with_text ''encryption failed: nonce failed: '' (cr_nonce c)) (\<lambda>nonce.
     bind_result (with_text ''encryption failed: newGCM failed: '' (cr_newGCM c (sg_aesKey lm))) (\<lambda>_.
       Inr (nonce @ cr_seal c (sg_aesKey lm) nonce licenseData)))))"

definition Sign :: "crypto \<Rightarrow> Signer \<Rightarrow> License \<Rightarrow> string go_result" where
  "Sign c lm license =
     bind_result (encryptLicense c lm license) (\<lambda>encrypted. Inr (cr_sign c (sg_privateKey lm) encrypted @ encrypted))"

definition decrypt :: "crypto \<Rightarrow> Verifier \<Rightarrow> string \<Rightarrow> string go_result" where
  "decrypt c v encrypted =
     (if length encrypted < 12 then Inl (Error ''decryption failed: encrypted data is too short'')
      else bind_result (with_text ''decryption failed: newcipher failed: '' (cr_newCipher c (vf_aesKey v))) (\<lambda>_.
           bind_result (with_text ''decryption failed: newGCM failed: '' (cr_newGCM c (vf_aesKey v))) (\<lambda>_.
             with_text ''decryption failed: decrypt failed: '' (cr_open c (vf_aesKey v) (take 12 encrypted) (drop 12 encrypted)))))"

definition ReadAndVerifyLicense :: "crypto \<Rightarrow> Verifier \<Rightarrow> string \<Rightarrow> License go_result" where
  "ReadAndVerifyLicense c v licenseData =
     bind_result (take_bytes 64 licenseData) (\<lambda>(signature, encryptedData).
       if \<not> cr_verify c (vf_publicKey v) encryptedData signature then Inl (Error ''signature verification failed'')
       else bind_result (decrypt c v encryptedData) (UnmarshalLicense (cr_fromJSON c)))"

section \<open>The check at the start\<close>

definition AESKey :: string where
  "AESKey = ''46b95ecd40a4ffc6b5214813050ba30c34077040ba3f77be49138683bc7a2991''"

definition AllProductsPublicKeys :: "(string \<times> string) list" where
  "AllProductsPublicKeys =
     [(''pg2sqs'', ''1f61afae08769fc2be99ac36386da948ebfcb006cd26172df0151f837899bda9''),
      (''pg2redis'', ''f8b3ae33c3e2e8b83e36774642ebc936df2434f5de0c3f2758471335f1a7adc9'')]"

text \<open>\<open>hex.DecodeString\<close>.\<close>

definition hex_DecodeString :: "string \<Rightarrow> string go_result" where
  "hex_DecodeString s =
     (if even (length s) \<and> list_all (\<lambda>c. fold_char c \<in> set hex_alphabet) s then Inr (hex_decode (map fold_char s))
      else Inl (Error ''encoding/hex''))"

definition ReadAndVerifyLicenseFromBase62 :: "crypto \<Rightarrow> string \<Rightarrow> int \<Rightarrow> string \<Rightarrow> License go_result" where
  "ReadAndVerifyLicenseFromBase62 c product today licBase62 =
     (case map_of AllProductsPublicKeys product of
        None \<Rightarrow> Inl (Error ''not a valid product'')
      | Some publicKeyStr \<Rightarrow>
         bind_result (hex_DecodeString AESKey) (\<lambda>aesKey.
         bind_result (hex_DecodeString publicKeyStr) (\<lambda>publicKey.
         bind_result (with_text ''failed to parse license: '' (b62_DecodeString licBase62)) (\<lambda>licenseData.
         bind_result (with_text ''failed to verify license: ''
           (ReadAndVerifyLicense c \<lparr>vf_aesKey = aesKey, vf_publicKey = publicKey\<rparr> licenseData)) (\<lambda>license.
           if \<not> today < AsDate (lic_Start license) \<and> today < AsDate (lic_End license) then Inr license
           else Inl (Error ''license is not valid at this date''))))))"

text \<open>The outcome of \<open>os.ReadFile\<close>.\<close>

datatype file_read = FileData string | FileMissing | FileError

definition tryReadFromLicenseFile :: "(string \<Rightarrow> string) \<Rightarrow> (string \<Rightarrow> file_read) \<Rightarrow> string \<Rightarrow> string go_result" where
  "tryReadFromLicenseFile getenv readFile product =
     (let licFile = getenv (''PGWALK_LICFILE_'' @ ToUpper product) in
      if licFile = [] then Inr []
      else (case readFile licFile of
          FileMissing \<Rightarrow> Inl (Error ''license file does not exist'')
        | FileError \<Rightarrow> Inl (Error ''failed to read license file'')
        | FileData data \<Rightarrow> Inr (TrimSpace data)))"

text \<open>The current licence is the state; it is set only by a licence that has been accepted.\<close>

definition VerifyAndSetLicenseFromEnv ::
  "crypto \<Rightarrow> (string \<Rightarrow> string) \<Rightarrow> (string \<Rightarrow> file_read) \<Rightarrow> string \<Rightarrow> int \<Rightarrow> License \<Rightarrow> unit go_result \<times> License" where
  "VerifyAndSetLicenseFromEnv c getenv readFile product today current =
     (let env = getenv (''PGWALK_LIC_'' @ ToUpper product) in
      case (if env = [] then tryReadFromLicenseFile getenv readFile product else Inr env) of
        Inl e \<Rightarrow> (Inl e, current)
      | Inr text \<Rightarrow>
         if text = [] then (Inl (Error ''license not found''), current)
         else (case ReadAndVerifyLicenseFromBase62 c product today text of
                 Inl e \<Rightarrow> (Inl e, current)
               | Inr lic \<Rightarrow> (Inr (), lic)))"

section \<open>Round trips\<close>

lemma get_be_snoc [simp]: "get_be [] = 0" "get_be (s @ [c]) = get_be s * 256 + of_char c"
  by (simp_all add: get_be_def)

lemma length_put_be [simp]: "length (put_be k n) = k"
  by (induction k arbitrary: n) simp_all

lemma get_put_be: "get_be (put_be k n) = n mod 256 ^ k"
  by (induction k arbitrary: n) (simp_all add: mod_mult2_eq)

lemma get_put_be_id [simp]: "n < 256 ^ k \<Longrightarrow> get_be (put_be k n) = n"
  by (simp add: get_put_be)

lemma big_bytes_get_be: "big_bytes (get_be s) = dropWhile (\<lambda>c. c = CHR 0x00) s"
proof (induction s rule: rev_induct)
  case (snoc c s)
  have zero: "get_be s = 0 \<longleftrightarrow> dropWhile (\<lambda>c. c = CHR 0x00) s = []"
    using snoc.IH by (metis big_bytes.simps append_is_Nil_conv not_Cons_self2)
  have "of_char (CHR 0x00) = (0 :: nat)" by simp
  then have c: "of_char c = (0 :: nat) \<longleftrightarrow> c = CHR 0x00" by (metis of_char_eq_iff)
  have "(get_be s * 256 + of_char c) div 256 = get_be s" by simp
  moreover have "char_of (get_be s * 256 + of_char c) = c"
  proof -
    have "(get_be s * 256 + of_char c) mod 256 = of_char c" by simp
    then show ?thesis by (metis byte_def byte_eq char_of_mod_256)
  qed
  ultimately show ?case
    using zero c snoc.IH by (subst get_be_snoc, subst big_bytes.simps) (auto simp: dropWhile_append dropWhile_eq_Nil_conv)
qed (simp add: big_bytes.simps)

lemma alphabet62_ok: "distinct alphabet62" "length alphabet62 = 62" "CHR ''+'' \<notin> set alphabet62" "CHR ''-'' \<notin> set alphabet62"
  by code_simp+

lemma text62_digits: "text62 n \<noteq> [] \<and> list_all (\<lambda>c. c \<in> set alphabet62) (text62 n)"
proof (induction n rule: text62.induct)
  case (1 n)
  then show ?case by (simp add: text62.simps [of n] alphabet62_ok(2))
qed

lemma text62_value: "foldl (\<lambda>a c. a * 62 + position c alphabet62) 0 (text62 n) = n"
proof (induction n rule: text62.induct)
  case (1 n)
  have p: "position (alphabet62 ! i) alphabet62 = i" if "i < 62" for i using position_nth alphabet62_ok(1,2) that by simp
  show ?case by (subst text62.simps) (use 1 p in auto)
qed

lemma strip_sign_text62: "strip_sign (text62 n) = text62 n"
  using text62_digits [of n] alphabet62_ok(3,4) by (auto simp: strip_sign_def split: list.split)

text \<open>Base 62 keeps the bytes up to leading zero bytes, which it drops.\<close>

lemma b62_decode_encode: "bind_result (b62_EncodeToString data) b62_DecodeString = Inr (dropWhile (\<lambda>c. c = CHR 0x00) data)"
  using text62_digits [of "get_be data"]
  by (simp add: b62_EncodeToString_def b62_DecodeString_def set_string62_def strip_sign_text62 text62_value big_bytes_get_be)

text \<open>A buffer written up to the cursor and empty behind it.\<close>

definition fresh :: "string \<Rightarrow> nat \<Rightarrow> nat \<times> string" where
  "fresh out r = (length out, out @ replicate r (CHR 0x00))"

lemma put_uint_fresh: "k \<le> r \<Longrightarrow> put_uint k n (fresh out r) = Inr (fresh (out @ put_be k n) (r - k))"
  by (simp add: put_uint_def fresh_def)

lemma put_copy_fresh: "n = length s \<Longrightarrow> n \<le> r \<Longrightarrow> put_copy s n (fresh out r) = Inr (fresh (out @ s) (r - n))"
  by (simp add: put_copy_def fresh_def Let_def)

lemma fresh_ends: "(0, replicate r (CHR 0x00)) = fresh [] r" "snd (fresh out 0) = out"
  by (simp_all add: fresh_def)

lemma marshalBinary_bytes:
  assumes "30 + length (lic_Product l) + length (lic_Customer l) < 2 ^ 32"
  defines "p \<equiv> length (lic_Product l)" and "c \<equiv> length (lic_Customer l)"
  shows "marshalBinary l = Inr (put_be 2 (unat (lic_Version l)) @ put_be 4 (30 + p + c) @ put_be 4 p @ lic_Product l @ put_be 4 c @
    lic_Customer l @ put_be 8 (unat (lic_Start l)) @ put_be 8 (unat (lic_End l)))"
proof -
  have u: "unat (of_nat n :: u32) = n" if "n < 2 ^ 32" for n using that by (simp add: unsigned_of_nat take_bit_eq_mod)
  have sum: "(2 + 4 + 4 + of_nat p + 4 + of_nat c + 8 + 8 :: u32) = of_nat (30 + p + c)" by simp
  have "unat (2 + 4 + 4 + of_nat p + 4 + of_nat c + 8 + 8 :: u32) = 30 + p + c"
    unfolding sum by (rule u) (use assms(1) in \<open>simp add: p_def c_def\<close>)
  moreover have "unat (of_nat p :: u32) = p" "unat (of_nat c :: u32) = c" using assms(1) by (auto intro!: u simp: p_def c_def)
  ultimately have t: "unat (2 + 4 + 4 + of_nat p + 4 + of_nat c + 8 + 8 :: u32) = 30 + p + c" "unat (of_nat p :: u32) = p" "unat (of_nat c :: u32) = c"
    by blast+
  show ?thesis
    unfolding marshalBinary_def Let_def p_def [symmetric] c_def [symmetric] t
    by (simp add: fresh_ends(1) put_uint_fresh put_copy_fresh p_def c_def del: bind_result_Inr_iff) (simp add: fresh_ends(2))
qed

lemma take_bytes_append [simp]: "take_bytes (length x) (x @ y) = Inr (x, y)"
  by (simp add: take_bytes_def)

lemma get_uint_put [simp]: "n < 256 ^ k \<Longrightarrow> get_uint k (put_be k n @ y) = Inr (n, y)"
  using take_bytes_append [of "put_be k n" y] by (simp add: get_uint_def)

lemma unmarshal_marshal:
  assumes "lic_Version l = BinaryVersion" "30 + length (lic_Product l) + length (lic_Customer l) < 2 ^ 32"
  shows "bind_result (Marshal toJSON l) (UnmarshalLicense fromJSON) = Inr l"
proof -
  have u: "unat w < 256 ^ 8" for w :: u64 using unsigned_less [of w, where 'a = nat] by simp
  have last: "get_uint 8 (put_be 8 (unat (lic_End l))) = Inr (unat (lic_End l), [])"
    using get_uint_put [OF u, of "lic_End l" "[]"] by simp
  have v: "unat (lic_Version l) = 1" "unat BinaryVersion = 1" "unat BinaryVersion < 256 ^ 2" using assms(1) by (simp_all add: BinaryVersion_def)
  have "Marshal toJSON l = marshalBinary l" using assms(1) by (simp add: Marshal_def)
  moreover have "lic_Product l = p \<Longrightarrow> length p < 256 ^ 4" "lic_Customer l = p \<Longrightarrow> length p < 256 ^ 4" for p using assms(2) by simp_all
  ultimately show ?thesis
    using assms u last v by (simp add: marshalBinary_bytes UnmarshalLicense_def unmarshalBinaryLicense_def del: bind_result_Inr_iff)
qed

lemma AsDate_small:
  assumes "uint lt \<le> 9223372036"
  shows "AsDate lt = (epochStart + uint lt) div 86400 * 86400"
proof -
  have d: "duration n = n" if "0 \<le> n" "n < 2 ^ 63" for n :: int
    using that by (simp add: duration_def sint_sbintrunc' signed_take_bit_int_eq_self)
  have "duration (duration (uint lt) * 10 ^ 9) = uint lt * 10 ^ 9" using assms d [of "uint lt"] d [of "uint lt * 10 ^ 9"] by simp
  then have "AsDate lt = ((epochStart + uint lt) * 10 ^ 9) div (86400 * 10 ^ 9) * 86400" by (simp only: AsDate_def ring_distribs)
  then show ?thesis using div_mult_mult2 [of "10 ^ 9 :: int" "epochStart + uint lt" 86400] by simp
qed

lemma CalculateLicenseTime_date:
  assumes "CalculateLicenseTime t = Inr lt" "t - epochStart \<le> 9223372036"
  shows "AsDate lt = t div 86400 * 86400"
proof -
  have t: "epochStart \<le> t" "lt = word_of_int (t - epochStart)"
    using assms by (auto simp: CalculateLicenseTime_def min_def split: if_splits)
  have u: "uint (word_of_int x :: u64) = x" if "0 \<le> x" "x < 2 ^ 64" for x using that by (simp add: uint_word_of_int)
  have "uint (word_of_int (t - epochStart) :: u64) = t - epochStart" by (rule u) (use assms(2) t(1) in simp_all)
  then have "uint lt = t - epochStart" using t(2) by simp
  then show ?thesis using AsDate_small [of lt] assms(2) by simp
qed

section \<open>A signed licence is accepted\<close>

text \<open>
  What signing and encryption promise for one pair of keys: a nonce has 12 bytes, what is sealed opens again, a
  signature has 64 bytes and is accepted for the message it was made for.
\<close>

definition keys_match :: "crypto \<Rightarrow> string \<Rightarrow> string \<Rightarrow> string \<Rightarrow> bool" where
  "keys_match c aes priv pub \<longleftrightarrow> cr_newCipher c aes = Inr () \<and> cr_newGCM c aes = Inr () \<and> (\<forall>n. cr_nonce c = Inr n \<longrightarrow> length n = 12) \<and>
     (\<forall>n d. length n = 12 \<longrightarrow> cr_open c aes n (cr_seal c aes n d) = Inr d) \<and> (\<forall>m. length (cr_sign c priv m) = 64 \<and> cr_verify c pub m (cr_sign c priv m))"

lemma verify_signed:
  assumes "keys_match c aes priv pub" "lic_Version l = BinaryVersion" "30 + length (lic_Product l) + length (lic_Customer l) < 2 ^ 32"
    and "Sign c \<lparr>sg_aesKey = aes, sg_privateKey = priv\<rparr> l = Inr sgn_data"
  shows "ReadAndVerifyLicense c \<lparr>vf_aesKey = aes, vf_publicKey = pub\<rparr> sgn_data = Inr l"
proof -
  obtain d n where m: "Marshal (cr_toJSON c) l = Inr d" "cr_nonce c = Inr n"
      and s: "sgn_data = cr_sign c priv (n @ cr_seal c aes n d) @ n @ cr_seal c aes n d"
    using assms(1,4) by (cases "cr_nonce c") (auto simp: Sign_def encryptLicense_def keys_match_def)
  have n: "length n = 12" "UnmarshalLicense (cr_fromJSON c) d = Inr l"
    using assms(1) m unmarshal_marshal [OF assms(2,3), of "cr_toJSON c" "cr_fromJSON c"] by (auto simp: keys_match_def)
  have "take_bytes 64 sgn_data = Inr (cr_sign c priv (n @ cr_seal c aes n d), n @ cr_seal c aes n d)"
    using assms(1) take_bytes_append [of "cr_sign c priv (n @ cr_seal c aes n d)"] by (simp add: s keys_match_def)
  then show ?thesis using assms(1) n by (simp add: ReadAndVerifyLicense_def decrypt_def keys_match_def)
qed

lemma license_accepted:
  assumes "map_of AllProductsPublicKeys product = Some pk" "hex_DecodeString AESKey = Inr aes" "hex_DecodeString pk = Inr pub"
    and "keys_match c aes priv pub" "lic_Version l = BinaryVersion" "30 + length (lic_Product l) + length (lic_Customer l) < 2 ^ 32"
    and "Sign c \<lparr>sg_aesKey = aes, sg_privateKey = priv\<rparr> l = Inr sgn_data" "hd sgn_data \<noteq> CHR 0x00" "b62_EncodeToString sgn_data = Inr text"
    and "getenv (''PGWALK_LIC_'' @ ToUpper product) = text" "AsDate (lic_Start l) \<le> today" "today < AsDate (lic_End l)"
  shows "VerifyAndSetLicenseFromEnv c getenv readFile product today current = (Inr (), l)"
proof -
  have "length sgn_data \<ge> 64" using assms(4,7) by (auto simp: Sign_def keys_match_def)
  then have "dropWhile (\<lambda>c. c = CHR 0x00) sgn_data = sgn_data" using assms(8) by (cases sgn_data) auto
  then have "b62_DecodeString text = Inr sgn_data" using b62_decode_encode [of sgn_data] assms(9) by simp
  moreover have "text \<noteq> []" using assms(9) text62_digits by (auto simp: b62_EncodeToString_def)
  ultimately show ?thesis using verify_signed [OF assms(4-7)] assms(1-3,10-12)
    by (simp add: VerifyAndSetLicenseFromEnv_def ReadAndVerifyLicenseFromBase62_def Let_def)
qed

text \<open>Signing that adds a constant and encryption that leaves the text as it is.\<close>

definition plain_crypto :: crypto where
  "plain_crypto = \<lparr>cr_newCipher = (\<lambda>_. Inr ()), cr_newGCM = (\<lambda>_. Inr ()), cr_nonce = Inr (replicate 12 (CHR ''n'')),
     cr_seal = (\<lambda>_ _ d. d), cr_open = (\<lambda>_ _ d. Inr d), cr_sign = (\<lambda>_ _. replicate 64 (CHR ''s'')),
     cr_verify = (\<lambda>_ _ s. s = replicate 64 (CHR ''s'')), cr_toJSON = (\<lambda>_. Inl (Error ''json'')), cr_fromJSON = (\<lambda>_. Inl (Error ''json''))\<rparr>"

definition one_year :: License where
  "one_year = \<lparr>lic_Version = 1, lic_Product = ''pg2redis'', lic_Customer = ''acme'', lic_Start = 86400, lic_End = 31622400\<rparr>"

lemma hex_keys: "\<exists>k. hex_DecodeString AESKey = Inr k"
  "\<exists>k. hex_DecodeString ''f8b3ae33c3e2e8b83e36774642ebc936df2434f5de0c3f2758471335f1a7adc9'' = Inr k"
proof -
  have "even (length AESKey) \<and> list_all (\<lambda>c. fold_char c \<in> set hex_alphabet) AESKey" by code_simp
  then show "\<exists>k. hex_DecodeString AESKey = Inr k" by (simp add: hex_DecodeString_def)
  have "even (length ''f8b3ae33c3e2e8b83e36774642ebc936df2434f5de0c3f2758471335f1a7adc9'') \<and>
    list_all (\<lambda>c. fold_char c \<in> set hex_alphabet) ''f8b3ae33c3e2e8b83e36774642ebc936df2434f5de0c3f2758471335f1a7adc9''" by code_simp
  then show "\<exists>k. hex_DecodeString ''f8b3ae33c3e2e8b83e36774642ebc936df2434f5de0c3f2758471335f1a7adc9'' = Inr k"
    by (simp only: hex_DecodeString_def simp_thms if_True) blast
qed

lemma one_year_signed:
  obtains pk aes pub sig where "map_of AllProductsPublicKeys ''pg2redis'' = Some pk" "hex_DecodeString AESKey = Inr aes" "hex_DecodeString pk = Inr pub"
    "keys_match plain_crypto aes [] pub" "lic_Version one_year = BinaryVersion" "30 + length (lic_Product one_year) + length (lic_Customer one_year) < 2 ^ 32"
    "Sign plain_crypto \<lparr>sg_aesKey = aes, sg_privateKey = []\<rparr> one_year = Inr sig" "hd sig \<noteq> CHR 0x00" "b62_EncodeToString sig = Inr (text62 (get_be sig))"
    "AsDate (lic_Start one_year) \<le> epochStart + 864000" "epochStart + 864000 < AsDate (lic_End one_year)"
proof -
  obtain aes pub where k: "hex_DecodeString AESKey = Inr aes"
      "hex_DecodeString ''f8b3ae33c3e2e8b83e36774642ebc936df2434f5de0c3f2758471335f1a7adc9'' = Inr pub"
    using hex_keys by blast
  have p: "map_of AllProductsPublicKeys ''pg2redis'' = Some ''f8b3ae33c3e2e8b83e36774642ebc936df2434f5de0c3f2758471335f1a7adc9''"
    by (simp add: AllProductsPublicKeys_def)
  have m: "keys_match plain_crypto aes [] pub" by (simp add: keys_match_def plain_crypto_def)
  have b: "lic_Version one_year = BinaryVersion" "30 + length (lic_Product one_year) + length (lic_Customer one_year) < 2 ^ 32"
    by (simp_all add: one_year_def BinaryVersion_def)
  have u: "uint (86400 :: u64) = 86400" "uint (31622400 :: u64) = 31622400" by simp_all
  have d: "AsDate (lic_Start one_year) \<le> epochStart + 864000" "epochStart + 864000 < AsDate (lic_End one_year)"
    using AsDate_small [of 86400] AsDate_small [of 31622400] by (simp_all add: one_year_def u epochStart_def)
  obtain x where x: "Marshal (cr_toJSON plain_crypto) one_year = Inr x" using unmarshal_marshal [OF b] by auto
  let ?sig = "replicate 64 (CHR ''s'') @ replicate 12 (CHR ''n'') @ x"
  have s: "Sign plain_crypto \<lparr>sg_aesKey = aes, sg_privateKey = []\<rparr> one_year = Inr ?sig" "hd ?sig \<noteq> CHR 0x00"
    using x by (simp_all add: Sign_def encryptLicense_def plain_crypto_def)
  show ?thesis by (rule that [OF p k m b s _ d]) (simp add: b62_EncodeToString_def)
qed

lemma one_year_accepted:
  "\<exists>text. \<forall>readFile current. VerifyAndSetLicenseFromEnv plain_crypto (\<lambda>_. text) readFile ''pg2redis'' (epochStart + 864000) current = (Inr (), one_year)"
  using license_accepted [where getenv = "\<lambda>_. t" for t] one_year_signed by metis

text \<open>
  (C18) A licence survives the way from the signer to the program: marshalled, encrypted, signed and printed in base
  62, then found in the environment, it is accepted on every day of its term and becomes the current licence
  with all its fields. This is for a licence of the binary version whose lengths fit the 32-bit sizes and whose
  signature does not start with a zero byte; one that does is printed without that byte and cannot be read.
\<close>

theorem license_roundtrip:
  assumes "map_of AllProductsPublicKeys product = Some pk" "hex_DecodeString AESKey = Inr aes" "hex_DecodeString pk = Inr pub"
    and "keys_match c aes priv pub" "lic_Version l = BinaryVersion" "30 + length (lic_Product l) + length (lic_Customer l) < 2 ^ 32"
    and "Sign c \<lparr>sg_aesKey = aes, sg_privateKey = priv\<rparr> l = Inr sgn_data" "hd sgn_data \<noteq> CHR 0x00" "b62_EncodeToString sgn_data = Inr text"
    and "getenv (''PGWALK_LIC_'' @ ToUpper product) = text" "AsDate (lic_Start l) \<le> today" "today < AsDate (lic_End l)"
  shows "VerifyAndSetLicenseFromEnv c getenv readFile product today current = (Inr (), l)"
  by (rule license_accepted [where getenv = getenv, OF assms])

theorem license_roundtrip_witness:
  "\<exists>text. VerifyAndSetLicenseFromEnv plain_crypto (\<lambda>_. text) (\<lambda>_. FileMissing) ''pg2redis'' (epochStart + 864000) noLicense = (Inr (), one_year)"
proof -
  obtain pk aes pub sig where s: "map_of AllProductsPublicKeys ''pg2redis'' = Some pk" "hex_DecodeString AESKey = Inr aes" "hex_DecodeString pk = Inr pub"
    "keys_match plain_crypto aes [] pub" "lic_Version one_year = BinaryVersion" "30 + length (lic_Product one_year) + length (lic_Customer one_year) < 2 ^ 32"
    "Sign plain_crypto \<lparr>sg_aesKey = aes, sg_privateKey = []\<rparr> one_year = Inr sig" "hd sig \<noteq> CHR 0x00" "b62_EncodeToString sig = Inr (text62 (get_be sig))"
    "AsDate (lic_Start one_year) \<le> epochStart + 864000" "epochStart + 864000 < AsDate (lic_End one_year)" by (rule one_year_signed)
  show ?thesis using license_roundtrip [OF s(1-9) _ s(10,11), where getenv = "\<lambda>_. text62 (get_be sig)"] by blast
qed

text \<open>
  (C40) A licence text that stands for fewer than 64 bytes, a mistyped one for instance, is not rejected with
  an error: cutting off the signature panics and ends the program.
\<close>

theorem short_license_panics:
  assumes "map_of AllProductsPublicKeys product = Some pk" "hex_DecodeString AESKey = Inr aes" "hex_DecodeString pk = Inr pub"
    and "getenv (''PGWALK_LIC_'' @ ToUpper product) = text" "b62_DecodeString text = Inr data" "length data < 64"
  shows "VerifyAndSetLicenseFromEnv c getenv readFile product today current = (Inl index_panic, current)"
proof -
  have "text \<noteq> []" using assms(5) by (auto simp: b62_DecodeString_def set_string62_def strip_sign_def split: option.splits)
  then show ?thesis using assms
    by (simp add: VerifyAndSetLicenseFromEnv_def ReadAndVerifyLicenseFromBase62_def ReadAndVerifyLicense_def take_bytes_def index_panic_def)
qed

theorem short_license_panics_witness:
  "VerifyAndSetLicenseFromEnv plain_crypto (\<lambda>_. ''no'') (\<lambda>_. FileMissing) ''pg2redis'' 0 noLicense = (Inl index_panic, noLicense)"
proof -
  obtain aes pub where k: "hex_DecodeString AESKey = Inr aes"
      "hex_DecodeString ''f8b3ae33c3e2e8b83e36774642ebc936df2434f5de0c3f2758471335f1a7adc9'' = Inr pub"
    using hex_keys by blast
  have p: "map_of AllProductsPublicKeys ''pg2redis'' = Some ''f8b3ae33c3e2e8b83e36774642ebc936df2434f5de0c3f2758471335f1a7adc9''"
    by (simp add: AllProductsPublicKeys_def)
  have "set_string62 ''no'' = Some 1450" by (simp add: set_string62_def strip_sign_def position_def alphabet62_def)
  then have "b62_DecodeString ''no'' = Inr (big_bytes 1450)" "length (big_bytes 1450) < 64"
    by (simp_all add: b62_DecodeString_def big_bytes.simps)
  then show ?thesis using short_license_panics [OF p k] by simp
qed

end
