(* ===== verification/Snapshotexecute.thy ===== *)
theory Snapshotexecute
  imports Snapshotmanager
begin

text \<open>
  What a run of the snapshot leaves behind: when the LSN is saved, which status each table has in
  \<open>pgwalk.snapshot_state\<close>, and what the next run makes of it.
\<close>

section \<open>Execute\<close>

text \<open>Either \<open>Execute\<close> returns before the snapshot is prepared, or it ends in \<open>execute_prepared\<close>.\<close>

lemma Execute_shape:
  assumes "Execute env slot config db = ((l, err), evs, db')"
  shows "(\<forall>s. SaveLSN s \<notin> set evs) \<and> (err = None \<longrightarrow> evs = [] \<and> db' = db) \<or>
    (\<exists>cfg lsn sid d es commit openTx. execute_prepared env cfg lsn sid d = ((l, err), es, commit, db') \<and> evs = es @ closing commit openTx)"
  using assms unfolding Execute_def
  by (auto split: option.splits if_splits sum.splits prod.splits) blast+

lemma execute_prepared_shape:
  assumes "execute_prepared env cfg lsn sid d = ((l, err), es, commit, db')"
  shows "err \<noteq> None \<and> es = [] \<and> \<not> commit \<or>
    err = None \<and> es = [SaveLSN lsn] \<and> commit \<and> ee_parse_lsn env lsn = Some l \<and> (\<exists>sts d1. ee_run env cfg sts sid d1 = (Inr (), db'))"
  using assms by (auto simp: execute_prepared_def split: option.splits sum.splits prod.splits)

text \<open>
  \<open>Execute\<close> saves the snapshot's LSN only after a run that returned no error, and then commits
  the transaction that holds the exported snapshot, after the listener has shut down; the LSN it
  returns is the saved one. Without the save it returns no error only when there was nothing to do,
  and then it has touched nothing.
\<close>

theorem Execute_saves_after_success:
  assumes "Execute env slot config db = ((l, err), evs, db')"
  shows "(\<forall>s. SaveLSN s \<in> set evs \<longrightarrow> err = None \<and> ee_parse_lsn env s = Some l \<and>
      (\<exists>cfg sts id d. ee_run env cfg sts id d = (Inr (), db')) \<and> (\<exists>rest. evs = SaveLSN s # Shutdown # Cleanup True # rest)) \<and>
    (err = None \<and> \<not> (\<exists>s. SaveLSN s \<in> set evs) \<longrightarrow> evs = [] \<and> db' = db)"
proof -
  from Execute_shape [OF assms] show ?thesis
  proof (elim disjE exE conjE)
    fix cfg lsn sid d es commit openTx
    assume "execute_prepared env cfg lsn sid d = ((l, err), es, commit, db')" "evs = es @ closing commit openTx"
    then show ?thesis using execute_prepared_shape by (fastforce simp: closing_def)
  qed auto
qed

definition demo_exec :: "nat exec_env" where
  "demo_exec = \<lparr>ee_parse_dur = (\<lambda>_. None), ee_lsn_string = (\<lambda>_. ''0/5''), ee_parse_lsn = (\<lambda>s. if s = ''0/5'' then Some 5 else None),
     ee_getLSN = Inr [], ee_create = (\<lambda>d. (Inr (), d)),
     ee_prepare = \<lparr>pe_acquire = Inr (), pe_begin = Inr (), pe_export = Inr ''1-1'', pe_walLSN = Inr ''0/5''\<rparr>,
     ee_init = (\<lambda>_ _ d. (Inr [], d)), ee_run = (\<lambda>_ _ _ d. (Inr (), d + 1))\<rparr>"

definition demo_exec_cfg :: SnapshotConfig where
  "demo_exec_cfg = plan_cfg\<lparr>sn_Config := [Some \<lparr>st_Name = ''public.t'', st_Type = SnapshotTableFull, st_Query = []\<rparr>]\<rparr>"

theorem Execute_saves_after_success_witness:
  "\<exists>evs. Execute demo_exec None (Some demo_exec_cfg) 0 = ((5, None), evs, 1) \<and> (\<exists>rest. evs = SaveLSN ''0/5'' # Shutdown # Cleanup True # rest)"
proof -
  have v: "SnapshotConfig_Validate (\<lambda>_. None) demo_exec_cfg = Inr demo_exec_cfg"
    by (simp add: SnapshotConfig_Validate_def demo_exec_cfg_def plan_cfg_def check_table_def TrimSpace_def is_space_def)
  have "Execute demo_exec None (Some demo_exec_cfg) 0 = ((5, None), SaveLSN ''0/5'' # closing True True, 1)"
    using v by (simp add: Execute_def demo_exec_def already_done_def prepareSnapshot_def execute_prepared_def)
      (simp add: demo_exec_cfg_def plan_cfg_def)
  then show ?thesis using Execute_saves_after_success [of demo_exec None "Some demo_exec_cfg" 0 5 None "SaveLSN ''0/5'' # closing True True" 1] by auto
qed

section \<open>The status of the tables after a run\<close>

lemma mark_failed_eq:
  "mark_failed upd x (sts, db) =
     (set_failed (fst x) sts, snd (upd (fst x) 0 StatusFailed (Some (join_sep [CHR 0x0A] (map err_text (snd x)))) db))"
  by (simp add: mark_failed_def)

context state_store
begin

lemma mark_failed_fold:
  assumes "\<And>n. n \<in> set ns \<Longrightarrow> status db n \<noteq> None"
  shows "fold (mark_failed upd) errs (sts, db) = (sts', db') \<Longrightarrow> n \<in> set ns \<Longrightarrow>
    status db' n = (if n \<in> fst ` set errs then Some StatusFailed else status db n)"
  using assms
proof (induction errs arbitrary: sts db)
  case (Cons x errs)
  let ?db = "snd (upd (fst x) 0 StatusFailed (Some (join_sep [CHR 0x0A] (map err_text (snd x)))) db)"
  have st: "status ?db m = (if m = fst x then Some StatusFailed else status db m)" if "m \<in> set ns" for m
    using Cons.prems(3) [OF that] upd_failed [of db "fst x"] upd_other [of m "fst x"] by auto
  have "fold (mark_failed upd) errs (set_failed (fst x) sts, ?db) = (sts', db')" using Cons.prems(1) by (simp add: mark_failed_eq)
  from Cons.IH [OF this Cons.prems(2)] show ?case using st Cons.prems(2,3) by (force split: if_splits)
qed simp

end

lemma set_failed_status:
  assumes "distinct (map ts_TableName sts)"
  shows "map ts_TableName (set_failed n sts) = map ts_TableName sts" "length (set_failed n sts) = length sts"
    "i < length sts \<Longrightarrow> ts_Status (set_failed n sts ! i) = (if ts_TableName (sts ! i) = n then StatusFailed else ts_Status (sts ! i))"
    "i < length sts \<Longrightarrow> ts_TableName (set_failed n sts ! i) = ts_TableName (sts ! i)"
proof -
  show nm: "map ts_TableName (set_failed n sts) = map ts_TableName sts" by (induction sts) auto
  then show len: "length (set_failed n sts) = length sts" by (metis length_map)
  show "ts_TableName (set_failed n sts ! i) = ts_TableName (sts ! i)" if "i < length sts"
    using nm len that by (metis nth_map)
  show "i < length sts \<Longrightarrow> ts_Status (set_failed n sts ! i) = (if ts_TableName (sts ! i) = n then StatusFailed else ts_Status (sts ! i))"
    using assms
  proof (induction sts arbitrary: i)
    case (Cons st sts)
    show ?case
    proof (cases i)
      case (Suc j)
      then have "ts_TableName (sts ! j) \<noteq> ts_TableName st" using Cons.prems by simp (metis image_eqI nth_mem)
      then show ?thesis using Suc Cons by auto
    qed simp
  qed simp
qed

lemma mark_failed_states:
  assumes "distinct (map ts_TableName sts)" "fold (mark_failed upd) errs (sts, db) = (sts', db')"
  shows "map ts_TableName sts' = map ts_TableName sts \<and>
    (\<forall>i < length sts. ts_Status (sts' ! i) = (if ts_TableName (sts ! i) \<in> fst ` set errs then StatusFailed else ts_Status (sts ! i)))"
  using assms
proof (induction errs arbitrary: sts db)
  case (Cons x errs)
  note s = set_failed_status [OF Cons.prems(1), where n = "fst x"]
  have "map ts_TableName sts' = map ts_TableName (set_failed (fst x) sts) \<and> (\<forall>i < length (set_failed (fst x) sts). ts_Status (sts' ! i) =
      (if ts_TableName (set_failed (fst x) sts ! i) \<in> fst ` set errs then StatusFailed else ts_Status (set_failed (fst x) sts ! i)))"
    using Cons.prems s(1) by (intro Cons.IH) (auto simp: mark_failed_eq)
  then show ?case using s by auto
qed simp

context state_store
begin

lemma mark_rest_fold:
  assumes "distinct (map ts_TableName sts)" "\<And>n. n \<in> set (map ts_TableName sts) \<Longrightarrow> status db n \<noteq> None" "i < length sts"
  shows "status (fold (mark_rest upd) sts db) (ts_TableName (sts ! i)) =
    (if ts_Status (sts ! i) \<noteq> StatusCompleted \<and> ts_Status (sts ! i) \<noteq> StatusFailed then Some StatusCompleted
     else status db (ts_TableName (sts ! i)))"
  using assms
proof (induction sts arbitrary: db i)
  case (Cons st sts)
  let ?db = "mark_rest upd st db"
  have one: "status ?db m = (if m = ts_TableName st \<and> ts_Status st \<noteq> StatusCompleted \<and> ts_Status st \<noteq> StatusFailed then Some StatusCompleted
      else status db m)" if "m \<in> set (map ts_TableName (st # sts))" for m
    using Cons.prems(2) [OF that] upd_completed [of db "ts_TableName st"] upd_other [of m "ts_TableName st"] by (auto simp: mark_rest_def)
  have other: "status (fold (mark_rest upd) xs d) m = status d m" if "m \<notin> set (map ts_TableName xs)" for xs d m
    using that by (induction xs arbitrary: d) (auto simp: mark_rest_def upd_other)
  show ?case
  proof (cases i)
    case 0
    then show ?thesis using one [of "ts_TableName st"] other [of "ts_TableName st" sts ?db] Cons.prems(1) by simp
  next
    case (Suc j)
    then have j: "j < length sts" using Cons.prems(3) by simp
    then have neq: "ts_TableName (sts ! j) \<noteq> ts_TableName st" using Cons.prems(1) by simp (metis image_eqI nth_mem)
    have "status (fold (mark_rest upd) sts ?db) (ts_TableName (sts ! j)) =
      (if ts_Status (sts ! j) \<noteq> StatusCompleted \<and> ts_Status (sts ! j) \<noteq> StatusFailed then Some StatusCompleted
       else status ?db (ts_TableName (sts ! j)))"
      using Cons.prems one j by (intro Cons.IH) auto
    then show ?thesis using one [of "ts_TableName (sts ! j)"] j neq Suc by simp
  qed
qed simp

lemma finish_run_status:
  assumes "distinct (map ts_TableName sts)" "\<And>n. n \<in> set (map ts_TableName sts) \<Longrightarrow> status db n \<noteq> None" "i < length sts"
    and "finish_run upd cfg (Inr ()) errs ctxErr sts db = (r, sts', db')"
  defines "n \<equiv> ts_TableName (sts ! i)"
  shows "status db' n =
    (if n \<in> fst ` set errs then Some StatusFailed
     else if r = Inr () \<and> ts_Status (sts ! i) \<noteq> StatusCompleted \<and> ts_Status (sts ! i) \<noteq> StatusFailed then Some StatusCompleted
     else status db n) \<and> (r = Inr () \<longleftrightarrow> (errs = [] \<or> \<not> sn_AbortOnError cfg) \<and> ctxErr = None)"
proof -
  obtain sts1 db1 where f: "fold (mark_failed upd) errs (sts, db) = (sts1, db1)" by fastforce
  note m = mark_failed_states [OF assms(1) f]
  have len: "length sts1 = length sts" using m by (metis length_map)
  have nm: "ts_TableName (sts1 ! i) = n" using m assms(3) len by (metis n_def nth_map)
  have db1: "status db1 k = (if k \<in> fst ` set errs then Some StatusFailed else status db k)" if "k \<in> set (map ts_TableName sts)" for k
    using mark_failed_fold [OF assms(2) f that] by simp
  have some: "status db1 k \<noteq> None" if "k \<in> set (map ts_TableName sts1)" for k using db1 [of k] assms(2) [of k] that m by simp
  have n: "n \<in> set (map ts_TableName sts)" using assms(3) by (simp add: n_def)
  have d1: "distinct (map ts_TableName sts1)" and i1: "i < length sts1" using m assms(1,3) len by simp_all
  note rest = mark_rest_fold [OF d1 some i1, unfolded nm]
  show ?thesis using assms(4) f rest db1 [OF n] m assms(3)
    by (auto simp: finish_run_def n_def split: if_splits option.splits)
qed

end

text \<open>
  (C14) The status that \<open>runSnapshot\<close> leaves in \<open>pgwalk.snapshot_state\<close> when the workers have ended and
  all batches are acknowledged: a table with an error is failed, whatever it was before; if the run
  returns no error every other table is completed; otherwise the other tables keep their status and
  the next run takes them up again. The run returns no error exactly if it was not cancelled and
  there was no error or errors are not to abort it.
\<close>

theorem runSnapshot_final_status:
  assumes "distinct (map ts_TableName sts)" "\<And>n. n \<in> set (map ts_TableName sts) \<Longrightarrow> stored_status d n \<noteq> None" "i < length sts"
    and "finish_run (store_upd now) cfg (Inr ()) errs ctxErr sts d = (r, sts', d')"
  shows "stored_status d' (ts_TableName (sts ! i)) =
    (if ts_TableName (sts ! i) \<in> fst ` set errs then Some StatusFailed
     else if r = Inr () \<and> ts_Status (sts ! i) \<noteq> StatusCompleted \<and> ts_Status (sts ! i) \<noteq> StatusFailed then Some StatusCompleted
     else stored_status d (ts_TableName (sts ! i))) \<and>
    (r = Inr () \<longleftrightarrow> (errs = [] \<or> \<not> sn_AbortOnError cfg) \<and> ctxErr = None)"
  by (rule snapshot_state.finish_run_status [OF assms])

theorem runSnapshot_final_status_witness:
  "\<exists>r sts' d'. finish_run (store_upd 0) plan_cfg (Inr ()) [(''public.t'', [Error ''scan''])] None one_table one_table_store = (r, sts', d') \<and>
     stored_status d' ''public.t'' = Some StatusFailed \<and> r \<noteq> Inr ()"
proof -
  obtain r sts' d' where f: "finish_run (store_upd 0) plan_cfg (Inr ()) [(''public.t'', [Error ''scan''])] None one_table one_table_store = (r, sts', d')"
    by (metis prod.exhaust)
  have n: "ts_TableName (one_table ! 0) = ''public.t''" "map ts_TableName one_table = [''public.t'']" by (simp_all add: one_table_def new_TableState_def)
  have "stored_status one_table_store ''public.t'' \<noteq> None" by (simp add: stored_status_def one_table_store_def NewStateManager_def)
  then have "stored_status d' ''public.t'' = Some StatusFailed \<and> r \<noteq> Inr ()"
    using runSnapshot_final_status [OF _ _ _ f, of 0] n by (simp add: one_table_def plan_cfg_def)
  then show ?thesis using f by blast
qed

section \<open>Tables that were never read\<close>

lemma table_tasks_state: "Task t \<in> set (table_tasks env cfg st table km plan) \<Longrightarrow> task_state t = ts_TableName st"
  by (auto simp: table_tasks_def split: if_splits)

lemma loop_table_state: "loop_table env cfg w st = Some (evs, goOn, st1) \<Longrightarrow> Task t \<in> set evs \<Longrightarrow> task_state t = ts_TableName st"
  by (auto simp: loop_table_def Let_def split: if_splits option.splits sum.splits dest!: table_tasks_state)

lemma loop_stops:
  assumes "runSnapshotLoop env cfg w sts = Some (evs, sts1)" "i < j" "j < length sts" "distinct (map ts_TableName sts)"
    and "loop_table env cfg w (sts ! i) = Some (evi, False, sti)" "Task t \<in> set evs"
  shows "task_state t \<noteq> ts_TableName (sts ! j)"
  using assms
proof (induction sts arbitrary: i j evs sts1)
  case (Cons st sts)
  obtain evs0 goOn st1 where l: "loop_table env cfg w st = Some (evs0, goOn, st1)" using Cons.prems(1) by (auto split: Option.bind_splits)
  have j: "ts_TableName ((st # sts) ! j) \<noteq> ts_TableName st" using Cons.prems(2-4) by (cases j) (auto, metis image_eqI nth_mem)
  show ?case
  proof (cases goOn)
    case False
    then show ?thesis using Cons.prems(1,6) l j loop_table_state [OF l] by auto
  next
    case True
    then obtain i' where i: "i = Suc i'" using Cons.prems(5) l by (cases i) auto
    then obtain j' where j': "j = Suc j'" using Cons.prems(2) by (cases j) auto
    obtain evs' sts' where r: "runSnapshotLoop env cfg w sts = Some (evs', sts')" "evs = evs0 @ evs'"
      using Cons.prems(1) l True by auto
    then show ?thesis
      using Cons.IH [OF r(1), of i' j'] Cons.prems(2-6) i j' j loop_table_state [OF l] by auto
  qed
qed simp

text \<open>
  (C38) Without \<open>abortOnError\<close>, a table that was never read ends as completed: when the dispatching loop
  stops at a table (an estimate, a plan or a report failed), no task is sent for the tables after it,
  yet a run that is not cancelled returns no error and stores them as completed, and the next run
  skips them.
\<close>

theorem abandoned_table_marked_completed:
  assumes "runSnapshotLoop env cfg w sts = Some (evs, sts1)" "i < j" "j < length sts" "distinct (map ts_TableName sts)"
    and "loop_table env cfg w (sts ! i) = Some (evi, False, sti)" "ts_Status (sts ! j) = StatusPending"
    and "\<And>n. n \<in> set (map ts_TableName sts) \<Longrightarrow> stored_status d n \<noteq> None" "ts_TableName (sts ! j) \<notin> fst ` set errs"
    and "\<not> sn_AbortOnError cfg" "finish_run (store_upd now) cfg (Inr ()) errs None sts d = (r, sts', d')"
  shows "r = Inr () \<and> stored_status d' (ts_TableName (sts ! j)) = Some StatusCompleted \<and>
    (\<forall>t. Task t \<in> set evs \<longrightarrow> task_state t \<noteq> ts_TableName (sts ! j)) \<and>
    (\<forall>get app c st lsn. ts_Status st = StatusCompleted \<longrightarrow> prepareTableState get app (ts_TableName st) c (Some st) lsn = (st, False))"
  using loop_stops [OF assms(1-5)] snapshot_state.finish_run_status [OF assms(4,7,3,10)] assms(6,8,9)
  by (auto simp: prepareTableState_def)

definition two_tables :: "TableState list" where
  "two_tables = map (\<lambda>n. (new_TableState ''app'' n)\<lparr>ts_Status := StatusPending\<rparr>) [''public.a'', ''public.b'']"

definition two_tables_store :: "StateManager \<times> state_table" where
  "two_tables_store = (NewStateManager ''app'', [(''app'', ''public.a'') \<mapsto> two_tables ! 0, (''app'', ''public.b'') \<mapsto> two_tables ! 1])"

definition failing_estimate :: loop_env where
  "failing_estimate = \<lparr>lv_ctx = (\<lambda>_. None), lv_get = (\<lambda>tn. Some (AddColumn \<lparr>col_Name = ''id'', TypeID = 23, IsPK = True, Position = 1\<rparr>
       (NewTable (tn_Schema tn) (tn_Name tn)))), lv_txOpts = \<lparr>tx_Save = False, tx_Name = []\<rparr>, lv_base = (\<lambda>_. Inl (Error ''timeout'')),
     lv_filtered = (\<lambda>_. Inr 0), lv_setInProgress = (\<lambda>_. Inr ()), lv_bounds = (\<lambda>_. Inr None), lv_ctxStart = (\<lambda>_. None),
     lv_ctxDispatch = (\<lambda>_. None), lv_queueSize = (\<lambda>_ _. 0)\<rparr>"

theorem abandoned_table_marked_completed_witness:
  "\<exists>evs sts1 r sts' d'. runSnapshotLoop failing_estimate (plan_cfg\<lparr>sn_AbortOnError := False\<rparr>) 1 two_tables = Some (evs, sts1) \<and>
     finish_run (store_upd 0) (plan_cfg\<lparr>sn_AbortOnError := False\<rparr>) (Inr ()) [(''public.a'', [Error ''timeout''])] None two_tables two_tables_store = (r, sts', d') \<and>
     evs = [Failed ''public.a'' (Error ''timeout'')] \<and> r = Inr () \<and> stored_status d' ''public.b'' = Some StatusCompleted"
proof -
  let ?cfg = "plan_cfg\<lparr>sn_AbortOnError := False\<rparr>"
  obtain r sts' d' where f: "finish_run (store_upd 0) ?cfg (Inr ()) [(''public.a'', [Error ''timeout''])] None two_tables two_tables_store = (r, sts', d')"
    by (metis prod.exhaust)
  have nm: "map ts_TableName two_tables = [''public.a'', ''public.b'']" "ts_TableName (two_tables ! 1) = ''public.b''"
    "ts_Status (two_tables ! 1) = StatusPending" "length two_tables = 2" by (simp_all add: two_tables_def new_TableState_def)
  obtain sti where lt: "loop_table failing_estimate ?cfg 1 (two_tables ! 0) = Some ([Failed ''public.a'' (Error ''timeout'')], False, sti)"
    by (simp add: loop_table_def failing_estimate_def two_tables_def new_TableState_def snapshotColumnNames_def AddColumn_def NewTable_def
        getTableEstimate_def Let_def)
  have two: "two_tables = [two_tables ! 0, two_tables ! 1]" by (simp add: two_tables_def)
  have run: "runSnapshotLoop failing_estimate ?cfg 1 two_tables = Some ([Failed ''public.a'' (Error ''timeout'')], [sti, two_tables ! 1])"
    by (subst two) (simp add: lt)
  have st: "stored_status two_tables_store n \<noteq> None" if "n \<in> set (map ts_TableName two_tables)" for n
    using that by (auto simp: nm(1) stored_status_def two_tables_store_def NewStateManager_def)
  have "r = Inr () \<and> stored_status d' (ts_TableName (two_tables ! 1)) = Some StatusCompleted"
    using abandoned_table_marked_completed [OF run _ _ _ lt _ st _ _ f, of 1] nm by simp
  then show ?thesis using run f nm(2) by auto
qed

end
