(* ===== verification/Apprunner.thy ===== *)
theory Apprunner
  imports Migrator Licensing Replicator Snapshotexecute
begin

text \<open>
  \<open>pg2runner/app_runner.go\<close>: the start of a program, from its configuration to the position at which
  replication begins. What Postgres, the licence environment, the listener and the snapshot answer is
  \<open>run_env\<close>; what happens outside is a list of events. CPU profiling and logging are left out.
\<close>

section \<open>Small steps\<close>

text \<open>The later of the server's date and the local one, both as times of midnight.\<close>

definition getToday :: "int go_result \<Rightarrow> int \<Rightarrow> int go_result" where
  "getToday pgToday appToday = bind_result pgToday (\<lambda>p. Inr (if appToday < p then p else appToday))"

definition closeSlotSnapshot :: "go_error option option \<Rightarrow> slotSnapshot option \<Rightarrow> slotSnapshot option" where
  "closeSlotSnapshot closeFn slot = (case slot of None \<Rightarrow> None | Some _ \<Rightarrow> snd (slot_Close closeFn slot))"

definition seconds :: "int \<Rightarrow> int" where
  "seconds n = n * 1000000000"

text \<open>\<open>DurationOrMilliseconds\<close> and \<open>DurationOrSeconds\<close>; \<open>num\<close> and \<open>dur\<close> are the parsers of numbers and durations.\<close>

record duration_env =
  de_num :: "string \<Rightarrow> int option"
  de_dur :: "string \<Rightarrow> int option"

definition DurationOrMilliseconds :: "duration_env \<Rightarrow> string \<Rightarrow> int option" where
  "DurationOrMilliseconds de s = durationOr (de_num de) (de_dur de) 1000000 s"

definition DurationOrSeconds :: "duration_env \<Rightarrow> string \<Rightarrow> int option" where
  "DurationOrSeconds de s = durationOr (de_num de) (de_dur de) 1000000000 s"

definition readPgWalSenderTimeout :: "duration_env \<Rightarrow> string go_result \<Rightarrow> int" where
  "readPgWalSenderTimeout de answer =
     (case answer of Inl _ \<Rightarrow> seconds 10
      | Inr text \<Rightarrow> (case DurationOrMilliseconds de text of None \<Rightarrow> seconds 10 | Some v \<Rightarrow> v))"

definition setWatchXID :: "(string \<Rightarrow> nat option) \<Rightarrow> string \<Rightarrow> Options \<Rightarrow> Options" where
  "setWatchXID parseUint watchXID opts =
     (if watchXID = [] then opts
      else (case parseUint watchXID of None \<Rightarrow> opts | Some xid \<Rightarrow> opts\<lparr>WatchXID := of_nat xid\<rparr>))"

section \<open>Checking the publication and the slot\<close>

datatype 'a row_read = NoRows | RowError go_error | Row 'a

record PgReplConfig =
  rc_Slot :: string
  rc_Pub :: string
  rc_Owner :: string
  rc_Failover :: "bool option"

text \<open>An error other than a missing row is ignored in the check of the publication.\<close>

definition createConnStrAndLoadPublication ::
  "PgReplConfig \<Rightarrow> unit row_read \<Rightarrow> (string \<times> LSN) row_read \<Rightarrow> LSN go_result" where
  "createConnStrAndLoadPublication cfg pubRow slotRow =
     (if pubRow = NoRows then Inl (Error (''publication '' @ rc_Pub cfg @ '' doesn't exist''))
      else (case slotRow of
          NoRows \<Rightarrow> Inl (Error (''slot '' @ rc_Slot cfg @ '' doesn't exist''))
        | RowError e \<Rightarrow> Inl e
        | Row (plugin, flushLSN) \<Rightarrow>
           if plugin = [] \<or> \<not> EqualFold plugin ''pgoutput''
           then Inl (Error (''slot '' @ rc_Slot cfg @ '' must be created with 'pgoutput' plugin'')) else Inr flushLSN))"

record validate_env =
  ve_pubRow :: "unit row_read"
  ve_slotRow :: "(string \<times> LSN) row_read"
  ve_versionNum :: "int go_result"
  ve_pubTables :: "PGVersion \<Rightarrow> PubTableRes go_result"
  ve_trackCommit :: "string go_result"

definition validateWithConn :: "validate_env \<Rightarrow> PgReplConfig \<Rightarrow> (string \<times> TableConfig) list \<Rightarrow> bool \<Rightarrow> LSN go_result" where
  "validateWithConn env cfg tcs needsTrack =
     bind_result (with_text ''failed to load publication config: '' (createConnStrAndLoadPublication cfg (ve_pubRow env) (ve_slotRow env))) (\<lambda>flushLSN.
     bind_result (with_text ''failed to read PG version: '' (ReadPGVersion (ve_versionNum env))) (\<lambda>ver.
     bind_result (with_text ''failed to read publication tables: '' (ve_pubTables env ver)) (\<lambda>pubRes.
     bind_result (validateSchema pubRes (rc_Pub cfg) tcs) (\<lambda>_.
     bind_result (if needsTrack then (case CheckTrackCommitTimestamp (ve_trackCommit env) of
         Inl e \<Rightarrow> Inl (if e = ErrTrackCommitTimestampDisabled
                       then Error ''track commit timestamp is disabled: it must be enabled in order to use commitTimeColumn option''
                       else wrap_err ''failed to check track_commit_timestamp: '' e)
       | Inr _ \<Rightarrow> Inr ()) else Inr ()) (\<lambda>_. Inr flushLSN)))))"

definition validateCreatedSlotLSN :: "slotSnapshot option \<Rightarrow> LSN \<Rightarrow> unit go_result" where
  "validateCreatedSlotLSN slot confirmedFlushLSN =
     (case slot of None \<Rightarrow> Inr ()
      | Some sl \<Rightarrow> if sl_LSN sl \<noteq> confirmedFlushLSN
                   then Inl (Error ''created replication slot LSN does not match confirmed_flush_lsn'') else Inr ())"

text \<open>
  \<open>migrateAndValidate\<close>: the statements sent, the slot that was created (closed again on an error), and the
  flush position. \<open>venv\<close> is what \<open>ExecPrimary\<close> gives for the validation, a failed connection included.
\<close>

definition migrateAndValidate ::
  "migrate_env \<Rightarrow> go_error option \<Rightarrow> validate_env \<Rightarrow> go_error option option \<Rightarrow> PgReplConfig \<Rightarrow> (string \<times> TableConfig) list \<Rightarrow> bool \<Rightarrow>
   LSN go_result \<times> string list \<times> slotSnapshot option" where
  "migrateAndValidate menv connErr venv closeFn cfg tcs needsTrack =
     (let (r, sent, slot) =
        (if EqualFold (rc_Owner cfg) ''app''
         then (case Migrate menv tcs (NewPublicationMigrator (rc_Pub cfg) [(rc_Slot cfg, rc_Failover cfg)]) of
                 (r, sent, pm) \<Rightarrow> (with_text ''failed to migrate publication: '' r, sent, pm_createdSlotSnapshot pm))
         else (Inr (), [], None))
      in case r of Inl e \<Rightarrow> (Inl e, sent, None)
         | Inr _ \<Rightarrow>
            (case (case connErr of Some e \<Rightarrow> Inl e | None \<Rightarrow> validateWithConn venv cfg tcs needsTrack) of
               Inl e \<Rightarrow> (Inl e, sent, closeSlotSnapshot closeFn slot)
             | Inr flushLSN \<Rightarrow>
                (case validateCreatedSlotLSN slot flushLSN of
                   Inl e \<Rightarrow> (Inl e, sent, closeSlotSnapshot closeFn slot)
                 | Inr _ \<Rightarrow> (Inr flushLSN, sent, slot))))"

section \<open>Timeouts\<close>

record AppSettings =
  as_StatsInterval :: string
  as_MaxWriteQueueSize :: u64
  as_ShutdownTimeout :: string

record run_conf =
  cf_conn :: "ConnectionOptsMany option"
  cf_repl :: PgReplConfig
  cf_standBy :: string
  cf_receive :: string
  cf_settings :: AppSettings
  cf_tables :: "(string \<times> TableConfig) list"
  cf_needsTrack :: bool
  cf_snapshot :: "SnapshotConfig option"

definition duration_of :: "(string \<Rightarrow> int option) \<Rightarrow> string \<Rightarrow> int \<Rightarrow> string \<Rightarrow> int go_result" where
  "duration_of parse name dflt text =
     (if text = [] then Inr dflt
      else (case parse text of None \<Rightarrow> Inl (Error (''invalid '' @ name @ '' value'')) | Some v \<Rightarrow> Inr v))"

text \<open>The options of the replicator and the time allowed for the shutdown.\<close>

definition read_timeouts :: "duration_env \<Rightarrow> int \<Rightarrow> run_conf \<Rightarrow> (Options \<times> int) go_result" where
  "read_timeouts de pgWalSenderTimeout conf =
     bind_result (duration_of (DurationOrSeconds de) ''standByTimeout'' pgWalSenderTimeout (cf_standBy conf)) (\<lambda>standBy.
     bind_result (duration_of (DurationOrSeconds de) ''receiveTimeout'' (seconds 60) (cf_receive conf)) (\<lambda>receive.
     bind_result (duration_of (DurationOrSeconds de) ''statsInterval'' (seconds 60) (as_StatsInterval (cf_settings conf))) (\<lambda>stats.
     bind_result (duration_of (DurationOrMilliseconds de) ''shutdownTimeout'' 0 (as_ShutdownTimeout (cf_settings conf))) (\<lambda>shutdown.
       Inr (NewOptions (rc_Slot (cf_repl conf)) (rc_Pub (cf_repl conf)) (if pgWalSenderTimeout < standBy then pgWalSenderTimeout else standBy)
              receive stats (as_MaxWriteQueueSize (cf_settings conf)), shutdown)))))"

section \<open>The snapshot and the start position\<close>

text \<open>
  The snapshot before replication: \<open>Inl\<close> ends the program (\<open>None\<close> without an error), \<open>Inr\<close> is the position from
  which replication starts when the destination has none.
\<close>

definition snapshot_phase ::
  "(slotSnapshot option \<Rightarrow> SnapshotConfig option \<Rightarrow> 'd \<Rightarrow> (LSN \<times> go_error option) \<times> exec_event list \<times> 'd) \<Rightarrow>
   slotSnapshot option \<Rightarrow> LSN \<Rightarrow> SnapshotConfig option \<Rightarrow> 'd \<Rightarrow> (go_error option + LSN) \<times> exec_event list \<times> 'd" where
  "snapshot_phase execute slot flushLSN config db =
     (case config of None \<Rightarrow> (Inr flushLSN, [], db)
      | Some cfg \<Rightarrow>
         if sn_Mode cfg = ModeNever then (Inr flushLSN, [], db)
         else (case execute slot config db of
             ((snapLsn, Some e), evs, db1) \<Rightarrow>
               (if sn_AbortOnError cfg then (Inl (Some (wrap_err ''snapshot failed: '' e)), evs, db1)
                else (if sn_Mode cfg = ModeOneTimeOnly then Inl None else Inr flushLSN, evs, db1))
           | ((snapLsn, None), evs, db1) \<Rightarrow>
               (if sn_Mode cfg = ModeOneTimeOnly then Inl None
                else Inr (if 0 < snapLsn then snapLsn else flushLSN), evs, db1)))"

text \<open>\<open>stored\<close> is the position that \<open>GetLastLSN\<close> reads from the destination.\<close>

definition start_position :: "(string \<Rightarrow> LSN option) \<Rightarrow> string go_result \<Rightarrow> LSN \<Rightarrow> LSN" where
  "start_position parseLSN stored snapshotLsn =
     (case stored of Inl _ \<Rightarrow> snapshotLsn
      | Inr text \<Rightarrow>
         if text = [] then snapshotLsn
         else (case parseLSN text of None \<Rightarrow> snapshotLsn | Some l \<Rightarrow> if l = 0 then snapshotLsn else l))"

section \<open>RunApp\<close>

datatype run_event = Sent string | Snapshot exec_event | SlotClosed | StartedAt Options LSN | GracefullyStopped int | ConnectorClosed

datatype run_end = Cancelled | Done "go_error option"

record ('c, 'd) run_env =
  re_product :: string
  re_parseConn :: "string \<Rightarrow> conn_config go_result"
  re_connStr :: "ConnectionOpts \<Rightarrow> string"
  re_nodes :: "string \<Rightarrow> 'c node_env"
  re_ctxErr :: "go_error option"
  re_pgToday :: "int go_result"
  re_appToday :: int
  re_crypto :: crypto
  re_getenv :: "string \<Rightarrow> string"
  re_readFile :: "string \<Rightarrow> file_read"
  re_migrate :: migrate_env
  re_validateConn :: "go_error option"
  re_validate :: validate_env
  re_closeFn :: "go_error option option"
  re_walSender :: "string go_result"
  re_durations :: duration_env
  re_parseUint :: "string \<Rightarrow> nat option"
  re_watchXID :: string
  re_build :: "unit go_result"
  re_load :: "unit go_result"
  re_config :: "unit go_result"
  re_ping :: "unit go_result"
  re_execute :: "slotSnapshot option \<Rightarrow> SnapshotConfig option \<Rightarrow> 'd \<Rightarrow> (LSN \<times> go_error option) \<times> exec_event list \<times> 'd"
  re_parseLSN :: "string \<Rightarrow> LSN option"
  re_lastLSN :: "string go_result"
  re_start :: "unit go_result"
  re_end :: run_end
  re_isCanceled :: "go_error \<Rightarrow> bool"

definition slot_open :: "slotSnapshot option \<Rightarrow> bool" where
  "slot_open slot \<longleftrightarrow> (case slot of None \<Rightarrow> False | Some sl \<Rightarrow> \<not> sl_closed sl)"

definition closing_slot :: "slotSnapshot option \<Rightarrow> run_event list" where
  "closing_slot slot = (if slot_open slot then [SlotClosed] else [])"

text \<open>Replication: it starts at a position and ends with the context or on its own.\<close>

definition run_replication :: "('c, 'd) run_env \<Rightarrow> Options \<Rightarrow> int \<Rightarrow> LSN \<Rightarrow> unit go_result \<times> run_event list" where
  "run_replication env opts shutdown p =
     (case re_start env of
        Inl e \<Rightarrow> (Inl (wrap_err ''failed to start replication: '' e), [])
      | Inr _ \<Rightarrow>
         (case re_end env of
            Cancelled \<Rightarrow> (Inr (), [StartedAt opts p, GracefullyStopped shutdown])
          | Done None \<Rightarrow> (Inr (), [StartedAt opts p])
          | Done (Some e) \<Rightarrow>
             (if re_isCanceled env e then Inr () else Inl (wrap_err ''app exited with error: '' e), [StartedAt opts p])))"

text \<open>What follows the migration; the deferred close of the slot's snapshot comes last.\<close>

definition run_migrated ::
  "('c, 'd) run_env \<Rightarrow> run_conf \<Rightarrow> LSN \<Rightarrow> slotSnapshot option \<Rightarrow> 'd \<Rightarrow> unit go_result \<times> run_event list \<times> 'd" where
  "run_migrated env conf flushLSN slot db =
     (case bind_result (read_timeouts (re_durations env) (readPgWalSenderTimeout (re_durations env) (re_walSender env)) conf) (\<lambda>opts.
           bind_result (re_build env) (\<lambda>_. bind_result (re_load env) (\<lambda>_.
           bind_result (with_text ''failed to validate config: '' (re_config env)) (\<lambda>_. bind_result (re_ping env) (\<lambda>_. Inr opts))))) of
        Inl e \<Rightarrow> (Inl e, closing_slot slot, db)
      | Inr (opts, shutdown) \<Rightarrow>
         (case snapshot_phase (re_execute env) slot flushLSN (cf_snapshot conf) db of
            (Inl None, evs, db1) \<Rightarrow> (Inr (), map Snapshot evs @ closing_slot slot, db1)
          | (Inl (Some e), evs, db1) \<Rightarrow> (Inl e, map Snapshot evs @ closing_slot slot, db1)
          | (Inr snapshotLsn, evs, db1) \<Rightarrow>
             (case run_replication env (setWatchXID (re_parseUint env) (re_watchXID env) opts) shutdown
                 (start_position (re_parseLSN env) (re_lastLSN env) snapshotLsn) of
                (r, evs') \<Rightarrow> (r, map Snapshot evs @ closing_slot slot @ evs', db1))))"

text \<open>The whole program: the result, the events, the licence and the state of the snapshot's store.\<close>

definition RunApp ::
  "('c, 'd) run_env \<Rightarrow> run_conf \<Rightarrow> License \<Rightarrow> 'd \<Rightarrow> unit go_result \<times> run_event list \<times> License \<times> 'd" where
  "RunApp env conf lic db =
     (case PgConfig_Validate (cf_conn conf) of
        Inl e \<Rightarrow> (Inl e, [], lic, db)
      | Inr (e # es) \<Rightarrow> (Inl (Error (''invalid Postgres config: '' @ e)), [], lic, db)
      | Inr [] \<Rightarrow>
        (case NewWithApp (re_parseConn env) (re_connStr env) (the (cf_conn conf)) (re_product env) of
           Inl e \<Rightarrow> (Inl (wrap_err ''failed to validate Postgres connection parameters: '' e), [], lic, db)
         | Inr cn \<Rightarrow>
           (case ConnectPrimaryNode (re_ctxErr env) (re_nodes env) (cn :: 'c PGNode list) of
              (Inl e, _) \<Rightarrow> (Inl e, [], lic, db)
            | (Inr _, cn1) \<Rightarrow>
              (case with_text ''failed to get current date: '' (getToday (re_pgToday env) (re_appToday env)) of
                 Inl e \<Rightarrow> (Inl e, [ConnectorClosed], lic, db)
               | Inr today \<Rightarrow>
                 (case VerifyAndSetLicenseFromEnv (re_crypto env) (re_getenv env) (re_readFile env) (re_product env) today lic of
                    (Inl e, lic1) \<Rightarrow> (Inl (wrap_err ''license check failed: '' e), [ConnectorClosed], lic1, db)
                  | (Inr _, lic1) \<Rightarrow>
                    (case migrateAndValidate (re_migrate env) (re_validateConn env) (re_validate env) (re_closeFn env) (cf_repl conf)
                            (cf_tables conf) (cf_needsTrack conf) of
                       (Inl e, sent, slot) \<Rightarrow> (Inl e, map Sent sent @ (if slot = None then [] else [SlotClosed]) @ [ConnectorClosed], lic1, db)
                     | (Inr flushLSN, sent, slot) \<Rightarrow>
                       (case run_migrated env conf flushLSN slot db of
                          (r, evs, db1) \<Rightarrow> (r, map Sent sent @ evs @ [ConnectorClosed], lic1, db1))))))))"

section \<open>Where replication starts\<close>

lemma RunApp_started:
  assumes "RunApp env conf lic db = (r, evs, lic', db')" "StartedAt opts p \<in> set evs"
  shows "\<exists>flush sent slot today evs1. getToday (re_pgToday env) (re_appToday env) = Inr today \<and>
    migrateAndValidate (re_migrate env) (re_validateConn env) (re_validate env) (re_closeFn env) (cf_repl conf) (cf_tables conf) (cf_needsTrack conf) =
      (Inr flush, sent, slot) \<and> run_migrated env conf flush slot db = (r, evs1, db') \<and> StartedAt opts p \<in> set evs1 \<and>
    VerifyAndSetLicenseFromEnv (re_crypto env) (re_getenv env) (re_readFile env) (re_product env) today lic = (Inr (), lic')"
  using assms unfolding RunApp_def
  by (auto simp: with_text_Inr split: sum.splits list.splits prod.splits if_splits)

lemma run_migrated_started:
  assumes "run_migrated env conf flush slot db = (r, evs, db')" "StartedAt opts p \<in> set evs"
  shows "\<exists>s evs1. snapshot_phase (re_execute env) slot flush (cf_snapshot conf) db = (Inr s, evs1, db') \<and>
    p = start_position (re_parseLSN env) (re_lastLSN env) s"
  using assms unfolding run_migrated_def
  by (auto simp: closing_slot_def run_replication_def split: sum.splits option.splits prod.splits if_splits run_end.splits)

lemma migrateAndValidate_slot:
  assumes "migrateAndValidate menv connErr venv closeFn cfg tcs needsTrack = (Inr flush, sent, Some sl)"
  shows "sl_LSN sl = flush \<and> sl_SnapshotName sl \<noteq> []"
  using assms
  by (auto simp: migrateAndValidate_def validateCreatedSlotLSN_def Migrate_def migrateSlot_def createSlot_def slot_NewSnapshot_def Let_def
    NewPublicationMigrator_def split: if_splits sum.splits prod.splits option.splits)

text \<open>The position the destination has stored, if it can be used.\<close>

definition stored_position :: "(string \<Rightarrow> LSN option) \<Rightarrow> string go_result \<Rightarrow> LSN option" where
  "stored_position parse answer =
     (case answer of Inl _ \<Rightarrow> None | Inr text \<Rightarrow> if text = [] then None else (case parse text of None \<Rightarrow> None | Some l \<Rightarrow> if l = 0 then None else Some l))"

lemma start_position_stored: "start_position parse answer s = (case stored_position parse answer of Some l \<Rightarrow> l | None \<Rightarrow> s)"
  by (simp add: start_position_def stored_position_def split: sum.split option.split)

text \<open>
  A snapshot that succeeds returns the position that was saved by an earlier one, or the one it has saved: that of the
  slot, if the slot was created with it.
\<close>

lemma Execute_position:
  assumes "Execute xenv slot (Some cfg) db = ((l, None), evs, db')" "sn_Mode cfg \<noteq> ModeNever"
  shows "stored_position (ee_parse_lsn xenv) (ee_getLSN xenv) = Some l \<or>
    (\<exists>lsn. SaveLSN lsn \<in> set evs \<and> ee_parse_lsn xenv lsn = Some l \<and>
      (\<forall>sl. slot = Some sl \<and> 0 < sl_LSN sl \<and> sl_SnapshotName sl \<noteq> [] \<longrightarrow> lsn = ee_lsn_string xenv (sl_LSN sl)))"
  using assms unfolding Execute_def
  by (auto simp: already_done_def stored_position_def execute_prepared_def prepareSnapshot_def split: sum.splits option.splits prod.splits if_splits)

lemma snapshot_phase_position:
  assumes "snapshot_phase (Execute xenv) slot flush config db = (Inr s, evs, db')"
    and "\<And>x. ee_parse_lsn xenv (ee_lsn_string xenv x) = Some x"
  shows "stored_position (ee_parse_lsn xenv) (ee_getLSN xenv) = Some s \<or>
    (\<forall>sl. slot = Some sl \<and> 0 < sl_LSN sl \<and> sl_SnapshotName sl \<noteq> [] \<and> sl_LSN sl = flush \<longrightarrow> s = flush) \<and>
    (s = flush \<or> (\<exists>lsn. SaveLSN lsn \<in> set evs \<and> ee_parse_lsn xenv lsn = Some s))"
proof (cases "config = None \<or> sn_Mode (the config) = ModeNever \<or> snd (fst (Execute xenv slot config db)) \<noteq> None")
  case True
  then show ?thesis using assms(1) unfolding snapshot_phase_def by (auto split: option.splits if_splits prod.splits)
next
  case False
  then obtain cfg where c: "config = Some cfg" "sn_Mode cfg \<noteq> ModeNever" by auto
  obtain l evs1 db1 where x: "Execute xenv slot config db = ((l, None), evs1, db1)" using False by (metis eq_snd_iff prod.collapse)
  then have s: "s = (if 0 < l then l else flush)" "evs1 = evs" "sn_Mode cfg \<noteq> ModeOneTimeOnly"
    using assms(1) c by (auto simp: snapshot_phase_def split: if_splits)
  have x': "Execute xenv slot (Some cfg) db = ((l, None), evs1, db1)" using x c(1) by simp
  from Execute_position [OF x' c(2)] show ?thesis
  proof
    assume "stored_position (ee_parse_lsn xenv) (ee_getLSN xenv) = Some l"
    moreover from this have "0 < l" by (auto simp: stored_position_def word_gt_0 split: sum.splits option.splits if_splits)
    ultimately show ?thesis using s(1) by simp
  next
    assume "\<exists>lsn. SaveLSN lsn \<in> set evs1 \<and> ee_parse_lsn xenv lsn = Some l \<and>
      (\<forall>sl. slot = Some sl \<and> 0 < sl_LSN sl \<and> sl_SnapshotName sl \<noteq> [] \<longrightarrow> lsn = ee_lsn_string xenv (sl_LSN sl))"
    then obtain lsn where "SaveLSN lsn \<in> set evs1 \<and> ee_parse_lsn xenv lsn = Some l \<and>
      (\<forall>sl. slot = Some sl \<and> 0 < sl_LSN sl \<and> sl_SnapshotName sl \<noteq> [] \<longrightarrow> lsn = ee_lsn_string xenv (sl_LSN sl))" by (elim exE)
    then show ?thesis using s assms(2) by (auto split: if_splits)
  qed
qed

text \<open>
  (C15) Where replication starts. It starts only when the licence was accepted for the date of this run, the later of the
  server's and the local one, and after the publication was checked. If the destination has stored a position (a
  normal restart), it starts there. Else, if an earlier snapshot has saved its position, it may start there. Else snapshot and
  replication join without a gap: if this run created the slot, replication starts exactly at the slot's consistent
  point, which is also the confirmed position of the slot and the point of the snapshot it exported, whether
  the snapshot succeeds, fails or is not configured; with a slot that existed before, it starts at that slot's
  confirmed position or at the position of the snapshot that has just been saved.
\<close>

theorem replication_starts_at_snapshot:
  assumes "RunApp env conf lic db = (r, evs, lic', db')" "StartedAt opts p \<in> set evs" "re_execute env = Execute xenv"
    and "\<And>x. ee_parse_lsn xenv (ee_lsn_string xenv x) = Some x"
  shows "(\<exists>today. getToday (re_pgToday env) (re_appToday env) = Inr today \<and>
      VerifyAndSetLicenseFromEnv (re_crypto env) (re_getenv env) (re_readFile env) (re_product env) today lic = (Inr (), lic')) \<and>
    (\<exists>flush sent slot. migrateAndValidate (re_migrate env) (re_validateConn env) (re_validate env) (re_closeFn env) (cf_repl conf) (cf_tables conf)
        (cf_needsTrack conf) = (Inr flush, sent, slot) \<and>
      (case stored_position (re_parseLSN env) (re_lastLSN env) of
         Some l \<Rightarrow> p = l
       | None \<Rightarrow> stored_position (ee_parse_lsn xenv) (ee_getLSN xenv) = Some p \<or>
           (\<forall>sl. slot = Some sl \<and> 0 < flush \<longrightarrow> p = sl_LSN sl \<and> p = flush) \<and>
           (p = flush \<or> (\<exists>lsn evs1. snapshot_phase (re_execute env) slot flush (cf_snapshot conf) db = (Inr p, evs1, db') \<and>
             SaveLSN lsn \<in> set evs1 \<and> ee_parse_lsn xenv lsn = Some p))))"
proof -
  obtain flush sent slot today evs1 where m: "migrateAndValidate (re_migrate env) (re_validateConn env) (re_validate env) (re_closeFn env) (cf_repl conf)
        (cf_tables conf) (cf_needsTrack conf) = (Inr flush, sent, slot)" "run_migrated env conf flush slot db = (r, evs1, db')" "StartedAt opts p \<in> set evs1"
      "VerifyAndSetLicenseFromEnv (re_crypto env) (re_getenv env) (re_readFile env) (re_product env) today lic = (Inr (), lic')"
      "getToday (re_pgToday env) (re_appToday env) = Inr today"
    using RunApp_started [OF assms(1,2)] by blast
  obtain s evs2 where s: "snapshot_phase (re_execute env) slot flush (cf_snapshot conf) db = (Inr s, evs2, db')"
      "p = start_position (re_parseLSN env) (re_lastLSN env) s"
    using run_migrated_started [OF m(2,3)] by blast
  have sl: "sl_LSN sl = flush \<and> sl_SnapshotName sl \<noteq> []" if "slot = Some sl" for sl using migrateAndValidate_slot m(1) that by blast
  have "case stored_position (re_parseLSN env) (re_lastLSN env) of
         Some l \<Rightarrow> p = l
       | None \<Rightarrow> stored_position (ee_parse_lsn xenv) (ee_getLSN xenv) = Some p \<or>
           (\<forall>sl. slot = Some sl \<and> 0 < flush \<longrightarrow> p = sl_LSN sl \<and> p = flush) \<and>
           (p = flush \<or> (\<exists>lsn evs1. snapshot_phase (re_execute env) slot flush (cf_snapshot conf) db = (Inr p, evs1, db') \<and>
             SaveLSN lsn \<in> set evs1 \<and> ee_parse_lsn xenv lsn = Some p))"
  proof (cases "stored_position (re_parseLSN env) (re_lastLSN env)")
    case None
    then have p: "p = s" using s(2) by (simp add: start_position_stored)
    show ?thesis using snapshot_phase_position [OF s(1) [unfolded assms(3)] assms(4)] sl s(1) None unfolding p by auto
  qed (use s(2) in \<open>simp add: start_position_stored\<close>)
  then show ?thesis using m(1,4,5) by blast
qed

text \<open>A first start: the publication and the slot are created, the snapshot runs, replication starts at the slot.\<close>

definition first_exec :: "nat exec_env" where
  "first_exec = demo_exec\<lparr>ee_lsn_string := (\<lambda>l. CHR ''l'' # replicate (unat l) (CHR ''1'')), ee_parse_lsn := (\<lambda>s. Some (of_nat (length s - 1)))\<rparr>"

definition first_conf :: run_conf where
  "first_conf = (let opt = \<lparr>co_Host = ''a'', co_Port = ''1'', co_Database = ''d'', co_User = ''u'', co_Password = ''p'',
        co_TLS = \<lparr>tls_Cert = [], tls_Key = [], tls_RootCert = []\<rparr>\<rparr>
    in \<lparr>cf_conn = Some \<lparr>com_joined = opt, com_opts = Some [opt]\<rparr>,
        cf_repl = \<lparr>rc_Slot = ''s'', rc_Pub = ''p'', rc_Owner = ''app'', rc_Failover = None\<rparr>, cf_standBy = [], cf_receive = [],
        cf_settings = \<lparr>as_StatsInterval = [], as_MaxWriteQueueSize = 0, as_ShutdownTimeout = []\<rparr>, cf_tables = [], cf_needsTrack = False,
        cf_snapshot = Some demo_exec_cfg\<rparr>)"

definition first_env :: "string \<Rightarrow> (nat, nat) run_env" where
  "first_env text = \<lparr>re_product = ''pg2redis'', re_parseConn = (\<lambda>_. Inr \<lparr>cc_Host = ''a'', cc_Port = 1, cc_RuntimeParams = Map.empty\<rparr>),
     re_connStr = (\<lambda>_. []), re_nodes = (\<lambda>_. two_servers ''b''), re_ctxErr = None, re_pgToday = Inr (epochStart + 864000), re_appToday = epochStart,
     re_crypto = plain_crypto, re_getenv = (\<lambda>_. text), re_readFile = (\<lambda>_. FileMissing),
     re_migrate = \<lparr>me_version = Inr 16, me_pub = PubNotFound, me_exec = (\<lambda>_. Inr ()), me_slotExists = Inr False, me_dial = Inr (),
       me_create = (\<lambda>_. Inr (''0/5'', ''snap'')), me_parseLSN = (\<lambda>_. Some 5)\<rparr>,
     re_validateConn = None, re_validate = \<lparr>ve_pubRow = Row (), ve_slotRow = Row (''pgoutput'', 5), ve_versionNum = Inr 160000,
       ve_pubTables = (\<lambda>_. Inr pub_one), ve_trackCommit = Inr ''on''\<rparr>,
     re_closeFn = None, re_walSender = Inr ''60000'', re_durations = \<lparr>de_num = (\<lambda>_. Some 60000), de_dur = (\<lambda>_. None)\<rparr>,
     re_parseUint = (\<lambda>_. None), re_watchXID = [], re_build = Inr (), re_load = Inr (), re_config = Inr (), re_ping = Inr (),
     re_execute = Execute first_exec, re_parseLSN = (\<lambda>_. None), re_lastLSN = Inr [], re_start = Inr (), re_end = Cancelled, re_isCanceled = (\<lambda>_. False)\<rparr>"

lemma first_migration:
  "migrateAndValidate (re_migrate (first_env x)) (re_validateConn (first_env x)) (re_validate (first_env x)) (re_closeFn (first_env x))
     (cf_repl first_conf) (cf_tables first_conf) (cf_needsTrack first_conf) = (Inr 5, [create_sql ''p'' 16 []], Some (slot_NewSnapshot 5 ''snap''))"
  by (simp add: migrateAndValidate_def first_env_def first_conf_def Let_def EqualFold_def Migrate_def NewPublicationMigrator_def migrateWithConn_def
    createPub_def migrateSlot_def effectiveSlotFailover_def createSlot_def validateWithConn_def createConnStrAndLoadPublication_def ReadPGVersion_def
    parsePGVersionNum_def validateCreatedSlotLSN_def slot_NewSnapshot_def)

lemma first_connected:
  "PgConfig_Validate (cf_conn first_conf) = Inr []"
  "\<exists>cn h cn1. NewWithApp (re_parseConn (first_env x)) (re_connStr (first_env x)) (the (cf_conn first_conf)) (re_product (first_env x)) = Inr cn \<and>
     ConnectPrimaryNode (re_ctxErr (first_env x)) (re_nodes (first_env x)) (cn :: nat PGNode list) = (Inr h, cn1)"
  "with_text ''failed to get current date: '' (getToday (re_pgToday (first_env x)) (re_appToday (first_env x))) = Inr (epochStart + 864000)"
  by (simp_all add: PgConfig_Validate_def AllOpts_def validateOpts_def validate_opt_def tls_Validate_def tls_IsEmpty_def first_conf_def Let_def
    first_env_def getToday_def NewWithApp_def createNode_def node_New_def ConnectPrimaryNode_def conn_Connect_def two_servers_def node_Connect_def
    getConnOrConnect_def connectNew_def read_status_def ReadPGVersion_def parsePGVersionNum_def PrimaryNode_def HasConn_def)

lemma first_snapshot:
  "\<exists>s evs. snapshot_phase (re_execute (first_env x)) (Some (slot_NewSnapshot 5 ''snap'')) 5 (cf_snapshot first_conf) 0 = (Inr s, evs, 1)"
proof -
  have v: "SnapshotConfig_Validate (\<lambda>_. None) demo_exec_cfg = Inr demo_exec_cfg" and m: "sn_Mode demo_exec_cfg = ModeOneTime"
    by (simp_all add: SnapshotConfig_Validate_def demo_exec_cfg_def plan_cfg_def check_table_def TrimSpace_def is_space_def)
  have "\<exists>l evs. Execute first_exec (Some (slot_NewSnapshot 5 ''snap'')) (Some demo_exec_cfg) 0 = ((l, None), evs, 1)"
    using v m by (simp add: Execute_def first_exec_def demo_exec_def already_done_def prepareSnapshot_def execute_prepared_def slot_NewSnapshot_def)
  then show ?thesis using m by (auto simp: snapshot_phase_def first_env_def first_conf_def Let_def)
qed

lemma first_run: "\<exists>r evs opts p. run_migrated (first_env x) first_conf 5 (Some (slot_NewSnapshot 5 ''snap'')) 0 = (r, evs, 1) \<and> StartedAt opts p \<in> set evs"
proof -
  obtain s evs where s: "snapshot_phase (re_execute (first_env x)) (Some (slot_NewSnapshot 5 ''snap'')) 5 (cf_snapshot first_conf) 0 = (Inr s, evs, 1)"
    using first_snapshot by blast
  obtain o1 o2 where "read_timeouts (re_durations (first_env x)) (readPgWalSenderTimeout (re_durations (first_env x)) (re_walSender (first_env x))) first_conf =
      Inr (o1, o2)" by (simp add: read_timeouts_def duration_of_def first_conf_def Let_def)
  moreover have "re_build (first_env x) = Inr ()" "re_load (first_env x) = Inr ()" "re_config (first_env x) = Inr ()" "re_ping (first_env x) = Inr ()"
      "re_start (first_env x) = Inr ()" "re_end (first_env x) = Cancelled" by (simp_all add: first_env_def)
  ultimately show ?thesis using s by (simp add: run_migrated_def run_replication_def) blast
qed

theorem replication_starts_at_snapshot_witness:
  "\<exists>code r evs opts. RunApp (first_env code) first_conf noLicense 0 = (r, evs, one_year, 1) \<and> StartedAt opts 5 \<in> set evs"
proof -
  obtain code where l: "\<And>readFile current. VerifyAndSetLicenseFromEnv plain_crypto (\<lambda>_. code) readFile ''pg2redis'' (epochStart + 864000) current = (Inr (), one_year)"
    using one_year_accepted by blast
  have e: "re_crypto (first_env code) = plain_crypto" "re_getenv (first_env code) = (\<lambda>_. code)" "re_product (first_env code) = ''pg2redis''"
      "re_execute (first_env code) = Execute first_exec" "re_lastLSN (first_env code) = Inr []" by (simp_all add: first_env_def)
  obtain r evs1 opts p where m: "run_migrated (first_env code) first_conf 5 (Some (slot_NewSnapshot 5 ''snap'')) 0 = (r, evs1, 1)" "StartedAt opts p \<in> set evs1"
    using first_run by blast
  obtain cn h cn1 where c: "NewWithApp (re_parseConn (first_env code)) (re_connStr (first_env code)) (the (cf_conn first_conf)) (re_product (first_env code)) = Inr cn"
      "ConnectPrimaryNode (re_ctxErr (first_env code)) (re_nodes (first_env code)) (cn :: nat PGNode list) = (Inr h, cn1)"
    using first_connected(2) by blast
  have run: "RunApp (first_env code) first_conf noLicense 0 = (r, [Sent (create_sql ''p'' 16 [])] @ evs1 @ [ConnectorClosed], one_year, 1)"
    unfolding RunApp_def first_connected first_migration using c l m(1) by (simp add: e)
  have parse: "ee_parse_lsn first_exec (ee_lsn_string first_exec y) = Some y" "ee_getLSN first_exec = Inr []" for y
    by (simp_all add: first_exec_def demo_exec_def)
  have "StartedAt opts p \<in> set ([Sent (create_sql ''p'' 16 [])] @ evs1 @ [ConnectorClosed])" using m(2) by simp
  moreover have "stored_position (re_parseLSN (first_env code)) (re_lastLSN (first_env code)) = None"
      "stored_position (ee_parse_lsn first_exec) (ee_getLSN first_exec) = None"
    by (simp_all add: stored_position_def e(5) parse(2))
  ultimately have "p = 5" using replication_starts_at_snapshot [OF run _ e(4) parse(1)] unfolding first_migration by auto
  then have "StartedAt opts 5 \<in> set ([Sent (create_sql ''p'' 16 [])] @ evs1 @ [ConnectorClosed])" using m(2) by simp
  then show ?thesis using run by blast
qed

end
