(* ===== verification/Snapshotrun.thy ===== *)
theory Snapshotrun
  imports Snapshotexecute "HOL-Library.Multiset"
begin

text \<open>
  \<open>runSnapshot\<close> with its goroutines: the dispatching loop, the workers, the acknowledgements of the listener and the
  tracking of progress. A step is one action of one goroutine; the reports are processed in the
  order in which they are reported. The theorem is about every interleaving: a table stored as completed
  has been read by all its tasks, and everything sent for it is acknowledged.
\<close>

section \<open>Goroutines\<close>

text \<open>
  A worker waits for a task, reads the range of one, is about to report the batch with an LSN it has taken, or has
  ended. \<open>rs_finished\<close> keeps the tasks that were read to the end, \<open>rs_abandoned\<close> those that failed.
\<close>

datatype worker = Waiting | Reading snapshotTask | Sending snapshotTask LSN | Ended

record run_state =
  rs_todo :: "loop_event list"
  rs_workers :: "worker list"
  rs_lsn :: snapshotLSNTracker
  rs_reports :: "progressReport list"
  rs_errors :: "(string \<times> go_error) list"
  rs_finished :: "snapshotTask multiset"
  rs_abandoned :: "snapshotTask multiset"

definition run_init :: "loop_event list \<Rightarrow> int \<Rightarrow> run_state" where
  "run_init evs maxWorkers = \<lparr>rs_todo = evs, rs_workers = replicate (nat maxWorkers) Waiting, rs_lsn = \<lparr>lt_nextLSN = 0, lt_maxSubmitted = 0\<rparr>,
     rs_reports = [], rs_errors = [], rs_finished = {#}, rs_abandoned = {#}\<rparr>"

text \<open>
  The dispatching loop (\<open>runSnapshotLoop\<close>) works through its events; a task goes to a waiting worker directly, the
  channel has no buffer.
\<close>

inductive loop_step :: "run_state \<Rightarrow> run_state \<Rightarrow> bool" where
  loop_reports: "rs_todo s = Reported r # evs \<Longrightarrow> loop_step s (s\<lparr>rs_todo := evs, rs_reports := rs_reports s @ [r]\<rparr>)"
| loop_fails: "rs_todo s = Failed n e # evs \<Longrightarrow> loop_step s (s\<lparr>rs_todo := evs, rs_errors := rs_errors s @ [(n, e)]\<rparr>)"
| loop_stores: "rs_todo s = SetStarted n k # evs \<Longrightarrow> loop_step s (s\<lparr>rs_todo := evs\<rparr>)"
| loop_waits: "rs_todo s = Throttled # evs \<Longrightarrow> loop_step s (s\<lparr>rs_todo := evs\<rparr>)"
| loop_sends: "rs_todo s = Task t # evs \<Longrightarrow> i < length (rs_workers s) \<Longrightarrow> rs_workers s ! i = Waiting \<Longrightarrow>
    loop_step s (s\<lparr>rs_todo := evs, rs_workers := (rs_workers s)[i := Reading t]\<rparr>)"

text \<open>A worker (\<open>Worker.Process\<close> with \<open>processTableRange\<close>) sends batches, finishes its task or ends with an error.\<close>

inductive worker_step :: "run_state \<Rightarrow> run_state \<Rightarrow> bool" where
  takes_lsn: "i < length (rs_workers s) \<Longrightarrow> rs_workers s ! i = Reading t \<Longrightarrow> NextLSN (rs_lsn s) = (l, lt) \<Longrightarrow>
    worker_step s (s\<lparr>rs_workers := (rs_workers s)[i := Sending t l], rs_lsn := lt\<rparr>)"
| reports_batch: "i < length (rs_workers s) \<Longrightarrow> rs_workers s ! i = Sending t l \<Longrightarrow>
    worker_step s (s\<lparr>rs_workers := (rs_workers s)[i := Reading t], rs_lsn := MarkSubmitted l [] (rs_lsn s),
      rs_reports := rs_reports s @ [(report_of reportKindMaxLSN (FullName (task_table t)))\<lparr>pr_maxLSN := l\<rparr>]\<rparr>)"
| finishes: "i < length (rs_workers s) \<Longrightarrow> rs_workers s ! i = Reading t \<Longrightarrow>
    worker_step s (s\<lparr>rs_workers := (rs_workers s)[i := Waiting], rs_finished := add_mset t (rs_finished s),
      rs_reports := rs_reports s @ [report_of reportKindTaskDone (FullName (task_table t))]\<rparr>)"
| abandons: "i < length (rs_workers s) \<Longrightarrow> rs_workers s ! i = Reading t \<or> rs_workers s ! i = Sending t l \<Longrightarrow>
    worker_step s (s\<lparr>rs_workers := (rs_workers s)[i := Ended], rs_abandoned := add_mset t (rs_abandoned s), rs_errors := rs_errors s @ [(n, e)]\<rparr>)"
| worker_ends: "i < length (rs_workers s) \<Longrightarrow> rs_workers s ! i = Waiting \<Longrightarrow> worker_step s (s\<lparr>rs_workers := (rs_workers s)[i := Ended]\<rparr>)"

text \<open>
  The handler of acknowledgements (\<open>reportSnapshotAckProgress\<close>). What the listener acknowledges is not tied to what was sent: a
  step reports any LSN other than zero, and the rows of a response with any counts.
\<close>

inductive ack_step :: "run_state \<Rightarrow> run_state \<Rightarrow> bool" where
  acks_lsn: "0 < l \<Longrightarrow> ack_step s (s\<lparr>rs_reports := rs_reports s @ [(report_of reportKindLSNAck [])\<lparr>pr_maxLSN := l\<rparr>]\<rparr>)"
| acks_rows: "n \<noteq> [] \<Longrightarrow> 0 < k \<Longrightarrow> ack_step s (s\<lparr>rs_reports := rs_reports s @ [(report_of reportKindRangeDone n)\<lparr>pr_rowsProcessed := k\<rparr>]\<rparr>)"

inductive run_step :: "run_state \<Rightarrow> run_state \<Rightarrow> bool" where
  dispatching: "loop_step s s' \<Longrightarrow> run_step s s'"
| working: "worker_step s s' \<Longrightarrow> run_step s s'"
| acknowledging: "ack_step s s' \<Longrightarrow> run_step s s'"

abbreviation run_steps :: "run_state \<Rightarrow> run_state \<Rightarrow> bool" where
  "run_steps \<equiv> run_step\<^sup>*\<^sup>*"

section \<open>The script of a table\<close>

text \<open>The tasks of a table among the events of the loop, and its dispatch.\<close>

definition tasks_of :: "string \<Rightarrow> loop_event list \<Rightarrow> snapshotTask multiset" where
  "tasks_of n evs = mset [t. Task t \<leftarrow> evs, FullName (task_table t) = n]"

definition dispatches :: "string \<Rightarrow> loop_event list \<Rightarrow> bool" where
  "dispatches n evs \<longleftrightarrow> (\<exists>r. Reported r \<in> set evs \<and> pr_kind r = reportKindTableDispatched \<and> pr_tableName r = n)"

text \<open>
  What the loop reports about a table: that it starts, before it is dispatched; and once that it is dispatched, with
  the number of its tasks, all of which it has sent before.
\<close>

definition script_ok :: "string \<Rightarrow> loop_event list \<Rightarrow> bool" where
  "script_ok n evs \<longleftrightarrow> (\<forall>p r q. evs = p @ Reported r # q \<longrightarrow> pr_tableName r = n \<longrightarrow> \<not> dispatches n p \<and>
     (pr_kind r = reportKindTableStarted \<or> pr_kind r = reportKindTableDispatched \<and> pr_tasksCount r = int (size (tasks_of n p)) \<and> tasks_of n q = {#}))"

lemma tasks_of_simps [simp]:
  "tasks_of n [] = {#}" "tasks_of n (e # evs) = (case e of Task t \<Rightarrow> if FullName (task_table t) = n then {#t#} else {#} | _ \<Rightarrow> {#}) + tasks_of n evs"
  "tasks_of n (evs @ evs') = tasks_of n evs + tasks_of n evs'"
  by (auto simp: tasks_of_def split: loop_event.split)

lemma dispatches_simps [simp]:
  "\<not> dispatches n []" "dispatches n (evs @ evs') \<longleftrightarrow> dispatches n evs \<or> dispatches n evs'"
  "dispatches n (e # evs) \<longleftrightarrow> (\<exists>r. e = Reported r \<and> pr_kind r = reportKindTableDispatched \<and> pr_tableName r = n) \<or> dispatches n evs"
  by (auto simp: dispatches_def)

text \<open>Events that are not about a table.\<close>

definition silent :: "string \<Rightarrow> loop_event list \<Rightarrow> bool" where
  "silent n evs \<longleftrightarrow> tasks_of n evs = {#} \<and> (\<forall>r. Reported r \<in> set evs \<longrightarrow> pr_tableName r \<noteq> n)"

lemma silent_simps [simp]:
  "silent n []" "silent n (evs @ evs') \<longleftrightarrow> silent n evs \<and> silent n evs'"
  "silent n (e # evs) \<longleftrightarrow> silent n evs \<and> (case e of Task t \<Rightarrow> FullName (task_table t) \<noteq> n | Reported r \<Rightarrow> pr_tableName r \<noteq> n | _ \<Rightarrow> True)"
  by (auto simp: silent_def split: loop_event.splits)

lemma silent_no_dispatch: "silent n evs \<Longrightarrow> \<not> dispatches n evs"
  by (auto simp: silent_def dispatches_def)

lemma script_silent: "silent n evs \<Longrightarrow> script_ok n evs"
  by (auto simp: script_ok_def)

text \<open>A script grows at its end by tasks before the dispatch, by a report, and by anything about other tables.\<close>

lemma script_more:
  assumes "script_ok n evs" "\<And>r. Reported r \<in> set rest \<Longrightarrow> pr_tableName r \<noteq> n" "dispatches n evs \<Longrightarrow> tasks_of n rest = {#}"
  shows "script_ok n (evs @ rest)"
  unfolding script_ok_def
proof (intro allI impI)
  fix p r q
  assume s: "evs @ rest = p @ Reported r # q" and n: "pr_tableName r = n"
  then obtain q' where q: "evs = p @ Reported r # q'" "q = q' @ rest"
    using assms(2) [of r] by (auto simp: append_eq_append_conv2 append_eq_Cons_conv)
  then have "\<not> dispatches n p \<and> (pr_kind r = reportKindTableStarted \<or>
      pr_kind r = reportKindTableDispatched \<and> pr_tasksCount r = int (size (tasks_of n p)) \<and> tasks_of n q' = {#})"
    using assms(1) n by (simp add: script_ok_def)
  moreover have "dispatches n evs" if "pr_kind r = reportKindTableDispatched" using q(1) n that by simp
  ultimately show "\<not> dispatches n p \<and> (pr_kind r = reportKindTableStarted \<or>
      pr_kind r = reportKindTableDispatched \<and> pr_tasksCount r = int (size (tasks_of n p)) \<and> tasks_of n q = {#})"
    using assms(3) q(2) by auto
qed

lemma script_report:
  assumes "script_ok n evs" "\<not> dispatches n evs" "pr_kind r = reportKindTableStarted \<or>
    pr_kind r = reportKindTableDispatched \<and> pr_tasksCount r = int (size (tasks_of n evs))"
  shows "script_ok n (evs @ [Reported r])"
  unfolding script_ok_def
proof (intro allI impI)
  fix p x q
  assume s: "evs @ [Reported r] = p @ Reported x # q" and n: "pr_tableName x = n"
  then consider "p = evs" "x = r" "q = []" | q' where "evs = p @ Reported x # q'" "q = q' @ [Reported r]"
    by (cases q rule: rev_cases) auto
  then show "\<not> dispatches n p \<and> (pr_kind x = reportKindTableStarted \<or>
      pr_kind x = reportKindTableDispatched \<and> pr_tasksCount x = int (size (tasks_of n p)) \<and> tasks_of n q = {#})"
  proof cases
    case 1
    then show ?thesis using assms(2,3) by auto
  next
    case 2
    then show ?thesis using assms(1) n by (simp add: script_ok_def)
  qed
qed

lemma script_behind:
  assumes "silent n pre" "script_ok n evs"
  shows "script_ok n (pre @ evs)"
  unfolding script_ok_def
proof (intro allI impI)
  fix p r q
  assume s: "pre @ evs = p @ Reported r # q" and n: "pr_tableName r = n"
  then obtain p' where p: "p = pre @ p'" "evs = p' @ Reported r # q"
    using assms(1) by (auto simp: append_eq_append_conv2 append_eq_Cons_conv silent_def)
  then show "\<not> dispatches n p \<and> (pr_kind r = reportKindTableStarted \<or>
      pr_kind r = reportKindTableDispatched \<and> pr_tasksCount r = int (size (tasks_of n p)) \<and> tasks_of n q = {#})"
    using assms n silent_no_dispatch [OF assms(1)] by (auto simp: script_ok_def silent_def)
qed

lemma table_tasks_script:
  "Reported r \<notin> set (table_tasks env cfg st table km plan)"
  "size (tasks_of (FullName table) (table_tasks env cfg st table km plan)) = length (plan_tasks plan)"
  "n \<noteq> FullName table \<Longrightarrow> tasks_of n (table_tasks env cfg st table km plan) = {#}"
proof -
  show "Reported r \<notin> set (table_tasks env cfg st table km plan)" by (auto simp: table_tasks_def split: if_splits)
  let ?f = "\<lambda>(i, q, args). (if usesCtidRanges plan \<and> 0 < sn_MaxWriteQueueSize cfg \<and> sn_MaxWriteQueueSize cfg < lv_queueSize env (ts_TableName st) i
        then [Throttled] else []) @
       [Task \<lparr>task_state = ts_TableName st, task_table = table, task_keyMap = Some km, task_query = q, task_args = args\<rparr>]"
  have f: "tasks_of (FullName table) (concat (map ?f xs)) = mset (map (\<lambda>(i, q, args).
      \<lparr>task_state = ts_TableName st, task_table = table, task_keyMap = Some km, task_query = q, task_args = args\<rparr>) xs)"
    "n \<noteq> FullName table \<Longrightarrow> tasks_of n (concat (map ?f xs)) = {#}" for xs
    by (induction xs) auto
  show "size (tasks_of (FullName table) (table_tasks env cfg st table km plan)) = length (plan_tasks plan)"
    unfolding table_tasks_def f by simp
  show "tasks_of n (table_tasks env cfg st table km plan) = {#}" if "n \<noteq> FullName table"
    unfolding table_tasks_def by (rule f(2) [OF that])
qed

definition started_then :: "loop_env \<Rightarrow> SnapshotConfig \<Rightarrow> TableState \<Rightarrow> loop_event list \<Rightarrow> Table \<Rightarrow> KeyMap \<Rightarrow> snapshotTablePlan \<Rightarrow> TableState \<Rightarrow>
  loop_event list \<Rightarrow> progressReport \<Rightarrow> loop_event list \<Rightarrow> bool" where
  "started_then env cfg st evs table km plan st1 pre r post \<longleftrightarrow> evs = pre @ Reported r # table_tasks env cfg st1 table km plan @ post \<and>
     (\<forall>n. silent n pre) \<and> pr_kind r = reportKindTableStarted \<and> pr_tableName r = ts_TableName st \<and>
     ((\<forall>n. silent n post) \<or> (\<exists>d. post = [Reported d] \<and> pr_kind d = reportKindTableDispatched \<and> pr_tableName d = ts_TableName st \<and>
       pr_tasksCount d = int (length (plan_tasks plan))))"

lemma report_of_simps [simp]: "pr_kind (report_of k n) = k" "pr_tableName (report_of k n) = n"
  by (simp_all add: report_of_def)

lemma loop_table_reached:
  assumes "loop_table env cfg w st = Some (evs, goOn, st1)" "\<not> (\<forall>n. silent n evs)"
  shows "\<exists>table est plan. lv_get env (ParseTableName (ts_TableName st)) = Some table \<and>
    getTableEstimate (lv_base env (ts_TableName st)) (lv_filtered env) st1 = Inr est \<and>
    planSnapshotTable cfg (lv_bounds env (ts_TableName st)) st1 est w = Some (Inr plan) \<and>
    evs = (if ts_Status st1 = StatusPending then [SetStarted (ts_TableName st) (estimatedRows est)] else []) @
      Reported ((report_of reportKindTableStarted (ts_TableName st))\<lparr>pr_totalRows := estimatedRows est\<rparr>) #
      table_tasks env cfg st1 table (snapshotKeyMap (snapshotColumnNames (Some table)) (lv_txOpts env)) plan @
      (case lv_ctxDispatch env (ts_TableName st) of
         Some e \<Rightarrow> [Failed (ts_TableName st) (wrap_err ''failed to report table dispatched: '' e)]
       | None \<Rightarrow> [Reported ((report_of reportKindTableDispatched (ts_TableName st))\<lparr>pr_tasksCount := int (length (plan_tasks plan))\<rparr>)])"
  using assms unfolding loop_table_def Let_def
  by (auto split: if_splits option.splits sum.splits)

lemma loop_table_shape:
  assumes "loop_table env cfg w st = Some (evs, goOn, st1)" "\<not> (\<forall>n. silent n evs)"
  shows "\<exists>table km plan pre r post. lv_get env (ParseTableName (ts_TableName st)) = Some table \<and>
    started_then env cfg st evs table km plan st1 pre r post"
  using loop_table_reached [OF assms]
proof (elim exE conjE)
  fix table est plan
  assume t: "lv_get env (ParseTableName (ts_TableName st)) = Some table"
    and e: "evs = (if ts_Status st1 = StatusPending then [SetStarted (ts_TableName st) (estimatedRows est)] else []) @
      Reported ((report_of reportKindTableStarted (ts_TableName st))\<lparr>pr_totalRows := estimatedRows est\<rparr>) #
      table_tasks env cfg st1 table (snapshotKeyMap (snapshotColumnNames (Some table)) (lv_txOpts env)) plan @
      (case lv_ctxDispatch env (ts_TableName st) of
         Some e \<Rightarrow> [Failed (ts_TableName st) (wrap_err ''failed to report table dispatched: '' e)]
       | None \<Rightarrow> [Reported ((report_of reportKindTableDispatched (ts_TableName st))\<lparr>pr_tasksCount := int (length (plan_tasks plan))\<rparr>)])"
  have "started_then env cfg st evs table (snapshotKeyMap (snapshotColumnNames (Some table)) (lv_txOpts env)) plan st1
      (if ts_Status st1 = StatusPending then [SetStarted (ts_TableName st) (estimatedRows est)] else [])
      ((report_of reportKindTableStarted (ts_TableName st))\<lparr>pr_totalRows := estimatedRows est\<rparr>)
      (case lv_ctxDispatch env (ts_TableName st) of
         Some e \<Rightarrow> [Failed (ts_TableName st) (wrap_err ''failed to report table dispatched: '' e)]
       | None \<Rightarrow> [Reported ((report_of reportKindTableDispatched (ts_TableName st))\<lparr>pr_tasksCount := int (length (plan_tasks plan))\<rparr>)])"
    unfolding started_then_def by (rule conjI [OF e]) (auto split: option.split)
  then show ?thesis using t by blast
qed

lemma loop_table_script:
  assumes "loop_table env cfg w st = Some (evs, goOn, st1)"
    and "\<And>table. lv_get env (ParseTableName (ts_TableName st)) = Some table \<Longrightarrow> FullName table = ts_TableName st"
  shows "script_ok (ts_TableName st) evs \<and> (n \<noteq> ts_TableName st \<longrightarrow> silent n evs)"
proof (cases "\<forall>n. silent n evs")
  case False
  from loop_table_shape [OF assms(1) this] show ?thesis
  proof (elim exE conjE)
    fix table km plan pre r post
    assume table: "lv_get env (ParseTableName (ts_TableName st)) = Some table" and s: "started_then env cfg st evs table km plan st1 pre r post"
    let ?n = "ts_TableName st" and ?tasks = "table_tasks env cfg st1 table km plan"
    note name = assms(2) [OF table]
    have "script_ok ?n (pre @ [Reported r])" "\<not> dispatches ?n (pre @ [Reported r])"
      using s script_report [OF script_silent, of ?n pre r] silent_no_dispatch by (auto simp: started_then_def)
    then have t: "script_ok ?n ((pre @ [Reported r]) @ ?tasks)" "\<not> dispatches ?n ((pre @ [Reported r]) @ ?tasks)"
      using script_more [of ?n "pre @ [Reported r]" ?tasks] table_tasks_script(1) by (force simp: dispatches_def)+
    have k: "size (tasks_of ?n ((pre @ [Reported r]) @ ?tasks)) = length (plan_tasks plan)"
      using s table_tasks_script(2) [of table] by (simp add: name started_then_def silent_def)
    have "script_ok ?n (((pre @ [Reported r]) @ ?tasks) @ post)"
      using s t k script_more [OF t(1), of post] script_report [OF t] by (auto simp: started_then_def silent_def)
    moreover have "silent n evs" if "n \<noteq> ?n"
      using s that table_tasks_script(1) table_tasks_script(3) [of n table] name unfolding started_then_def by (fastforce simp: silent_def)
    ultimately show ?thesis using s by (simp add: started_then_def)
  qed
qed (simp add: script_silent)

lemma runSnapshotLoop_silent:
  assumes "runSnapshotLoop env cfg w sts = Some (evs, sts1)" "n \<notin> set (map ts_TableName sts)"
    and "\<And>st table. st \<in> set sts \<Longrightarrow> lv_get env (ParseTableName (ts_TableName st)) = Some table \<Longrightarrow> FullName table = ts_TableName st"
  shows "silent n evs"
  using assms
proof (induction sts arbitrary: evs sts1)
  case (Cons st sts)
  obtain evs0 goOn st1 where l: "loop_table env cfg w st = Some (evs0, goOn, st1)" using Cons.prems(1) by (auto split: Option.bind_splits)
  have s: "silent n evs0" using loop_table_script [OF l, of n] Cons.prems(2,3) by auto
  show ?case using Cons.prems(1) l s Cons.IH Cons.prems(2,3) by (cases goOn) auto
qed simp

lemma runSnapshotLoop_script:
  assumes "runSnapshotLoop env cfg w sts = Some (evs, sts1)" "distinct (map ts_TableName sts)"
    and "\<And>st table. st \<in> set sts \<Longrightarrow> lv_get env (ParseTableName (ts_TableName st)) = Some table \<Longrightarrow> FullName table = ts_TableName st"
  shows "script_ok n evs"
  using assms
proof (induction sts arbitrary: evs sts1)
  case Nil
  then show ?case by (simp add: script_silent)
next
  case (Cons st sts)
  obtain evs0 goOn st1 where l: "loop_table env cfg w st = Some (evs0, goOn, st1)" using Cons.prems(1) by (auto split: Option.bind_splits)
  note t = loop_table_script [OF l, of n] Cons.prems(3)
  show ?case
  proof (cases goOn)
    case False
    then show ?thesis using Cons.prems(1,3) l t by (cases "n = ts_TableName st") (auto intro: script_silent)
  next
    case True
    then obtain evs' sts' where r: "runSnapshotLoop env cfg w sts = Some (evs', sts')" "evs = evs0 @ evs'" using Cons.prems(1) l by auto
    have IH: "script_ok n evs'" using Cons.IH [OF r(1)] Cons.prems(2,3) by auto
    show ?thesis
    proof (cases "n = ts_TableName st")
      case True
      then have "silent n evs'" using runSnapshotLoop_silent [OF r(1), of n] Cons.prems(2,3) by auto
      then show ?thesis using script_more [of n evs0 evs'] t True Cons.prems(3) r(2) by (auto simp: silent_def)
    next
      case False
      then show ?thesis using script_behind [OF _ IH] t Cons.prems(3) r(2) by auto
    qed
  qed
qed

section \<open>The invariant of a run\<close>

fun held :: "worker \<Rightarrow> snapshotTask multiset" where
  "held (Reading t) = {#t#}"
| "held (Sending t l) = {#t#}"
| "held _ = {#}"

definition of_name :: "string \<Rightarrow> snapshotTask multiset \<Rightarrow> snapshotTask multiset" where
  "of_name n ts = filter_mset (\<lambda>t. FullName (task_table t) = n) ts"

lemma of_name_simps [simp]: "of_name n {#} = {#}" "of_name n (A + B) = of_name n A + of_name n B"
  "of_name n (add_mset t A) = (if FullName (task_table t) = n then add_mset t (of_name n A) else of_name n A)"
  by (simp_all add: of_name_def)

definition being_read :: "string \<Rightarrow> run_state \<Rightarrow> snapshotTask multiset" where
  "being_read n s = of_name n (\<Sum>w\<leftarrow>rs_workers s. held w)"

lemma held_update: "i < length ws \<Longrightarrow> (\<Sum>w\<leftarrow>ws[i := x]. held w) + held (ws ! i) = (\<Sum>w\<leftarrow>ws. held w) + held x"
proof (induction ws arbitrary: i)
  case (Cons w ws)
  show ?case
  proof (cases i)
    case (Suc j)
    then show ?thesis using Cons.IH [of j] Cons.prems by (simp add: ac_simps)
  qed (simp add: ac_simps)
qed simp

lemma being_read_update:
  assumes "i < length (rs_workers s)"
  shows "of_name n (\<Sum>w\<leftarrow>(rs_workers s)[i := x]. held w) + of_name n (held (rs_workers s ! i)) = being_read n s + of_name n (held x)"
  using arg_cong [OF held_update [OF assms, of x], of "of_name n"] by (simp add: being_read_def)

text \<open>
  Every task that the loop has sent is finished, being read or abandoned; the history of reports agrees with what the loop
  has sent and the workers have finished, and keeps its order.
\<close>

definition run_at :: "string \<Rightarrow> loop_event list \<Rightarrow> run_state \<Rightarrow> bool" where
  "run_at n p s \<longleftrightarrow> tasks_of n p = of_name n (rs_finished s) + being_read n s + of_name n (rs_abandoned s) \<and>
     hist_dispatched n (rs_reports s) = dispatches n p \<and> (dispatches n p \<longrightarrow> hist_tasks n (rs_reports s) = int (size (tasks_of n p))) \<and>
     hist_done n (rs_reports s) = int (size (of_name n (rs_finished s))) \<and> ordered_reports n (rs_reports s)"

definition run_inv :: "string \<Rightarrow> loop_event list \<Rightarrow> run_state \<Rightarrow> bool" where
  "run_inv n evs s \<longleftrightarrow> (\<exists>p. evs = p @ rs_todo s \<and> run_at n p s)"

lemma after_dispatch: "script_ok n (p @ q) \<Longrightarrow> dispatches n p \<Longrightarrow> tasks_of n q = {#}"
proof -
  assume s: "script_ok n (p @ q)" and d: "dispatches n p"
  then obtain r where r: "Reported r \<in> set p" "pr_kind r = reportKindTableDispatched" "pr_tableName r = n" by (auto simp: dispatches_def)
  then obtain p1 p2 where "p = p1 @ Reported r # p2" by (metis split_list)
  then have "p @ q = p1 @ Reported r # (p2 @ q)" by simp
  then have "tasks_of n (p2 @ q) = {#}" using s r(2,3) unfolding script_ok_def by fastforce
  then show ?thesis by simp
qed

lemma run_inv_init: "run_inv n evs (run_init evs w)"
proof -
  have "(\<Sum>w\<leftarrow>replicate k Waiting. held w) = {#}" for k by (induction k) simp_all
  then show ?thesis by (simp add: run_inv_def run_at_def run_init_def being_read_def hist_Nil ordered_reports_def)
qed

text \<open>While a task of a table is being read the table is not done.\<close>

lemma reading_not_done:
  assumes "run_at n p s" "i < length (rs_workers s)" "held (rs_workers s ! i) = {#t#}" "FullName (task_table t) = n"
  shows "\<not> all_done n (rs_reports s)"
proof
  assume "all_done n (rs_reports s)"
  then have d: "hist_dispatched n (rs_reports s)" "hist_done n (rs_reports s) = hist_tasks n (rs_reports s)" by (auto simp: all_done_def)
  have "being_read n s \<noteq> {#}"
    using being_read_update [OF assms(2), of n Waiting] assms(3,4) by (auto dest: arg_cong [of _ _ size])
  then have "0 < int (size (being_read n s))" by (simp add: size_eq_0_iff_empty [symmetric] del: size_eq_0_iff_empty)
  moreover have "tasks_of n p = of_name n (rs_finished s) + being_read n s + of_name n (rs_abandoned s)" using assms(1) by (simp add: run_at_def)
  then have "int (size (tasks_of n p)) = int (size (of_name n (rs_finished s))) + int (size (being_read n s)) + int (size (of_name n (rs_abandoned s)))"
    by simp
  moreover have "hist_tasks n (rs_reports s) = int (size (tasks_of n p))" "hist_done n (rs_reports s) = int (size (of_name n (rs_finished s)))"
    using assms(1) d(1) by (simp_all add: run_at_def)
  ultimately show False using d(2) by linarith
qed

lemma script_at:
  assumes "script_ok n (p @ Reported r # q)" "pr_tableName r = n"
  shows "\<not> dispatches n p" "pr_kind r = reportKindTableStarted \<or> pr_kind r = reportKindTableDispatched"
    "pr_kind r = reportKindTableDispatched \<Longrightarrow> pr_tasksCount r = int (size (tasks_of n p))"
  using assms unfolding script_ok_def by (metis progressReportKind.distinct(1) progressReportKind.simps)+

text \<open>What a step of the loop and a step of a worker do to the invariant.\<close>

lemma run_at_report:
  assumes "run_at n p s" "script_ok n (p @ Reported r # q)"
    and "pr_tableName r = n \<Longrightarrow> pr_kind r = reportKindTableDispatched \<Longrightarrow> pr_tasksCount r \<noteq> 0"
  shows "run_at n (p @ [Reported r]) (s\<lparr>rs_todo := q, rs_reports := rs_reports s @ [r]\<rparr>)"
proof (cases "pr_tableName r = n")
  case True
  note sc = script_at [OF assms(2) True]
  show ?thesis using assms(1,3) sc True
    by (auto simp: run_at_def being_read_def hist_snoc ordered_snoc allowed_def)
next
  case False
  then show ?thesis using assms(1) by (auto simp: run_at_def being_read_def hist_snoc ordered_snoc allowed_def)
qed

lemma run_at_worker:
  assumes "run_at n p s" "i < length (rs_workers s)"
    and "of_name n (held (rs_workers s ! i)) = of_name n (held x + fin + ab)"
    and "hist_done n (rs_reports s @ rs) = hist_done n (rs_reports s) + int (size (of_name n fin))"
    and "hist_dispatched n (rs_reports s @ rs) = hist_dispatched n (rs_reports s)" "hist_tasks n (rs_reports s @ rs) = hist_tasks n (rs_reports s)"
    and "ordered_reports n (rs_reports s @ rs)"
  shows "run_at n p (s\<lparr>rs_workers := (rs_workers s)[i := x], rs_lsn := lt, rs_reports := rs_reports s @ rs, rs_errors := errs,
    rs_finished := fin + rs_finished s, rs_abandoned := ab + rs_abandoned s\<rparr>)"
proof -
  have "being_read n s = of_name n (\<Sum>w\<leftarrow>(rs_workers s)[i := x]. held w) + of_name n fin + of_name n ab"
    using being_read_update [OF assms(2), of n x] assms(3) by (simp add: ac_simps)
  then show ?thesis using assms(1,4-7) by (simp add: run_at_def being_read_def ac_simps)
qed

lemma run_at_sends:
  assumes "run_at n p s" "script_ok n (p @ Task t # q)" "i < length (rs_workers s)" "rs_workers s ! i = Waiting"
  shows "run_at n (p @ [Task t]) (s\<lparr>rs_todo := q, rs_workers := (rs_workers s)[i := Reading t]\<rparr>)"
proof -
  have "of_name n (\<Sum>w\<leftarrow>(rs_workers s)[i := Reading t]. held w) = being_read n s + of_name n {#t#}"
    using being_read_update [OF assms(3), of n "Reading t"] assms(4) by simp
  moreover have "dispatches n p \<Longrightarrow> FullName (task_table t) \<noteq> n" using after_dispatch [OF assms(2)] by (auto split: if_splits)
  ultimately show ?thesis using assms(1) by (auto simp: run_at_def being_read_def [of n "s\<lparr>rs_todo := q, rs_workers := (rs_workers s)[i := Reading t]\<rparr>"])
qed

lemma run_inv_loop:
  assumes "loop_step s s'" "run_inv n evs s" "script_ok n evs"
    and "\<And>r. Reported r \<in> set evs \<Longrightarrow> pr_kind r = reportKindTableDispatched \<Longrightarrow> pr_tableName r = n \<Longrightarrow> pr_tasksCount r \<noteq> 0"
  shows "run_inv n evs s'"
proof -
  obtain p where p: "evs = p @ rs_todo s" "run_at n p s" using assms(2) by (auto simp: run_inv_def)
  from assms(1) show ?thesis
  proof cases
    case (loop_reports r q)
    then have "run_at n (p @ [Reported r]) s'" using run_at_report [OF p(2), of r q] assms(3,4) p(1) by auto
    then show ?thesis using p(1) loop_reports by (auto simp: run_inv_def intro!: exI [of _ "p @ [Reported r]"])
  next
    case (loop_fails m e q)
    then show ?thesis using p unfolding run_inv_def by (intro exI [of _ "p @ [Failed m e]"]) (simp add: run_at_def being_read_def)
  next
    case (loop_stores m k q)
    then show ?thesis using p unfolding run_inv_def by (intro exI [of _ "p @ [SetStarted m k]"]) (simp add: run_at_def being_read_def)
  next
    case (loop_waits q)
    then show ?thesis using p unfolding run_inv_def by (intro exI [of _ "p @ [Throttled]"]) (simp add: run_at_def being_read_def)
  next
    case (loop_sends t q i)
    then have "run_at n (p @ [Task t]) s'" using run_at_sends [OF p(2), of t q i] assms(3) p(1) by simp
    then show ?thesis using p(1) loop_sends by (auto simp: run_inv_def intro!: exI [of _ "p @ [Task t]"])
  qed
qed

lemma run_inv_worker:
  assumes "worker_step s s'" "run_inv n evs s"
  shows "run_inv n evs s'"
proof -
  obtain p where p: "evs = p @ rs_todo s" "run_at n p s" using assms(2) by (auto simp: run_inv_def)
  have o: "ordered_reports n (rs_reports s)" using p(2) by (simp add: run_at_def)
  from assms(1) show ?thesis
  proof cases
    case (takes_lsn i t l lt)
    then show ?thesis using run_at_worker [OF p(2), of i "Sending t l" "{#}" "{#}" "[]"] p(1) o
      by (auto simp: run_inv_def run_at_def being_read_def)
  next
    case (reports_batch i t l)
    let ?r = "(report_of reportKindMaxLSN (FullName (task_table t)))\<lparr>pr_maxLSN := l\<rparr>"
    have "ordered_reports n (rs_reports s @ [?r])"
      using o reading_not_done [OF p(2) reports_batch(2), of t] reports_batch by (auto simp: ordered_snoc allowed_def)
    then show ?thesis using run_at_worker [OF p(2), of i "Reading t" "{#}" "{#}" "[?r]"] reports_batch p(1)
      by (auto simp: run_inv_def run_at_def being_read_def hist_snoc)
  next
    case (finishes i t)
    let ?r = "report_of reportKindTaskDone (FullName (task_table t))"
    have "ordered_reports n (rs_reports s @ [?r])"
      using o reading_not_done [OF p(2) finishes(2), of t] finishes by (auto simp: ordered_snoc allowed_def)
    then show ?thesis using run_at_worker [OF p(2), of i Waiting "{#t#}" "{#}" "[?r]"] finishes p(1)
      by (auto simp: run_inv_def run_at_def being_read_def hist_snoc)
  next
    case (abandons i t l m e)
    then show ?thesis using run_at_worker [OF p(2), of i Ended "{#}" "{#t#}" "[]"] p(1) o
      by (auto simp: run_inv_def run_at_def being_read_def)
  next
    case (worker_ends i)
    then show ?thesis using run_at_worker [OF p(2), of i Ended "{#}" "{#}" "[]"] p(1) o
      by (auto simp: run_inv_def run_at_def being_read_def)
  qed
qed

lemma run_inv_ack:
  assumes "ack_step s s'" "run_inv n evs s"
  shows "run_inv n evs s'"
  using assms by cases (auto simp: run_inv_def run_at_def being_read_def hist_snoc ordered_snoc allowed_def)

lemma run_inv_step:
  assumes "run_step s s'" "run_inv n evs s" "script_ok n evs"
    and "\<And>r. Reported r \<in> set evs \<Longrightarrow> pr_kind r = reportKindTableDispatched \<Longrightarrow> pr_tableName r = n \<Longrightarrow> pr_tasksCount r \<noteq> 0"
  shows "run_inv n evs s'"
  using assms(1)
proof cases
  case dispatching
  then show ?thesis by (rule run_inv_loop [OF _ assms(2-4)])
next
  case working
  then show ?thesis by (rule run_inv_worker [OF _ assms(2)])
next
  case acknowledging
  then show ?thesis by (rule run_inv_ack [OF _ assms(2)])
qed

lemma run_inv_steps:
  assumes "run_steps (run_init evs w) s" "script_ok n evs"
    and "\<And>r. Reported r \<in> set evs \<Longrightarrow> pr_kind r = reportKindTableDispatched \<Longrightarrow> pr_tableName r = n \<Longrightarrow> pr_tasksCount r \<noteq> 0"
  shows "run_inv n evs s"
  using assms(1) by (induction rule: rtranclp_induct) (auto intro: run_inv_init run_inv_step [OF _ _ assms(2,3)])

text \<open>A dispatch is reported with the number of the tasks, which is not zero when there is a task.\<close>

lemma dispatch_counts:
  assumes "script_ok n evs" "tasks_of n evs \<noteq> {#}" "Reported r \<in> set evs" "pr_kind r = reportKindTableDispatched" "pr_tableName r = n"
  shows "pr_tasksCount r \<noteq> 0"
proof -
  obtain p q where pq: "evs = p @ Reported r # q" using assms(3) by (metis split_list)
  then have "tasks_of n q = {#}" using after_dispatch [of n "p @ [Reported r]" q] assms(1,4,5) by simp
  then have "tasks_of n p \<noteq> {#}" using assms(2) pq by simp
  then show ?thesis using script_at(3) [of n p r q] assms(1,4,5) pq by simp
qed

text \<open>When all is done, nothing of the table is being read and nothing was abandoned.\<close>

lemma run_all_done:
  assumes "run_inv n evs s" "script_ok n evs"
  shows "all_done n (rs_reports s) \<longleftrightarrow> hist_dispatched n (rs_reports s) \<and> of_name n (rs_finished s) = tasks_of n evs"
proof (cases "hist_dispatched n (rs_reports s)")
  case True
  obtain p where p: "evs = p @ rs_todo s" "run_at n p s" using assms(1) by (auto simp: run_inv_def)
  have d: "dispatches n p" using p(2) True by (simp add: run_at_def)
  have t: "tasks_of n evs = tasks_of n p" using after_dispatch [of n p "rs_todo s"] assms(2) p(1) d by simp
  have c: "tasks_of n p = of_name n (rs_finished s) + (being_read n s + of_name n (rs_abandoned s))" "hist_tasks n (rs_reports s) = int (size (tasks_of n p))"
    "hist_done n (rs_reports s) = int (size (of_name n (rs_finished s)))"
    using p(2) d by (simp_all add: run_at_def ac_simps)
  have "size (of_name n (rs_finished s)) = size (tasks_of n p) \<longleftrightarrow> of_name n (rs_finished s) = tasks_of n p"
    unfolding c(1) by auto
  then show ?thesis using True c(2,3) t by (simp add: all_done_def)
qed (simp add: all_done_def)

text \<open>
  (C12) The tracking of progress completes a table only when it was read, whatever the interleaving of the dispatching
  loop, the workers and the acknowledgements. Take a table for which the loop has at least one task, that was not completed before,
  and any state that a run over the tables reaches: after the reports made so far are processed the stored status of
  the table is completed if and only if the loop has reported it as dispatched, the tasks that workers have read to
  the end are, with their multiplicities, all the tasks of the table, at least one batch was reported for it, and the largest
  LSN reported for its batches is not above the largest LSN that was acknowledged. So a table whose tasks return no row is not
  completed here but by \<open>finish_run\<close>, which stores all tables without an error as completed when the run ends; and an
  acknowledged LSN is what the listener reports, whether or not a batch below it was lost on the way.
\<close>

theorem completed_table_was_read:
  assumes "runSnapshotLoop env cfg w sts = Some (evs, sts1)" "distinct (map ts_TableName sts)"
    and "\<And>st table. st \<in> set sts \<Longrightarrow> lv_get env (ParseTableName (ts_TableName st)) = Some table \<Longrightarrow> FullName table = ts_TableName st"
    and "i < length sts" "ts_TableName (sts ! i) = n" "ts_Status (sts ! i) \<noteq> StatusCompleted"
    and "stored_status d0 n \<noteq> None" "stored_status d0 n \<noteq> Some StatusCompleted" "tasks_of n evs \<noteq> {#}"
    and "run_steps (run_init evs w) s" "trackProgress (store_upd now) sts (rs_reports s) d0 = (t, d)"
  shows "stored_status d n = Some StatusCompleted \<longleftrightarrow> hist_dispatched n (rs_reports s) \<and> of_name n (rs_finished s) = tasks_of n evs \<and>
    0 < hist_max n (rs_reports s) \<and> hist_max n (rs_reports s) \<le> hist_acked (rs_reports s)"
proof -
  have sc: "script_ok n evs" by (rule runSnapshotLoop_script [OF assms(1-3)])
  have inv: "run_inv n evs s" by (rule run_inv_steps [OF assms(10) sc dispatch_counts [OF sc assms(9)]])
  then have "ordered_reports n (rs_reports s)" by (auto simp: run_inv_def run_at_def)
  then have "stored_status d n = Some StatusCompleted \<longleftrightarrow> settled n (rs_reports s)"
    using snapshot_state.tracked_history [OF new_tracker_follows [OF assms(2,4-6)] assms(7,8), of "rs_reports s" now 10 t d] assms(11)
    by (simp add: trackProgress_def)
  then show ?thesis using run_all_done [OF inv sc] by (auto simp: settled_def all_done_def)
qed

text \<open>A table with a condition whose few rows are read by one query.\<close>

definition read_env :: loop_env where
  "read_env = failing_estimate\<lparr>lv_base := (\<lambda>_. Inr (1000, 3)), lv_filtered := (\<lambda>_. Inr 1)\<rparr>"

definition read_tables :: "TableState list" where
  "read_tables = [plan_state\<lparr>ts_Status := StatusInProgress\<rparr>]"

definition read_store :: "StateManager \<times> state_table" where
  "read_store = (NewStateManager ''app'', [(''app'', ''public.t'') \<mapsto> hd read_tables])"

lemma public_t:
  "tn_Schema (ParseTableName ''public.t'') = ''public''" "tn_Name (ParseTableName ''public.t'') = ''t''"
  "FullName (AddColumn c (NewTable ''public'' ''t'')) = ''public.t''"
  by (code_simp, code_simp, simp add: FullName_def MakeTableName_def NewTable_def AddColumn_def Let_def)

lemma read_loop: "\<exists>t sts1. runSnapshotLoop read_env plan_cfg 1 read_tables = Some
    ([Reported ((report_of reportKindTableStarted ''public.t'')\<lparr>pr_totalRows := 1\<rparr>), Task t,
      Reported ((report_of reportKindTableDispatched ''public.t'')\<lparr>pr_tasksCount := 1\<rparr>)], sts1) \<and> FullName (task_table t) = ''public.t''"
proof -
  have c: "snapshotColumnNames (Some (AddColumn \<lparr>col_Name = ''id'', TypeID = 23, IsPK = True, Position = 1\<rparr> (NewTable ''public'' ''t''))) = [''id'']" by code_simp
  have i: "i64 2 = 2" by code_simp
  have q: "BuildSelectQuery n cs wh \<noteq> []" for n cs wh by (simp add: BuildSelectQuery_def)
  show ?thesis
    by (simp add: read_tables_def plan_state_def new_TableState_def loop_table_def read_env_def failing_estimate_def public_t c q i Let_def
      getTableEstimate_def planSnapshotTable_def shouldRunQuerySnapshotAsSingleTask_def plan_cfg_def table_tasks_def plan_tasks_def)
qed


definition read_state :: "loop_event list \<Rightarrow> worker \<Rightarrow> LSN \<Rightarrow> LSN \<Rightarrow> progressReport list \<Rightarrow> snapshotTask multiset \<Rightarrow> run_state" where
  "read_state evs wk k m rs fin = \<lparr>rs_todo = evs, rs_workers = [wk], rs_lsn = \<lparr>lt_nextLSN = k, lt_maxSubmitted = m\<rparr>,
     rs_reports = rs, rs_errors = [], rs_finished = fin, rs_abandoned = {#}\<rparr>"

text \<open>One worker takes the task, sends one batch with position 1 and finishes; the position is acknowledged.\<close>

lemma read_run:
  assumes "FullName (task_table t) = n"
  shows "run_steps (run_init [Reported a, Task t, Reported b] 1) (read_state [] Waiting 1 1
    [a, (report_of reportKindMaxLSN n)\<lparr>pr_maxLSN := 1\<rparr>, report_of reportKindTaskDone n, b, (report_of reportKindLSNAck [])\<lparr>pr_maxLSN := 1\<rparr>] {#t#})"
proof -
  let ?m = "(report_of reportKindMaxLSN n)\<lparr>pr_maxLSN := 1\<rparr>" and ?d = "report_of reportKindTaskDone n"
  note s = read_state_def
  have s0: "run_init [Reported a, Task t, Reported b] 1 = read_state [Reported a, Task t, Reported b] Waiting 0 0 [] {#}" by (simp add: run_init_def s)
  have s1: "run_step (read_state [Reported a, Task t, Reported b] Waiting 0 0 [] {#}) (read_state [Task t, Reported b] Waiting 0 0 [a] {#})"
    by (rule dispatching) (use loop_reports [of "read_state [Reported a, Task t, Reported b] Waiting 0 0 [] {#}"] in \<open>simp add: s\<close>)
  have s2: "run_step (read_state [Task t, Reported b] Waiting 0 0 [a] {#}) (read_state [Reported b] (Reading t) 0 0 [a] {#})"
    by (rule dispatching) (use loop_sends [of "read_state [Task t, Reported b] Waiting 0 0 [a] {#}" t _ 0] in \<open>simp add: s\<close>)
  have s3: "run_step (read_state [Reported b] (Reading t) 0 0 [a] {#}) (read_state [Reported b] (Sending t 1) 1 0 [a] {#})"
    by (rule working) (use takes_lsn [of 0 "read_state [Reported b] (Reading t) 0 0 [a] {#}" t] in \<open>simp add: s NextLSN_def\<close>)
  have s4: "run_step (read_state [Reported b] (Sending t 1) 1 0 [a] {#}) (read_state [Reported b] (Reading t) 1 1 [a, ?m] {#})"
    by (rule working) (use reports_batch [of 0 "read_state [Reported b] (Sending t 1) 1 0 [a] {#}" t 1] assms in \<open>simp add: s\<close>)
  have s5: "run_step (read_state [Reported b] (Reading t) 1 1 [a, ?m] {#}) (read_state [Reported b] Waiting 1 1 [a, ?m, ?d] {#t#})"
    by (rule working) (use finishes [of 0 "read_state [Reported b] (Reading t) 1 1 [a, ?m] {#}" t] assms in \<open>simp add: s\<close>)
  have s6: "run_step (read_state [Reported b] Waiting 1 1 [a, ?m, ?d] {#t#}) (read_state [] Waiting 1 1 [a, ?m, ?d, b] {#t#})"
    by (rule dispatching) (use loop_reports [of "read_state [Reported b] Waiting 1 1 [a, ?m, ?d] {#t#}"] in \<open>simp add: s\<close>)
  have s7: "run_step (read_state [] Waiting 1 1 [a, ?m, ?d, b] {#t#}) (read_state [] Waiting 1 1 [a, ?m, ?d, b, (report_of reportKindLSNAck [])\<lparr>pr_maxLSN := 1\<rparr>] {#t#})"
    by (rule acknowledging) (use acks_lsn [of 1 "read_state [] Waiting 1 1 [a, ?m, ?d, b] {#t#}"] in \<open>simp add: s\<close>)
  note c = converse_rtranclp_into_rtranclp [where r = run_step]
  show ?thesis unfolding s0 by (rule c [OF s1 c [OF s2 c [OF s3 c [OF s4 c [OF s5 c [OF s6 c [OF s7 rtranclp.rtrancl_refl]]]]]]])
qed

theorem completed_table_was_read_witness:
  "\<exists>evs sts1 s. runSnapshotLoop read_env plan_cfg 1 read_tables = Some (evs, sts1) \<and> run_steps (run_init evs 1) s \<and>
     stored_status (snd (trackProgress (store_upd 0) read_tables (rs_reports s) read_store)) ''public.t'' = Some StatusCompleted"
proof -
  obtain x sts1 where l: "runSnapshotLoop read_env plan_cfg 1 read_tables = Some
    ([Reported ((report_of reportKindTableStarted ''public.t'')\<lparr>pr_totalRows := 1\<rparr>), Task x,
      Reported ((report_of reportKindTableDispatched ''public.t'')\<lparr>pr_tasksCount := 1\<rparr>)], sts1)" and n: "FullName (task_table x) = ''public.t''"
    using read_loop by blast
  note r = read_run [OF n, of "(report_of reportKindTableStarted ''public.t'')\<lparr>pr_totalRows := 1\<rparr>" "(report_of reportKindTableDispatched ''public.t'')\<lparr>pr_tasksCount := 1\<rparr>"]
  let ?h = "[(report_of reportKindTableStarted ''public.t'')\<lparr>pr_totalRows := 1\<rparr>, (report_of reportKindMaxLSN ''public.t'')\<lparr>pr_maxLSN := 1\<rparr>,
    report_of reportKindTaskDone ''public.t'', (report_of reportKindTableDispatched ''public.t'')\<lparr>pr_tasksCount := 1\<rparr>,
    (report_of reportKindLSNAck [])\<lparr>pr_maxLSN := 1\<rparr>]"
  have h: "hist_dispatched ''public.t'' ?h" "0 < hist_max ''public.t'' ?h" "hist_max ''public.t'' ?h \<le> hist_acked ?h" by code_simp+
  obtain t d where p: "trackProgress (store_upd 0) read_tables ?h read_store = (t, d)" by (rule prod.exhaust)
  have st: "stored_status read_store ''public.t'' = Some StatusInProgress" "map ts_TableName read_tables = [''public.t'']" "length read_tables = 1"
    "ts_TableName (read_tables ! 0) = ''public.t''" "ts_Status (read_tables ! 0) = StatusInProgress"
    by (simp_all add: stored_status_def read_store_def read_tables_def NewStateManager_def plan_state_def new_TableState_def)
  have f: "FullName table = ts_TableName u" if "u \<in> set read_tables" "lv_get read_env (ParseTableName (ts_TableName u)) = Some table" for u table
  proof -
    have "ts_TableName u = ''public.t''" using that(1) by (simp add: read_tables_def plan_state_def new_TableState_def)
    then show ?thesis using that(2) public_t by (auto simp: read_env_def failing_estimate_def)
  qed
  let ?s = "read_state [] Waiting 1 1 ?h {#x#}"
  have p': "trackProgress (store_upd 0) read_tables (rs_reports ?s) read_store = (t, d)" using p by (simp add: read_state_def)
  have "stored_status d ''public.t'' = Some StatusCompleted \<longleftrightarrow> hist_dispatched ''public.t'' (rs_reports ?s) \<and> of_name ''public.t'' (rs_finished ?s) =
      tasks_of ''public.t'' [Reported ((report_of reportKindTableStarted ''public.t'')\<lparr>pr_totalRows := 1\<rparr>), Task x,
        Reported ((report_of reportKindTableDispatched ''public.t'')\<lparr>pr_tasksCount := 1\<rparr>)] \<and>
      0 < hist_max ''public.t'' (rs_reports ?s) \<and> hist_max ''public.t'' (rs_reports ?s) \<le> hist_acked (rs_reports ?s)"
    by (rule completed_table_was_read [where i = 0, OF l _ f _ _ _ _ _ _ r p']) (simp_all only: st n, simp_all add: n)
  moreover have "rs_reports ?s = ?h" "rs_finished ?s = {#x#}" by (simp_all add: read_state_def)
  ultimately have "stored_status d ''public.t'' = Some StatusCompleted" using h n by simp
  then show ?thesis using l r p' by (intro exI [of _ "[Reported ((report_of reportKindTableStarted ''public.t'')\<lparr>pr_totalRows := 1\<rparr>), Task x,
      Reported ((report_of reportKindTableDispatched ''public.t'')\<lparr>pr_tasksCount := 1\<rparr>)]"] exI [of _ sts1] exI [of _ ?s]) simp
qed

end
