(* ===== verification/Offsettracker.thy ===== *)
theory Offsettracker
  imports Prelude "HOL-Library.Multiset"
begin

text \<open>
  \<open>offsettracker/offset_tracker.go\<close>: offsets are added with sub-offsets, acknowledged, and confirmed up to the first one
  that is not acknowledged. The tracker keeps a cursor and discards confirmed entries from time to time;
  the theorem is that neither can be observed. The bitmap is a library: its operations
  are parameters, with their laws as a hypothesis.
\<close>

section \<open>Bitmaps\<close>

record 'b bitmap_ops =
  bm_empty :: 'b
  bm_Set :: "32 word \<Rightarrow> 'b \<Rightarrow> 'b"
  bm_Remove :: "32 word \<Rightarrow> 'b \<Rightarrow> 'b"
  bm_Count :: "'b \<Rightarrow> nat"

definition bitmap_laws :: "'b bitmap_ops \<Rightarrow> ('b \<Rightarrow> 32 word set) \<Rightarrow> bool" where
  "bitmap_laws bm bits \<longleftrightarrow> bits (bm_empty bm) = {} \<and> (\<forall>x b. bits (bm_Set bm x b) = insert x (bits b)) \<and>
     (\<forall>x b. bits (bm_Remove bm x b) = bits b - {x}) \<and> (\<forall>b. bm_Count bm b = card (bits b))"

lemma bitmap_fold:
  assumes "bitmap_laws bm bits"
  shows "bits (fold (bm_Set bm) xs b) = bits b \<union> set xs" "bits (fold (bm_Remove bm) xs b) = bits b - set xs" "bm_Count bm b = 0 \<longleftrightarrow> bits b = {}"
proof -
  show "bits (fold (bm_Set bm) xs b) = bits b \<union> set xs" "bits (fold (bm_Remove bm) xs b) = bits b - set xs"
    using assms by (induction xs arbitrary: b) (auto simp: bitmap_laws_def)
  show "bm_Count bm b = 0 \<longleftrightarrow> bits b = {}" using assms by (simp add: bitmap_laws_def)
qed

section \<open>The tracker\<close>

record ('t, 'b) offsetEntry =
  oe_entry :: 't
  oe_subOffsets :: 'b

definition newOffsetEntry :: "'b bitmap_ops \<Rightarrow> 't \<Rightarrow> 32 word list \<Rightarrow> ('t, 'b) offsetEntry" where
  "newOffsetEntry bm off subOffsets = \<lparr>oe_entry = off, oe_subOffsets = fold (bm_Set bm) subOffsets (bm_empty bm)\<rparr>"

text \<open>\<open>ot_cap\<close> is the capacity of the slice \<open>offsets\<close>; \<open>grow\<close> below is how \<open>append\<close> enlarges it.\<close>

record ('t, 'b) OffsetTracker =
  ot_acked :: "64 word \<rightharpoonup> bool"
  ot_entries :: "64 word \<rightharpoonup> ('t, 'b) offsetEntry"
  ot_offsets :: "64 word list"
  ot_cap :: nat
  ot_lastMaxAck :: 't
  ot_ackCheckStart :: nat

record ProbeResult =
  Exists :: bool
  Acknowledged :: bool

definition NewOffsetTracker :: "'t \<Rightarrow> ('t, 'b) OffsetTracker" where
  "NewOffsetTracker defaultT = \<lparr>ot_acked = Map.empty, ot_entries = Map.empty, ot_offsets = [], ot_cap = 1000,
     ot_lastMaxAck = defaultT, ot_ackCheckStart = 0\<rparr>"

definition ot_Probe :: "64 word \<Rightarrow> ('t, 'b) OffsetTracker \<Rightarrow> ProbeResult" where
  "ot_Probe off t = (case ot_acked t off of None \<Rightarrow> \<lparr>Exists = False, Acknowledged = False\<rparr> | Some a \<Rightarrow> \<lparr>Exists = True, Acknowledged = a\<rparr>)"

definition AddWithSubOffsets ::
  "'b bitmap_ops \<Rightarrow> (nat \<Rightarrow> nat) \<Rightarrow> ('t \<Rightarrow> 64 word) \<Rightarrow> 't \<Rightarrow> 32 word list \<Rightarrow> ('t, 'b) OffsetTracker \<Rightarrow> ProbeResult \<times> ('t, 'b) OffsetTracker" where
  "AddWithSubOffsets bm grow Offset x subOffsets t =
     (let off = Offset x in
      if off < Offset (ot_lastMaxAck t) then (\<lparr>Exists = False, Acknowledged = True\<rparr>, t)
      else (case ot_acked t off of
          Some acked \<Rightarrow> (\<lparr>Exists = True, Acknowledged = acked\<rparr>, t)
        | None \<Rightarrow> (\<lparr>Exists = False, Acknowledged = False\<rparr>,
            t\<lparr>ot_acked := (ot_acked t)(off \<mapsto> False), ot_offsets := sort (ot_offsets t @ [off]),
              ot_cap := (if length (ot_offsets t) < ot_cap t then ot_cap t else grow (ot_cap t)),
              ot_entries := (ot_entries t)(off \<mapsto> newOffsetEntry bm x subOffsets)\<rparr>)))"

definition ot_Add :: "'b bitmap_ops \<Rightarrow> (nat \<Rightarrow> nat) \<Rightarrow> ('t \<Rightarrow> 64 word) \<Rightarrow> 't \<Rightarrow> ('t, 'b) OffsetTracker \<Rightarrow> ProbeResult \<times> ('t, 'b) OffsetTracker" where
  "ot_Add bm grow Offset x t = AddWithSubOffsets bm grow Offset x [0] t"

definition AcknowledgeWithSubOffsets ::
  "'b bitmap_ops \<Rightarrow> ('t \<Rightarrow> 64 word) \<Rightarrow> 't \<Rightarrow> 32 word list \<Rightarrow> ('t, 'b) OffsetTracker \<Rightarrow> bool \<times> ('t, 'b) OffsetTracker" where
  "AcknowledgeWithSubOffsets bm Offset x subOffsets t =
     (let off = Offset x in
      if ot_acked t off = Some True then (True, t)
      else (case ot_entries t off of
          None \<Rightarrow> (False, t)
        | Some entry \<Rightarrow>
           let b = fold (bm_Remove bm) subOffsets (oe_subOffsets entry);
               t1 = t\<lparr>ot_entries := (ot_entries t)(off \<mapsto> entry\<lparr>oe_subOffsets := b\<rparr>)\<rparr>
           in if bm_Count bm b = 0 then (True, t1\<lparr>ot_acked := (ot_acked t1)(off \<mapsto> True)\<rparr>) else (False, t1)))"

text \<open>The scan of \<open>MaxAcknowledged\<close>, from the cursor over acknowledged offsets.\<close>

fun ack_scan :: "(64 word \<rightharpoonup> bool) \<Rightarrow> (64 word \<rightharpoonup> ('t, 'b) offsetEntry) \<Rightarrow> 64 word list \<Rightarrow> nat \<Rightarrow>
  64 word \<Rightarrow> ('t, 'b) offsetEntry option \<Rightarrow> nat \<times> 64 word \<times> ('t, 'b) offsetEntry option" where
  "ack_scan acked entries [] i m mt = (i, m, mt)"
| "ack_scan acked entries (off # offs) i m mt =
     (if acked off \<noteq> Some True then (i, m, mt) else ack_scan acked entries offs (i + 1) off (entries off))"

definition ot_MaxAcknowledged :: "('t, 'b) OffsetTracker \<Rightarrow> 't \<times> ('t, 'b) OffsetTracker" where
  "ot_MaxAcknowledged t =
     (let delThreshold = ot_cap t div 4;
          (i, maxAcknowledged, maxAcknowledgedT) =
            ack_scan (ot_acked t) (ot_entries t) (drop (ot_ackCheckStart t) (ot_offsets t)) (ot_ackCheckStart t) 0 None
      in case maxAcknowledgedT of
           None \<Rightarrow> (ot_lastMaxAck t, t)
         | Some e \<Rightarrow>
            if maxAcknowledged = 0 then (ot_lastMaxAck t, t)
            else
              let t1 = t\<lparr>ot_ackCheckStart := i\<rparr>;
                  t2 = (if delThreshold \<le> i
                        then t1\<lparr>ot_acked := ot_acked t1 |` (- set (take i (ot_offsets t1))),
                               ot_entries := ot_entries t1 |` (- set (take i (ot_offsets t1))),
                               ot_offsets := drop i (ot_offsets t1), ot_cap := ot_cap t1 - i, ot_ackCheckStart := 0\<rparr>
                        else t1)
              in (oe_entry e, t2\<lparr>ot_lastMaxAck := oe_entry e\<rparr>))"

lemma ack_scan_takeWhile:
  "ack_scan acked entries offs i m mt = (let p = takeWhile (\<lambda>x. acked x = Some True) offs in
     (i + length p, if p = [] then (m, mt) else (last p, entries (last p))))"
  by (induction offs arbitrary: i m mt) (auto simp: Let_def)

section \<open>The specification\<close>

text \<open>
  The tracker without cursor and clean-up: the confirmed value and the entries above it in order, each with
  the sub-offsets that wait for acknowledgement and a mark for being acknowledged.
\<close>

record 't spec_entry =
  sp_value :: 't
  sp_waiting :: "32 word set"
  sp_acked :: bool

record 't spec_tracker =
  sp_confirmed :: 't
  sp_above :: "(64 word \<times> 't spec_entry) list"

definition spec_add :: "('t \<Rightarrow> 64 word) \<Rightarrow> 't \<Rightarrow> 32 word list \<Rightarrow> 't spec_tracker \<Rightarrow> ProbeResult \<times> 't spec_tracker" where
  "spec_add Offset x subOffsets a =
     (case map_of (sp_above a) (Offset x) of
        Some e \<Rightarrow> (\<lparr>Exists = True, Acknowledged = sp_acked e\<rparr>, a)
      | None \<Rightarrow> (\<lparr>Exists = False, Acknowledged = False\<rparr>,
          a\<lparr>sp_above := insort_key fst (Offset x, \<lparr>sp_value = x, sp_waiting = set subOffsets, sp_acked = False\<rparr>) (sp_above a)\<rparr>))"

definition spec_ack :: "('t \<Rightarrow> 64 word) \<Rightarrow> 't \<Rightarrow> 32 word list \<Rightarrow> 't spec_tracker \<Rightarrow> bool \<times> 't spec_tracker" where
  "spec_ack Offset x subOffsets a =
     (case map_of (sp_above a) (Offset x) of
        None \<Rightarrow> (False, a)
      | Some e \<Rightarrow>
         if sp_acked e then (True, a)
         else let w = sp_waiting e - set subOffsets in
              (w = {}, a\<lparr>sp_above := map (\<lambda>(k, v). if k = Offset x then (k, v\<lparr>sp_waiting := w, sp_acked := w = {}\<rparr>) else (k, v)) (sp_above a)\<rparr>))"

definition spec_max :: "'t spec_tracker \<Rightarrow> 't \<times> 't spec_tracker" where
  "spec_max a =
     (let p = takeWhile (sp_acked \<circ> snd) (sp_above a);
          c = (if p = [] then sp_confirmed a else sp_value (snd (last p)))
      in (c, \<lparr>sp_confirmed = c, sp_above = dropWhile (sp_acked \<circ> snd) (sp_above a)\<rparr>))"

section \<open>The tracker implements the specification\<close>

definition ot_view :: "('b \<Rightarrow> 32 word set) \<Rightarrow> ('t, 'b) OffsetTracker \<Rightarrow> 64 word \<Rightarrow> 64 word \<times> 't spec_entry" where
  "ot_view bits t off = (off, \<lparr>sp_value = oe_entry (the (ot_entries t off)), sp_waiting = bits (oe_subOffsets (the (ot_entries t off))),
     sp_acked = (ot_acked t off = Some True)\<rparr>)"

abbreviation unconfirmed :: "('t, 'b) OffsetTracker \<Rightarrow> 64 word list" where
  "unconfirmed t \<equiv> drop (ot_ackCheckStart t) (ot_offsets t)"

definition ot_abs :: "('b \<Rightarrow> 32 word set) \<Rightarrow> ('t, 'b) OffsetTracker \<Rightarrow> 't spec_tracker" where
  "ot_abs bits t = \<lparr>sp_confirmed = ot_lastMaxAck t, sp_above = map (ot_view bits t) (unconfirmed t)\<rparr>"

text \<open>
  The offsets are in order, each has its entry, those before the cursor are acknowledged and not above the confirmed
  one, those after it are above.
\<close>

definition ot_inv :: "('t \<Rightarrow> 64 word) \<Rightarrow> ('t, 'b) OffsetTracker \<Rightarrow> bool" where
  "ot_inv Offset t \<longleftrightarrow> sorted (ot_offsets t) \<and> distinct (ot_offsets t) \<and> ot_ackCheckStart t \<le> length (ot_offsets t) \<and>
     dom (ot_acked t) = set (ot_offsets t) \<and> dom (ot_entries t) = set (ot_offsets t) \<and>
     (\<forall>o'\<in>set (take (ot_ackCheckStart t) (ot_offsets t)). o' \<le> Offset (ot_lastMaxAck t)) \<and>
     (\<forall>o'\<in>set (unconfirmed t). Offset (ot_lastMaxAck t) < o') \<and>
     (\<forall>o' e. ot_entries t o' = Some e \<longrightarrow> Offset (oe_entry e) = o')"

lemma ot_inv_new: "ot_inv Offset (NewOffsetTracker x)"
  by (simp add: ot_inv_def NewOffsetTracker_def)

lemma map_of_view: "map_of (map (ot_view bits t) offs) off = (if off \<in> set offs then Some (snd (ot_view bits t off)) else None)"
  by (induction offs) (auto simp: ot_view_def)

text \<open>An offset above the confirmed one is tracked if and only if it is after the cursor.\<close>

lemma ot_above:
  assumes "ot_inv Offset t" "Offset (ot_lastMaxAck t) < off"
  shows "off \<in> set (ot_offsets t) \<longleftrightarrow> off \<in> set (unconfirmed t)"
proof
  assume "off \<in> set (ot_offsets t)"
  then have "off \<in> set (take (ot_ackCheckStart t) (ot_offsets t)) \<or> off \<in> set (unconfirmed t)"
    by (metis Un_iff append_take_drop_id set_append)
  then show "off \<in> set (unconfirmed t)" using assms unfolding ot_inv_def by fastforce
qed (rule in_set_dropD)

lemma sorted_le_last: "sorted xs \<Longrightarrow> (x::'a::linorder) \<in> set xs \<Longrightarrow> x \<le> last xs"
  by (induction xs) auto

lemma insort_above:
  assumes "\<forall>y\<in>set xs. y < (x::'a::linorder)"
  shows "insort x (xs @ ys) = xs @ insort x ys"
  using assms by (induction xs) auto

lemma insort_view: "insort_key fst (ot_view bits t off) (map (ot_view bits t) offs) = map (ot_view bits t) (insort off offs)"
  by (induction offs) (auto simp: ot_view_def)

lemma AddWithSubOffsets_refines:
  assumes laws: "bitmap_laws bm bits" and inv: "ot_inv Offset t" and above: "Offset (ot_lastMaxAck t) < Offset x"
    and run: "AddWithSubOffsets bm grow Offset x subOffsets t = (r, t1)"
  shows "ot_inv Offset t1 \<and> spec_add Offset x subOffsets (ot_abs bits t) = (r, ot_abs bits t1)"
proof (cases "ot_acked t (Offset x)")
  case (Some acked)
  then have "Offset x \<in> set (unconfirmed t)" using ot_above [OF inv above] inv by (auto simp: ot_inv_def)
  then show ?thesis using Some inv run less_imp_not_less [OF above]
    by (auto simp: AddWithSubOffsets_def Let_def spec_add_def ot_abs_def map_of_view ot_view_def)
next
  case None
  let ?o = "Offset x" and ?k = "ot_ackCheckStart t"
  have new: "?o \<notin> set (ot_offsets t)" using None inv by (auto simp: ot_inv_def domIff)
  have t1: "r = \<lparr>Exists = False, Acknowledged = False\<rparr>" "ot_acked t1 = (ot_acked t)(?o \<mapsto> False)" "ot_entries t1 = (ot_entries t)(?o \<mapsto> newOffsetEntry bm x subOffsets)"
    "ot_offsets t1 = sort (ot_offsets t @ [?o])" "ot_lastMaxAck t1 = ot_lastMaxAck t" "ot_ackCheckStart t1 = ?k"
    using run None less_imp_not_less [OF above] by (auto simp: AddWithSubOffsets_def Let_def)
  have so: "sorted (ot_offsets t)" and le: "\<forall>y\<in>set (take ?k (ot_offsets t)). y < ?o" and k: "?k \<le> length (ot_offsets t)"
    using inv above by (auto simp: ot_inv_def)
  have "sort (ot_offsets t @ [?o]) = insort ?o (ot_offsets t)"
    by (rule properties_for_sort) (use so in \<open>auto simp: sorted_insort\<close>)
  also have "\<dots> = take ?k (ot_offsets t) @ insort ?o (unconfirmed t)" using insort_above [OF le, of "unconfirmed t"] by simp
  finally have os: "ot_offsets t1 = take ?k (ot_offsets t) @ insort ?o (unconfirmed t)" by (simp add: t1)
  then have un: "unconfirmed t1 = insort ?o (unconfirmed t)" "take ?k (ot_offsets t1) = take ?k (ot_offsets t)" using k by (simp_all add: t1(6) min_def)
  have st: "set (ot_offsets t1) = insert ?o (set (ot_offsets t))" by (simp add: t1(4))
  have ab: "\<forall>y\<in>set (unconfirmed t1). Offset (ot_lastMaxAck t) < y"
    using inv above unfolding un(1) by (auto simp: ot_inv_def set_insort_key)
  have "ot_inv Offset t1"
    using inv new above k st ab unfolding ot_inv_def
    by (simp add: t1(2,3,5,6) un(2)) (auto simp: t1(4) newOffsetEntry_def split: if_splits)
  moreover have same: "map (ot_view bits t1) (unconfirmed t) = map (ot_view bits t) (unconfirmed t)"
    using new by (auto simp: ot_view_def t1(2,3) dest: in_set_dropD)
  moreover have "ot_view bits t1 ?o = (?o, \<lparr>sp_value = x, sp_waiting = set subOffsets, sp_acked = False\<rparr>)"
    using bitmap_fold(1) [OF laws, of subOffsets] laws by (simp add: ot_view_def t1(2,3) newOffsetEntry_def bitmap_laws_def)
  moreover have "map_of (sp_above (ot_abs bits t)) ?o = None" using new by (auto simp: ot_abs_def map_of_view dest: in_set_dropD)
  ultimately show ?thesis using insort_view [of bits t1 ?o "unconfirmed t", unfolded same]
    by (simp add: spec_add_def ot_abs_def un t1(1,5))
qed

lemma AcknowledgeWithSubOffsets_refines:
  assumes laws: "bitmap_laws bm bits" and inv: "ot_inv Offset t" and above: "Offset (ot_lastMaxAck t) < Offset x"
    and run: "AcknowledgeWithSubOffsets bm Offset x subOffsets t = (r, t1)"
  shows "ot_inv Offset t1 \<and> spec_ack Offset x subOffsets (ot_abs bits t) = (r, ot_abs bits t1)"
proof (cases "Offset x \<in> set (unconfirmed t)")
  case False
  then have "Offset x \<notin> set (ot_offsets t)" using ot_above [OF inv above] by simp
  then have "ot_acked t (Offset x) = None" "ot_entries t (Offset x) = None" using inv by (auto simp: ot_inv_def)
  then show ?thesis using run inv False by (auto simp: AcknowledgeWithSubOffsets_def spec_ack_def ot_abs_def map_of_view)
next
  case True
  let ?o = "Offset x"
  obtain e a where e: "ot_entries t ?o = Some e" "ot_acked t ?o = Some a"
    using True inv unfolding ot_inv_def by (metis domD in_set_dropD)
  show ?thesis
  proof (cases a)
    case True
    then show ?thesis using e run inv \<open>?o \<in> set (unconfirmed t)\<close>
      by (auto simp: AcknowledgeWithSubOffsets_def spec_ack_def ot_abs_def map_of_view ot_view_def)
  next
    case False
    let ?b = "fold (bm_Remove bm) subOffsets (oe_subOffsets e)"
    have b: "bits ?b = bits (oe_subOffsets e) - set subOffsets" "bm_Count bm ?b = 0 \<longleftrightarrow> bits ?b = {}" by (rule bitmap_fold [OF laws])+
    have t1: "r = (bits ?b = {})" "ot_acked t1 = (if bits ?b = {} then (ot_acked t)(?o \<mapsto> True) else ot_acked t)"
      "ot_entries t1 = (ot_entries t)(?o \<mapsto> e\<lparr>oe_subOffsets := ?b\<rparr>)" "ot_offsets t1 = ot_offsets t" "ot_lastMaxAck t1 = ot_lastMaxAck t"
      "ot_ackCheckStart t1 = ot_ackCheckStart t"
      using run e False by (auto simp: AcknowledgeWithSubOffsets_def Let_def b(2) split: if_splits)
    have inv1: "ot_inv Offset t1"
      using inv True e in_set_dropD [OF True] unfolding ot_inv_def by (auto simp: t1(2-6) insert_absorb split: if_splits)
    let ?upd = "\<lambda>(k, v). if k = ?o then (k, v\<lparr>sp_waiting := bits (oe_subOffsets e) - set subOffsets,
      sp_acked := bits (oe_subOffsets e) - set subOffsets = {}\<rparr>) else (k, v)"
    have "ot_view bits t1 = ?upd \<circ> ot_view bits t"
      using e False by (auto simp: ot_view_def t1(2,3) b(1) fun_eq_iff)
    then have "ot_abs bits t1 = (ot_abs bits t)\<lparr>sp_above := map ?upd (sp_above (ot_abs bits t))\<rparr>"
      by (simp add: ot_abs_def t1(4-6))
    moreover have "map_of (sp_above (ot_abs bits t)) ?o = Some \<lparr>sp_value = oe_entry e, sp_waiting = bits (oe_subOffsets e), sp_acked = False\<rparr>"
      using e False True by (simp add: ot_abs_def map_of_view ot_view_def)
    ultimately show ?thesis using inv1 by (simp add: spec_ack_def t1(1) b(1) Let_def)
  qed
qed

text \<open>Where the scan stops: the offsets before are at most the last one scanned, those after are above it.\<close>

abbreviation scanned :: "('t, 'b) OffsetTracker \<Rightarrow> 64 word list" where
  "scanned t \<equiv> takeWhile (\<lambda>x. ot_acked t x = Some True) (unconfirmed t)"

abbreviation scan_end :: "('t, 'b) OffsetTracker \<Rightarrow> nat" where
  "scan_end t \<equiv> ot_ackCheckStart t + length (scanned t)"

lemma scan_split:
  "dropWhile (\<lambda>x. ot_acked t x = Some True) (unconfirmed t) = drop (scan_end t) (ot_offsets t)"
  "take (scan_end t) (ot_offsets t) = take (ot_ackCheckStart t) (ot_offsets t) @ scanned t"
  "unconfirmed t = scanned t @ drop (scan_end t) (ot_offsets t)"
proof -
  show dw: "dropWhile (\<lambda>x. ot_acked t x = Some True) (unconfirmed t) = drop (scan_end t) (ot_offsets t)"
    by (simp only: dropWhile_eq_drop drop_drop add.commute)
  show "take (scan_end t) (ot_offsets t) = take (ot_ackCheckStart t) (ot_offsets t) @ scanned t"
    by (simp only: take_add takeWhile_eq_take [symmetric])
  show "unconfirmed t = scanned t @ drop (scan_end t) (ot_offsets t)"
    unfolding dw [symmetric] by (rule takeWhile_dropWhile_id [symmetric])
qed

lemma scan_bounds:
  assumes inv: "ot_inv Offset t" and p: "scanned t \<noteq> []"
  shows "Offset (ot_lastMaxAck t) < last (scanned t)" "scan_end t \<le> length (ot_offsets t)"
    and "x \<in> set (take (scan_end t) (ot_offsets t)) \<Longrightarrow> x \<le> last (scanned t)"
    and "x \<in> set (drop (scan_end t) (ot_offsets t)) \<Longrightarrow> last (scanned t) < x"
    and "set (ot_offsets t) - set (take (scan_end t) (ot_offsets t)) = set (drop (scan_end t) (ot_offsets t))"
proof -
  let ?p = "scanned t" and ?q = "drop (scan_end t) (ot_offsets t)"
  note inv' = inv [unfolded ot_inv_def]
  have lp: "last ?p \<in> set (unconfirmed t)" using p by (metis last_in_set set_takeWhileD)
  then show gt: "Offset (ot_lastMaxAck t) < last ?p" using inv' by auto
  show "scan_end t \<le> length (ot_offsets t)"
    using conjunct1 [OF conjunct2 [OF conjunct2 [OF inv']]] length_takeWhile_le [of "\<lambda>x. ot_acked t x = Some True" "unconfirmed t"] by simp
  have "sorted (unconfirmed t)" "distinct (unconfirmed t)" using inv' by (simp_all add: sorted_wrt_drop)
  then have "sorted (?p @ ?q)" "distinct (?p @ ?q)" unfolding scan_split(3) [symmetric] by simp_all
  then have sd: "sorted ?p" "\<forall>x\<in>set ?p. \<forall>y\<in>set ?q. x \<le> y" "set ?p \<inter> set ?q = {}"
    unfolding sorted_append distinct_append by blast+
  show below: "x \<le> last ?p" if "x \<in> set (take (scan_end t) (ot_offsets t))" for x
    using that gt inv' sorted_le_last [OF sd(1)] unfolding scan_split(2) by fastforce
  show above: "last ?p < x" if "x \<in> set ?q" for x
    using sd(2,3) that last_in_set [OF p] by (metis IntI empty_iff order.not_eq_order_implies_strict)
  have "x \<notin> set (take (scan_end t) (ot_offsets t))" if "x \<in> set ?q" for x using below [of x] above [OF that] by auto
  then show "set (ot_offsets t) - set (take (scan_end t) (ot_offsets t)) = set ?q"
    using set_append [of "take (scan_end t) (ot_offsets t)" ?q, unfolded append_take_drop_id] by blast
qed

lemma ot_MaxAcknowledged_refines:
  assumes inv: "ot_inv Offset t" and run: "ot_MaxAcknowledged t = (r, t1)"
  shows "ot_inv Offset t1 \<and> spec_max (ot_abs bits t) = (r, ot_abs bits t1)"
proof -
  let ?acked = "\<lambda>x. ot_acked t x = Some True" and ?i = "scan_end t" and ?p = "scanned t"
  have tw: "takeWhile (sp_acked \<circ> snd) (map (ot_view bits t) offs) = map (ot_view bits t) (takeWhile ?acked offs)"
    "dropWhile (sp_acked \<circ> snd) (map (ot_view bits t) offs) = map (ot_view bits t) (dropWhile ?acked offs)" for offs
    by (induction offs) (auto simp: ot_view_def)
  note inv' = inv [unfolded ot_inv_def]
  show ?thesis
  proof (cases "?p = []")
    case True
    then have d: "dropWhile ?acked (unconfirmed t) = unconfirmed t" by (metis append_Nil takeWhile_dropWhile_id)
    have "r = ot_lastMaxAck t" "t1 = t" using run True by (auto simp: ot_MaxAcknowledged_def ack_scan_takeWhile)
    then show ?thesis using inv True d by (simp add: spec_max_def ot_abs_def tw Let_def)
  next
    case False
    note sb = scan_bounds [OF inv False]
    have "last ?p \<in> set (unconfirmed t)" using False by (metis last_in_set set_takeWhileD)
    then obtain e where e: "ot_entries t (last ?p) = Some e" using inv' by (metis domD in_set_dropD)
    have off: "Offset (oe_entry e) = last ?p" using inv' e by auto
    have "last ?p \<noteq> 0" using sb(1) by (metis not_less word_zero_le)
    then have t1: "r = oe_entry e" "ot_lastMaxAck t1 = oe_entry e"
      "t1 = (if ot_cap t div 4 \<le> ?i then t\<lparr>ot_acked := ot_acked t |` (- set (take ?i (ot_offsets t))), ot_entries := ot_entries t |` (- set (take ?i (ot_offsets t))),
           ot_offsets := drop ?i (ot_offsets t), ot_cap := ot_cap t - ?i, ot_ackCheckStart := 0, ot_lastMaxAck := oe_entry e\<rparr>
         else t\<lparr>ot_ackCheckStart := ?i, ot_lastMaxAck := oe_entry e\<rparr>)"
      using run False e by (auto simp: ot_MaxAcknowledged_def ack_scan_takeWhile Let_def split: if_splits)
    have un: "unconfirmed t1 = drop ?i (ot_offsets t)" by (simp add: t1(3))
    have "x \<notin> set (take ?i (ot_offsets t))" if "x \<in> set (drop ?i (ot_offsets t))" for x using that sb(5) by blast
    then have view: "map (ot_view bits t1) (drop ?i (ot_offsets t)) = map (ot_view bits t) (drop ?i (ot_offsets t))"
      by (auto simp: ot_view_def t1(3))
    have "ot_inv Offset t1"
    proof (cases "ot_cap t div 4 \<le> ?i")
      case True
      then show ?thesis using inv' sb(4,5) off
        by (auto simp: ot_inv_def t1(3) sorted_wrt_drop restrict_map_def dom_def split: if_splits)
    next
      case False
      then show ?thesis using inv' sb(2-4) off by (auto simp: ot_inv_def t1(3))
    qed
    moreover have "sp_value (snd (last (map (ot_view bits t) ?p))) = oe_entry e"
      using False e by (simp add: last_map ot_view_def)
    ultimately show ?thesis using False t1(1,2) by (simp add: spec_max_def ot_abs_def tw scan_split(1) un view Let_def)
  qed
qed

section \<open>Runs\<close>

datatype 't ot_op = OpAdd 't "32 word list" | OpAck 't "32 word list" | OpMax

datatype 't ot_result = Added ProbeResult | Acked bool | Confirmed 't

fun ot_step :: "'b bitmap_ops \<Rightarrow> (nat \<Rightarrow> nat) \<Rightarrow> ('t \<Rightarrow> 64 word) \<Rightarrow> 't ot_op \<Rightarrow> ('t, 'b) OffsetTracker \<Rightarrow> 't ot_result \<times> ('t, 'b) OffsetTracker" where
  "ot_step bm grow Offset (OpAdd x subs) t = map_prod Added id (AddWithSubOffsets bm grow Offset x subs t)"
| "ot_step bm grow Offset (OpAck x subs) t = map_prod Acked id (AcknowledgeWithSubOffsets bm Offset x subs t)"
| "ot_step bm grow Offset OpMax t = map_prod Confirmed id (ot_MaxAcknowledged t)"

fun spec_step :: "('t \<Rightarrow> 64 word) \<Rightarrow> 't ot_op \<Rightarrow> 't spec_tracker \<Rightarrow> 't ot_result \<times> 't spec_tracker" where
  "spec_step Offset (OpAdd x subs) a = map_prod Added id (spec_add Offset x subs a)"
| "spec_step Offset (OpAck x subs) a = map_prod Acked id (spec_ack Offset x subs a)"
| "spec_step Offset OpMax a = map_prod Confirmed id (spec_max a)"

fun run_ops :: "('op \<Rightarrow> 's \<Rightarrow> 'r \<times> 's) \<Rightarrow> 'op list \<Rightarrow> 's \<Rightarrow> 'r list" where
  "run_ops step [] s = []"
| "run_ops step (op # ops) s = (case step op s of (r, s') \<Rightarrow> r # run_ops step ops s')"

text \<open>Offsets are added and acknowledged above what is confirmed.\<close>

fun op_above :: "('t \<Rightarrow> 64 word) \<Rightarrow> 't ot_op \<Rightarrow> 't spec_tracker \<Rightarrow> bool" where
  "op_above Offset (OpAdd x subs) a \<longleftrightarrow> Offset (sp_confirmed a) < Offset x"
| "op_above Offset (OpAck x subs) a \<longleftrightarrow> Offset (sp_confirmed a) < Offset x"
| "op_above Offset OpMax a \<longleftrightarrow> True"

fun ops_above :: "('t \<Rightarrow> 64 word) \<Rightarrow> 't ot_op list \<Rightarrow> 't spec_tracker \<Rightarrow> bool" where
  "ops_above Offset [] a \<longleftrightarrow> True"
| "ops_above Offset (op # ops) a \<longleftrightarrow> op_above Offset op a \<and> ops_above Offset ops (snd (spec_step Offset op a))"

lemma ot_step_refines:
  assumes "bitmap_laws bm bits" "ot_inv Offset t" "op_above Offset op (ot_abs bits t)" "ot_step bm grow Offset op t = (r, t1)"
  shows "ot_inv Offset t1 \<and> spec_step Offset op (ot_abs bits t) = (r, ot_abs bits t1)"
proof -
  have c: "sp_confirmed (ot_abs bits t) = ot_lastMaxAck t" by (simp add: ot_abs_def)
  show ?thesis
  proof (cases op)
    case (OpAdd x subs)
    then show ?thesis using AddWithSubOffsets_refines [OF assms(1,2), of x grow subs] assms(3,4) c by (auto simp: map_prod_def split: prod.splits)
  next
    case (OpAck x subs)
    then show ?thesis using AcknowledgeWithSubOffsets_refines [OF assms(1,2), of x subs] assms(3,4) c by (auto simp: map_prod_def split: prod.splits)
  next
    case OpMax
    then show ?thesis using ot_MaxAcknowledged_refines [OF assms(2), where bits = bits] assms(4) by (auto simp: map_prod_def split: prod.splits)
  qed
qed

lemma run_refines:
  assumes "bitmap_laws bm bits" "ot_inv Offset t" "ops_above Offset ops (ot_abs bits t)"
  shows "run_ops (ot_step bm grow Offset) ops t = run_ops (spec_step Offset) ops (ot_abs bits t)"
  using assms(2,3)
proof (induction ops arbitrary: t)
  case (Cons op ops)
  obtain r t1 where s: "ot_step bm grow Offset op t = (r, t1)" by (rule prod.exhaust)
  have "ot_inv Offset t1 \<and> spec_step Offset op (ot_abs bits t) = (r, ot_abs bits t1)"
    using ot_step_refines [OF assms(1) Cons.prems(1) _ s] Cons.prems(2) by simp
  then show ?case using s Cons.IH [of t1] Cons.prems(2) by simp
qed simp

text \<open>
  (C16) The cursor and the clean-up of the offset tracker cannot be observed. For every sequence of additions, acknowledgements
  and queries whose offsets are above what is confirmed at the time, a new tracker answers as the reference
  does, which keeps the entries above the confirmed offset in order and confirms the longest acknowledged
  beginning: whatever the capacity of the slice and its growth, and for every bitmap with the laws of sets of bits.
\<close>

theorem OffsetTracker_equals_reference:
  assumes "bitmap_laws bm bits" "ops_above Offset ops \<lparr>sp_confirmed = zero, sp_above = []\<rparr>"
  shows "run_ops (ot_step bm grow Offset) ops (NewOffsetTracker zero) = run_ops (spec_step Offset) ops \<lparr>sp_confirmed = zero, sp_above = []\<rparr>"
proof -
  have "ot_abs bits (NewOffsetTracker zero) = \<lparr>sp_confirmed = zero, sp_above = []\<rparr>" by (simp add: ot_abs_def NewOffsetTracker_def)
  then show ?thesis using run_refines [OF assms(1) ot_inv_new, of Offset ops zero grow] assms(2) by simp
qed

definition set_bitmap :: "32 word set bitmap_ops" where
  "set_bitmap = \<lparr>bm_empty = {}, bm_Set = insert, bm_Remove = (\<lambda>x b. b - {x}), bm_Count = card\<rparr>"

definition sample_ops :: "64 word ot_op list" where
  "sample_ops = [OpAdd 7 [0, 1], OpAdd 5 [0], OpAck 7 [0], OpAck 5 [0], OpMax, OpAdd 9 [], OpAck 7 [1], OpMax]"

theorem OffsetTracker_equals_reference_witness:
  "run_ops (ot_step set_bitmap (\<lambda>c. 2 * c) id) sample_ops (NewOffsetTracker 0) =
     [Added \<lparr>Exists = False, Acknowledged = False\<rparr>, Added \<lparr>Exists = False, Acknowledged = False\<rparr>, Acked False, Acked True, Confirmed 5,
      Added \<lparr>Exists = False, Acknowledged = False\<rparr>, Acked True, Confirmed 7]"
proof -
  have l: "bitmap_laws set_bitmap id" by (auto simp: bitmap_laws_def set_bitmap_def)
  have o: "ops_above id sample_ops \<lparr>sp_confirmed = 0, sp_above = []\<rparr>"
    by (simp add: sample_ops_def spec_add_def spec_ack_def spec_max_def)
  show ?thesis unfolding OffsetTracker_equals_reference [OF l o]
    by (simp add: sample_ops_def spec_add_def spec_ack_def spec_max_def)
qed

text \<open>
  Below the confirmed offset the clean-up shows. The confirmed offset itself is answered as acknowledged when it is added again,
  until it has been discarded; then it is tracked as a new offset.
\<close>

lemma readded_after_cleanup:
  assumes "Offset x = Offset (ot_lastMaxAck t)"
  shows "fst (AddWithSubOffsets bm grow Offset x subOffsets t) =
    (case ot_acked t (Offset x) of Some a \<Rightarrow> \<lparr>Exists = True, Acknowledged = a\<rparr> | None \<Rightarrow> \<lparr>Exists = False, Acknowledged = False\<rparr>)"
  using assms by (auto simp: AddWithSubOffsets_def Let_def split: option.split)

end
