(* ===== verification/Spec2Isabelle.thy ===== *)
theory Spec2Isabelle
  imports Entrypool Circuitbreaker Txbuffer Redisbatch Parallelio Sqsbatch Sqsconfig Replsystem Snapshotacks Apprunner Snapshotrun Offsettracker
begin

text \<open>
  Verification development of pglogrepl2json, the code base of pg2redis and pg2sqs: programs that read
  the logical replication stream of a Postgres publication and write the changed rows to Redis or to
  SQS, after an optional snapshot of the tables.

  \<^bold>\<open>The program and its parts.\<close>
  The replicator (\<open>replicator/pg_replicator.go\<close>) reads messages from a replication connection and hands
  them to the buffered listener (\<open>pg2buffer/buffered_listener.go\<close>), which collects the rows of each
  transaction, in order of their last change, and gives a finished transaction as one write request to the
  LSN tracker (\<open>pg2buffer/pglsntracker\<close>). The tracker keeps requests in a queue ordered by LSN
  (\<open>writequeue\<close>), passes them to the writer of the destination (\<open>pg2redis\<close> or \<open>pg2sqs\<close>), takes the
  writer's answers, schedules retries, and tells the replicator up to which LSN everything is settled; that
  LSN is what Postgres is told, and what it may forget. A snapshot (\<open>snapshot\<close>) sends the rows of whole
  tables through a second listener of the same kind before replication starts.

  \<^bold>\<open>Conventions.\<close>
  Structs are records with prefixed fields, enumerations and interfaces with known implementations are
  datatypes, fixed-width integers are words (\<open>u16\<close>, \<open>u32\<close>, \<open>u64\<close>, LSNs are \<open>u64\<close>) and Go's \<open>int\<close> and \<open>int64\<close>
  are \<open>int\<close> with the wrap-around written out where it matters (\<open>wrap64\<close>, \<open>i64\<close>). A fallible function returns
  \<open>'a go_result\<close>, a sum whose left side is \<open>Error\<close>, \<open>Panic\<close> or \<open>Fatal\<close>; error texts are kept up to
  the names and values interpolated in them. Blocking on a condition variable or channel is the value
  \<open>Blocked\<close> of \<open>'a waited\<close>. Clocks, random choices (map iteration, \<open>sync.Pool\<close>), cancellation of contexts,
  and third-party code (pgx, go-redis, the AWS client, the JSON encoder, float formatting) are arguments. Sections
  that run under a mutex are one step; concurrency is a step relation over such sections. Three steps of the listener
  are coarser: a retry timer that fires, the delivery of a ready write and the stop each join a section under the
  mutex with the queue operation next to it. Logging and statistics are left out, but for the length of the write queue.

  \<^bold>\<open>Foundations.\<close>
  \<open>Prelude\<close>: machine integers, results, checked slice access, shared lemmas. \<open>Gostrings\<close>: the package \<open>strings\<close>.
  \<open>Keymap\<close>, \<open>Orderedmap\<close>, \<open>Entrypool\<close>: \<open>keymap\<close>, \<open>orderedmap\<close> and \<open>entrypool\<close>, the tuples of the program;
  the locale \<open>entry_tuple\<close> is what the clients of a tuple rely on, interpreted for both tuple types.
  \<open>Pgwal\<close>: \<open>pgwal\<close> and \<open>listener.go\<close>, requests and responses. \<open>Pgschema\<close>: \<open>pgschema/pgschema.go\<close>, tables, keys and
  the published tables. \<open>Jsonparsing\<close>, \<open>Encodings\<close>: \<open>jsonparsing\<close>, decoding of columns. \<open>Appconfig\<close>: \<open>config\<close>.

  \<^bold>\<open>The pipeline.\<close>
  \<open>Writequeue\<close>: the doubly linked queue over an explicit store of nodes; the locale \<open>write_queue\<close> states its
  contract over the list of entries, and the loops that follow links get the number of nodes as fuel, which the
  invariant \<open>wq_inv\<close> shows to be enough. \<open>Lsntracker\<close> is the tracker; \<open>Lsnsafety\<close> its invariant
  \<open>tk_inv\<close> and what each operation does to it; \<open>Lsnretry\<close> the retry policy; \<open>Lsnsystem\<close> the tracker among
  its writers, timers and clients as the step relation \<open>step\<close>, with the safety theorems: what is confirmed is
  settled, the confirmed LSN is maximal and never goes back, entries are released once, ready writes are delivered in
  order. \<open>Bufferedlistener\<close> and \<open>Txbuffer\<close>: the listener and what its transaction buffer promises.
  \<open>Circuitbreaker\<close>: \<open>circuitbreaker\<close>. \<open>Replicator\<close> is the replicator's loop; \<open>Replsystem\<close> puts replicator,
  listener and tracker together: the locale \<open>confirmed_source\<close> is the tracker's contract, and
  \<open>reported_is_settled\<close> the main theorem about replication.

  \<^bold>\<open>The writers.\<close>
  \<open>Batching\<close>: the locale \<open>batching\<close> for a worker that keeps entries in buffers and submits batches, interpreted by
  both writers. \<open>Rediscommand\<close>, \<open>Rediscondition\<close>, \<open>Redisconfig\<close>, \<open>Rediswriter\<close>: the command templates, the
  conditions, the configuration and the writer of \<open>pg2redis\<close>; \<open>Redisbatch\<close> its correctness. \<open>Sqsqueues\<close>,
  \<open>Sqswriter\<close>, \<open>Sqsconfig\<close>: the queues, the writer and the configuration of \<open>pg2sqs\<close>; \<open>Sqsbatch\<close> its
  correctness. \<open>Parallelio\<close>: \<open>parallelio\<close>, the workers that send batches.

  \<^bold>\<open>The snapshot.\<close>
  \<open>Snapshotstate\<close>: \<open>snapshot/state.go\<close>, the table \<open>pgwalk.snapshot_state\<close>. \<open>Snapshotplan\<close>: queries and \<open>ctid\<close>
  ranges; \<open>Snapshotranges\<close>: the planned ranges read the table once (the loops of \<open>splitCtidRange\<close> are partial
  functions, and the theorem shows that they return). \<open>Snapshotprogress\<close>: reports and the progress tracker;
  \<open>Snapshothistory\<close>: the tracker against the history of reports, with the locale \<open>state_store\<close> for the store.
  \<open>Snapshotworker\<close>, \<open>Snapshotbatches\<close>: the workers, and that they cut the rows into batches.
  \<open>Snapshotmanager\<close>: the loop over the tables, the end of a run, \<open>Execute\<close>; \<open>Snapshotexecute\<close>: what a run leaves
  behind. \<open>Snapshotacks\<close>: the snapshot with the LSN tracker of its listener, rows read are rows settled.
  \<open>Snapshotrun\<close>: \<open>runSnapshot\<close> with its goroutines as the step relation \<open>run_step\<close>; in every interleaving a table is
  stored as completed exactly when all its tasks were read and all its batches acknowledged.

  \<^bold>\<open>The start of a program.\<close>
  \<open>Connector\<close>: \<open>pgschema/pgconnector\<close> and \<open>pgschema/pgcompatibility\<close>, finding the primary node. \<open>Migrator\<close>:
  \<open>pgschema/migrator\<close> and \<open>validateSchema\<close>, the comparison of publication and configuration. \<open>Licensing\<close>: \<open>licensemanager\<close>
  and its base 62. \<open>Apprunner\<close>: \<open>pg2runner/app_runner.go\<close>; \<open>replication_starts_at_snapshot\<close> says where replication
  starts after a snapshot or on an older slot. \<open>Offsettracker\<close>: \<open>offsettracker\<close>, a smaller tracker that stands on its own,
  shown equal to a reference without cursor and clean-up.

  \<^bold>\<open>Not modelled.\<close>
  Logging, statistics and the periodic printing of them (\<open>pglogger\<close>, \<open>pg2stats\<close>, the \<open>stats\<close> packages,
  \<open>printStatistics\<close>): no state that the rest reads. Reading of configuration files, environment and command line in
  the mains (\<open>cmd\<close>) and the dates typed into the licence tool (\<open>licensemanager/parse_date.go\<close>): third-party loaders and
  the calendar of the standard library. The SQL that Postgres evaluates (\<open>appstate\<close> among it): its answers are
  arguments. \<open>listeners/listener_json.go\<close>: a printer of messages that neither program uses;
  \<open>listeners/no_snapshot_listener.go\<close> does nothing. \<open>pg2redis/listener_redis.go\<close> and \<open>snapshot_listener.go\<close>: they pass calls on
  to the buffered listener and the writer, which are modelled; the loop of \<open>RedisListener.Write\<close> around \<open>enqueue\<close> is left
  out. The example programs and
  \<open>internal/integrationtest\<close>: not part of the product.
\<close>

end
